(* ===== verification/Prelude.thy ===== *)
theory Prelude
  imports Main "HOL-Library.AList" "HOL-Library.Sublist"
begin

text \<open>
  The prelude of the development: the lemma collections the component theories share,
  generic facts on lists and association lists, and the interfaces (locales) that more
  than one component implements: keyed maps, state machines with an invariant, machines
  that only ever extend a log, and logs that can be resumed after an id.
\<close>

named_theorems pure_ops "definitions of pure helper operations, unfolded by simp"
named_theorems op_defs "definitions of state-changing operations"
named_theorems frame "facts saying which fields an operation leaves alone"

section \<open>Lists\<close>

lemma find_Some_set: "find P xs = Some x \<Longrightarrow> x \<in> set xs \<and> P x"
  by (induction xs) (auto split: if_splits)

lemma find_None_all: "find P xs = None \<longleftrightarrow> (\<forall>x \<in> set xs. \<not> P x)"
  by (induction xs) auto

lemma find_distinct_key:
  "distinct (map f xs) \<Longrightarrow> x \<in> set xs \<Longrightarrow> find (\<lambda>y. f y = f x) xs = Some x"
proof (induction xs)
  case Nil
  then show ?case by simp
next
  case (Cons y ys)
  then show ?case by (cases "y = x") (auto simp: image_iff)
qed

lemma filter_gt_split:
  fixes f :: "'a \<Rightarrow> nat"
  assumes "sorted_wrt (\<lambda>a b. f a < f b) (pre @ x # post)"
  shows "filter (\<lambda>y. f x < f y) (pre @ x # post) = post"
proof -
  have "filter (\<lambda>y. f x < f y) pre = []"
    using assms by (force simp: sorted_wrt_append filter_empty_conv)
  moreover have "filter (\<lambda>y. f x < f y) post = post"
    using assms by (force simp: sorted_wrt_append filter_id_conv)
  ultimately show ?thesis by simp
qed

lemma sorted_wrt_filter: "sorted_wrt R xs \<Longrightarrow> sorted_wrt R (filter P xs)"
  by (induction xs) auto

section \<open>JavaScript maps\<close>

text \<open>
  A JavaScript \<^verbatim>\<open>Map\<close> iterates in insertion order and keeps a key's position when its value
  is overwritten: an association list with distinct keys.
\<close>

type_synonym ('k, 'v) jmap = "('k \<times> 'v) list"

definition jm_get :: "('k, 'v) jmap \<Rightarrow> 'k \<Rightarrow> 'v option" where
  "jm_get m k = map_of m k"

definition jm_set :: "'k \<Rightarrow> 'v \<Rightarrow> ('k, 'v) jmap \<Rightarrow> ('k, 'v) jmap" where
  "jm_set k v m = AList.update k v m"

definition jm_delete :: "'k \<Rightarrow> ('k, 'v) jmap \<Rightarrow> ('k, 'v) jmap" where
  "jm_delete k m = AList.delete k m"

definition jm_values :: "('k, 'v) jmap \<Rightarrow> 'v list" where
  "jm_values m = map snd m"

definition jm_ok :: "('k, 'v) jmap \<Rightarrow> bool" where
  "jm_ok m \<longleftrightarrow> distinct (map fst m)"

text \<open>The interface of a keyed map: reads after writes, and the invariant kept.\<close>

locale keyed_map =
  fixes get :: "'m \<Rightarrow> 'k \<Rightarrow> 'v option"
    and put :: "'k \<Rightarrow> 'v \<Rightarrow> 'm \<Rightarrow> 'm"
    and remove :: "'k \<Rightarrow> 'm \<Rightarrow> 'm"
    and ok :: "'m \<Rightarrow> bool"
  assumes get_put: "get (put k v m) k' = (if k' = k then Some v else get m k')"
    and get_remove: "get (remove k m) k' = (if k' = k then None else get m k')"
    and ok_put: "ok m \<Longrightarrow> ok (put k v m)"
    and ok_remove: "ok m \<Longrightarrow> ok (remove k m)"
begin

lemma get_put_same: "get (put k v m) k = Some v"
  by (simp add: get_put)

lemma get_put_other: "k' \<noteq> k \<Longrightarrow> get (put k v m) k' = get m k'"
  by (simp add: get_put)

lemma get_remove_same: "get (remove k m) k = None"
  by (simp add: get_remove)

lemma get_remove_other: "k' \<noteq> k \<Longrightarrow> get (remove k m) k' = get m k'"
  by (simp add: get_remove)

lemma put_remove_get: "get (remove k (put k v m)) k' = get (remove k m) k'"
  by (simp add: get_put get_remove)

end

interpretation jsmap: keyed_map jm_get jm_set jm_delete jm_ok
  by unfold_locales
    (auto simp: jm_get_def jm_set_def jm_delete_def jm_ok_def update_conv' delete_conv'
      distinct_update distinct_delete)

lemma jm_get_Nil [simp]: "jm_get [] k = None"
  by (simp add: jm_get_def)

lemmas jm_get_set [simp] = jsmap.get_put
lemmas jm_get_delete [simp] = jsmap.get_remove
lemmas jm_ok_intros [simp, intro] = jsmap.ok_put jsmap.ok_remove

lemma jm_ok_Nil [simp]: "jm_ok []"
  by (simp add: jm_ok_def)

lemma jm_get_mem: "jm_get m k = Some v \<Longrightarrow> (k, v) \<in> set m"
  by (simp add: jm_get_def map_of_SomeD)

lemma jm_mem_get: "jm_ok m \<Longrightarrow> (k, v) \<in> set m \<Longrightarrow> jm_get m k = Some v"
  by (simp add: jm_get_def jm_ok_def)

lemma jm_values_mem: "jm_ok m \<Longrightarrow> v \<in> set (jm_values m) \<longleftrightarrow> (\<exists>k. jm_get m k = Some v)"
  by (force simp: jm_values_def intro: jm_mem_get dest: jm_get_mem)

lemma jm_set_fresh: "jm_get m k = None \<Longrightarrow> jm_set k v m = m @ [(k, v)]"
  unfolding jm_set_def jm_get_def
  by (induction m) (auto split: if_splits)

section \<open>State machines\<close>

text \<open>States reachable by steps from an initial state.\<close>

inductive reach :: "('s \<Rightarrow> bool) \<Rightarrow> ('s \<Rightarrow> 's \<Rightarrow> bool) \<Rightarrow> 's \<Rightarrow> bool"
  for init step where
  reach_start: "init s \<Longrightarrow> reach init step s"
| reach_step: "reach init step s \<Longrightarrow> step s t \<Longrightarrow> reach init step t"

locale inductive_invariant =
  fixes init :: "'s \<Rightarrow> bool"
    and step :: "'s \<Rightarrow> 's \<Rightarrow> bool"
    and inv :: "'s \<Rightarrow> bool"
  assumes init_inv: "init s \<Longrightarrow> inv s"
    and step_inv: "inv s \<Longrightarrow> step s t \<Longrightarrow> inv t"
begin

lemma reach_inv: "reach init step s \<Longrightarrow> inv s"
  by (induction rule: reach.induct) (auto intro: init_inv step_inv)

end

text \<open>A deterministic machine driven by inputs, with an invariant every input keeps.\<close>

locale machine =
  fixes stepf :: "'i \<Rightarrow> 's \<Rightarrow> 's"
    and inv :: "'s \<Rightarrow> bool"
  assumes inv_stepf: "inv s \<Longrightarrow> inv (stepf i s)"
begin

lemma inv_run: "inv s \<Longrightarrow> inv (fold stepf is s)"
  by (induction "is" arbitrary: s) (auto intro: inv_stepf)

end

text \<open>A machine whose log is only ever extended.\<close>

locale logging_machine = machine +
  fixes log :: "'b \<Rightarrow> 'e list"
  assumes log_grows: "inv s \<Longrightarrow> prefix (log s) (log (stepf i s))"
begin

lemma log_run: "inv s \<Longrightarrow> prefix (log s) (log (fold stepf is s))"
proof (induction "is" arbitrary: s)
  case Nil
  then show ?case by simp
next
  case (Cons i "is")
  have "prefix (log s) (log (stepf i s))"
    using Cons.prems by (rule log_grows)
  also have "prefix (log (stepf i s)) (log (fold stepf is (stepf i s)))"
    using Cons.IH Cons.prems inv_stepf by blast
  finally show ?case by simp
qed

end

section \<open>Logs that can be resumed\<close>

text \<open>
  An event log whose entries carry increasing ids and which is read \<open>after\<close> an id: the
  contract between the two event stores of the system (the adapter's broker and the
  API's event table) and the readers that reconnect with the last id they have seen.
\<close>

locale resumable_log =
  fixes entries :: "'s \<Rightarrow> 'e list"
    and eid :: "'e \<Rightarrow> nat"
    and replay :: "'s \<Rightarrow> nat \<Rightarrow> 'e list"
    and ok :: "'s \<Rightarrow> bool"
  assumes ids_increase: "ok s \<Longrightarrow> sorted_wrt (\<lambda>a b. eid a < eid b) (entries s)"
    and ids_positive: "ok s \<Longrightarrow> e \<in> set (entries s) \<Longrightarrow> 0 < eid e"
    and replay_spec: "ok s \<Longrightarrow> replay s n = filter (\<lambda>e. eid e > n) (entries s)"
begin

lemma replay_all: "ok s \<Longrightarrow> replay s 0 = entries s"
  using ids_positive by (simp add: replay_spec filter_id_conv)

text \<open>A reader that has the log up to an entry and reads after its id has the whole log.\<close>

lemma resume_split:
  assumes "ok s" and "entries s = seen @ e # rest"
  shows "replay s (eid e) = rest"
  using filter_gt_split [of eid seen e rest] ids_increase [OF assms(1)] assms
  by (simp add: replay_spec)

lemma resume_complete:
  assumes "ok s" and "e \<in> set (entries s)"
  shows "\<exists>seen. entries s = seen @ e # replay s (eid e)"
  using split_list [OF assms(2)] resume_split [OF assms(1)] by metis

lemma replay_sorted: "ok s \<Longrightarrow> sorted_wrt (\<lambda>a b. eid a < eid b) (replay s n)"
  by (simp add: replay_spec ids_increase sorted_wrt_filter)

lemma replay_after: "ok s \<Longrightarrow> e \<in> set (replay s n) \<Longrightarrow> n < eid e"
  by (simp add: replay_spec)

end

end
