(* ===== verification/JsRuntime.thy ===== *)
theory JsRuntime
  imports Prelude "HOL-Library.Word"
begin

text \<open>
  What the sources use of JavaScript's strings, numbers and JSON values. A string is a list
  of UTF-16 code units, so \<open>length\<close>, \<open>slice\<close> and comparison count what JavaScript counts.
  \<^verbatim>\<open>toLowerCase\<close> is modelled on the ASCII letters (other code units are kept).
  \<^verbatim>\<open>Number(text)\<close> computes the exact value of the literal; the rounding of literals beyond
  double precision is not modelled.
\<close>

section \<open>Strings\<close>

type_synonym jchar = "16 word"
type_synonym jstr = "jchar list"

text \<open>ASCII literals of the source.\<close>

definition js :: "string \<Rightarrow> jstr" where
  "js s = map of_char s"

lemma unat_of_char_word16 [simp]: "unat (of_char c :: 16 word) = of_char c"
proof -
  have "(of_char c :: 16 word) = of_nat (of_char c)"
    by (simp only: of_nat_of_char)
  moreover have "(of_char c :: nat) < 65536"
    using nat_of_char_less_256 [of c] by linarith
  ultimately show ?thesis
    by (simp add: unat_of_nat)
qed

lemma of_char_word16_inject [simp]: "(of_char c :: 16 word) = of_char d \<longleftrightarrow> c = d"
  by (metis unat_of_char_word16 of_char_eq_iff)

lemma js_inject [simp]: "js s = js t \<longleftrightarrow> s = t"
  unfolding js_def by (rule inj_map_eq_map) (simp add: inj_def)

lemma length_js [simp]: "length (js s) = length s"
  by (simp add: js_def)

lemma js_append: "js (s @ t) = js s @ js t"
  by (simp add: js_def)

lemma js_eq_Nil [simp]: "js s = [] \<longleftrightarrow> s = []" "[] = js s \<longleftrightarrow> s = []"
  by (auto simp: js_def)

text \<open>WhiteSpace and LineTerminator of ECMAScript, which \<^verbatim>\<open>trim\<close> removes.\<close>

definition js_ws :: "jchar \<Rightarrow> bool" where
  "js_ws c \<longleftrightarrow> c \<in> {9, 10, 11, 12, 13, 32, 160, 0x1680, 0x2028, 0x2029, 0x202F, 0x205F, 0x3000, 0xFEFF}
     \<or> 0x2000 \<le> c \<and> c \<le> 0x200A"

definition js_trim_start :: "jstr \<Rightarrow> jstr" where
  "js_trim_start s = dropWhile js_ws s"

definition js_trim_end :: "jstr \<Rightarrow> jstr" where
  "js_trim_end s = rev (dropWhile js_ws (rev s))"

definition js_trim :: "jstr \<Rightarrow> jstr" where
  "js_trim s = js_trim_end (js_trim_start s)"

definition js_starts_with :: "jstr \<Rightarrow> jstr \<Rightarrow> bool" where
  "js_starts_with s p \<longleftrightarrow> take (length p) s = p"

definition js_ends_with :: "jstr \<Rightarrow> jstr \<Rightarrow> bool" where
  "js_ends_with s p \<longleftrightarrow> js_starts_with (rev s) (rev p)"

fun js_index_of :: "jstr \<Rightarrow> jstr \<Rightarrow> nat option" where
  "js_index_of p [] = (if p = [] then Some 0 else None)"
| "js_index_of p (c # s) =
     (if js_starts_with (c # s) p then Some 0 else map_option Suc (js_index_of p s))"

definition js_includes :: "jstr \<Rightarrow> jstr \<Rightarrow> bool" where
  "js_includes s p \<longleftrightarrow> js_index_of p s \<noteq> None"

text \<open>\<^verbatim>\<open>s.split(sep)\<close> for a one-unit separator.\<close>

fun js_split :: "jchar \<Rightarrow> jstr \<Rightarrow> jstr list" where
  "js_split sep [] = [[]]"
| "js_split sep (c # s) =
     (if c = sep then [] # js_split sep s
      else case js_split sep s of [] \<Rightarrow> [[c]] | w # ws \<Rightarrow> (c # w) # ws)"

fun js_join :: "jstr \<Rightarrow> jstr list \<Rightarrow> jstr" where
  "js_join sep [] = []"
| "js_join sep [s] = s"
| "js_join sep (s # t # ss) = s @ sep @ js_join sep (t # ss)"

definition js_lower_char :: "jchar \<Rightarrow> jchar" where
  "js_lower_char c = (if 65 \<le> c \<and> c \<le> 90 then c + 32 else c)"

definition js_lower :: "jstr \<Rightarrow> jstr" where
  "js_lower s = map js_lower_char s"

lemma js_trim_Nil [simp]: "js_trim [] = []"
  by (simp add: js_trim_def js_trim_start_def js_trim_end_def)

lemma length_js_trim_start: "length (js_trim_start s) \<le> length s"
  by (simp add: js_trim_start_def length_dropWhile_le)

lemma length_js_trim_end: "length (js_trim_end s) \<le> length s"
  using length_dropWhile_le [of js_ws "rev s"] by (simp add: js_trim_end_def)

lemma length_js_trim: "length (js_trim s) \<le> length s"
  unfolding js_trim_def using length_js_trim_end length_js_trim_start order_trans by blast

lemma js_starts_with_append: "js_starts_with s p \<longleftrightarrow> (\<exists>t. s = p @ t)"
  by (metis append_eq_conv_conj append_take_drop_id js_starts_with_def)

lemma js_starts_with_Nil [simp]: "js_starts_with s []"
  by (simp add: js_starts_with_def)

lemma js_trim_starts_clean: "js_trim_start s = [] \<or> \<not> js_ws (hd (js_trim_start s))"
  by (metis hd_dropWhile js_trim_start_def)

lemma js_trim_end_idem: "js_trim_end (js_trim_end s) = js_trim_end s"
  by (simp add: js_trim_end_def)

lemma length_js_lower [simp]: "length (js_lower s) = length s"
  by (simp add: js_lower_def)

text \<open>The first occurrence: the text splits there, and no earlier split exists.\<close>

lemma js_index_of_Some:
  "js_index_of p s = Some i \<Longrightarrow> s = take i s @ p @ drop (i + length p) s"
proof (induction s arbitrary: i)
  case Nil
  then show ?case by (simp split: if_splits)
next
  case (Cons c s)
  show ?case
  proof (cases "js_starts_with (c # s) p")
    case True
    with Cons.prems have "i = 0" by simp
    with True show ?thesis
      unfolding js_starts_with_def by (metis append_take_drop_id append_Nil add_0 take0)
  next
    case False
    with Cons.prems obtain j where j: "js_index_of p s = Some j" "i = Suc j" by auto
    from Cons.IH [OF j(1)] j(2) show ?thesis by simp
  qed
qed

lemma js_index_of_bound: "js_index_of p s = Some i \<Longrightarrow> i + length p \<le> length s"
proof (induction s arbitrary: i)
  case Nil
  then show ?case by (simp split: if_splits)
next
  case (Cons c s)
  show ?case
  proof (cases "js_starts_with (c # s) p")
    case True
    then have "length p \<le> length (c # s)"
      by (metis js_starts_with_def length_take min.absorb_iff2 nle_le take_all_iff)
    with True Cons.prems show ?thesis by simp
  next
    case False
    with Cons show ?thesis by fastforce
  qed
qed

lemma js_index_of_append:
  "js_index_of p s = Some i \<Longrightarrow> js_index_of p (s @ t) = Some i"
proof (induction s arbitrary: i)
  case Nil
  then show ?case
    by (cases t) (auto split: if_splits)
next
  case (Cons c s)
  show ?case
  proof (cases "js_starts_with (c # s) p")
    case True
    then have "js_starts_with (c # s @ t) p"
      by (auto simp: js_starts_with_append) (metis append_Cons append_assoc)
    with True Cons.prems show ?thesis by simp
  next
    case False
    with Cons.prems obtain j where j: "js_index_of p s = Some j" "i = Suc j" by auto
    have "\<not> js_starts_with (c # s @ t) p"
    proof -
      have "length p \<le> length (c # s)"
        using js_index_of_bound [OF j(1)] by simp
      then have "take (length p) (c # s @ t) = take (length p) (c # s)"
        by (metis append_Cons diff_is_0_eq' append_Nil2 take0 take_append)
      with False show ?thesis by (simp add: js_starts_with_def)
    qed
    with j Cons.IH show ?thesis by simp
  qed
qed

section \<open>Numbers\<close>

text \<open>
  What the sources look at in a number: whether it is NaN, whether it is an integer and
  which. A finite non-integer or an infinity is \<open>NumOther\<close>.
\<close>

datatype jnum = NumNaN | NumInt int | NumOther

definition is_dec :: "jchar \<Rightarrow> bool" where
  "is_dec c \<longleftrightarrow> 48 \<le> c \<and> c \<le> 57"

definition digit_val :: "jchar \<Rightarrow> nat option" where
  "digit_val c =
     (if 48 \<le> c \<and> c \<le> 57 then Some (unat c - 48)
      else if 97 \<le> c \<and> c \<le> 102 then Some (unat c - 87)
      else if 65 \<le> c \<and> c \<le> 70 then Some (unat c - 55)
      else None)"

fun digits_val :: "nat \<Rightarrow> nat \<Rightarrow> jstr \<Rightarrow> nat option" where
  "digits_val b a [] = Some a"
| "digits_val b a (c # s) =
     (case digit_val c of
        None \<Rightarrow> None
      | Some d \<Rightarrow> if d < b then digits_val b (a * b + d) s else None)"

definition radix_number :: "nat \<Rightarrow> jstr \<Rightarrow> jnum" where
  "radix_number b s =
     (if s = [] then NumNaN
      else case digits_val b 0 s of None \<Rightarrow> NumNaN | Some n \<Rightarrow> NumInt (int n))"

definition exponent_val :: "jstr \<Rightarrow> int option" where
  "exponent_val s =
     (case s of
        [] \<Rightarrow> Some 0
      | c # r \<Rightarrow>
          if c \<noteq> 101 \<and> c \<noteq> 69 then None
          else
            let neg = (r \<noteq> [] \<and> hd r = 45);
                ds = (if r \<noteq> [] \<and> (hd r = 45 \<or> hd r = 43) then tl r else r)
            in if ds = [] then None
               else map_option (\<lambda>n. if neg then - int n else int n) (digits_val 10 0 ds))"

definition scale_number :: "int \<Rightarrow> nat \<Rightarrow> int \<Rightarrow> jnum" where
  "scale_number sg m e =
     (if 0 \<le> e then NumInt (sg * int m * 10 ^ nat e)
      else if m mod 10 ^ nat (- e) = 0 then NumInt (sg * int (m div 10 ^ nat (- e)))
      else NumOther)"

definition decimal_number :: "jstr \<Rightarrow> jnum" where
  "decimal_number t =
     (let sg = (if t \<noteq> [] \<and> hd t = 45 then -1 else 1);
          u = (if t \<noteq> [] \<and> (hd t = 45 \<or> hd t = 43) then tl t else t)
      in if u = js ''Infinity'' then NumOther
         else
           let ip = takeWhile is_dec u;
               r = dropWhile is_dec u;
               fp = (if r \<noteq> [] \<and> hd r = 46 then takeWhile is_dec (tl r) else []);
               x = (if r \<noteq> [] \<and> hd r = 46 then dropWhile is_dec (tl r) else r)
           in if ip = [] \<and> fp = [] then NumNaN
              else case (digits_val 10 0 (ip @ fp), exponent_val x) of
                     (Some m, Some e) \<Rightarrow> scale_number sg m (e - int (length fp))
                   | _ \<Rightarrow> NumNaN)"

definition js_number :: "jstr \<Rightarrow> jnum" where
  "js_number s =
     (let t = js_trim s; p = take 2 t; r = drop 2 t
      in if t = [] then NumInt 0
         else if p = js ''0x'' \<or> p = js ''0X'' then radix_number 16 r
         else if p = js ''0o'' \<or> p = js ''0O'' then radix_number 8 r
         else if p = js ''0b'' \<or> p = js ''0B'' then radix_number 2 r
         else decimal_number t)"

definition max_safe_integer :: int where
  "max_safe_integer = 2 ^ 53 - 1"

definition is_safe_integer :: "jnum \<Rightarrow> bool" where
  "is_safe_integer v = (case v of NumInt i \<Rightarrow> \<bar>i\<bar> \<le> max_safe_integer | _ \<Rightarrow> False)"

text \<open>
  The reading of an optional text as a positive integer with a fallback, which several
  services repeat: \<^verbatim>\<open>Number.isSafeInteger(parsed) && parsed > 0 ? parsed : fallback\<close>.
\<close>

definition positive_or :: "nat \<Rightarrow> jnum \<Rightarrow> nat" where
  "positive_or fallback v =
     (case v of
        NumInt i \<Rightarrow> if \<bar>i\<bar> \<le> max_safe_integer \<and> 0 < i then nat i else fallback
      | _ \<Rightarrow> fallback)"

definition opt_number :: "jstr option \<Rightarrow> jnum" where
  "opt_number t = (case t of None \<Rightarrow> NumNaN | Some s \<Rightarrow> js_number s)"

lemma positive_or_pos: "0 < fb \<Longrightarrow> 0 < positive_or fb v"
  by (auto simp: positive_or_def split: jnum.splits)

lemma positive_or_safe:
  "int fb \<le> max_safe_integer \<Longrightarrow> int (positive_or fb v) \<le> max_safe_integer"
  by (auto simp: positive_or_def split: jnum.splits)

text \<open>Decimal text of a natural number, \<^verbatim>\<open>String(n)\<close>.\<close>

fun js_of_nat :: "nat \<Rightarrow> jstr" where
  "js_of_nat n =
     (if n < 10 then [of_nat (48 + n)] else js_of_nat (n div 10) @ [of_nat (48 + n mod 10)])"

declare js_of_nat.simps [simp del]

definition js_of_int :: "int \<Rightarrow> jstr" where
  "js_of_int i = (if i < 0 then js ''-'' @ js_of_nat (nat (- i)) else js_of_nat (nat i))"

lemma digit_char:
  assumes "d < 10"
  shows "is_dec (of_nat (48 + d))" "digit_val (of_nat (48 + d)) = Some d"
    "\<not> js_ws (of_nat (48 + d))" "(of_nat (48 + d) :: jchar) \<notin> {43, 45, 46, 69, 73, 101}"
proof -
  have "d \<in> {0, 1, 2, 3, 4, 5, 6, 7, 8, 9}" using assms by auto
  then show "is_dec (of_nat (48 + d))" "digit_val (of_nat (48 + d)) = Some d"
    "\<not> js_ws (of_nat (48 + d))" "(of_nat (48 + d) :: jchar) \<notin> {43, 45, 46, 69, 73, 101}"
    by (auto simp: is_dec_def digit_val_def js_ws_def)
qed

lemma js_of_nat_chars: "c \<in> set (js_of_nat n) \<Longrightarrow> \<exists>d < 10. c = of_nat (48 + d)"
proof (induction n rule: js_of_nat.induct)
  case (1 n)
  show ?case
  proof (cases "n < 10")
    case True
    with "1.prems" show ?thesis by (auto simp: js_of_nat.simps [of n])
  next
    case False
    with "1.prems" consider "c \<in> set (js_of_nat (n div 10))" | "c = of_nat (48 + n mod 10)"
      by (auto simp: js_of_nat.simps [of n])
    then show ?thesis
    proof cases
      case 1
      then show ?thesis using "1.IH" [OF False] by blast
    next
      case 2
      moreover have "n mod 10 < 10" by simp
      ultimately show ?thesis by blast
    qed
  qed
qed

lemma js_of_nat_dec: "c \<in> set (js_of_nat n) \<Longrightarrow> is_dec c"
  using js_of_nat_chars digit_char(1) by blast

lemma js_of_nat_ne [simp]: "js_of_nat n \<noteq> []"
  by (subst js_of_nat.simps) simp

lemma digits_val_append:
  "digits_val b a (s @ t) = (case digits_val b a s of None \<Rightarrow> None | Some m \<Rightarrow> digits_val b m t)"
  by (induction s arbitrary: a) (auto split: option.splits)

lemma digits_val_js_of_nat: "digits_val 10 0 (js_of_nat n) = Some n"
proof (induction n rule: js_of_nat.induct)
  case (1 n)
  show ?case
  proof (cases "n < 10")
    case True
    then show ?thesis using digit_char(2) [of n] by (simp add: js_of_nat.simps [of n])
  next
    case False
    have "n mod 10 < 10" by simp
    then show ?thesis using "1.IH" [OF False] digit_char(2) [of "n mod 10"] False
      by (simp add: js_of_nat.simps [of n] digits_val_append)
  qed
qed

lemma dropWhile_ws_digits:
  assumes "\<forall>c \<in> set s. \<not> js_ws c"
  shows "js_trim s = s"
proof -
  have "dropWhile js_ws s = s" "dropWhile js_ws (rev s) = rev s"
    using assms by (metis dropWhile_eq_self_iff list.set_sel(1), metis dropWhile_eq_self_iff
      list.set_sel(1) set_rev)
  then show ?thesis by (simp add: js_trim_def js_trim_start_def js_trim_end_def)
qed

lemma js_trim_js_of_nat: "js_trim (js_of_nat n) = js_of_nat n"
  using js_of_nat_chars digit_char(3) by (intro dropWhile_ws_digits) blast

text \<open>The text of a number reads back as that number.\<close>

lemma js_number_js_of_nat: "js_number (js_of_nat n) = NumInt (int n)"
proof -
  let ?s = "js_of_nat n"
  have dec: "\<forall>c \<in> set ?s. is_dec c" using js_of_nat_dec by blast
  have hd: "hd ?s \<notin> {43, 45, 46, 69, 73, 101}"
    using js_of_nat_chars [of "hd ?s" n] digit_char(4) by auto
  have tw: "takeWhile is_dec ?s = ?s" "dropWhile is_dec ?s = []"
    using dec by auto
  have ninf: "?s \<noteq> js ''Infinity''"
    using hd by (auto simp: js_def)
  have nonum: "take 2 ?s \<noteq> js [CHR ''0'', x]" if "\<not> is_dec (of_char x)" for x
  proof
    assume "take 2 ?s = js [CHR ''0'', x]"
    then have "of_char x \<in> set (take 2 ?s)" by (simp add: js_def)
    then have "of_char x \<in> set ?s" by (meson in_set_takeD)
    with dec that show False by blast
  qed
  have "decimal_number ?s = NumInt (int n)"
    using hd ninf
    by (simp add: tw decimal_number_def exponent_val_def scale_number_def digits_val_js_of_nat Let_def)
  moreover have "take 2 ?s \<noteq> js ''0x''" "take 2 ?s \<noteq> js ''0X''" "take 2 ?s \<noteq> js ''0o''"
    "take 2 ?s \<noteq> js ''0O''" "take 2 ?s \<noteq> js ''0b''" "take 2 ?s \<noteq> js ''0B''"
    by (rule nonum, simp add: is_dec_def)+
  ultimately show ?thesis
    by (simp add: js_number_def Let_def js_trim_js_of_nat)
qed

section \<open>JSON values\<close>

text \<open>
  A parsed JSON value. An integer number carries its value, any other number the text that
  \<^verbatim>\<open>String\<close> gives it (the sources never compute with it). An object is its list of members,
  first occurrence first.
\<close>

datatype json =
    JNull
  | JBool bool
  | JInt int
  | JFrac jstr
  | JStr jstr
  | JArr "json list"
  | JObj "(jstr \<times> json) list"

text \<open>Property access \<^verbatim>\<open>v.key\<close> on an object; \<open>None\<close> is \<^verbatim>\<open>undefined\<close>.\<close>

fun jprop :: "json \<Rightarrow> jstr \<Rightarrow> json option" where
  "jprop (JObj ms) k = map_of ms k"
| "jprop _ k = None"

fun is_jobj :: "json \<Rightarrow> bool" where
  "is_jobj (JObj ms) = True"
| "is_jobj _ = False"

definition prop_str :: "json \<Rightarrow> jstr \<Rightarrow> jstr option" where
  "prop_str v k = (case jprop v k of Some (JStr s) \<Rightarrow> Some s | _ \<Rightarrow> None)"

lemma jprop_size: "jprop v k = Some w \<Longrightarrow> size w < size v"
proof (cases v)
  case (JObj ms)
  assume "jprop v k = Some w"
  with JObj have "(k, w) \<in> set ms" by (simp add: map_of_SomeD)
  then have "size w < Suc (size_list (size_prod (\<lambda>x. 0) size) ms)"
    by (induction ms) auto
  with JObj show ?thesis by simp
qed auto

text \<open>\<^verbatim>\<open>String(value)\<close> of a JSON value; \<^verbatim>\<open>String(undefined ?? "")\<close> is the empty text.\<close>

fun js_string :: "json \<Rightarrow> jstr" where
  "js_string JNull = js ''null''"
| "js_string (JBool b) = (if b then js ''true'' else js ''false'')"
| "js_string (JInt i) = js_of_int i"
| "js_string (JFrac s) = s"
| "js_string (JStr s) = s"
| "js_string (JArr vs) = js_join (js '','') (map (\<lambda>v. if v = JNull then [] else js_string v) vs)"
| "js_string (JObj ms) = js ''[object Object]''"

end
