(* ===== verification/SharedTypes.thy ===== *)
theory SharedTypes
  imports JsRuntime
begin

text \<open>
  \<^verbatim>\<open>packages/shared-types/src\<close>: the task stream events, file records and artifacts that
  every service exchanges, with the schemas that validate them. \<^verbatim>\<open>safeParse\<close> and \<^verbatim>\<open>parse\<close>
  become functions into \<open>option\<close>; they drop unknown members, as \<^verbatim>\<open>z.object\<close> does. The test
  \<^verbatim>\<open>z.string().url()\<close> is the argument \<open>vurl\<close>: which texts the platform's URL parser accepts.
\<close>

section \<open>Files and artifacts (files.ts)\<close>

datatype file_status = Uploading | Uploaded | UploadFailed

datatype artifact_kind = Excel | Pdf | Docx

definition kind_text :: "artifact_kind \<Rightarrow> jstr" where
  "kind_text k = (case k of Excel \<Rightarrow> js ''excel'' | Pdf \<Rightarrow> js ''pdf'' | Docx \<Rightarrow> js ''docx'')"

text \<open>\<^verbatim>\<open>ArtifactKindSchema\<close>.\<close>

definition parse_kind :: "jstr \<Rightarrow> artifact_kind option" where
  "parse_kind s =
     (if s = js ''excel'' then Some Excel
      else if s = js ''pdf'' then Some Pdf
      else if s = js ''docx'' then Some Docx
      else None)"

lemma parse_kind_text [simp]: "parse_kind (kind_text k) = Some k"
  by (cases k) (simp_all add: parse_kind_def kind_text_def)

record artifact =
  af_kind :: artifact_kind
  af_fileName :: jstr
  af_mimeType :: jstr
  af_artifactId :: "jstr option"
  af_downloadUrl :: "jstr option"
  af_previewText :: jstr
  af_sizeBytes :: "nat option"

record file_record =
  fr_fileId :: jstr
  fr_filename :: jstr
  fr_mimeType :: jstr
  fr_sizeBytes :: nat
  fr_uploadedAt :: "nat option"
  fr_status :: file_status
  fr_storageKey :: jstr

text \<open>
  Optional members: absent is accepted, a value of the wrong type is not. The outer option
  is acceptance.
\<close>

definition opt_string :: "(jstr \<Rightarrow> bool) \<Rightarrow> json option \<Rightarrow> jstr option option" where
  "opt_string ok v =
     (case v of
        None \<Rightarrow> Some None
      | Some (JStr s) \<Rightarrow> if ok s then Some (Some s) else None
      | Some _ \<Rightarrow> None)"

definition opt_nonneg_int :: "json option \<Rightarrow> nat option option" where
  "opt_nonneg_int v =
     (case v of
        None \<Rightarrow> Some None
      | Some (JInt i) \<Rightarrow> if 0 \<le> i then Some (Some (nat i)) else None
      | Some _ \<Rightarrow> None)"

text \<open>\<^verbatim>\<open>ArtifactResultSchema.safeParse\<close>.\<close>

definition parse_artifact_body :: "(jstr \<Rightarrow> bool) \<Rightarrow> json \<Rightarrow> artifact option" where
  "parse_artifact_body vurl a =
     (case (prop_str a (js ''kind''), prop_str a (js ''fileName''), prop_str a (js ''mimeType''),
            prop_str a (js ''previewText'')) of
        (Some k, Some fn, Some mt, Some pt) \<Rightarrow>
          (case (parse_kind k, opt_string (\<lambda>_. True) (jprop a (js ''artifactId'')),
                 opt_string vurl (jprop a (js ''downloadUrl'')),
                 opt_nonneg_int (jprop a (js ''sizeBytes''))) of
             (Some kd, Some aid, Some url, Some sz) \<Rightarrow>
               Some \<lparr>af_kind = kd, af_fileName = fn, af_mimeType = mt, af_artifactId = aid,
                     af_downloadUrl = url, af_previewText = pt, af_sizeBytes = sz\<rparr>
           | _ \<Rightarrow> None)
      | _ \<Rightarrow> None)"

definition parse_artifact_result :: "(jstr \<Rightarrow> bool) \<Rightarrow> json \<Rightarrow> artifact option" where
  "parse_artifact_result vurl v =
     (if prop_str v (js ''type'') = Some (js ''artifact'')
      then (case jprop v (js ''artifact'') of
              Some (JObj ms) \<Rightarrow> parse_artifact_body vurl (JObj ms)
            | _ \<Rightarrow> None)
      else None)"

section \<open>Task stream events (events.ts)\<close>

record event_base =
  ev_taskId :: jstr
  ev_sessionId :: jstr
  ev_runId :: jstr
  ev_timestamp :: jstr

text \<open>The \<^verbatim>\<open>result\<close> of \<^verbatim>\<open>task.result.created\<close>: an artifact, or any other object.\<close>

datatype event_result = ArtifactResult artifact | RecordResult "(jstr \<times> json) list"

datatype event_detail =
    Accepted
  | StageChanged jstr
  | Delta jstr
  | ResultCreated event_result
  | CompletedEv
  | CancelledEv jstr
  | FailedEv jstr jstr

record task_event =
  ev_base :: event_base
  ev_detail :: event_detail

fun event_type :: "event_detail \<Rightarrow> jstr" where
  "event_type Accepted = js ''task.accepted''"
| "event_type (StageChanged _) = js ''task.stage.changed''"
| "event_type (Delta _) = js ''task.delta''"
| "event_type (ResultCreated _) = js ''task.result.created''"
| "event_type CompletedEv = js ''task.completed''"
| "event_type (CancelledEv _) = js ''task.cancelled''"
| "event_type (FailedEv _ _) = js ''task.failed''"

text \<open>The three terminal types, as each service's \<^verbatim>\<open>isTerminalEvent\<close> tests them.\<close>

fun terminal_detail :: "event_detail \<Rightarrow> bool" where
  "terminal_detail CompletedEv = True"
| "terminal_detail (CancelledEv _) = True"
| "terminal_detail (FailedEv _ _) = True"
| "terminal_detail _ = False"

definition parse_event_base :: "json \<Rightarrow> event_base option" where
  "parse_event_base v =
     (case (prop_str v (js ''taskId''), prop_str v (js ''sessionId''), prop_str v (js ''runId''),
            prop_str v (js ''timestamp'')) of
        (Some t, Some s, Some r, Some ts) \<Rightarrow>
          Some \<lparr>ev_taskId = t, ev_sessionId = s, ev_runId = r, ev_timestamp = ts\<rparr>
      | _ \<Rightarrow> None)"

text \<open>\<^verbatim>\<open>z.union([ArtifactResultSchema, z.record(z.any())])\<close>.\<close>

definition parse_event_result :: "(jstr \<Rightarrow> bool) \<Rightarrow> json option \<Rightarrow> event_result option" where
  "parse_event_result vurl r =
     (case r of
        Some (JObj ms) \<Rightarrow>
          (case parse_artifact_result vurl (JObj ms) of
             Some a \<Rightarrow> Some (ArtifactResult a)
           | None \<Rightarrow> Some (RecordResult ms))
      | _ \<Rightarrow> None)"

definition parse_detail :: "(jstr \<Rightarrow> bool) \<Rightarrow> jstr \<Rightarrow> json \<Rightarrow> event_detail option" where
  "parse_detail vurl ty v =
     (if ty = js ''task.accepted'' then Some Accepted
      else if ty = js ''task.stage.changed'' then map_option StageChanged (prop_str v (js ''stage''))
      else if ty = js ''task.delta'' then map_option Delta (prop_str v (js ''delta''))
      else if ty = js ''task.result.created'' then
        map_option ResultCreated (parse_event_result vurl (jprop v (js ''result'')))
      else if ty = js ''task.completed'' then Some CompletedEv
      else if ty = js ''task.cancelled'' then map_option CancelledEv (prop_str v (js ''message''))
      else if ty = js ''task.failed'' then
        (case (prop_str v (js ''code''), prop_str v (js ''message'')) of
           (Some c, Some m) \<Rightarrow> Some (FailedEv c m) | _ \<Rightarrow> None)
      else None)"

text \<open>\<^verbatim>\<open>TaskStreamEventSchema.parse\<close>; a thrown \<^verbatim>\<open>ZodError\<close> is \<open>None\<close>.\<close>

definition parse_task_event :: "(jstr \<Rightarrow> bool) \<Rightarrow> json \<Rightarrow> task_event option" where
  "parse_task_event vurl v =
     (case (prop_str v (js ''type''), parse_event_base v) of
        (Some ty, Some b) \<Rightarrow>
          map_option (\<lambda>d. \<lparr>ev_base = b, ev_detail = d\<rparr>) (parse_detail vurl ty v)
      | _ \<Rightarrow> None)"

section \<open>Events as JSON\<close>

text \<open>
  The JSON value of an event: \<^verbatim>\<open>JSON.parse(JSON.stringify(event))\<close>, which drops members that
  are \<^verbatim>\<open>undefined\<close>.
\<close>

definition opt_member :: "string \<Rightarrow> ('a \<Rightarrow> json) \<Rightarrow> 'a option \<Rightarrow> (jstr \<times> json) list" where
  "opt_member k f v = (case v of None \<Rightarrow> [] | Some x \<Rightarrow> [(js k, f x)])"

definition artifact_json :: "artifact \<Rightarrow> json" where
  "artifact_json a = JObj
     ([(js ''kind'', JStr (kind_text (af_kind a))), (js ''fileName'', JStr (af_fileName a)),
       (js ''mimeType'', JStr (af_mimeType a)), (js ''previewText'', JStr (af_previewText a))]
      @ opt_member ''artifactId'' JStr (af_artifactId a)
      @ opt_member ''downloadUrl'' JStr (af_downloadUrl a)
      @ opt_member ''sizeBytes'' (\<lambda>n. JInt (int n)) (af_sizeBytes a))"

definition artifact_result_json :: "artifact \<Rightarrow> json" where
  "artifact_result_json a =
     JObj [(js ''type'', JStr (js ''artifact'')), (js ''artifact'', artifact_json a)]"

fun result_json :: "event_result \<Rightarrow> json" where
  "result_json (ArtifactResult a) = artifact_result_json a"
| "result_json (RecordResult ms) = JObj ms"

fun detail_members :: "event_detail \<Rightarrow> (jstr \<times> json) list" where
  "detail_members Accepted = []"
| "detail_members (StageChanged s) = [(js ''stage'', JStr s)]"
| "detail_members (Delta d) = [(js ''delta'', JStr d)]"
| "detail_members (ResultCreated r) = [(js ''result'', result_json r)]"
| "detail_members CompletedEv = []"
| "detail_members (CancelledEv m) = [(js ''message'', JStr m)]"
| "detail_members (FailedEv c m) = [(js ''code'', JStr c), (js ''message'', JStr m)]"

definition event_json :: "task_event \<Rightarrow> json" where
  "event_json e = JObj
     ([(js ''type'', JStr (event_type (ev_detail e))),
       (js ''taskId'', JStr (ev_taskId (ev_base e))),
       (js ''sessionId'', JStr (ev_sessionId (ev_base e))),
       (js ''runId'', JStr (ev_runId (ev_base e))),
       (js ''timestamp'', JStr (ev_timestamp (ev_base e)))]
      @ detail_members (ev_detail e))"

section \<open>The schemas accept what they produced\<close>

definition artifact_ok :: "(jstr \<Rightarrow> bool) \<Rightarrow> artifact \<Rightarrow> bool" where
  "artifact_ok vurl a = (case af_downloadUrl a of None \<Rightarrow> True | Some u \<Rightarrow> vurl u)"

fun detail_ok :: "(jstr \<Rightarrow> bool) \<Rightarrow> event_detail \<Rightarrow> bool" where
  "detail_ok vurl (ResultCreated (ArtifactResult a)) = artifact_ok vurl a"
| "detail_ok vurl (ResultCreated (RecordResult ms)) = (parse_artifact_result vurl (JObj ms) = None)"
| "detail_ok vurl _ = True"

lemma parse_artifact_body_json:
  "artifact_ok vurl a \<Longrightarrow> parse_artifact_body vurl (artifact_json a) = Some a"
  by (auto simp: parse_artifact_body_def artifact_json_def prop_str_def opt_member_def
      opt_string_def opt_nonneg_int_def artifact_ok_def split: option.splits)

lemma parse_artifact_result_json:
  "artifact_ok vurl a \<Longrightarrow> parse_artifact_result vurl (artifact_result_json a) = Some a"
  using parse_artifact_body_json [of vurl a]
  by (simp add: parse_artifact_result_def artifact_result_json_def prop_str_def artifact_json_def)

lemma parse_event_result_json:
  "detail_ok vurl (ResultCreated r) \<Longrightarrow> parse_event_result vurl (Some (result_json r)) = Some r"
proof (cases r)
  case (ArtifactResult a)
  assume "detail_ok vurl (ResultCreated r)"
  with ArtifactResult have "parse_artifact_result vurl (artifact_result_json a) = Some a"
    by (simp add: parse_artifact_result_json)
  with ArtifactResult show ?thesis
    by (simp add: parse_event_result_def artifact_result_json_def)
qed (simp add: parse_event_result_def)

lemma parse_detail_json:
  assumes "detail_ok vurl d"
    and "jprop v = map_of (ms @ detail_members d)"
    and "dom (map_of ms) \<inter> {js ''stage'', js ''delta'', js ''result'', js ''message'', js ''code''} = {}"
  shows "parse_detail vurl (event_type d) v = Some d"
proof -
  have fresh: "map_of ms (js k) = None"
    if "k \<in> {''stage'', ''delta'', ''result'', ''message'', ''code''}" for k
    using assms(3) that by auto
  show ?thesis
    using assms(1,2) fresh
    by (cases d) (auto simp: parse_detail_def prop_str_def map_add_def parse_event_result_json)
qed

lemma parse_task_event_json:
  assumes "detail_ok vurl (ev_detail e)"
  shows "parse_task_event vurl (event_json e) = Some e"
proof -
  have "parse_detail vurl (event_type (ev_detail e)) (event_json e) = Some (ev_detail e)"
    by (rule parse_detail_json [OF assms, where ms =
          "[(js ''type'', JStr (event_type (ev_detail e))),
            (js ''taskId'', JStr (ev_taskId (ev_base e))),
            (js ''sessionId'', JStr (ev_sessionId (ev_base e))),
            (js ''runId'', JStr (ev_runId (ev_base e))),
            (js ''timestamp'', JStr (ev_timestamp (ev_base e)))]"])
      (simp_all add: event_json_def fun_eq_iff)
  then show ?thesis
    by (simp add: parse_task_event_def parse_event_base_def event_json_def prop_str_def)
qed

lemma parse_artifact_body_ok: "parse_artifact_body vurl v = Some a \<Longrightarrow> artifact_ok vurl a"
  by (auto simp: parse_artifact_body_def artifact_ok_def opt_string_def
      split: option.splits json.splits if_splits)

lemma parse_artifact_result_ok: "parse_artifact_result vurl v = Some a \<Longrightarrow> artifact_ok vurl a"
  by (auto simp: parse_artifact_result_def parse_artifact_body_ok
      split: option.splits json.splits if_splits)

lemma parse_event_result_ok:
  "parse_event_result vurl v = Some r \<Longrightarrow> detail_ok vurl (ResultCreated r)"
  by (auto simp: parse_event_result_def parse_artifact_result_ok
      split: option.splits json.splits)

lemma parse_detail_ok: "parse_detail vurl ty v = Some d \<Longrightarrow> detail_ok vurl d"
  by (auto simp: parse_detail_def parse_event_result_ok split: if_splits option.splits)

lemma parse_task_event_ok: "parse_task_event vurl v = Some e \<Longrightarrow> detail_ok vurl (ev_detail e)"
  by (auto simp: parse_task_event_def parse_detail_ok split: option.splits)

section \<open>Errors\<close>

text \<open>
  What the services throw: the HTTP exceptions of the API with their message, and an
  \<^verbatim>\<open>Error\<close> with an optional \<^verbatim>\<open>code\<close> (the adapter's and the workers' errors).
\<close>

datatype exn =
    BadRequest jstr
  | Unauthorized jstr
  | Forbidden jstr
  | NotFound jstr
  | Conflict jstr
  | PayloadTooLarge jstr
  | UnsupportedMediaType jstr
  | TooManyRequests jstr
  | ServiceUnavailable jstr
  | JsError "jstr option" jstr

fun exn_message :: "exn \<Rightarrow> jstr" where
  "exn_message (BadRequest m) = m"
| "exn_message (Unauthorized m) = m"
| "exn_message (Forbidden m) = m"
| "exn_message (NotFound m) = m"
| "exn_message (Conflict m) = m"
| "exn_message (PayloadTooLarge m) = m"
| "exn_message (UnsupportedMediaType m) = m"
| "exn_message (TooManyRequests m) = m"
| "exn_message (ServiceUnavailable m) = m"
| "exn_message (JsError _ m) = m"

fun exn_code :: "exn \<Rightarrow> jstr option" where
  "exn_code (JsError c _) = c"
| "exn_code _ = None"

end
