(* ===== verification/ApiCommon.thy ===== *)
theory ApiCommon
  imports SharedTypes
begin

text \<open>
  The helper functions at the top of \<^verbatim>\<open>apps/mobile-api/src/tasks/tasks.service.ts\<close>. The
  process environment is a function from variable names to optional texts. The platform's
  URL class is a record of functions, an argument of the definitions that use it.
\<close>

type_synonym env = "string \<Rightarrow> jstr option"

record url =
  u_protocol :: jstr
  u_username :: jstr
  u_password :: jstr
  u_hostname :: jstr
  u_origin :: jstr
  u_pathname :: jstr

record url_api =
  ua_parse :: "jstr \<Rightarrow> url option"
  ua_set_protocol :: "jstr \<Rightarrow> url \<Rightarrow> url"

section \<open>Texts and limits\<close>

text \<open>The argument is \<open>None\<close> where the source passes a value that is not a string.\<close>

definition asNonEmptyString :: "jstr option \<Rightarrow> jstr" where
  "asNonEmptyString input = (case input of Some s \<Rightarrow> js_trim s | None \<Rightarrow> [])"

definition asPositiveInteger :: "jstr option \<Rightarrow> nat \<Rightarrow> nat" where
  "asPositiveInteger input fallback =
     (let parsed = opt_number input
      in if is_safe_integer parsed \<and> (case parsed of NumInt i \<Rightarrow> 0 < i | _ \<Rightarrow> False)
         then (case parsed of NumInt i \<Rightarrow> nat i | _ \<Rightarrow> fallback)
         else fallback)"

definition forbidden_filename_char :: "jchar \<Rightarrow> bool" where
  "forbidden_filename_char c \<longleftrightarrow> c \<in> set (js [CHR ''<'', CHR ''>'', CHR '':'', CHR 0x22, CHR ''/'', CHR 0x5C,
     CHR ''|'', CHR ''?'', CHR ''*'']) \<or> c \<le> 0x1F"

text \<open>\<^verbatim>\<open>replace(/\s+/g, " ")\<close>.\<close>

fun collapse_ws :: "jstr \<Rightarrow> jstr" where
  "collapse_ws [] = []"
| "collapse_ws [c] = (if js_ws c then [32] else [c])"
| "collapse_ws (c # d # s) =
     (if js_ws c then (if js_ws d then collapse_ws (d # s) else 32 # collapse_ws (d # s))
      else c # collapse_ws (d # s))"

definition sanitizeFilename :: "jstr \<Rightarrow> jstr" where
  "sanitizeFilename filename =
     (let cleaned = collapse_ws
            (map (\<lambda>c. if forbidden_filename_char c then 45 else c) (js_trim filename))
      in if cleaned = [] then js ''file'' else cleaned)"

definition absolute_max_upload_bytes :: nat where
  "absolute_max_upload_bytes = 25 * 1024 * 1024"

definition maxUploadBytes :: "env \<Rightarrow> nat" where
  "maxUploadBytes env =
     min absolute_max_upload_bytes
       (asPositiveInteger (env ''MAX_UPLOAD_BYTES'') (10 * 1024 * 1024))"

definition taskTimeoutMs :: "env \<Rightarrow> nat" where
  "taskTimeoutMs env = asPositiveInteger (env ''TASK_TIMEOUT_MS'') 120000"

definition maxResultFileBytes :: "env \<Rightarrow> nat" where
  "maxResultFileBytes env = asPositiveInteger (env ''MAX_RESULT_FILE_BYTES'') (25 * 1024 * 1024)"

definition storageLimit :: "env \<Rightarrow> nat" where
  "storageLimit env = asPositiveInteger (env ''USER_STORAGE_BYTES'') (1024 * 1024 * 1024)"

definition concurrentLimit :: "env \<Rightarrow> nat" where
  "concurrentLimit env = asPositiveInteger (env ''USER_CONCURRENT_TASK_LIMIT'') 3"

text \<open>
  The origins results may be downloaded from; \<open>None\<close> is the \<^verbatim>\<open>TypeError\<close> of an invalid URL.
\<close>

fun parse_origins :: "url_api \<Rightarrow> jstr list \<Rightarrow> jstr list option" where
  "parse_origins api [] = Some []"
| "parse_origins api (t # ts) =
     (case ua_parse api t of
        None \<Rightarrow> None
      | Some u \<Rightarrow> map_option (\<lambda>os. u_origin u # os) (parse_origins api ts))"

definition resultArtifactOrigins :: "url_api \<Rightarrow> env \<Rightarrow> jstr list option" where
  "resultArtifactOrigins api env =
     (case parse_origins api (filter (\<lambda>s. s \<noteq> [])
             (map js_trim (js_split 44 (asNonEmptyString (env ''RESULT_ARTIFACT_ALLOWED_ORIGINS''))))) of
        None \<Rightarrow> None
      | Some (c # cs) \<Rightarrow> Some (c # cs)
      | Some [] \<Rightarrow>
          let gatewayUrl = asNonEmptyString (env ''OPENCLAW_GATEWAY_URL'')
          in if gatewayUrl = [] then Some []
             else case ua_parse api gatewayUrl of
                    None \<Rightarrow> None
                  | Some u \<Rightarrow>
                      let u1 = (if u_protocol u = js ''ws:'' then ua_set_protocol api (js ''http:'') u else u);
                          u2 = (if u_protocol u1 = js ''wss:'' then ua_set_protocol api (js ''https:'') u1 else u1)
                      in Some [u_origin u2])"

definition buildExecutionMessage :: "jstr \<Rightarrow> jstr \<Rightarrow> jstr \<Rightarrow> jstr \<Rightarrow> jstr" where
  "buildExecutionMessage text taskType tone len =
     js_join [10]
       [js_trim text, [], js ''ClawWork delivery requirements:'',
        js ''- task type: '' @ taskType,
        js ''- preferred tone: '' @ tone,
        js ''- preferred length: '' @ len,
        js ''Return a useful deliverable first; the user may request revisions afterward.'']"

section \<open>Bounds\<close>

lemma asPositiveInteger_positive_or: "asPositiveInteger i f = positive_or f (opt_number i)"
  by (cases "opt_number i") (auto simp: asPositiveInteger_def positive_or_def is_safe_integer_def)

lemma asPositiveInteger_pos: "0 < f \<Longrightarrow> 0 < asPositiveInteger i f"
  by (simp add: asPositiveInteger_positive_or positive_or_pos)

lemma limits_pos: "0 < concurrentLimit env" "0 < storageLimit env" "0 < taskTimeoutMs env"
  "0 < maxResultFileBytes env" "0 < maxUploadBytes env"
  by (simp_all add: concurrentLimit_def storageLimit_def taskTimeoutMs_def maxResultFileBytes_def
      maxUploadBytes_def absolute_max_upload_bytes_def asPositiveInteger_pos)

lemma maxUploadBytes_le: "maxUploadBytes env \<le> 25 * 1024 * 1024"
  by (simp add: maxUploadBytes_def absolute_max_upload_bytes_def)

text \<open>
  Whatever text an environment variable holds, the limit read from it is a positive
  safe integer, and a variable written as a decimal number in that range is that number.
\<close>

lemma asPositiveInteger_spec:
  "(0 < f \<and> int f \<le> max_safe_integer \<longrightarrow>
      0 < asPositiveInteger i f \<and> int (asPositiveInteger i f) \<le> max_safe_integer)
   \<and> (0 < n \<and> int n \<le> max_safe_integer \<longrightarrow> asPositiveInteger (Some (js_of_nat n)) f = n)
   \<and> asPositiveInteger None f = f"
  using positive_or_pos [of f "opt_number i"] positive_or_safe [of f "opt_number i"]
  by (auto simp: asPositiveInteger_positive_or opt_number_def js_number_js_of_nat positive_or_def)

section \<open>Sanitised file names\<close>

lemma forbidden_dash [simp]: "\<not> forbidden_filename_char 45" "\<not> forbidden_filename_char 32"
  by (simp_all add: forbidden_filename_char_def js_def)

lemma js_ws_32 [simp]: "js_ws 32" "\<not> js_ws 45"
  by (simp_all add: js_ws_def)

lemma collapse_ws_Nil [simp]: "collapse_ws s = [] \<longleftrightarrow> s = []"
  by (induction s rule: collapse_ws.induct) auto

lemma collapse_ws_set: "set (collapse_ws s) \<subseteq> insert 32 (set s)"
  by (induction s rule: collapse_ws.induct) auto

lemma collapse_ws_hd: "s \<noteq> [] \<Longrightarrow> js_ws (hd (collapse_ws s)) = js_ws (hd s)"
  by (induction s rule: collapse_ws.induct) auto

lemma collapse_ws_last: "s \<noteq> [] \<Longrightarrow> js_ws (last (collapse_ws s)) = js_ws (last s)"
  by (induction s rule: collapse_ws.induct) auto

lemma collapse_ws_idem: "collapse_ws (collapse_ws s) = collapse_ws s"
proof (induction s rule: collapse_ws.induct)
  case (3 c d s)
  then show ?case
    using collapse_ws_hd [of "d # s"]
    by (cases "collapse_ws (d # s)") auto
qed auto

lemma js_trim_id:
  assumes "s \<noteq> [] \<Longrightarrow> \<not> js_ws (hd s) \<and> \<not> js_ws (last s)"
  shows "js_trim s = s"
proof -
  have "dropWhile js_ws s = s" using assms by (cases s) auto
  moreover have "dropWhile js_ws (rev s) = rev s"
    using assms by (cases "rev s") (auto simp: last_rev [symmetric] hd_rev)
  ultimately show ?thesis by (simp add: js_trim_def js_trim_start_def js_trim_end_def)
qed

lemma js_trim_clean: "js_trim s \<noteq> [] \<Longrightarrow> \<not> js_ws (hd (js_trim s)) \<and> \<not> js_ws (last (js_trim s))"
proof -
  assume ne: "js_trim s \<noteq> []"
  let ?a = "dropWhile js_ws s"
  have eq: "js_trim s = rev (dropWhile js_ws (rev ?a))"
    by (simp add: js_trim_def js_trim_start_def js_trim_end_def)
  have last: "\<not> js_ws (last (js_trim s))"
  proof -
    have "dropWhile js_ws (rev ?a) \<noteq> []" using ne unfolding eq by (metis rev.simps(1))
    then show ?thesis unfolding eq using hd_dropWhile last_rev by metis
  qed
  have "?a \<noteq> []" using ne unfolding eq by (metis dropWhile.simps(1) rev.simps(1))
  then have "\<not> js_ws (hd ?a)" by (rule hd_dropWhile)
  moreover have "hd (js_trim s) = hd ?a"
  proof -
    have "?a = js_trim s @ rev (takeWhile js_ws (rev ?a))"
      unfolding eq by (metis rev_append rev_rev_ident takeWhile_dropWhile_id)
    then show ?thesis using ne by (metis hd_append2)
  qed
  ultimately show ?thesis using last by simp
qed

lemma ws_of_clean: "js_ws (if forbidden_filename_char c then 45 else c) \<Longrightarrow> js_ws c"
  by (auto split: if_splits)

text \<open>
  A sanitised file name is not empty, holds none of the characters that are special in
  object keys and file systems, and sanitising it again changes nothing, so the name stored
  at upload is the name the completion request is compared with.
\<close>

lemma sanitizeFilename_spec:
  "sanitizeFilename s \<noteq> []
   \<and> (\<forall>c \<in> set (sanitizeFilename s). \<not> forbidden_filename_char c)
   \<and> sanitizeFilename (sanitizeFilename s) = sanitizeFilename s"
proof -
  let ?f = "\<lambda>c. if forbidden_filename_char c then 45 else c :: jchar"
  let ?m = "map ?f (js_trim s)"
  have clean: "\<forall>c \<in> set (collapse_ws ?m). \<not> forbidden_filename_char c"
    using collapse_ws_set [of ?m] by auto
  have default: "\<forall>c \<in> set (js ''file''). \<not> forbidden_filename_char c"
    by (simp add: js_def forbidden_filename_char_def)
  have ne: "sanitizeFilename s \<noteq> []" by (simp add: sanitizeFilename_def)
  have cl: "\<forall>c \<in> set (sanitizeFilename s). \<not> forbidden_filename_char c"
    using clean default by (simp add: sanitizeFilename_def Let_def)
  have "sanitizeFilename (sanitizeFilename s) = sanitizeFilename s"
  proof (cases "js_trim s = []")
    case True
    have "sanitizeFilename (js ''file'') = js ''file''"
      by (simp add: sanitizeFilename_def js_def js_trim_def js_trim_start_def js_trim_end_def
          js_ws_def forbidden_filename_char_def)
    with True show ?thesis by (simp add: sanitizeFilename_def)
  next
    case False
    then have s: "sanitizeFilename s = collapse_ws ?m" by (simp add: sanitizeFilename_def Let_def)
    have "\<not> js_ws (hd ?m) \<and> \<not> js_ws (last ?m)"
    proof -
      have "hd ?m = ?f (hd (js_trim s))" "last ?m = ?f (last (js_trim s))"
        using False by (rule hd_map, rule last_map)
      then show ?thesis using js_trim_clean [OF False] by (simp only: split: if_split) simp
    qed
    then have "js_trim (collapse_ws ?m) = collapse_ws ?m"
      using False by (intro js_trim_id) (simp add: collapse_ws_hd collapse_ws_last)
    moreover have "map ?f (collapse_ws ?m) = collapse_ws ?m"
      using clean by (intro map_idI) simp
    ultimately show ?thesis using False
      by (simp add: s sanitizeFilename_def collapse_ws_idem)
  qed
  with ne cl show ?thesis by simp
qed

end
