(* ===== verification/TaskDb.thy ===== *)
theory TaskDb
  imports ApiCommon
begin

text \<open>
  The API's database, \<^verbatim>\<open>packages/database/prisma/schema.prisma\<close>: one list of rows per table,
  in creation order, and the queries the services send. A transaction of the source is one
  step on this state (transactions are taken to be serialisable); an update of a row that
  is not there leaves the state alone, which the foreign keys of \<open>db_ok\<close> exclude.
  Identifiers that the database generates are arguments of the operations.
\<close>

section \<open>Rows\<close>

datatype task_status = Queued | Running | Completed | Failed | Cancelled

record task =
  t_id :: jstr
  t_sessionId :: jstr
  t_userId :: jstr
  t_parentTaskId :: "jstr option"
  t_taskType :: jstr
  t_status :: task_status
  t_inputText :: jstr
  t_preferredTone :: jstr
  t_preferredLength :: jstr
  t_runId :: "jstr option"
  t_adapterStreamUrl :: "jstr option"
  t_errorCode :: "jstr option"
  t_errorMessage :: "jstr option"
  t_createdAt :: nat
  t_updatedAt :: nat
  t_startedAt :: "nat option"
  t_completedAt :: "nat option"
  t_queueJobId :: "jstr option"
  t_attemptCount :: nat
  t_files :: "jstr list" \<comment> \<open>the \<^verbatim>\<open>TaskFile\<close> rows of the task\<close>

record session =
  s_id :: jstr
  s_userId :: jstr
  s_title :: jstr
  s_status :: task_status
  s_currentTaskId :: "jstr option"
  s_createdAt :: nat
  s_updatedAt :: nat

record task_result =
  r_id :: jstr
  r_taskId :: jstr
  r_sessionId :: jstr
  r_versionNo :: nat
  r_outputText :: jstr
  r_outputJson :: json
  r_createdAt :: nat

record db_file =
  f_id :: jstr
  f_userId :: jstr
  f_filename :: jstr
  f_mimeType :: jstr
  f_sizeBytes :: nat
  f_status :: file_status
  f_storageKey :: jstr
  f_etag :: "jstr option"
  f_updatedAt :: nat
  f_uploadedAt :: "nat option"

record db_artifact =
  ra_id :: jstr
  ra_userId :: jstr
  ra_taskId :: jstr
  ra_resultId :: "jstr option"
  ra_kind :: artifact_kind
  ra_fileName :: jstr
  ra_mimeType :: jstr
  ra_sizeBytes :: nat
  ra_storageKey :: jstr
  ra_etag :: "jstr option"
  ra_previewText :: jstr
  ra_sourceUrl :: "jstr option"
  ra_createdAt :: nat

record event_row =
  te_id :: nat
  te_taskId :: jstr
  te_sourceEventId :: "jstr option"
  te_type :: jstr
  te_payload :: json

record db =
  db_tasks :: "task list"
  db_sessions :: "session list"
  db_results :: "task_result list"
  db_files :: "db_file list"
  db_artifacts :: "db_artifact list"
  db_events :: "event_row list"
  db_nextEvent :: nat

definition db_empty :: db where
  "db_empty = \<lparr>db_tasks = [], db_sessions = [], db_results = [], db_files = [],
     db_artifacts = [], db_events = [], db_nextEvent = 1\<rparr>"

section \<open>Queries\<close>

definition isTerminalStatus :: "task_status \<Rightarrow> bool" where
  "isTerminalStatus st \<longleftrightarrow> st = Completed \<or> st = Failed \<or> st = Cancelled"

definition find_task :: "db \<Rightarrow> jstr \<Rightarrow> task option" where
  "find_task d i = find (\<lambda>t. t_id t = i) (db_tasks d)"

text \<open>\<^verbatim>\<open>findFirst({ where: { id, userId } })\<close>.\<close>

definition find_owned_task :: "db \<Rightarrow> jstr \<Rightarrow> jstr \<Rightarrow> task option" where
  "find_owned_task d uid i = find (\<lambda>t. t_id t = i \<and> t_userId t = uid) (db_tasks d)"

definition find_session :: "db \<Rightarrow> jstr \<Rightarrow> session option" where
  "find_session d i = find (\<lambda>s. s_id s = i) (db_sessions d)"

definition find_file :: "db \<Rightarrow> jstr \<Rightarrow> db_file option" where
  "find_file d i = find (\<lambda>f. f_id f = i) (db_files d)"

definition upd_task :: "nat \<Rightarrow> jstr \<Rightarrow> (task \<Rightarrow> task) \<Rightarrow> db \<Rightarrow> db" where
  "upd_task now i g d =
     d\<lparr>db_tasks := map (\<lambda>t. if t_id t = i then (g t)\<lparr>t_updatedAt := now\<rparr> else t) (db_tasks d)\<rparr>"

definition upd_session :: "nat \<Rightarrow> jstr \<Rightarrow> (session \<Rightarrow> session) \<Rightarrow> db \<Rightarrow> db" where
  "upd_session now i g d =
     d\<lparr>db_sessions := map (\<lambda>s. if s_id s = i then (g s)\<lparr>s_updatedAt := now\<rparr> else s) (db_sessions d)\<rparr>"

definition upd_file :: "nat \<Rightarrow> jstr \<Rightarrow> (db_file \<Rightarrow> db_file) \<Rightarrow> db \<Rightarrow> db" where
  "upd_file now i g d =
     d\<lparr>db_files := map (\<lambda>f. if f_id f = i then (g f)\<lparr>f_updatedAt := now\<rparr> else f) (db_files d)\<rparr>"

definition active_tasks :: "db \<Rightarrow> jstr \<Rightarrow> task list" where
  "active_tasks d uid =
     filter (\<lambda>t. t_userId t = uid \<and> t_status t \<in> {Queued, Running}) (db_tasks d)"

definition events_of :: "db \<Rightarrow> jstr \<Rightarrow> event_row list" where
  "events_of d i = sort_key te_id (filter (\<lambda>r. te_taskId r = i) (db_events d))"

definition latest_version :: "db \<Rightarrow> jstr \<Rightarrow> nat" where
  "latest_version d sid =
     foldr max (map r_versionNo (filter (\<lambda>r. r_sessionId r = sid) (db_results d))) 0"

text \<open>The bytes a user occupies: files that have not failed, and result artifacts.\<close>

definition file_usage :: "db \<Rightarrow> jstr \<Rightarrow> nat" where
  "file_usage d uid =
     sum_list (map f_sizeBytes (filter (\<lambda>f. f_userId f = uid \<and> f_status f \<noteq> UploadFailed) (db_files d)))"

definition artifact_usage :: "db \<Rightarrow> jstr \<Rightarrow> nat" where
  "artifact_usage d uid =
     sum_list (map ra_sizeBytes (filter (\<lambda>a. ra_userId a = uid) (db_artifacts d)))"

lemma active_not_terminal: "st \<in> {Queued, Running} \<longleftrightarrow> \<not> isTerminalStatus st"
  by (cases st) (simp_all add: isTerminalStatus_def)

lemma find_task_SomeD: "find_task d i = Some t \<Longrightarrow> t \<in> set (db_tasks d) \<and> t_id t = i"
  unfolding find_task_def by (drule find_Some_set) simp

lemma find_owned_task_SomeD:
  "find_owned_task d uid i = Some t \<Longrightarrow> t \<in> set (db_tasks d) \<and> t_id t = i \<and> t_userId t = uid"
  unfolding find_owned_task_def by (drule find_Some_set) simp

lemma find_session_SomeD: "find_session d i = Some s \<Longrightarrow> s \<in> set (db_sessions d) \<and> s_id s = i"
  unfolding find_session_def by (drule find_Some_set) simp

lemma find_map_upd:
  assumes "\<And>x. k (g x) = k x"
  shows "find (\<lambda>x. k x = i) (map (\<lambda>x. if k x = j then g x else x) xs) =
    map_option (\<lambda>x. if k x = j then g x else x) (find (\<lambda>x. k x = i) xs)"
  using assms by (induction xs) auto

lemma find_task_upd:
  assumes "\<And>t. t_id (g t) = t_id t"
  shows "find_task (upd_task now j g d) i =
    map_option (\<lambda>t. if t_id t = j then (g t)\<lparr>t_updatedAt := now\<rparr> else t) (find_task d i)"
  unfolding find_task_def upd_task_def
  using find_map_upd [of t_id "\<lambda>t. (g t)\<lparr>t_updatedAt := now\<rparr>" i j "db_tasks d"] assms
  by simp

lemma find_session_upd:
  assumes "\<And>s. s_id (g s) = s_id s"
  shows "find_session (upd_session now j g d) i =
    map_option (\<lambda>s. if s_id s = j then (g s)\<lparr>s_updatedAt := now\<rparr> else s) (find_session d i)"
  unfolding find_session_def upd_session_def
  using find_map_upd [of s_id "\<lambda>s. (g s)\<lparr>s_updatedAt := now\<rparr>" i j "db_sessions d"] assms
  by simp

text \<open>Which tables an update leaves alone.\<close>

lemma upd_task_frame [simp, frame]:
  "db_sessions (upd_task now i g d) = db_sessions d"
  "db_results (upd_task now i g d) = db_results d"
  "db_files (upd_task now i g d) = db_files d"
  "db_artifacts (upd_task now i g d) = db_artifacts d"
  "db_events (upd_task now i g d) = db_events d"
  "db_nextEvent (upd_task now i g d) = db_nextEvent d"
  by (simp_all add: upd_task_def)

lemma upd_session_frame [simp, frame]:
  "db_tasks (upd_session now i h d) = db_tasks d"
  "db_results (upd_session now i h d) = db_results d"
  "db_files (upd_session now i h d) = db_files d"
  "db_artifacts (upd_session now i h d) = db_artifacts d"
  "db_events (upd_session now i h d) = db_events d"
  "db_nextEvent (upd_session now i h d) = db_nextEvent d"
  by (simp_all add: upd_session_def)

lemma upd_file_frame [simp, frame]:
  "db_tasks (upd_file now i k d) = db_tasks d"
  "db_sessions (upd_file now i k d) = db_sessions d"
  "db_results (upd_file now i k d) = db_results d"
  "db_artifacts (upd_file now i k d) = db_artifacts d"
  "db_events (upd_file now i k d) = db_events d"
  "db_nextEvent (upd_file now i k d) = db_nextEvent d"
  by (simp_all add: upd_file_def)

section \<open>The invariant of the task log\<close>

text \<open>The event a row carries.\<close>

definition row_detail :: "(jstr \<Rightarrow> bool) \<Rightarrow> event_row \<Rightarrow> event_detail option" where
  "row_detail vurl r = map_option ev_detail (parse_task_event vurl (te_payload r))"

definition row_ok :: "(jstr \<Rightarrow> bool) \<Rightarrow> event_row \<Rightarrow> bool" where
  "row_ok vurl r \<longleftrightarrow>
     (case parse_task_event vurl (te_payload r) of
        None \<Rightarrow> False
      | Some e \<Rightarrow> ev_taskId (ev_base e) = te_taskId r \<and> event_type (ev_detail e) = te_type r)"

fun detail_status :: "event_detail \<Rightarrow> task_status option" where
  "detail_status CompletedEv = Some Completed"
| "detail_status (FailedEv _ _) = Some Failed"
| "detail_status (CancelledEv _) = Some Cancelled"
| "detail_status _ = None"

text \<open>
  A task that is not terminal has no terminal event; a terminal task's log ends with the
  one terminal event, of the kind its status says.
\<close>

definition status_matches :: "task_status \<Rightarrow> event_detail option list \<Rightarrow> bool" where
  "status_matches st ds \<longleftrightarrow>
     (let terminal = (\<lambda>x. case x of None \<Rightarrow> False | Some e \<Rightarrow> terminal_detail e)
      in if isTerminalStatus st
         then ds \<noteq> [] \<and> Option.bind (last ds) detail_status = Some st
              \<and> list_all (\<lambda>x. \<not> terminal x) (butlast ds)
         else list_all (\<lambda>x. \<not> terminal x) ds)"

definition task_log :: "(jstr \<Rightarrow> bool) \<Rightarrow> db \<Rightarrow> jstr \<Rightarrow> event_detail option list" where
  "task_log vurl d i = map (row_detail vurl) (filter (\<lambda>r. te_taskId r = i) (db_events d))"

definition keys_ok :: "db \<Rightarrow> bool" where
  "keys_ok d \<longleftrightarrow>
     distinct (map t_id (db_tasks d)) \<and> distinct (map s_id (db_sessions d))
     \<and> list_all (\<lambda>t. find_session d (t_sessionId t) \<noteq> None) (db_tasks d)
     \<and> list_all (\<lambda>r. find_task d (te_taskId r) \<noteq> None) (db_events d)"

definition events_ok :: "(jstr \<Rightarrow> bool) \<Rightarrow> db \<Rightarrow> bool" where
  "events_ok vurl d \<longleftrightarrow>
     sorted_wrt (\<lambda>a b. te_id a < te_id b) (db_events d)
     \<and> list_all (\<lambda>r. 0 < te_id r \<and> te_id r < db_nextEvent d) (db_events d)
     \<and> 0 < db_nextEvent d
     \<and> list_all (row_ok vurl) (db_events d)
     \<and> distinct (map (\<lambda>r. (te_taskId r, te_sourceEventId r))
                  (filter (\<lambda>r. te_sourceEventId r \<noteq> None) (db_events d)))"

definition statuses_ok :: "(jstr \<Rightarrow> bool) \<Rightarrow> db \<Rightarrow> bool" where
  "statuses_ok vurl d \<longleftrightarrow>
     list_all (\<lambda>t. status_matches (t_status t) (task_log vurl d (t_id t))) (db_tasks d)"

definition versions_ok :: "db \<Rightarrow> bool" where
  "versions_ok d \<longleftrightarrow>
     (\<forall>sid. let rs = filter (\<lambda>r. r_sessionId r = sid) (db_results d)
            in map r_versionNo rs = [1 ..< Suc (length rs)])"

definition db_ok :: "(jstr \<Rightarrow> bool) \<Rightarrow> db \<Rightarrow> bool" where
  "db_ok vurl d \<longleftrightarrow> keys_ok d \<and> events_ok vurl d \<and> statuses_ok vurl d \<and> versions_ok d"

lemma db_ok_empty: "db_ok vurl db_empty"
  by (simp add: db_ok_def keys_ok_def events_ok_def statuses_ok_def versions_ok_def db_empty_def)

lemma db_okD:
  "db_ok vurl d \<Longrightarrow> keys_ok d" "db_ok vurl d \<Longrightarrow> events_ok vurl d"
  "db_ok vurl d \<Longrightarrow> statuses_ok vurl d" "db_ok vurl d \<Longrightarrow> versions_ok d"
  by (simp_all add: db_ok_def)

lemma events_of_eq: "events_ok vurl d \<Longrightarrow> events_of d i = filter (\<lambda>r. te_taskId r = i) (db_events d)"
  unfolding events_of_def events_ok_def
  by (intro sort_key_id_if_sorted)
    (auto simp: sorted_map intro!: sorted_wrt_filter elim: sorted_wrt_mono_rel [rotated])

lemma foldr_max_upt: "foldr max [Suc 0 ..< Suc n] 0 = n"
proof -
  have "foldr max xs a = Max (insert a (set xs))" for xs and a :: nat
    by (induction xs) (auto simp: insert_commute)
  moreover have "Max (insert 0 {Suc 0 ..< Suc n}) = n"
    by (rule Max_eqI) auto
  ultimately show ?thesis by (simp del: upt_Suc)
qed

lemma latest_version_eq:
  "versions_ok d \<Longrightarrow> latest_version d sid = length (filter (\<lambda>r. r_sessionId r = sid) (db_results d))"
  unfolding latest_version_def versions_ok_def Let_def by (simp add: foldr_max_upt del: upt_Suc)

lemma find_task_unique:
  "keys_ok d \<Longrightarrow> t \<in> set (db_tasks d) \<Longrightarrow> find_task d (t_id t) = Some t"
  unfolding keys_ok_def find_task_def by (auto intro: find_distinct_key)

lemma status_of_task:
  "db_ok vurl d \<Longrightarrow> find_task d i = Some t \<Longrightarrow> status_matches (t_status t) (task_log vurl d i)"
  using find_task_SomeD [of d i t] by (auto simp: db_ok_def statuses_ok_def list_all_iff)

text \<open>Updates that keep ids and statuses keep the invariant.\<close>

lemma keys_ok_upd_task:
  assumes "keys_ok d" "\<And>t. t_id (g t) = t_id t" "\<And>t. t_sessionId (g t) = t_sessionId t"
  shows "keys_ok (upd_task now i g d)"
proof -
  have ids: "map t_id (db_tasks (upd_task now i g d)) = map t_id (db_tasks d)"
    using assms(2) by (simp add: upd_task_def)
  have fs: "find_session (upd_task now i g d) = find_session d"
    by (simp add: find_session_def fun_eq_iff)
  have "list_all (\<lambda>t. find_session d (t_sessionId t) \<noteq> None) (db_tasks (upd_task now i g d))"
    using assms(1,3) by (auto simp: keys_ok_def list_all_iff upd_task_def)
  moreover have "list_all (\<lambda>r. find_task (upd_task now i g d) (te_taskId r) \<noteq> None) (db_events d)"
    using assms(1,2) by (auto simp: keys_ok_def list_all_iff find_task_upd)
  ultimately show ?thesis
    using assms(1) by (simp add: keys_ok_def ids fs)
qed

lemma keys_ok_upd_session:
  assumes "keys_ok d" "\<And>s. s_id (h s) = s_id s"
  shows "keys_ok (upd_session now i h d)"
proof -
  have ids: "map s_id (db_sessions (upd_session now i h d)) = map s_id (db_sessions d)"
    using assms(2) by (simp add: upd_session_def)
  have ft: "find_task (upd_session now i h d) = find_task d"
    by (simp add: find_task_def fun_eq_iff)
  have "list_all (\<lambda>t. find_session (upd_session now i h d) (t_sessionId t) \<noteq> None) (db_tasks d)"
    using assms by (auto simp: keys_ok_def list_all_iff find_session_upd)
  then show ?thesis
    using assms(1) by (simp add: keys_ok_def ids ft)
qed

lemma db_ok_upd_session:
  assumes "db_ok vurl d" "\<And>s. s_id (h s) = s_id s"
  shows "db_ok vurl (upd_session now i h d)"
  using assms keys_ok_upd_session [of d h now i]
  by (simp add: db_ok_def events_ok_def statuses_ok_def versions_ok_def task_log_def)

lemma status_matches_cong:
  assumes "isTerminalStatus st = isTerminalStatus st'" "isTerminalStatus st \<longrightarrow> st' = st"
  shows "status_matches st ds = status_matches st' ds"
  using assms by (cases "isTerminalStatus st") (simp_all add: status_matches_def)

lemma statuses_ok_upd_task:
  assumes "statuses_ok vurl d" "\<And>t. t_id (g t) = t_id t"
    and "\<And>t. t \<in> set (db_tasks d) \<Longrightarrow> t_id t = i \<Longrightarrow>
      isTerminalStatus (t_status t) = isTerminalStatus (t_status (g t))
      \<and> (isTerminalStatus (t_status t) \<longrightarrow> t_status (g t) = t_status t)"
  shows "statuses_ok vurl (upd_task now i g d)"
  unfolding statuses_ok_def list_all_iff
proof
  fix u assume u: "u \<in> set (db_tasks (upd_task now i g d))"
  have log: "task_log vurl (upd_task now i g d) j = task_log vurl d j" for j
    by (simp add: task_log_def)
  from u obtain t where t: "t \<in> set (db_tasks d)"
    "u = (if t_id t = i then (g t)\<lparr>t_updatedAt := now\<rparr> else t)"
    by (auto simp: upd_task_def)
  then have "status_matches (t_status t) (task_log vurl d (t_id t))"
    using assms(1) by (simp add: statuses_ok_def list_all_iff)
  then show "status_matches (t_status u) (task_log vurl (upd_task now i g d) (t_id u))"
  proof (cases "t_id t = i")
    case True
    then have "status_matches (t_status (g t)) (task_log vurl d (t_id t))"
      using \<open>status_matches _ _\<close> status_matches_cong assms(3) [OF t(1)] by blast
    with True t(2) show ?thesis by (simp add: log assms(2))
  qed (use t(2) \<open>status_matches _ _\<close> log in simp)
qed

lemma rows_ok_upd_task:
  "events_ok vurl (upd_task now i g d) = events_ok vurl d"
  "versions_ok (upd_task now i g d) = versions_ok d"
  by (simp_all only: events_ok_def versions_ok_def upd_task_frame)

lemma db_ok_upd_task:
  assumes "db_ok vurl d" "\<And>t. t_id (g t) = t_id t" "\<And>t. t_sessionId (g t) = t_sessionId t"
    and "\<And>t. t \<in> set (db_tasks d) \<Longrightarrow> t_id t = i \<Longrightarrow>
      isTerminalStatus (t_status t) = isTerminalStatus (t_status (g t))
      \<and> (isTerminalStatus (t_status t) \<longrightarrow> t_status (g t) = t_status t)"
  shows "db_ok vurl (upd_task now i g d)"
proof -
  have "keys_ok (upd_task now i g d)"
    by (rule keys_ok_upd_task [OF db_okD(1) [OF assms(1)] assms(2,3)])
  moreover have "statuses_ok vurl (upd_task now i g d)"
    by (rule statuses_ok_upd_task [OF db_okD(3) [OF assms(1)] assms(2,4)])
  ultimately show ?thesis
    using db_okD(2,4) [OF assms(1)] unfolding db_ok_def by (simp only: rows_ok_upd_task simp_thms)
qed

text \<open>Tables the invariant does not look at.\<close>

lemma db_ok_cong:
  assumes "db_tasks d' = db_tasks d" "db_sessions d' = db_sessions d" "db_results d' = db_results d"
    "db_events d' = db_events d" "db_nextEvent d' = db_nextEvent d"
  shows "db_ok vurl d' = db_ok vurl d"
  by (simp only: assms db_ok_def keys_ok_def events_ok_def statuses_ok_def versions_ok_def
      task_log_def find_task_def find_session_def)

end
