(* ===== verification/TaskEvents.thy ===== *)
theory TaskEvents
  imports TaskDb
begin

text \<open>
  The event half of \<^verbatim>\<open>TasksService\<close> (\<^verbatim>\<open>tasks.service.ts\<close>): persisting an event in its
  transaction, archiving a result file, failing a task, hydrating stored events. What an
  operation learns from outside (the clock, new identifiers, the object store, \<^verbatim>\<open>fetch\<close>, the
  JSON and URL parsers) is the record \<open>ext\<close>. The state \<open>api\<close> holds the database, the stored
  objects, and the calls made to the event hub and the push service, in order.
\<close>

type_synonym bytes = "8 word list"

record fetch_response =
  rs_ok :: bool
  rs_status :: nat
  rs_contentLength :: "jstr option"
  rs_contentType :: "jstr option"
  rs_body :: "bytes list option"

record ext =
  x_now :: nat
  x_iso :: jstr
  x_env :: env
  x_url :: url_api
  x_vurl :: "jstr \<Rightarrow> bool"
  x_json :: "jstr \<Rightarrow> json option"
  x_fetch :: "url \<Rightarrow> exn + fetch_response"
  x_put :: "jstr \<Rightarrow> exn + jstr option"
  x_delete :: "jstr \<Rightarrow> exn option"
  x_presign :: "jstr \<Rightarrow> bool \<Rightarrow> jstr"
  x_uuid :: jstr
  x_newId :: jstr

record push_message =
  pm_userId :: jstr
  pm_taskId :: jstr
  pm_status :: jstr
  pm_title :: jstr
  pm_message :: jstr

record api =
  ap_db :: db
  ap_objects :: "(jstr, bytes \<times> jstr) jmap"
  ap_published :: "(jstr \<times> nat \<times> task_event) list"
  ap_push :: "push_message list"

definition delete_object :: "ext \<Rightarrow> jstr \<Rightarrow> api \<Rightarrow> api \<times> exn option" where
  "delete_object x key w =
     (case x_delete x key of
        None \<Rightarrow> (w\<lparr>ap_objects := jm_delete key (ap_objects w)\<rparr>, None)
      | Some e \<Rightarrow> (w, Some e))"

section \<open>Archiving a result file\<close>

text \<open>The check of the download URL, with the failure of reading the allowed origins.\<close>

definition source_allowed :: "ext \<Rightarrow> url \<Rightarrow> exn + bool" where
  "source_allowed x src =
     (if (u_protocol src \<noteq> js ''http:'' \<and> u_protocol src \<noteq> js ''https:'')
         \<or> u_username src \<noteq> [] \<or> u_password src \<noteq> []
      then Inr False
      else case resultArtifactOrigins (x_url x) (x_env x) of
             None \<Rightarrow> Inl (JsError None (js ''Invalid URL''))
           | Some os \<Rightarrow> Inr (u_origin src \<in> set os))"

fun read_body :: "nat \<Rightarrow> bytes list \<Rightarrow> nat \<Rightarrow> bytes list \<Rightarrow> (bytes list \<times> nat) option" where
  "read_body maxBytes [] n acc = Some (acc, n)"
| "read_body maxBytes (c # cs) n acc =
     (let n' = n + length c
      in if n' > maxBytes then None else read_body maxBytes cs n' (acc @ [c]))"

text \<open>\<^verbatim>\<open>Number(null)\<close> is 0: a response without a declared length passes the first test.\<close>

definition declared_length :: "fetch_response \<Rightarrow> jnum" where
  "declared_length resp =
     (case rs_contentLength resp of None \<Rightarrow> NumInt 0 | Some s \<Rightarrow> js_number s)"

definition download_artifact :: "ext \<Rightarrow> artifact \<Rightarrow> fetch_response \<Rightarrow> exn + bytes" where
  "download_artifact x a resp =
     (case (if rs_ok resp then rs_body resp else None) of
        None \<Rightarrow> Inl (JsError None (js ''gateway artifact download failed ('' @ js_of_nat (rs_status resp) @ js '')''))
      | Some chunks \<Rightarrow>
          let maxBytes = maxResultFileBytes (x_env x);
              mime = (case rs_contentType resp of
                        None \<Rightarrow> [] | Some c \<Rightarrow> js_trim (hd (js_split 59 c)))
          in if (case declared_length resp of NumInt i \<Rightarrow> i > int maxBytes | _ \<Rightarrow> False)
             then Inl (JsError None (js ''gateway artifact exceeds result file size limit''))
             else if mime \<noteq> [] \<and> mime \<noteq> af_mimeType a
             then Inl (JsError None (js ''gateway artifact MIME type does not match result metadata''))
             else case read_body maxBytes chunks 0 [] of
                    None \<Rightarrow> Inl (JsError None (js ''gateway artifact exceeds result file size limit''))
                  | Some (parts, n) \<Rightarrow>
                      if n < 1 then Inl (JsError None (js ''gateway artifact is empty''))
                      else if af_sizeBytes a \<noteq> None \<and> af_sizeBytes a \<noteq> Some n
                      then Inl (JsError None (js ''gateway artifact size does not match result metadata''))
                      else Inr (concat parts))"

definition storage_key :: "task \<Rightarrow> jstr \<Rightarrow> jstr \<Rightarrow> jstr" where
  "storage_key t uuid fileName =
     js ''users/'' @ t_userId t @ js ''/results/'' @ t_id t @ js ''/'' @ uuid @ js ''/'' @ fileName"

definition store_artifact ::
  "ext \<Rightarrow> task \<Rightarrow> url \<Rightarrow> artifact \<Rightarrow> bytes \<Rightarrow> api \<Rightarrow> api \<times> (exn + jstr \<times> artifact)" where
  "store_artifact x t src a body w =
     (let fileName = sanitizeFilename (af_fileName a);
          key = storage_key t (x_uuid x) fileName
      in case x_put x key of
           Inl e \<Rightarrow> (w, Inl e)
         | Inr etag \<Rightarrow>
             let w1 = w\<lparr>ap_objects := jm_set key (body, af_mimeType a) (ap_objects w)\<rparr>;
                 d = ap_db w1;
                 used = file_usage d (t_userId t) + artifact_usage d (t_userId t)
             in if used + length body > storageLimit (x_env x)
                then (fst (delete_object x key w1),
                      Inl (TooManyRequests (js ''user storage quota exceeded'')))
                else
                  (w1\<lparr>ap_db := d\<lparr>db_artifacts := db_artifacts d @
                     [\<lparr>ra_id = x_newId x, ra_userId = t_userId t, ra_taskId = t_id t, ra_resultId = None,
                       ra_kind = af_kind a, ra_fileName = fileName, ra_mimeType = af_mimeType a,
                       ra_sizeBytes = length body, ra_storageKey = key, ra_etag = etag,
                       ra_previewText = af_previewText a,
                       ra_sourceUrl = Some (u_origin src @ u_pathname src), ra_createdAt = x_now x\<rparr>]\<rparr>\<rparr>,
                   Inr (key, \<lparr>af_kind = af_kind a, af_fileName = fileName, af_mimeType = af_mimeType a,
                     af_artifactId = Some (x_newId x), af_downloadUrl = None,
                     af_previewText = af_previewText a, af_sizeBytes = Some (length body)\<rparr>)))"

definition archiveResultArtifact ::
  "ext \<Rightarrow> jstr \<Rightarrow> artifact \<Rightarrow> api \<Rightarrow> api \<times> (exn + jstr \<times> artifact)" where
  "archiveResultArtifact x taskId a w =
     (case find_task (ap_db w) taskId of
        None \<Rightarrow> (w, Inl (NotFound (js ''task not found'')))
      | Some t \<Rightarrow>
          (case Option.bind (af_downloadUrl a) (ua_parse (x_url x)) of
             None \<Rightarrow> (w, Inl (JsError None (js ''Invalid URL'')))
           | Some src \<Rightarrow>
               (case source_allowed x src of
                  Inl e \<Rightarrow> (w, Inl e)
                | Inr ok \<Rightarrow>
                    if \<not> ok
                    then (w, Inl (JsError None (js ''gateway artifact URL origin is not allowed'')))
                    else case x_fetch x src of
                           Inl e \<Rightarrow> (w, Inl e)
                         | Inr resp \<Rightarrow>
                             (case download_artifact x a resp of
                                Inl e \<Rightarrow> (w, Inl e)
                              | Inr body \<Rightarrow> store_artifact x t src a body w))))"

section \<open>Preparing and persisting an event\<close>

record prepared =
  pr_stored :: task_event
  pr_published :: task_event

definition prepareTaskEvent :: "ext \<Rightarrow> task_event \<Rightarrow> api \<Rightarrow> api \<times> (exn + prepared)" where
  "prepareTaskEvent x e w =
     (case ev_detail e of
        ResultCreated r \<Rightarrow>
          (case parse_artifact_result (x_vurl x) (result_json r) of
             None \<Rightarrow> (w, Inl (JsError None (js ''gateway artifact is missing a downloadable file URL'')))
           | Some a \<Rightarrow>
               if af_downloadUrl a = None \<or> af_downloadUrl a = Some []
               then (w, Inl (JsError None (js ''gateway artifact is missing a downloadable file URL'')))
               else case archiveResultArtifact x (ev_taskId (ev_base e)) a w of
                      (w', Inl err) \<Rightarrow> (w', Inl err)
                    | (w', Inr (key, arch)) \<Rightarrow>
                        (w', Inr \<lparr>pr_stored = e\<lparr>ev_detail := ResultCreated
                                      (ArtifactResult (arch\<lparr>af_downloadUrl := None\<rparr>))\<rparr>,
                                  pr_published = e\<lparr>ev_detail := ResultCreated
                                      (ArtifactResult (arch\<lparr>af_downloadUrl := Some (x_presign x key True)\<rparr>))\<rparr>\<rparr>))
      | _ \<Rightarrow> (w, Inr \<lparr>pr_stored = e, pr_published = e\<rparr>))"

text \<open>A source event id counts only where it is truthy.\<close>

definition given_id :: "jstr option \<Rightarrow> bool" where
  "given_id src \<longleftrightarrow> src \<noteq> None \<and> src \<noteq> Some []"

definition source_event_exists :: "db \<Rightarrow> jstr \<Rightarrow> jstr option \<Rightarrow> bool" where
  "source_event_exists d tid src \<longleftrightarrow>
     find (\<lambda>r. te_taskId r = tid \<and> te_sourceEventId r = src) (db_events d) \<noteq> None"

definition event_row_of :: "db \<Rightarrow> task_event \<Rightarrow> jstr option \<Rightarrow> event_row" where
  "event_row_of d e src =
     \<lparr>te_id = db_nextEvent d, te_taskId = ev_taskId (ev_base e), te_sourceEventId = src,
      te_type = event_type (ev_detail e), te_payload = event_json e\<rparr>"

definition create_event :: "db \<Rightarrow> event_row \<Rightarrow> db" where
  "create_event d r = d\<lparr>db_events := db_events d @ [r], db_nextEvent := Suc (db_nextEvent d)\<rparr>"

text \<open>All rows parsed, or the \<^verbatim>\<open>ZodError\<close> of the first that does not.\<close>

fun parse_rows :: "(jstr \<Rightarrow> bool) \<Rightarrow> event_row list \<Rightarrow> task_event list option" where
  "parse_rows vurl [] = Some []"
| "parse_rows vurl (r # rs) =
     (case parse_task_event vurl (te_payload r) of
        None \<Rightarrow> None
      | Some e \<Rightarrow> map_option ((#) e) (parse_rows vurl rs))"

fun delta_text :: "event_detail \<Rightarrow> jstr" where
  "delta_text (Delta s) = s"
| "delta_text _ = []"

fun detail_result :: "event_detail \<Rightarrow> event_result option" where
  "detail_result (ResultCreated r) = Some r"
| "detail_result _ = None"

definition output_text :: "task_event list \<Rightarrow> jstr" where
  "output_text es = concat (map (delta_text \<circ> ev_detail) es)"

definition structured_result :: "task_event list \<Rightarrow> event_result option" where
  "structured_result es =
     Option.bind (find (\<lambda>e. detail_result (ev_detail e) \<noteq> None) (rev es)) (detail_result \<circ> ev_detail)"

text \<open>The branch of \<^verbatim>\<open>task.completed\<close>: the result version is assembled from the task's log.\<close>

definition complete_task :: "ext \<Rightarrow> task \<Rightarrow> db \<Rightarrow> exn + db" where
  "complete_task x t d =
     (case parse_rows (x_vurl x) (events_of d (t_id t)) of
        None \<Rightarrow> Inl (JsError None (js ''ZodError''))
      | Some es \<Rightarrow>
          let outputText = output_text es;
              json = (case structured_result es of
                        Some r \<Rightarrow> result_json r
                      | None \<Rightarrow> JObj [(js ''type'', JStr (js ''text'')), (js ''text'', JStr outputText)]);
              d1 = d\<lparr>db_results := db_results d @
                     [\<lparr>r_id = x_newId x, r_taskId = t_id t, r_sessionId = t_sessionId t,
                       r_versionNo = latest_version d (t_sessionId t) + 1,
                       r_outputText = outputText, r_outputJson = json, r_createdAt = x_now x\<rparr>]\<rparr>;
              d2 = d1\<lparr>db_artifacts := map (\<lambda>a. if ra_taskId a = t_id t \<and> ra_resultId a = None
                                              then a\<lparr>ra_resultId := Some (x_newId x)\<rparr> else a)
                                          (db_artifacts d1)\<rparr>;
              d3 = upd_task (x_now x) (t_id t) (\<lambda>u. u\<lparr>t_status := Completed,
                     t_completedAt := Some (x_now x), t_errorCode := None, t_errorMessage := None\<rparr>) d2
          in Inr (upd_session (x_now x) (t_sessionId t)
                    (\<lambda>s. s\<lparr>s_status := Completed, s_currentTaskId := Some (t_id t)\<rparr>) d3))"

text \<open>The updates a new event makes to its task and session (\<open>t\<close> is the row read first).\<close>

definition apply_event :: "ext \<Rightarrow> task \<Rightarrow> task_event \<Rightarrow> db \<Rightarrow> exn + db" where
  "apply_event x t e d =
     (case ev_detail e of
        Accepted \<Rightarrow>
          Inr (upd_task (x_now x) (t_id t) (\<lambda>u. u\<lparr>t_status := Running,
                 t_runId := Some (ev_runId (ev_base e)),
                 t_startedAt := (case t_startedAt t of Some s \<Rightarrow> Some s | None \<Rightarrow> Some (x_now x))\<rparr>) d)
      | FailedEv c m \<Rightarrow>
          Inr (upd_session (x_now x) (t_sessionId t) (\<lambda>s. s\<lparr>s_status := Failed\<rparr>)
                (upd_task (x_now x) (t_id t) (\<lambda>u. u\<lparr>t_status := Failed, t_errorCode := Some c,
                   t_errorMessage := Some m, t_completedAt := Some (x_now x)\<rparr>) d))
      | CancelledEv m \<Rightarrow>
          Inr (upd_session (x_now x) (t_sessionId t) (\<lambda>s. s\<lparr>s_status := Cancelled\<rparr>)
                (upd_task (x_now x) (t_id t) (\<lambda>u. u\<lparr>t_status := Cancelled,
                   t_errorCode := Some (js ''TASK_CANCELLED''), t_errorMessage := Some m,
                   t_completedAt := Some (x_now x)\<rparr>) d))
      | CompletedEv \<Rightarrow> complete_task x t d
      | _ \<Rightarrow> Inr d)"

record persisted =
  ps_id :: nat
  ps_event :: task_event
  ps_userId :: jstr
  ps_title :: jstr

text \<open>
  The transaction. It does nothing for a missing or terminal task and for a source event
  already stored; an error rolls everything back.
\<close>

definition persist_tx ::
  "ext \<Rightarrow> prepared \<Rightarrow> jstr option \<Rightarrow> db \<Rightarrow> exn + db \<times> persisted option" where
  "persist_tx x p src d =
     (let e = pr_stored p; tid = ev_taskId (ev_base e)
      in case find_task d tid of
           None \<Rightarrow> Inr (d, None)
         | Some t \<Rightarrow>
             if isTerminalStatus (t_status t) then Inr (d, None)
             else if given_id src \<and> source_event_exists d tid src then Inr (d, None)
             else if src \<noteq> None \<and> source_event_exists d tid src
             then Inl (JsError (Some (js ''P2002'')) (js ''Unique constraint failed''))
             else
               let r = event_row_of d e src
               in case apply_event x t e (create_event d r) of
                    Inl err \<Rightarrow> Inl err
                  | Inr d' \<Rightarrow>
                      Inr (d', Some \<lparr>ps_id = te_id r, ps_event = pr_published p, ps_userId = t_userId t,
                        ps_title = (case find_session d (t_sessionId t) of
                                      Some s \<Rightarrow> s_title s | None \<Rightarrow> [])\<rparr>))"

text \<open>The notification texts: "task completed, tap to view", "task failed:", "task cancelled".\<close>

definition msg_completed :: jstr where
  "msg_completed = [0x4EFB, 0x52A1, 0x5DF2, 0x5B8C, 0x6210, 0xFF0C, 0x70B9, 0x51FB, 0x67E5, 0x770B, 0x7ED3, 0x679C]"

definition msg_failed :: "jstr \<Rightarrow> jstr" where
  "msg_failed m = [0x4EFB, 0x52A1, 0x5931, 0x8D25, 0xFF1A] @ m"

definition msg_cancelled :: jstr where
  "msg_cancelled = [0x4EFB, 0x52A1, 0x5DF2, 0x53D6, 0x6D88]"

definition terminal_push :: "persisted \<Rightarrow> task_event \<Rightarrow> push_message list" where
  "terminal_push ps e =
     (if terminal_detail (ev_detail e)
      then [\<lparr>pm_userId = ps_userId ps, pm_taskId = ev_taskId (ev_base e),
             pm_status = drop 5 (event_type (ev_detail e)), pm_title = ps_title ps,
             pm_message = (case ev_detail e of
                             CompletedEv \<Rightarrow> msg_completed
                           | FailedEv c m \<Rightarrow> msg_failed m
                           | _ \<Rightarrow> msg_cancelled)\<rparr>]
      else [])"

text \<open>The whole of \<^verbatim>\<open>persistTaskEvent\<close>: early return, preparation, transaction, publication.\<close>

definition persistTaskEvent ::
  "ext \<Rightarrow> task_event \<Rightarrow> jstr option \<Rightarrow> api \<Rightarrow> api \<times> (exn + unit)" where
  "persistTaskEvent x e src w =
     (if given_id src \<and> source_event_exists (ap_db w) (ev_taskId (ev_base e)) src
      then (w, Inr ())
      else case prepareTaskEvent x e w of
             (w1, Inl err) \<Rightarrow> (w1, Inl err)
           | (w1, Inr p) \<Rightarrow>
               (case persist_tx x p src (ap_db w1) of
                  Inl err \<Rightarrow> (w1, Inl err)
                | Inr (d, None) \<Rightarrow> (w1\<lparr>ap_db := d\<rparr>, Inr ())
                | Inr (d, Some ps) \<Rightarrow>
                    let pub = pr_published p
                    in (w1\<lparr>ap_db := d,
                           ap_published := ap_published w1 @ [(ev_taskId (ev_base pub), ps_id ps, pub)],
                           ap_push := ap_push w1 @ terminal_push ps pub\<rparr>, Inr ())))"

definition run_id_or_task :: "task \<Rightarrow> jstr" where
  "run_id_or_task t = (case t_runId t of Some r \<Rightarrow> r | None \<Rightarrow> t_id t)"

definition failTask :: "ext \<Rightarrow> jstr \<Rightarrow> jstr \<Rightarrow> jstr \<Rightarrow> api \<Rightarrow> api \<times> (exn + unit)" where
  "failTask x taskId code message w =
     (case find_task (ap_db w) taskId of
        None \<Rightarrow> (w, Inr ())
      | Some t \<Rightarrow>
          if isTerminalStatus (t_status t) then (w, Inr ())
          else persistTaskEvent x
                 \<lparr>ev_base = \<lparr>ev_taskId = t_id t, ev_sessionId = t_sessionId t,
                    ev_runId = run_id_or_task t, ev_timestamp = x_iso x\<rparr>,
                  ev_detail = FailedEv code message\<rparr> None w)"

section \<open>Reading stored events and results\<close>

definition artifact_client :: "ext \<Rightarrow> db_artifact \<Rightarrow> artifact" where
  "artifact_client x a =
     \<lparr>af_kind = ra_kind a, af_fileName = ra_fileName a, af_mimeType = ra_mimeType a,
      af_artifactId = Some (ra_id a), af_downloadUrl = Some (x_presign x (ra_storageKey a) True),
      af_previewText = ra_previewText a, af_sizeBytes = Some (ra_sizeBytes a)\<rparr>"

definition hydrateStoredEvent :: "ext \<Rightarrow> db \<Rightarrow> task_event \<Rightarrow> task_event" where
  "hydrateStoredEvent x d e =
     (case ev_detail e of
        ResultCreated r \<Rightarrow>
          (case Option.bind (parse_artifact_result (x_vurl x) (result_json r)) af_artifactId of
             None \<Rightarrow> e
           | Some aid \<Rightarrow>
               if aid = [] then e
               else case find (\<lambda>a. ra_id a = aid \<and> ra_taskId a = ev_taskId (ev_base e)) (db_artifacts d) of
                      None \<Rightarrow> e
                    | Some a \<Rightarrow> e\<lparr>ev_detail := ResultCreated (ArtifactResult (artifact_client x a))\<rparr>)
      | _ \<Rightarrow> e)"

record client_result =
  cr_id :: jstr
  cr_taskId :: jstr
  cr_sessionId :: jstr
  cr_versionNo :: nat
  cr_outputText :: jstr
  cr_outputJson :: json
  cr_createdAt :: nat

definition toClientResult :: "ext \<Rightarrow> db \<Rightarrow> task_result \<Rightarrow> client_result" where
  "toClientResult x d r =
     (let arts = filter (\<lambda>a. ra_resultId a = Some (r_id r)) (db_artifacts d);
          outId = Option.bind (parse_artifact_result (x_vurl x) (r_outputJson r)) af_artifactId;
          chosen = (case find (\<lambda>a. Some (ra_id a) = outId) arts of
                      Some a \<Rightarrow> Some a
                    | None \<Rightarrow> (case arts of [] \<Rightarrow> None | a # _ \<Rightarrow> Some a))
      in \<lparr>cr_id = r_id r, cr_taskId = r_taskId r, cr_sessionId = r_sessionId r,
          cr_versionNo = r_versionNo r, cr_outputText = r_outputText r,
          cr_outputJson = (case chosen of
                             Some a \<Rightarrow> artifact_result_json (artifact_client x a)
                           | None \<Rightarrow> r_outputJson r),
          cr_createdAt = r_createdAt r\<rparr>)"

text \<open>
  \<^verbatim>\<open>listTaskEvents\<close>: owned, after an id, in id order, hydrated.
\<close>

definition assertTaskOwnership :: "db \<Rightarrow> jstr \<Rightarrow> jstr \<Rightarrow> exn + unit" where
  "assertTaskOwnership d uid tid =
     (if length (filter (\<lambda>t. t_id t = tid \<and> t_userId t = uid) (db_tasks d)) = 0
      then Inl (NotFound (js ''task not found'')) else Inr ())"

definition listTaskEvents ::
  "ext \<Rightarrow> db \<Rightarrow> jstr \<Rightarrow> jstr \<Rightarrow> nat \<Rightarrow> exn + (nat \<times> task_event) list" where
  "listTaskEvents x d uid tid afterId =
     (case assertTaskOwnership d uid tid of
        Inl e \<Rightarrow> Inl e
      | Inr _ \<Rightarrow>
          let rows = sort_key te_id (filter (\<lambda>r. te_taskId r = tid \<and> te_id r > afterId) (db_events d))
          in case parse_rows (x_vurl x) rows of
               None \<Rightarrow> Inl (JsError None (js ''ZodError''))
             | Some es \<Rightarrow> Inr (zip (map te_id rows) (map (hydrateStoredEvent x d) es)))"

end
