(* ===== verification/TaskLog.thy ===== *)
theory TaskLog
  imports TaskEvents
begin

text \<open>
  The task log of the API: persisting an event keeps the database invariant, the log of a
  task only grows, a terminal task does not change, a redelivered event changes nothing,
  and a completed task's result is the text of its log. The rows of a task are a resumable
  log, which \<^verbatim>\<open>listTaskEvents\<close> reads.
\<close>

section \<open>One event appended\<close>

text \<open>
  The shape of every step that stores an event \<open>r\<close>: the row is appended, the task of the
  row and its session are updated in place, and nothing else of the log changes.
\<close>

definition log_step ::
  "(jstr \<Rightarrow> bool) \<Rightarrow> db \<Rightarrow> event_row \<Rightarrow> event_detail \<Rightarrow> (task \<Rightarrow> task) \<Rightarrow> (session \<Rightarrow> session) \<Rightarrow> db \<Rightarrow> bool" where
  "log_step vurl d r dt g h d' \<longleftrightarrow>
     db_events d' = db_events d @ [r] \<and> db_nextEvent d' = Suc (db_nextEvent d)
     \<and> te_id r = db_nextEvent d \<and> row_ok vurl r \<and> row_detail vurl r = Some dt
     \<and> (te_sourceEventId r = None \<or> \<not> source_event_exists d (te_taskId r) (te_sourceEventId r))
     \<and> db_tasks d' = map (\<lambda>u. if t_id u = te_taskId r then g u else u) (db_tasks d)
     \<and> db_sessions d' = map h (db_sessions d)
     \<and> (\<forall>u. t_id (g u) = t_id u \<and> t_sessionId (g u) = t_sessionId u) \<and> (\<forall>s. s_id (h s) = s_id s)
     \<and> (\<forall>u. t_status (g u) =
          (case detail_status dt of Some st \<Rightarrow> st
           | None \<Rightarrow> if dt = Accepted then Running else t_status u))
     \<and> versions_ok d'"

lemma terminal_detail_status: "terminal_detail dt \<longleftrightarrow> detail_status dt \<noteq> None"
  by (cases dt) simp_all

lemma detail_status_terminal: "detail_status dt = Some st \<Longrightarrow> isTerminalStatus st"
  by (cases dt) (auto simp: isTerminalStatus_def)

lemma find_map_key:
  "(\<And>x. k (g x) = k x) \<Longrightarrow> find (\<lambda>x. k x = i) (map g xs) = map_option g (find (\<lambda>x. k x = i) xs)"
  by (induction xs) auto

lemma log_step_find_task:
  assumes "log_step vurl d r dt g h d'"
  shows "find_task d' i = map_option (\<lambda>u. if t_id u = te_taskId r then g u else u) (find_task d i)"
  using assms unfolding log_step_def find_task_def
  by (simp add: find_map_key [where g = "\<lambda>u. if t_id u = te_taskId r then g u else u"])

lemma log_step_find_session:
  assumes "log_step vurl d r dt g h d'"
  shows "find_session d' i = map_option h (find_session d i)"
  using assms unfolding log_step_def find_session_def by (simp add: find_map_key)

lemma log_step_log:
  assumes "log_step vurl d r dt g h d'"
  shows "task_log vurl d' i = task_log vurl d i @ (if i = te_taskId r then [Some dt] else [])"
  using assms by (auto simp: task_log_def log_step_def)

lemma log_step_keys:
  assumes "log_step vurl d r dt g h d'" "keys_ok d" "find_task d (te_taskId r) \<noteq> None"
  shows "keys_ok d'"
proof -
  note fts = log_step_find_task [OF assms(1)] log_step_find_session [OF assms(1)]
  have "map t_id (db_tasks d') = map t_id (db_tasks d)"
    "map s_id (db_sessions d') = map s_id (db_sessions d)"
    using assms(1) by (simp_all add: log_step_def)
  moreover have "list_all (\<lambda>t. find_session d' (t_sessionId t) \<noteq> None) (db_tasks d')"
    unfolding fts using assms(1,2) by (auto simp: log_step_def keys_ok_def list_all_iff)
  moreover have "list_all (\<lambda>r. find_task d' (te_taskId r) \<noteq> None) (db_events d')"
    unfolding fts using assms by (auto simp: log_step_def keys_ok_def list_all_iff)
  ultimately show ?thesis using assms(2) by (simp add: keys_ok_def)
qed

lemma events_ok_append:
  assumes "events_ok vurl d" "db_events d' = db_events d @ [r]" "db_nextEvent d' = Suc (db_nextEvent d)"
    and "te_id r = db_nextEvent d" "row_ok vurl r"
    and "te_sourceEventId r = None \<or> \<not> source_event_exists d (te_taskId r) (te_sourceEventId r)"
  shows "events_ok vurl d'"
proof -
  have "(te_taskId r, te_sourceEventId r) \<notin> (\<lambda>r. (te_taskId r, te_sourceEventId r)) `
      {x \<in> set (db_events d). te_sourceEventId x \<noteq> None}" if "te_sourceEventId r \<noteq> None"
    using assms(6) that by (auto simp: source_event_exists_def find_None_all)
  then show ?thesis
    using assms unfolding events_ok_def
    by (auto simp: sorted_wrt_append list_all_iff less_Suc_eq)
qed

lemma log_step_events:
  assumes "log_step vurl d r dt g h d'" "events_ok vurl d"
  shows "events_ok vurl d'"
  by (rule events_ok_append [OF assms(2), of d' r]) (use assms(1) in \<open>simp_all add: log_step_def\<close>)

lemma status_matches_append:
  assumes "\<not> isTerminalStatus st" "status_matches st ds"
  shows "status_matches (case detail_status dt of Some s \<Rightarrow> s
           | None \<Rightarrow> if dt = Accepted then Running else st) (ds @ [Some dt])"
proof (cases "detail_status dt")
  case None
  then show ?thesis
    using assms terminal_detail_status [of dt]
    by (simp add: status_matches_def Let_def isTerminalStatus_def)
next
  case (Some s)
  then show ?thesis
    using assms detail_status_terminal [of dt s] by (simp add: status_matches_def Let_def)
qed

lemma log_step_statuses:
  assumes "log_step vurl d r dt g h d'" "statuses_ok vurl d" "keys_ok d"
    and "find_task d (te_taskId r) = Some t" "\<not> isTerminalStatus (t_status t)"
  shows "statuses_ok vurl d'"
  unfolding statuses_ok_def list_all_iff
proof
  fix u assume u: "u \<in> set (db_tasks d')"
  then obtain v where v: "v \<in> set (db_tasks d)"
    "u = (if t_id v = te_taskId r then g v else v)"
    using assms(1) by (auto simp: log_step_def)
  have old: "status_matches (t_status v) (task_log vurl d (t_id v))"
    using assms(2) v(1) by (simp add: statuses_ok_def list_all_iff)
  show "status_matches (t_status u) (task_log vurl d' (t_id u))"
  proof (cases "t_id v = te_taskId r")
    case True
    then have "v = t" using find_task_unique [OF assms(3) v(1)] assms(4) by simp
    with True v(2) old assms(5) status_matches_append [of "t_status t" _ dt]
    show ?thesis using assms(1) by (simp add: log_step_log [OF assms(1)] log_step_def)
  next
    case False
    with v(2) old show ?thesis by (simp add: log_step_log [OF assms(1)])
  qed
qed

lemma log_step_ok:
  assumes "log_step vurl d r dt g h d'" "db_ok vurl d"
    and "find_task d (te_taskId r) = Some t" "\<not> isTerminalStatus (t_status t)"
  shows "db_ok vurl d'"
proof -
  have "keys_ok d'" using log_step_keys [OF assms(1) db_okD(1) [OF assms(2)]] assms(3) by simp
  moreover have "events_ok vurl d'" by (rule log_step_events [OF assms(1) db_okD(2) [OF assms(2)]])
  moreover have "statuses_ok vurl d'"
    by (rule log_step_statuses [OF assms(1) db_okD(3,1) [OF assms(2)] assms(3,4)])
  moreover have "versions_ok d'" using assms(1) by (simp add: log_step_def)
  ultimately show ?thesis by (simp add: db_ok_def)
qed

section \<open>The branches of the transaction are such steps\<close>

lemma create_event_frame [simp, frame]:
  "db_tasks (create_event d r) = db_tasks d" "db_sessions (create_event d r) = db_sessions d"
  "db_results (create_event d r) = db_results d" "db_files (create_event d r) = db_files d"
  "db_artifacts (create_event d r) = db_artifacts d"
  "db_events (create_event d r) = db_events d @ [r]"
  "db_nextEvent (create_event d r) = Suc (db_nextEvent d)"
  by (simp_all add: create_event_def)

lemma event_row_of_fields [simp]:
  "te_id (event_row_of d e src) = db_nextEvent d"
  "te_taskId (event_row_of d e src) = ev_taskId (ev_base e)"
  "te_sourceEventId (event_row_of d e src) = src"
  "te_payload (event_row_of d e src) = event_json e"
  "te_type (event_row_of d e src) = event_type (ev_detail e)"
  by (simp_all add: event_row_of_def)

lemma event_row_of_ok:
  assumes "detail_ok vurl (ev_detail e)"
  shows "row_ok vurl (event_row_of d e src)" "row_detail vurl (event_row_of d e src) = Some (ev_detail e)"
  by (simp_all add: row_ok_def row_detail_def parse_task_event_json [OF assms])

lemma versions_ok_cong: "db_results d' = db_results d \<Longrightarrow> versions_ok d' = versions_ok d"
  by (simp add: versions_ok_def)

lemma versions_ok_append:
  assumes "versions_ok d" "db_results d' = db_results d @ [r]"
    "r_versionNo r = latest_version d (r_sessionId r) + 1"
  shows "versions_ok d'"
  using assms(1) unfolding versions_ok_def Let_def assms(2)
  by (auto simp: assms(3) latest_version_eq [OF assms(1)])

lemma latest_version_cong: "db_results d' = db_results d \<Longrightarrow> latest_version d' s = latest_version d s"
  by (simp add: latest_version_def)

lemma complete_task_step:
  assumes "versions_ok d" "complete_task x t d = Inr d'"
  shows "db_events d' = db_events d \<and> db_nextEvent d' = db_nextEvent d
    \<and> db_tasks d' = map (\<lambda>u. if t_id u = t_id t then u\<lparr>t_status := Completed,
        t_completedAt := Some (x_now x), t_errorCode := None, t_errorMessage := None,
        t_updatedAt := x_now x\<rparr> else u) (db_tasks d)
    \<and> db_sessions d' = map (\<lambda>s. if s_id s = t_sessionId t then s\<lparr>s_status := Completed,
        s_currentTaskId := Some (t_id t), s_updatedAt := x_now x\<rparr> else s) (db_sessions d)
    \<and> versions_ok d'"
proof -
  from assms(2) obtain es where "parse_rows (x_vurl x) (events_of d (t_id t)) = Some es"
    by (auto simp: complete_task_def split: option.splits)
  then have d': "\<exists>r. db_results d' = db_results d @ [r]
      \<and> r_versionNo r = latest_version d (r_sessionId r) + 1"
    using assms(2) by (auto simp: complete_task_def Let_def)
  then have "versions_ok d'" using versions_ok_append [OF assms(1)] by blast
  then show ?thesis
    using assms(2) by (auto simp: complete_task_def Let_def upd_task_def upd_session_def
        split: option.splits intro!: map_cong)
qed

lemma apply_event_step:
  assumes "versions_ok d" "detail_ok (x_vurl x) (ev_detail e)"
    and "find_task d (ev_taskId (ev_base e)) = Some t"
    and "src = None \<or> \<not> source_event_exists d (ev_taskId (ev_base e)) src"
    and "apply_event x t e (create_event d (event_row_of d e src)) = Inr d'"
  shows "\<exists>g h. log_step (x_vurl x) d (event_row_of d e src) (ev_detail e) g h d'"
proof -
  let ?r = "event_row_of d e src" and ?i = "ev_taskId (ev_base e)"
  have tid: "t_id t = ?i" using find_task_SomeD [OF assms(3)] by simp
  have v: "versions_ok (create_event d ?r)" using assms(1) by (simp add: versions_ok_def)
  have step: "log_step (x_vurl x) d ?r (ev_detail e) g h d'"
    if "db_events d' = db_events d @ [?r]" "db_nextEvent d' = Suc (db_nextEvent d)"
      "db_tasks d' = map (\<lambda>u. if t_id u = ?i then g u else u) (db_tasks d)"
      "db_sessions d' = map h (db_sessions d)" "versions_ok d'"
      "\<forall>u. t_id (g u) = t_id u \<and> t_sessionId (g u) = t_sessionId u" "\<forall>s. s_id (h s) = s_id s"
      "\<forall>u. t_status (g u) = (case detail_status (ev_detail e) of Some st \<Rightarrow> st
           | None \<Rightarrow> if ev_detail e = Accepted then Running else t_status u)" for g h
    using that assms(4) event_row_of_ok [OF assms(2)] by (simp add: log_step_def)
  have same: "versions_ok d'" if "db_results d' = db_results d"
    using assms(1) that by (simp add: versions_ok_def)
  have plain: ?thesis if "d' = create_event d ?r" "detail_status (ev_detail e) = None"
    "ev_detail e \<noteq> Accepted"
    using that v by (intro exI [of _ "\<lambda>u. u"] exI [of _ "\<lambda>s. s"], intro step) auto
  show ?thesis
  proof (cases "ev_detail e")
    case Accepted
    have "versions_ok d'"
      by (rule same) (use assms(5) in \<open>auto simp: apply_event_def Accepted upd_task_def\<close>)
    then show ?thesis
      by (intro exI [of _ "\<lambda>u. u\<lparr>t_status := Running, t_runId := Some (ev_runId (ev_base e)),
            t_startedAt := (case t_startedAt t of Some s \<Rightarrow> Some s | None \<Rightarrow> Some (x_now x)),
            t_updatedAt := x_now x\<rparr>"] exI [of _ "\<lambda>s. s"], intro step)
        (use assms(5) in \<open>auto simp: apply_event_def Accepted tid upd_task_def\<close>)
  next
    case (FailedEv c m)
    have "versions_ok d'"
      by (rule same) (use assms(5) in \<open>auto simp: apply_event_def FailedEv upd_task_def upd_session_def\<close>)
    moreover have "db_sessions d' = map (\<lambda>s. if s_id s = t_sessionId t
        then s\<lparr>s_status := Failed, s_updatedAt := x_now x\<rparr> else s) (db_sessions d)"
      using assms(5) by (auto simp: apply_event_def FailedEv upd_task_def upd_session_def)
    ultimately show ?thesis
      by (intro exI [of _ "\<lambda>u. u\<lparr>t_status := Failed, t_errorCode := Some c,
            t_errorMessage := Some m, t_completedAt := Some (x_now x), t_updatedAt := x_now x\<rparr>"] exI [of _ "\<lambda>s. if s_id s = t_sessionId t
            then s\<lparr>s_status := Failed, s_updatedAt := x_now x\<rparr> else s"],
          intro step)
        (use assms(5) in \<open>auto simp: apply_event_def FailedEv tid upd_task_def upd_session_def\<close>)
  next
    case (CancelledEv m)
    have "versions_ok d'"
      by (rule same) (use assms(5) in \<open>auto simp: apply_event_def CancelledEv upd_task_def upd_session_def\<close>)
    moreover have "db_sessions d' = map (\<lambda>s. if s_id s = t_sessionId t
        then s\<lparr>s_status := Cancelled, s_updatedAt := x_now x\<rparr> else s) (db_sessions d)"
      using assms(5) by (auto simp: apply_event_def CancelledEv upd_task_def upd_session_def)
    ultimately show ?thesis
      by (intro exI [of _ "\<lambda>u. u\<lparr>t_status := Cancelled, t_errorCode := Some (js ''TASK_CANCELLED''),
            t_errorMessage := Some m, t_completedAt := Some (x_now x), t_updatedAt := x_now x\<rparr>"] exI [of _ "\<lambda>s. if s_id s = t_sessionId t
            then s\<lparr>s_status := Cancelled, s_updatedAt := x_now x\<rparr> else s"],
          intro step)
        (use assms(5) in \<open>auto simp: apply_event_def CancelledEv tid upd_task_def upd_session_def\<close>)
  next
    case CompletedEv
    have "complete_task x t (create_event d ?r) = Inr d'"
      using assms(5) by (simp add: apply_event_def CompletedEv)
    note c = complete_task_step [OF v this]
    show ?thesis
      by (intro exI [of _ "\<lambda>u. u\<lparr>t_status := Completed, t_completedAt := Some (x_now x),
            t_errorCode := None, t_errorMessage := None, t_updatedAt := x_now x\<rparr>"]
          exI [of _ "\<lambda>s. if s_id s = t_sessionId t then s\<lparr>s_status := Completed,
            s_currentTaskId := Some (t_id t), s_updatedAt := x_now x\<rparr> else s"], intro step)
        (use c in \<open>simp_all add: tid CompletedEv\<close>)
  qed (rule plain; use assms(5) in \<open>simp add: apply_event_def\<close>)+
qed

section \<open>The transaction\<close>

text \<open>The three outcomes of the transaction: nothing to do, an event stored, an error.\<close>

lemma persist_tx_idle:
  assumes "persist_tx x p src d = Inr (d', None)"
  shows "d' = d"
  using assms by (auto simp: persist_tx_def Let_def split: option.splits if_splits sum.splits)

lemma persist_tx_stored:
  assumes "persist_tx x p src d = Inr (d', Some ps)"
  obtains t where "find_task d (ev_taskId (ev_base (pr_stored p))) = Some t"
    "\<not> isTerminalStatus (t_status t)"
    "src = None \<or> \<not> source_event_exists d (ev_taskId (ev_base (pr_stored p))) src"
    "apply_event x t (pr_stored p) (create_event d (event_row_of d (pr_stored p) src)) = Inr d'"
    "ps_id ps = db_nextEvent d" "ps_event ps = pr_published p" "ps_userId ps = t_userId t"
  using assms by (auto simp: persist_tx_def Let_def split: option.splits if_splits sum.splits)

lemma persist_tx_step:
  assumes "persist_tx x p src d = Inr (d', Some ps)" "versions_ok d"
    and "detail_ok (x_vurl x) (ev_detail (pr_stored p))"
  obtains t g h where
    "find_task d (ev_taskId (ev_base (pr_stored p))) = Some t" "\<not> isTerminalStatus (t_status t)"
    "log_step (x_vurl x) d (event_row_of d (pr_stored p) src) (ev_detail (pr_stored p)) g h d'"
  using persist_tx_stored [OF assms(1)] apply_event_step [OF assms(2,3)] by metis

lemma persist_tx_ok:
  assumes "persist_tx x p src d = Inr (d', r)" "db_ok (x_vurl x) d"
    and "detail_ok (x_vurl x) (ev_detail (pr_stored p))"
  shows "db_ok (x_vurl x) d' \<and> prefix (db_events d) (db_events d')"
proof (cases r)
  case None
  then show ?thesis using persist_tx_idle assms by blast
next
  case (Some ps)
  with assms(1) have "persist_tx x p src d = Inr (d', Some ps)" by simp
  from persist_tx_step [OF this db_okD(4) [OF assms(2)] assms(3)]
  obtain t g h where t: "find_task d (ev_taskId (ev_base (pr_stored p))) = Some t"
    "\<not> isTerminalStatus (t_status t)"
    and l: "log_step (x_vurl x) d (event_row_of d (pr_stored p) src) (ev_detail (pr_stored p)) g h d'"
    by metis
  have "db_ok (x_vurl x) d'"
    by (rule log_step_ok [OF l assms(2)]) (use t in simp_all)
  moreover have "prefix (db_events d) (db_events d')"
    using l by (simp add: log_step_def)
  ultimately show ?thesis ..
qed

text \<open>The tables the log rests on; archiving a file touches none of them.\<close>

definition same_log :: "db \<Rightarrow> db \<Rightarrow> bool" where
  "same_log d d' \<longleftrightarrow> db_tasks d' = db_tasks d \<and> db_sessions d' = db_sessions d
     \<and> db_results d' = db_results d \<and> db_events d' = db_events d
     \<and> db_nextEvent d' = db_nextEvent d"

lemma same_log_refl [simp]: "same_log d d"
  by (simp add: same_log_def)

lemma same_log_ok: "same_log d d' \<Longrightarrow> db_ok vurl d' = db_ok vurl d"
  unfolding same_log_def by (rule db_ok_cong) simp_all

lemma same_log_find:
  assumes "same_log d d'"
  shows "find_task d' = find_task d" "source_event_exists d' = source_event_exists d"
    "task_log vurl d' = task_log vurl d" "find_session d' = find_session d"
    "events_of d' = events_of d" "latest_version d' = latest_version d" "versions_ok d' = versions_ok d"
    "db_results d' = db_results d" "db_tasks d' = db_tasks d" "db_nextEvent d' = db_nextEvent d"
    "db_events d' = db_events d"
  using assms by (auto simp: same_log_def find_task_def source_event_exists_def task_log_def
      find_session_def events_of_def latest_version_def versions_ok_def fun_eq_iff)

definition same_outbox :: "api \<Rightarrow> api \<Rightarrow> bool" where
  "same_outbox w w' \<longleftrightarrow> ap_published w' = ap_published w \<and> ap_push w' = ap_push w"

lemma delete_object_frame:
  "ap_db (fst (delete_object x k w)) = ap_db w" "same_outbox w (fst (delete_object x k w))"
  by (simp_all add: delete_object_def same_outbox_def split: option.split)

lemma archive_frame:
  "same_log (ap_db w) (ap_db (fst (archiveResultArtifact x i a w)))
   \<and> same_outbox w (fst (archiveResultArtifact x i a w))"
proof -
  have "same_log (ap_db w) (ap_db (fst (store_artifact x t src a b w)))
     \<and> same_outbox w (fst (store_artifact x t src a b w))" for t src b
    by (simp add: store_artifact_def Let_def delete_object_frame same_log_def same_outbox_def
        delete_object_def split: sum.split option.split)
  then show ?thesis
    by (auto simp: archiveResultArtifact_def same_outbox_def split: sum.split option.split)
qed

lemma prepare_frame:
  "same_log (ap_db w) (ap_db (fst (prepareTaskEvent x e w)))
   \<and> same_outbox w (fst (prepareTaskEvent x e w))"
proof -
  have "same_log (ap_db w) (ap_db w') \<and> same_outbox w w'"
    if "archiveResultArtifact x i a w = (w', r)" for i a w' r
    using archive_frame [of w x i a] that by simp
  then show ?thesis
    by (auto simp: prepareTaskEvent_def same_outbox_def
        split: event_detail.split option.split prod.split sum.split)
qed

lemma store_artifact_url:
  "store_artifact x t src a b w = (w', Inr (k, arch)) \<Longrightarrow> af_downloadUrl arch = None"
  by (auto simp: store_artifact_def Let_def split: sum.splits if_splits)

lemma prepare_result:
  assumes "prepareTaskEvent x e w = (w', Inr p)"
  shows "detail_ok (x_vurl x) (ev_detail (pr_stored p)) \<and> ev_base (pr_stored p) = ev_base e
    \<and> ev_base (pr_published p) = ev_base e
    \<and> event_type (ev_detail (pr_stored p)) = event_type (ev_detail e)
    \<and> event_type (ev_detail (pr_published p)) = event_type (ev_detail e)
    \<and> (terminal_detail (ev_detail e) \<longrightarrow> pr_stored p = e \<and> pr_published p = e \<and> w' = w)"
  using assms
  by (cases "ev_detail e")
    (auto simp: prepareTaskEvent_def artifact_ok_def split: option.splits if_splits prod.splits sum.splits)

section \<open>Persisting an event\<close>

lemma persistTaskEvent_cases:
  obtains (skip) "given_id src" "source_event_exists (ap_db w) (ev_taskId (ev_base e)) src"
      "persistTaskEvent x e src w = (w, Inr ())"
  | (prepare) w1 err where "prepareTaskEvent x e w = (w1, Inl err)"
      "persistTaskEvent x e src w = (w1, Inl err)"
  | (rollback) w1 p err where "prepareTaskEvent x e w = (w1, Inr p)"
      "persist_tx x p src (ap_db w1) = Inl err" "persistTaskEvent x e src w = (w1, Inl err)"
  | (idle) w1 p where "prepareTaskEvent x e w = (w1, Inr p)"
      "persist_tx x p src (ap_db w1) = Inr (ap_db w1, None)" "persistTaskEvent x e src w = (w1, Inr ())"
  | (stored) w1 p d ps where "prepareTaskEvent x e w = (w1, Inr p)"
      "persist_tx x p src (ap_db w1) = Inr (d, Some ps)"
      "persistTaskEvent x e src w = (w1\<lparr>ap_db := d,
         ap_published := ap_published w1 @ [(ev_taskId (ev_base (pr_published p)), ps_id ps, pr_published p)],
         ap_push := ap_push w1 @ terminal_push ps (pr_published p)\<rparr>, Inr ())"
proof (cases "given_id src \<and> source_event_exists (ap_db w) (ev_taskId (ev_base e)) src")
  case True
  then show ?thesis using skip by (simp add: persistTaskEvent_def)
next
  case new: False
  obtain w1 r where prep: "prepareTaskEvent x e w = (w1, r)" by fastforce
  show ?thesis
  proof (cases r)
    case (Inl err)
    then show ?thesis using prepare new prep by (simp add: persistTaskEvent_def)
  next
    case (Inr p)
    note prep = prep [unfolded Inr]
    show ?thesis
    proof (cases "persist_tx x p src (ap_db w1)")
      case (Inl err)
      then show ?thesis using rollback [OF prep] new prep by (simp add: persistTaskEvent_def)
    next
      case (Inr q)
      obtain d ps where q: "q = (d, ps)" by fastforce
      show ?thesis
      proof (cases ps)
        case None
        then have tx: "persist_tx x p src (ap_db w1) = Inr (d, None)" using Inr q by simp
        then show ?thesis using idle [OF prep] persist_tx_idle [OF tx] new prep
          by (simp add: persistTaskEvent_def)
      next
        case (Some s)
        then show ?thesis using stored [OF prep] Inr q new prep
          by (simp add: persistTaskEvent_def Let_def)
      qed
    qed
  qed
qed

lemma persist_keeps:
  assumes "db_ok (x_vurl x) (ap_db w)"
  shows "db_ok (x_vurl x) (ap_db (fst (persistTaskEvent x e src w)))
    \<and> prefix (db_events (ap_db w)) (db_events (ap_db (fst (persistTaskEvent x e src w))))"
proof (cases rule: persistTaskEvent_cases [of src w e x])
  case (prepare w1 err)
  then have s: "same_log (ap_db w) (ap_db w1)" using prepare_frame [of w x e] by simp
  show ?thesis using prepare(2) assms by (simp add: same_log_ok [OF s] same_log_find [OF s])
next
  case (rollback w1 p err)
  then have s: "same_log (ap_db w) (ap_db w1)" using prepare_frame [of w x e] by simp
  show ?thesis using rollback(3) assms by (simp add: same_log_ok [OF s] same_log_find [OF s])
next
  case (idle w1 p)
  then have s: "same_log (ap_db w) (ap_db w1)" using prepare_frame [of w x e] by simp
  show ?thesis using idle(3) assms by (simp add: same_log_ok [OF s] same_log_find [OF s])
next
  case (stored w1 p d ps)
  have s: "same_log (ap_db w) (ap_db w1)" using prepare_frame [of w x e] stored(1) by simp
  have "db_ok (x_vurl x) (ap_db w1)" "db_events (ap_db w1) = db_events (ap_db w)"
    using assms by (simp_all add: same_log_ok [OF s] same_log_find [OF s])
  then show ?thesis
    using persist_tx_ok [OF stored(2)] prepare_result [OF stored(1)] stored(3) by auto
qed (use assms in simp)

text \<open>A terminal task keeps its row and its log whatever event arrives, for it or for another.\<close>

lemma persist_terminal:
  assumes "db_ok (x_vurl x) (ap_db w)" "find_task (ap_db w) i = Some t" "isTerminalStatus (t_status t)"
  shows "find_task (ap_db (fst (persistTaskEvent x e src w))) i = Some t
    \<and> task_log v (ap_db (fst (persistTaskEvent x e src w))) i = task_log v (ap_db w) i"
proof (cases rule: persistTaskEvent_cases [of src w e x])
  case (stored w1 p d ps)
  have s: "same_log (ap_db w) (ap_db w1)" using prepare_frame [of w x e] stored(1) by simp
  have ok: "versions_ok (ap_db w1)" using assms(1) by (simp add: same_log_find [OF s] db_ok_def)
  obtain u g h where
    u: "find_task (ap_db w1) (ev_taskId (ev_base (pr_stored p))) = Some u" "\<not> isTerminalStatus (t_status u)"
    and l: "log_step (x_vurl x) (ap_db w1) (event_row_of (ap_db w1) (pr_stored p) src)
      (ev_detail (pr_stored p)) g h d"
    using persist_tx_step [OF stored(2) ok] prepare_result [OF stored(1)] by metis
  have ne: "i \<noteq> ev_taskId (ev_base (pr_stored p))"
    using u assms(2,3) by (auto simp: same_log_find [OF s])
  have "t_id t = i" using assms(2) by (simp add: find_task_SomeD)
  with ne have "find_task d i = Some t"
    using assms(2) by (simp add: log_step_find_task [OF l] same_log_find [OF s])
  moreover have "task_log v d i = task_log v (ap_db w1) i"
    using l ne by (auto simp: task_log_def log_step_def)
  ultimately show ?thesis using stored(3) by (simp add: same_log_find [OF s])
next
  case (prepare w1 err)
  then have s: "same_log (ap_db w) (ap_db w1)" using prepare_frame [of w x e] by simp
  show ?thesis using prepare(2) assms by (simp add: same_log_find [OF s])
next
  case (rollback w1 p err)
  then have s: "same_log (ap_db w) (ap_db w1)" using prepare_frame [of w x e] by simp
  show ?thesis using rollback(3) assms by (simp add: same_log_find [OF s])
next
  case (idle w1 p)
  then have s: "same_log (ap_db w) (ap_db w1)" using prepare_frame [of w x e] by simp
  show ?thesis using idle(3) assms by (simp add: same_log_find [OF s])
qed (use assms in simp)

text \<open>A sequence of events, each with what the outside world answers while it is persisted.\<close>

definition persist_step :: "(jstr \<Rightarrow> bool) \<Rightarrow> ext \<times> task_event \<times> jstr option \<Rightarrow> api \<Rightarrow> api" where
  "persist_step vurl = (\<lambda>(x, e, src) w. fst (persistTaskEvent (x\<lparr>x_vurl := vurl\<rparr>) e src w))"

interpretation task_log: logging_machine "persist_step vurl" "\<lambda>w. db_ok vurl (ap_db w)"
    "\<lambda>w. db_events (ap_db w)" for vurl
  by unfold_locales
    (auto simp: persist_step_def dest: persist_keeps [of "_\<lparr>x_vurl := vurl\<rparr>", simplified])

interpretation closed_task: machine "persist_step vurl"
    "\<lambda>w. db_ok vurl (ap_db w) \<and> find_task (ap_db w) i = Some t \<and> isTerminalStatus (t_status t)
       \<and> task_log vurl (ap_db w) i = ds" for vurl i t ds
  by unfold_locales
    (auto simp: persist_step_def persist_keeps [of "_\<lparr>x_vurl := vurl\<rparr>", simplified]
      persist_terminal [of "_\<lparr>x_vurl := vurl\<rparr>", simplified])

lemma status_matches_terminal:
  assumes "status_matches st ds"
  shows "(isTerminalStatus st \<longleftrightarrow> (\<exists>dt. Some dt \<in> set ds \<and> terminal_detail dt))
    \<and> (\<forall>n dt. n < length ds \<and> ds ! n = Some dt \<and> terminal_detail dt \<longrightarrow>
         n = length ds - 1 \<and> detail_status dt = Some st)"
proof (cases "isTerminalStatus st")
  case True
  then obtain ds' dt where ds: "ds = ds' @ [Some dt]" "detail_status dt = Some st"
    "\<forall>x \<in> set ds'. \<not> (case x of None \<Rightarrow> False | Some e \<Rightarrow> terminal_detail e)"
    using assms by (cases ds rule: rev_cases)
      (auto simp: status_matches_def Let_def list_all_iff bind_eq_Some_conv)
  have "\<not> terminal_detail dt'" if "n < length ds'" "ds' ! n = Some dt'" for n dt'
    using ds(3) that by (metis nth_mem option.simps(5))
  with True ds show ?thesis
    by (auto simp: terminal_detail_status nth_append less_Suc_eq)
next
  case False
  then have "\<forall>x \<in> set ds. \<not> (case x of None \<Rightarrow> False | Some e \<Rightarrow> terminal_detail e)"
    using assms by (simp add: status_matches_def Let_def list_all_iff)
  then have no: "\<not> terminal_detail dt" if "Some dt \<in> set ds" for dt
    using that by fastforce
  then have "\<not> terminal_detail dt" if "n < length ds" "ds ! n = Some dt" for n dt
    using that by (metis nth_mem)
  with False no show ?thesis by blast
qed

section \<open>The completion of a task\<close>

lemma parse_rows_ok:
  assumes "list_all (row_ok vurl) rows"
  shows "\<exists>es. parse_rows vurl rows = Some es \<and> map (Some \<circ> ev_detail) es = map (row_detail vurl) rows"
  using assms
proof (induction rows)
  case (Cons r rs)
  then have "list_all (row_ok vurl) rs" by simp
  with Cons.IH obtain es where "parse_rows vurl rs = Some es"
    "map (Some \<circ> ev_detail) es = map (row_detail vurl) rs"
    by blast
  moreover obtain e where "parse_task_event vurl (te_payload r) = Some e"
    using Cons.prems by (auto simp: row_ok_def split: option.splits)
  ultimately show ?case
    by (intro exI [of _ "e # es"]) (simp add: row_detail_def comp_def)
qed simp

definition log_text :: "event_detail option list \<Rightarrow> jstr" where
  "log_text ds = concat (map (\<lambda>x. case x of Some dt \<Rightarrow> delta_text dt | None \<Rightarrow> []) ds)"

lemma output_text_log: "map (Some \<circ> ev_detail) es = ds \<Longrightarrow> output_text es = log_text ds"
  by (auto simp: output_text_def log_text_def comp_def)

lemma log_text_append: "log_text (xs @ ys) = log_text xs @ log_text ys"
  by (simp add: log_text_def)

text \<open>The transaction of a completion goes through and appends exactly one result.\<close>

lemma complete_task_result:
  assumes "events_ok (x_vurl x) d" "versions_ok d"
  obtains d' r where "complete_task x t d = Inr d'" "db_results d' = db_results d @ [r]"
    "r_taskId r = t_id t" "r_sessionId r = t_sessionId t"
    "r_versionNo r = Suc (length (filter (\<lambda>r. r_sessionId r = t_sessionId t) (db_results d)))"
    "r_outputText r = log_text (task_log (x_vurl x) d (t_id t))"
proof -
  have "list_all (row_ok (x_vurl x)) (events_of d (t_id t))"
    using assms(1) by (auto simp: events_of_eq [OF assms(1)] events_ok_def list_all_iff)
  then obtain es where es: "parse_rows (x_vurl x) (events_of d (t_id t)) = Some es"
    "map (Some \<circ> ev_detail) es = map (row_detail (x_vurl x)) (events_of d (t_id t))"
    using parse_rows_ok by blast
  have otext: "output_text es = log_text (task_log (x_vurl x) d (t_id t))"
    by (rule output_text_log) (use es(2) in \<open>simp add: events_of_eq [OF assms(1)] task_log_def\<close>)
  show ?thesis
    by (rule that, simp add: complete_task_def es(1) Let_def, simp)
      (simp_all add: otext latest_version_eq [OF assms(2)])
qed

section \<open>A concrete run\<close>

definition sample_ext :: ext where
  "sample_ext = \<lparr>x_now = 7, x_iso = js ''2026-01-01T00:00:00.000Z'', x_env = (\<lambda>_. None),
     x_url = \<lparr>ua_parse = (\<lambda>_. None), ua_set_protocol = (\<lambda>_ u. u)\<rparr>, x_vurl = (\<lambda>_. False),
     x_json = (\<lambda>_. None), x_fetch = (\<lambda>_. Inl (JsError None [])), x_put = (\<lambda>_. Inr None),
     x_delete = (\<lambda>_. None), x_presign = (\<lambda>k _. k), x_uuid = js ''u'', x_newId = js ''n''\<rparr>"

definition sample_task :: task where
  "sample_task = \<lparr>t_id = js ''t'', t_sessionId = js ''s'', t_userId = js ''u'', t_parentTaskId = None,
     t_taskType = js ''general'', t_status = Queued, t_inputText = js ''hi'', t_preferredTone = [],
     t_preferredLength = [], t_runId = None, t_adapterStreamUrl = None, t_errorCode = None,
     t_errorMessage = None, t_createdAt = 1, t_updatedAt = 1, t_startedAt = None,
     t_completedAt = None, t_queueJobId = None, t_attemptCount = 0, t_files = []\<rparr>"

definition sample_session :: session where
  "sample_session = \<lparr>s_id = js ''s'', s_userId = js ''u'', s_title = js ''hi'', s_status = Queued,
     s_currentTaskId = Some (js ''t''), s_createdAt = 1, s_updatedAt = 1\<rparr>"

definition sample_api :: api where
  "sample_api = \<lparr>ap_db = db_empty\<lparr>db_tasks := [sample_task], db_sessions := [sample_session]\<rparr>,
     ap_objects = [], ap_published = [], ap_push = []\<rparr>"

definition sample_event :: "event_detail \<Rightarrow> task_event" where
  "sample_event dt = \<lparr>ev_base = \<lparr>ev_taskId = js ''t'', ev_sessionId = js ''s'', ev_runId = js ''r'',
     ev_timestamp = []\<rparr>, ev_detail = dt\<rparr>"

lemmas sample_defs = sample_ext_def sample_task_def sample_session_def sample_api_def
  sample_event_def db_empty_def

lemma sample_ok: "db_ok vurl (ap_db sample_api)"
  by (simp add: db_ok_def keys_ok_def events_ok_def statuses_ok_def versions_ok_def sample_defs
      find_session_def task_log_def status_matches_def isTerminalStatus_def)

lemma sample_completed:
  "\<exists>t. find_task (ap_db (persist_step (\<lambda>_. False) (sample_ext, sample_event CompletedEv, None)
     sample_api)) (js ''t'') = Some t \<and> t_status t = Completed"
  by (simp add: sample_defs persist_step_def persistTaskEvent_def given_id_def prepareTaskEvent_def
      persist_tx_def find_task_def isTerminalStatus_def apply_event_def complete_task_def
      events_of_def create_event_def event_row_of_def parse_task_event_json upd_task_def upd_session_def
      find_session_def Let_def)

section \<open>Properties of the log\<close>

text \<open>
  however events arrive, the status of a task and its event log agree: the task is
  terminal exactly if its log holds a terminal event, there is at most one, it is the last
  entry, and its kind is the task's status.
\<close>

theorem persist_run_status:
  assumes "db_ok vurl (ap_db w)"
    and "find_task (ap_db (fold (persist_step vurl) evs w)) i = Some t"
  shows "(isTerminalStatus (t_status t) \<longleftrightarrow>
      (\<exists>dt. Some dt \<in> set (task_log vurl (ap_db (fold (persist_step vurl) evs w)) i) \<and> terminal_detail dt))
    \<and> (\<forall>n dt. n < length (task_log vurl (ap_db (fold (persist_step vurl) evs w)) i)
        \<and> task_log vurl (ap_db (fold (persist_step vurl) evs w)) i ! n = Some dt \<and> terminal_detail dt \<longrightarrow>
          n = length (task_log vurl (ap_db (fold (persist_step vurl) evs w)) i) - 1
          \<and> detail_status dt = Some (t_status t))"
  by (rule status_matches_terminal [OF status_of_task [OF task_log.inv_run [OF assms(1)] assms(2)]])

theorem persist_run_status_witness:
  "\<exists>dt. Some dt \<in> set (task_log (\<lambda>_. False) (ap_db (fold (persist_step (\<lambda>_. False))
      [(sample_ext, sample_event CompletedEv, None)] sample_api)) (js ''t'')) \<and> terminal_detail dt"
proof -
  obtain t where t: "find_task (ap_db (fold (persist_step (\<lambda>_. False))
      [(sample_ext, sample_event CompletedEv, None)] sample_api)) (js ''t'') = Some t" "t_status t = Completed"
    using sample_completed by auto
  then have "isTerminalStatus (t_status t)" by (simp add: isTerminalStatus_def)
  then show ?thesis using persist_run_status [OF sample_ok t(1)] by blast
qed

text \<open>
  C2: a task that has ended stays as it is: no sequence of events, in whatever order,
  changes its row or appends to its log, and the log of every task is only extended.
\<close>

theorem terminal_task_final:
  assumes "db_ok vurl (ap_db w)" "find_task (ap_db w) i = Some t" "isTerminalStatus (t_status t)"
  shows "find_task (ap_db (fold (persist_step vurl) evs w)) i = Some t
    \<and> task_log vurl (ap_db (fold (persist_step vurl) evs w)) i = task_log vurl (ap_db w) i
    \<and> prefix (db_events (ap_db w)) (db_events (ap_db (fold (persist_step vurl) evs w)))"
  using closed_task.inv_run [of vurl w i t "task_log vurl (ap_db w) i" evs]
    task_log.log_run [of vurl w evs] assms by simp

theorem terminal_task_final_witness:
  "\<exists>t. t_status t = Completed \<and> find_task (ap_db (fold (persist_step (\<lambda>_. False))
      [(sample_ext, sample_event (Delta (js ''x'')), None), (sample_ext, sample_event (CancelledEv []), None)]
      (persist_step (\<lambda>_. False) (sample_ext, sample_event CompletedEv, None) sample_api))) (js ''t'') = Some t"
proof -
  let ?w = "persist_step (\<lambda>_. False) (sample_ext, sample_event CompletedEv, None) sample_api"
  obtain t where t: "find_task (ap_db ?w) (js ''t'') = Some t" "t_status t = Completed"
    using sample_completed by auto
  moreover have "db_ok (\<lambda>_. False) (ap_db ?w)"
    using task_log.inv_stepf [OF sample_ok] .
  moreover have "isTerminalStatus (t_status t)" using t(2) by (simp add: isTerminalStatus_def)
  ultimately show ?thesis using terminal_task_final by blast
qed

text \<open>
  C3: an event with a source id is stored at most once: once it has been handled for a
  task that was active, every later delivery under that id leaves database, objects and
  notifications exactly as they are, whatever the event says and however storage, the
  clock and the network have changed.
\<close>

theorem redelivery_noop:
  assumes "db_ok (x_vurl x) (ap_db w)" "find_task (ap_db w) (ev_taskId (ev_base e)) = Some t"
    and "\<not> isTerminalStatus (t_status t)" "src \<noteq> []"
    and "persistTaskEvent x e (Some src) w = (w', Inr ())"
    and "ev_taskId (ev_base e') = ev_taskId (ev_base e)"
  shows "persistTaskEvent x' e' (Some src) w' = (w', Inr ())"
proof -
  have given: "given_id (Some src)" using assms(4) by (simp add: given_id_def)
  let ?i = "ev_taskId (ev_base e)"
  have "source_event_exists (ap_db w') ?i (Some src)"
  proof (cases rule: persistTaskEvent_cases [of "Some src" w e x])
    case (stored w1 p d ps)
    have s: "same_log (ap_db w) (ap_db w1)" using prepare_frame [of w x e] stored(1) by simp
    have "versions_ok (ap_db w1)" using assms(1) by (simp add: same_log_find [OF s] db_ok_def)
    then obtain g h where "log_step (x_vurl x) (ap_db w1) (event_row_of (ap_db w1) (pr_stored p) (Some src))
        (ev_detail (pr_stored p)) g h d"
      using persist_tx_step [OF stored(2)] prepare_result [OF stored(1)] by metis
    then have "event_row_of (ap_db w1) (pr_stored p) (Some src) \<in> set (db_events (ap_db w'))"
      using stored(3) assms(5) by (auto simp: log_step_def)
    then show ?thesis using prepare_result [OF stored(1)]
      by (force simp: source_event_exists_def find_None_all)
  next
    case (idle w1 p)
    have s: "same_log (ap_db w) (ap_db w1)" using prepare_frame [of w x e] idle(1) by simp
    have "source_event_exists (ap_db w1) ?i (Some src)"
      using idle(2) prepare_result [OF idle(1)] assms(2,3)
      by (auto simp: persist_tx_def Let_def same_log_find [OF s] split: if_splits sum.splits)
    then show ?thesis using idle(3) assms(5) by simp
  qed (use assms(5) in auto)
  then show ?thesis using given assms(6) by (simp add: persistTaskEvent_def)
qed

theorem redelivery_noop_witness:
  "persistTaskEvent sample_ext (sample_event CompletedEv) (Some (js ''7''))
     (fst (persistTaskEvent sample_ext (sample_event (Delta (js ''a''))) (Some (js ''7'')) sample_api))
   = (fst (persistTaskEvent sample_ext (sample_event (Delta (js ''a''))) (Some (js ''7'')) sample_api), Inr ())"
proof -
  let ?e = "sample_event (Delta (js ''a''))"
  have "snd (persistTaskEvent sample_ext ?e (Some (js ''7'')) sample_api) = Inr ()"
    by (simp add: sample_defs persistTaskEvent_def given_id_def source_event_exists_def
        prepareTaskEvent_def persist_tx_def find_task_def isTerminalStatus_def apply_event_def Let_def)
  then have "persistTaskEvent sample_ext ?e (Some (js ''7'')) sample_api =
      (fst (persistTaskEvent sample_ext ?e (Some (js ''7'')) sample_api), Inr ())"
    by (metis prod.collapse)
  moreover have "find_task (ap_db sample_api) (ev_taskId (ev_base ?e)) = Some sample_task"
    "\<not> isTerminalStatus (t_status sample_task)"
    by (simp_all add: sample_defs find_task_def isTerminalStatus_def)
  ultimately show ?thesis
    using redelivery_noop [where x = sample_ext and w = sample_api and e = ?e and t = sample_task
        and src = "js ''7''" and e' = "sample_event CompletedEv" and x' = sample_ext] sample_ok
    by (simp add: sample_event_def)
qed

text \<open>What the completion of a task does to the database.\<close>

lemma completion_effect:
  assumes "db_ok (x_vurl x) (ap_db w)" "find_task (ap_db w) (ev_taskId (ev_base e)) = Some t"
    and "\<not> isTerminalStatus (t_status t)" "ev_detail e = CompletedEv"
    and "src = None \<or> \<not> source_event_exists (ap_db w) (ev_taskId (ev_base e)) src"
  obtains w' r where "persistTaskEvent x e src w = (w', Inr ())" "db_ok (x_vurl x) (ap_db w')"
    "db_results (ap_db w') = db_results (ap_db w) @ [r]" "r_taskId r = t_id t" "r_sessionId r = t_sessionId t"
    "r_versionNo r = Suc (length (filter (\<lambda>r. r_sessionId r = t_sessionId t) (db_results (ap_db w))))"
    "r_outputText r = log_text (task_log (x_vurl x) (ap_db w) (t_id t))"
    "db_tasks (ap_db w') = map (\<lambda>u. if t_id u = t_id t then u\<lparr>t_status := Completed,
        t_completedAt := Some (x_now x), t_errorCode := None, t_errorMessage := None,
        t_updatedAt := x_now x\<rparr> else u) (db_tasks (ap_db w))"
    "db_sessions (ap_db w') = map (\<lambda>s. if s_id s = t_sessionId t then s\<lparr>s_status := Completed,
        s_currentTaskId := Some (t_id t), s_updatedAt := x_now x\<rparr> else s) (db_sessions (ap_db w))"
    "task_log (x_vurl x) (ap_db w') (t_id t) = task_log (x_vurl x) (ap_db w) (t_id t) @ [Some CompletedEv]"
proof -
  let ?d = "ap_db w" and ?r = "event_row_of (ap_db w) e src" and ?i = "ev_taskId (ev_base e)"
  let ?c = "create_event ?d ?r"
  have tid: "t_id t = ?i" using find_task_SomeD [OF assms(2)] by simp
  have fresh: "\<not> (given_id src \<and> source_event_exists ?d ?i src)"
    "\<not> (src \<noteq> None \<and> source_event_exists ?d ?i src)"
    using assms(5) by (auto simp: given_id_def)
  have ev: "events_ok (x_vurl x) ?c"
    by (rule events_ok_append [OF db_okD(2) [OF assms(1)], of ?c ?r])
      (use assms(5) in \<open>simp_all add: event_row_of_ok assms(4)\<close>)
  have v: "versions_ok ?c"
    using db_okD(4) [OF assms(1)] by (simp add: versions_ok_def)
  obtain d' r where c: "complete_task x t ?c = Inr d'" "db_results d' = db_results ?c @ [r]"
    "r_taskId r = t_id t" "r_sessionId r = t_sessionId t"
    "r_versionNo r = Suc (length (filter (\<lambda>r. r_sessionId r = t_sessionId t) (db_results ?c)))"
    "r_outputText r = log_text (task_log (x_vurl x) ?c (t_id t))"
    by (rule complete_task_result [OF ev v, of t])
  have otext: "log_text (task_log (x_vurl x) ?c (t_id t)) = log_text (task_log (x_vurl x) ?d (t_id t))"
    by (simp add: task_log_def log_text_append tid)
      (simp add: log_text_def event_row_of_ok assms(4))
  note step = complete_task_step [OF v c(1)]
  obtain w' where w': "persistTaskEvent x e src w = (w', Inr ())" "ap_db w' = d'"
    using c(1) fresh assms(2-4)
    by (simp add: persistTaskEvent_def prepareTaskEvent_def persist_tx_def apply_event_def Let_def)
  have "task_log (x_vurl x) d' (t_id t) = task_log (x_vurl x) ?d (t_id t) @ [Some CompletedEv]"
    using step by (simp add: task_log_def tid event_row_of_ok assms(4))
  moreover have "db_ok (x_vurl x) (ap_db w')"
    using persist_keeps [OF assms(1), of e src] w'(1) by simp
  ultimately show ?thesis using that [of w' r] w' c otext step by simp
qed

text \<open>
  C4: when a task completes, the completion is stored and the session gets exactly one new
  result version: it belongs to that task, its number is one more than the number of
  versions the session has, its text is the concatenation of the deltas of the task's log
  in id order, and the task and its session read completed.
\<close>

theorem completion_result:
  assumes "db_ok (x_vurl x) (ap_db w)" "find_task (ap_db w) (ev_taskId (ev_base e)) = Some t"
    and "\<not> isTerminalStatus (t_status t)" "ev_detail e = CompletedEv"
    and "src = None \<or> \<not> source_event_exists (ap_db w) (ev_taskId (ev_base e)) src"
  shows "\<exists>w' r s. persistTaskEvent x e src w = (w', Inr ())
    \<and> db_results (ap_db w') = db_results (ap_db w) @ [r]
    \<and> r_taskId r = t_id t \<and> r_sessionId r = t_sessionId t
    \<and> r_versionNo r = Suc (length (filter (\<lambda>r. r_sessionId r = t_sessionId t) (db_results (ap_db w))))
    \<and> r_outputText r = log_text (task_log (x_vurl x) (ap_db w) (t_id t))
    \<and> map_option t_status (find_task (ap_db w') (t_id t)) = Some Completed
    \<and> find_session (ap_db w') (t_sessionId t) = Some s \<and> s_status s = Completed
    \<and> s_currentTaskId s = Some (t_id t)"
proof (rule completion_effect [OF assms])
  fix w' r
  assume run: "persistTaskEvent x e src w = (w', Inr ())"
    and result: "db_results (ap_db w') = db_results (ap_db w) @ [r]" "r_taskId r = t_id t" "r_sessionId r = t_sessionId t"
      "r_versionNo r = Suc (length (filter (\<lambda>r. r_sessionId r = t_sessionId t) (db_results (ap_db w))))"
      "r_outputText r = log_text (task_log (x_vurl x) (ap_db w) (t_id t))"
    and tasks: "db_tasks (ap_db w') = map (\<lambda>u. if t_id u = t_id t then u\<lparr>t_status := Completed,
        t_completedAt := Some (x_now x), t_errorCode := None, t_errorMessage := None,
        t_updatedAt := x_now x\<rparr> else u) (db_tasks (ap_db w))"
    and sessions: "db_sessions (ap_db w') = map (\<lambda>s. if s_id s = t_sessionId t then s\<lparr>s_status := Completed,
        s_currentTaskId := Some (t_id t), s_updatedAt := x_now x\<rparr> else s) (db_sessions (ap_db w))"
  have tid: "t_id t = ev_taskId (ev_base e)" using find_task_SomeD [OF assms(2)] by simp
  have ft: "map_option t_status (find_task (ap_db w') (t_id t)) = Some Completed"
    using assms(2) by (simp add: tasks find_task_def tid find_map_upd)
  have "find_session (ap_db w) (t_sessionId t) \<noteq> None"
    using db_okD(1) [OF assms(1)] find_task_SomeD [OF assms(2)] by (auto simp: keys_ok_def list_all_iff)
  then obtain s where s: "find_session (ap_db w) (t_sessionId t) = Some s" by blast
  then have "s_id s = t_sessionId t" by (simp add: find_session_SomeD)
  with s have "find_session (ap_db w') (t_sessionId t) = Some (s\<lparr>s_status := Completed,
      s_currentTaskId := Some (t_id t), s_updatedAt := x_now x\<rparr>)"
    by (simp add: sessions find_session_def find_map_upd)
  with run result ft show ?thesis by auto
qed

theorem completion_result_witness:
  "\<exists>w' r. persistTaskEvent sample_ext (sample_event CompletedEv) None sample_api = (w', Inr ())
     \<and> db_results (ap_db w') = [r] \<and> r_versionNo r = 1"
  using completion_result [where x = sample_ext and w = sample_api and e = "sample_event CompletedEv"
      and t = sample_task and src = None] sample_ok
  by (fastforce simp: sample_defs find_task_def isTerminalStatus_def)

section \<open>Failing a task\<close>

lemma failTask_effect:
  assumes "db_ok (x_vurl x) (ap_db w)" "find_task (ap_db w) i = Some t"
  shows "\<exists>w'. failTask x i code msg w = (w', Inr ())
    \<and> (if isTerminalStatus (t_status t) then w' = w
       else task_log v (ap_db w') i = task_log v (ap_db w) i @ [Some (FailedEv code msg)]
         \<and> (\<exists>t'. find_task (ap_db w') i = Some t' \<and> t_status t' = Failed
               \<and> t_errorCode t' = Some code \<and> t_errorMessage t' = Some msg)
         \<and> map pm_userId (ap_push w') = map pm_userId (ap_push w) @ [t_userId t])"
proof (cases "isTerminalStatus (t_status t)")
  case True
  then show ?thesis using assms by (simp add: failTask_def)
next
  case False
  have tid: "t_id t = i" using find_task_SomeD [OF assms(2)] by simp
  have ok: "detail_ok v (FailedEv code msg)" by simp
  show ?thesis
    using False assms(2)
    by (simp add: failTask_def persistTaskEvent_def given_id_def prepareTaskEvent_def persist_tx_def
        apply_event_def Let_def tid find_task_def upd_task_def upd_session_def find_map_upd
        terminal_push_def task_log_def event_row_of_ok)
qed

section \<open>Reading the log\<close>

lemma event_replay_eq:
  "events_ok vurl d \<Longrightarrow>
     sort_key te_id (filter (\<lambda>r. te_taskId r = i \<and> te_id r > n) (db_events d))
     = filter (\<lambda>r. te_id r > n) (filter (\<lambda>r. te_taskId r = i) (db_events d))"
  unfolding filter_filter events_ok_def
  by (subst sort_key_id_if_sorted)
    (auto simp: sorted_map conj_commute intro!: sorted_wrt_filter elim: sorted_wrt_mono_rel [rotated])

interpretation event_table: resumable_log "\<lambda>d. filter (\<lambda>r. te_taskId r = i) (db_events d)" te_id
    "\<lambda>d n. sort_key te_id (filter (\<lambda>r. te_taskId r = i \<and> te_id r > n) (db_events d))"
    "db_ok vurl" for i vurl
proof
  fix d :: db and n
  assume ok: "db_ok vurl d"
  show "sorted_wrt (\<lambda>a b. te_id a < te_id b) (filter (\<lambda>r. te_taskId r = i) (db_events d))"
    using db_okD(2) [OF ok] by (simp add: events_ok_def sorted_wrt_filter)
  show "sort_key te_id (filter (\<lambda>r. te_taskId r = i \<and> te_id r > n) (db_events d))
      = filter (\<lambda>r. te_id r > n) (filter (\<lambda>r. te_taskId r = i) (db_events d))"
    by (rule event_replay_eq [OF db_okD(2) [OF ok]])
next
  fix d e assume "db_ok vurl d" "e \<in> set (filter (\<lambda>r. te_taskId r = i) (db_events d))"
  then show "0 < te_id e" by (auto simp: db_ok_def events_ok_def list_all_iff)
qed

definition listed_row :: "ext \<Rightarrow> db \<Rightarrow> event_row \<Rightarrow> nat \<times> task_event" where
  "listed_row x d r = (te_id r, hydrateStoredEvent x d (the (parse_task_event (x_vurl x) (te_payload r))))"

lemma parse_rows_map:
  "parse_rows vurl rows = Some es \<Longrightarrow> es = map (\<lambda>r. the (parse_task_event vurl (te_payload r))) rows"
  by (induction rows arbitrary: es) (auto split: option.splits)

lemma listTaskEvents_rows:
  assumes "db_ok (x_vurl x) d" "assertTaskOwnership d uid tid = Inr ()"
  shows "listTaskEvents x d uid tid n = Inr (map (listed_row x d)
     (sort_key te_id (filter (\<lambda>r. te_taskId r = tid \<and> te_id r > n) (db_events d))))"
proof -
  let ?rows = "sort_key te_id (filter (\<lambda>r. te_taskId r = tid \<and> te_id r > n) (db_events d))"
  have "list_all (row_ok (x_vurl x)) ?rows"
    using db_okD(2) [OF assms(1)] by (auto simp: events_ok_def list_all_iff)
  then obtain es where "parse_rows (x_vurl x) ?rows = Some es" using parse_rows_ok by blast
  then show ?thesis
    using assms(2) parse_rows_map [of "x_vurl x" ?rows es]
    by (simp add: listTaskEvents_def Let_def listed_row_def zip_map_map zip_same_conv_map)
qed

lemma map_split_at:
  "map f xs = seen @ y # rest \<Longrightarrow> \<exists>rs r rs'. xs = rs @ r # rs' \<and> y = f r \<and> rest = map f rs'"
proof (induction seen arbitrary: xs)
  case Nil
  then obtain r rs' where "xs = r # rs'" "y = f r" "rest = map f rs'" by (cases xs) auto
  then show ?case by (metis append_Nil)
next
  case (Cons z seen)
  then obtain x xs' where x: "xs = x # xs'" "map f xs' = seen @ y # rest" by (cases xs) auto
  from Cons.IH [OF x(2)] obtain rs r rs' where "xs' = rs @ r # rs'" "y = f r" "rest = map f rs'"
    by (elim exE conjE)
  with x(1) show ?case by (intro exI [of _ "x # rs"] exI [of _ r] exI [of _ rs']) simp
qed

text \<open>
  reading a task's events never fails on stored data; ids come back strictly
  increasing; and a reader that has seen some of them and asks for what follows the last
  id it has, gets exactly the rest: nothing is lost and nothing is repeated.
\<close>

theorem list_events_resume:
  assumes "db_ok (x_vurl x) d" "assertTaskOwnership d uid tid = Inr ()"
  shows "\<exists>all. listTaskEvents x d uid tid 0 = Inr all
    \<and> sorted_wrt (<) (map fst all)
    \<and> length all = length (task_log (x_vurl x) d tid)
    \<and> (\<forall>seen n e rest. all = seen @ (n, e) # rest \<longrightarrow> listTaskEvents x d uid tid n = Inr rest)"
proof -
  let ?f = "listed_row x d" and ?rows = "filter (\<lambda>r. te_taskId r = tid) (db_events d)"
  note rows = listTaskEvents_rows [OF assms]
  have all: "listTaskEvents x d uid tid 0 = Inr (map ?f ?rows)"
    using rows [of 0] event_table.replay_all [OF assms(1), of tid] by simp
  have fst: "fst (?f r) = te_id r" for r by (simp add: listed_row_def)
  have sorted: "sorted_wrt (<) (map fst (map ?f ?rows))"
    using event_table.ids_increase [OF assms(1), of tid] by (simp add: sorted_wrt_map fst)
  have resume: "listTaskEvents x d uid tid n = Inr rest" if "map ?f ?rows = seen @ (n, e) # rest" for seen n e rest
  proof -
    from map_split_at [OF that]
    obtain rs r rs' where "?rows = rs @ r # rs'" "(n, e) = ?f r" "rest = map ?f rs'"
      by (elim exE conjE)
    then show ?thesis
      using rows [of n] event_table.resume_split [OF assms(1), of tid rs r rs'] fst [of r]
      by (metis fst_conv)
  qed
  show ?thesis
    by (rule exI [of _ "map ?f ?rows"])
      (use all sorted resume in \<open>simp add: task_log_def\<close>)
qed

theorem list_events_resume_witness:
  "\<exists>all. listTaskEvents sample_ext (ap_db sample_api) (js ''u'') (js ''t'') 0 = Inr all"
  using list_events_resume [of sample_ext "ap_db sample_api" "js ''u''" "js ''t''"] sample_ok
  by (auto simp: assertTaskOwnership_def sample_defs)

section \<open>Archived results\<close>

lemma read_body_Some:
  "read_body m cs n acc = Some (parts, k) \<Longrightarrow>
     parts = acc @ cs \<and> k = n + length (concat cs) \<and> (cs \<noteq> [] \<longrightarrow> k \<le> m)"
proof (induction cs arbitrary: n acc)
  case (Cons c cs)
  then have "read_body m cs (n + length c) (acc @ [c]) = Some (parts, k)" "n + length c \<le> m"
    by (auto simp: Let_def split: if_splits)
  with Cons.IH [OF this(1)] show ?case by (cases cs) auto
qed simp

lemma download_artifact_body:
  assumes "download_artifact x a resp = Inr body"
  shows "0 < length body" "length body \<le> maxResultFileBytes (x_env x)"
    "af_sizeBytes a = None \<or> af_sizeBytes a = Some (length body)"
    "\<exists>chunks. rs_ok resp \<and> rs_body resp = Some chunks \<and> body = concat chunks"
proof -
  obtain chunks parts n where c: "rs_ok resp" "rs_body resp = Some chunks"
    "read_body (maxResultFileBytes (x_env x)) chunks 0 [] = Some (parts, n)" "1 \<le> n"
    "af_sizeBytes a = None \<or> af_sizeBytes a = Some n" "body = concat parts"
    using assms by (auto simp: download_artifact_def Let_def split: option.splits if_splits prod.splits)
  note b = read_body_Some [OF c(3)]
  with c(4,6) have n: "n = length body" "chunks \<noteq> []" by auto
  with c(4) have "0 < length body" by linarith
  with b c n show "0 < length body" "length body \<le> maxResultFileBytes (x_env x)"
    "af_sizeBytes a = None \<or> af_sizeBytes a = Some (length body)"
    "\<exists>chunks. rs_ok resp \<and> rs_body resp = Some chunks \<and> body = concat chunks"
    by simp_all
qed

lemma source_allowed_True:
  assumes "source_allowed x src = Inr True"
  shows "u_protocol src \<in> {js ''http:'', js ''https:''}" "u_username src = []" "u_password src = []"
    "\<exists>os. resultArtifactOrigins (x_url x) (x_env x) = Some os \<and> u_origin src \<in> set os"
  using assms by (auto simp: source_allowed_def split: if_splits option.splits)

definition usage :: "db \<Rightarrow> jstr \<Rightarrow> nat" where
  "usage d uid = file_usage d uid + artifact_usage d uid"

lemma archive_run:
  assumes "archiveResultArtifact x i a w = (w', Inr (key, arch))"
  obtains t src resp body where "find_task (ap_db w) i = Some t"
    "Option.bind (af_downloadUrl a) (ua_parse (x_url x)) = Some src"
    "source_allowed x src = Inr True" "x_fetch x src = Inr resp" "download_artifact x a resp = Inr body"
    "jm_get (ap_objects w') key = Some (body, af_mimeType a)" "af_sizeBytes arch = Some (length body)"
    "usage (ap_db w') (t_userId t) = usage (ap_db w) (t_userId t) + length body"
    "usage (ap_db w') (t_userId t) \<le> storageLimit (x_env x)"
proof -
  obtain t src resp body where t: "find_task (ap_db w) i = Some t"
    "Option.bind (af_downloadUrl a) (ua_parse (x_url x)) = Some src"
    "source_allowed x src = Inr True" "x_fetch x src = Inr resp"
    "download_artifact x a resp = Inr body"
    and st: "store_artifact x t src a body w = (w', Inr (key, arch))"
    using assms by (auto simp: archiveResultArtifact_def split: option.splits sum.splits if_splits)
  have "jm_get (ap_objects w') key = Some (body, af_mimeType a)" "af_sizeBytes arch = Some (length body)"
    "usage (ap_db w') (t_userId t) = usage (ap_db w) (t_userId t) + length body"
    "usage (ap_db w') (t_userId t) \<le> storageLimit (x_env x)"
    using st by (auto simp: store_artifact_def Let_def usage_def file_usage_def artifact_usage_def
        split: sum.splits if_splits)
  with t show ?thesis by (rule that)
qed

text \<open>
  C14: a result file is archived only from an allowed origin over http or https without
  credentials in the URL; the stored object is exactly the downloaded body, not empty and
  within the size limit, its recorded size is the real one, and the owner's storage stays
  within the quota.
\<close>

theorem archive_sound:
  assumes "archiveResultArtifact x i a w = (w', Inr (key, arch))"
  shows "\<exists>t src resp chunks.
      find_task (ap_db w) i = Some t
    \<and> Option.bind (af_downloadUrl a) (ua_parse (x_url x)) = Some src
    \<and> u_protocol src \<in> {js ''http:'', js ''https:''} \<and> u_username src = [] \<and> u_password src = []
    \<and> (\<exists>os. resultArtifactOrigins (x_url x) (x_env x) = Some os \<and> u_origin src \<in> set os)
    \<and> x_fetch x src = Inr resp \<and> rs_ok resp \<and> rs_body resp = Some chunks
    \<and> jm_get (ap_objects w') key = Some (concat chunks, af_mimeType a)
    \<and> af_sizeBytes arch = Some (length (concat chunks))
    \<and> 0 < length (concat chunks) \<and> length (concat chunks) \<le> maxResultFileBytes (x_env x)
    \<and> usage (ap_db w') (t_userId t) = usage (ap_db w) (t_userId t) + length (concat chunks)
    \<and> usage (ap_db w') (t_userId t) \<le> storageLimit (x_env x)"
proof (rule archive_run [OF assms])
  fix t src resp body
  assume t: "find_task (ap_db w) i = Some t" "Option.bind (af_downloadUrl a) (ua_parse (x_url x)) = Some src"
    "x_fetch x src = Inr resp"
    and src: "source_allowed x src = Inr True" and body: "download_artifact x a resp = Inr body"
    and st: "jm_get (ap_objects w') key = Some (body, af_mimeType a)" "af_sizeBytes arch = Some (length body)"
      "usage (ap_db w') (t_userId t) = usage (ap_db w) (t_userId t) + length body"
      "usage (ap_db w') (t_userId t) \<le> storageLimit (x_env x)"
  obtain chunks where "rs_ok resp" "rs_body resp = Some chunks" "body = concat chunks"
    using download_artifact_body(4) [OF body] by blast
  then show ?thesis
    using t st source_allowed_True [OF src] download_artifact_body(1,2) [OF body]
    by (intro exI [of _ t] exI [of _ src] exI [of _ resp] exI [of _ chunks]) simp
qed


definition sample_url :: url where
  "sample_url = \<lparr>u_protocol = js ''http:'', u_username = [], u_password = [], u_hostname = js ''g'',
     u_origin = js ''http://g'', u_pathname = js ''/f''\<rparr>"

definition sample_fetch_ext :: "nat \<Rightarrow> ext" where
  "sample_fetch_ext n = sample_ext\<lparr>x_vurl := (\<lambda>_. True),
     x_env := (\<lambda>k. if k = ''OPENCLAW_GATEWAY_URL'' then Some (js ''http://g'') else None),
     x_url := \<lparr>ua_parse = (\<lambda>_. Some sample_url), ua_set_protocol = (\<lambda>_ u. u)\<rparr>,
     x_fetch := (\<lambda>_. Inr \<lparr>rs_ok = True, rs_status = 200, rs_contentLength = None,
                         rs_contentType = None, rs_body = Some [replicate n 0]\<rparr>)\<rparr>"

definition sample_artifact :: artifact where
  "sample_artifact = \<lparr>af_kind = Pdf, af_fileName = js ''a.pdf'', af_mimeType = js ''application/pdf'',
     af_artifactId = None, af_downloadUrl = Some (js ''http://g/f''), af_previewText = [],
     af_sizeBytes = None\<rparr>"

lemma sample_source: "source_allowed (sample_fetch_ext n) sample_url = Inr True"
proof -
  have "js_trim (js ''http://g'') = js ''http://g''"
    by (rule js_trim_id) (simp add: js_def js_ws_def)
  then show ?thesis
    by (simp add: source_allowed_def sample_fetch_ext_def sample_ext_def sample_url_def
        resultArtifactOrigins_def asNonEmptyString_def)
qed

lemma sample_archive:
  assumes "find_task (ap_db w) (js ''t'') = Some t"
  shows "archiveResultArtifact (sample_fetch_ext n) (js ''t'') sample_artifact w =
     (if n = 0 then (w, Inl (JsError None (js ''gateway artifact is empty'')))
      else if n \<le> 25 * 1024 * 1024
      then store_artifact (sample_fetch_ext n) t sample_url sample_artifact (replicate n 0) w
      else (w, Inl (JsError None (js ''gateway artifact exceeds result file size limit''))))"
proof -
  have env: "maxResultFileBytes (x_env (sample_fetch_ext n)) = 25 * 1024 * 1024"
    by (simp add: maxResultFileBytes_def sample_fetch_ext_def sample_ext_def asPositiveInteger_def
        opt_number_def is_safe_integer_def)
  have url: "Option.bind (af_downloadUrl sample_artifact) (ua_parse (x_url (sample_fetch_ext n))) = Some sample_url"
    by (simp add: sample_artifact_def sample_fetch_ext_def sample_ext_def)
  have resp: "x_fetch (sample_fetch_ext n) sample_url = Inr \<lparr>rs_ok = True, rs_status = 200,
      rs_contentLength = None, rs_contentType = None, rs_body = Some [replicate n 0]\<rparr>"
    by (simp add: sample_fetch_ext_def sample_ext_def)
  have sz: "af_sizeBytes sample_artifact = None" by (simp add: sample_artifact_def)
  show ?thesis
    by (simp add: archiveResultArtifact_def assms url sample_source resp download_artifact_def env
        declared_length_def sz)
qed

lemma sample_find: "find_task (ap_db sample_api) (js ''t'') = Some sample_task"
  by (simp add: sample_api_def find_task_def sample_task_def)

lemma sample_store:
  assumes "find_task (ap_db w) (js ''t'') = Some t" "usage (ap_db w) (t_userId t) = 0"
  shows "\<exists>w' key arch. archiveResultArtifact (sample_fetch_ext 3) (js ''t'') sample_artifact w
     = (w', Inr (key, arch))"
proof -
  have "storageLimit (x_env (sample_fetch_ext 3)) = 1024 * 1024 * 1024"
    by (simp add: storageLimit_def sample_fetch_ext_def sample_ext_def asPositiveInteger_def
        opt_number_def is_safe_integer_def)
  moreover have "x_put (sample_fetch_ext 3) k = Inr None" for k
    by (simp add: sample_fetch_ext_def sample_ext_def)
  ultimately show ?thesis
    using assms by (simp add: sample_archive [OF assms(1)] store_artifact_def Let_def usage_def)
qed

theorem archive_sound_witness:
  "\<exists>w' key arch. archiveResultArtifact (sample_fetch_ext 3) (js ''t'') sample_artifact sample_api
       = (w', Inr (key, arch)) \<and> usage (ap_db w') (js ''u'') = 3"
proof -
  have "usage (ap_db sample_api) v = 0" for v
    by (simp add: sample_api_def db_empty_def file_usage_def artifact_usage_def usage_def)
  from sample_store [OF sample_find this]
  obtain w' key arch where a: "archiveResultArtifact (sample_fetch_ext 3) (js ''t'') sample_artifact sample_api
       = (w', Inr (key, arch))" by blast
  have "find_task (ap_db sample_api) (js ''t'') = Some sample_task" "t_userId sample_task = js ''u''"
    "usage (ap_db sample_api) (js ''u'') = 0"
    by (simp_all add: sample_defs find_task_def usage_def file_usage_def artifact_usage_def)
  moreover have "x_fetch (sample_fetch_ext 3) src = Inr \<lparr>rs_ok = True, rs_status = 200,
      rs_contentLength = None, rs_contentType = None, rs_body = Some [replicate 3 0]\<rparr>" for src
    by (simp add: sample_fetch_ext_def sample_ext_def)
  ultimately show ?thesis using archive_sound [OF a] a by auto
qed

text \<open>A store of two bytes: the file is stored, found to be too much, and deleted again.\<close>

definition small_store :: ext where
  "small_store = (sample_fetch_ext 3)\<lparr>x_env := (\<lambda>k. if k = ''USER_STORAGE_BYTES'' then Some (js ''2'')
     else x_env (sample_fetch_ext 3) k)\<rparr>"

lemma small_store_archive:
  "archiveResultArtifact small_store (js ''t'') sample_artifact sample_api
     = store_artifact small_store sample_task sample_url sample_artifact (replicate 3 0) sample_api"
  "storageLimit (x_env small_store) = 2"
proof -
  have env: "maxResultFileBytes (x_env small_store) = 25 * 1024 * 1024"
    by (simp add: maxResultFileBytes_def small_store_def sample_fetch_ext_def sample_ext_def asPositiveInteger_def
        opt_number_def is_safe_integer_def)
  have src: "source_allowed small_store sample_url = Inr True"
  proof -
    have "js_trim (js ''http://g'') = js ''http://g''" by (rule js_trim_id) (simp add: js_def js_ws_def)
    then show ?thesis
      by (simp add: source_allowed_def small_store_def sample_fetch_ext_def sample_ext_def sample_url_def
          resultArtifactOrigins_def asNonEmptyString_def)
  qed
  have "Option.bind (af_downloadUrl sample_artifact) (ua_parse (x_url small_store)) = Some sample_url"
    "x_fetch small_store sample_url = Inr \<lparr>rs_ok = True, rs_status = 200, rs_contentLength = None,
       rs_contentType = None, rs_body = Some [replicate 3 0]\<rparr>" "af_sizeBytes sample_artifact = None"
    by (simp_all add: sample_artifact_def small_store_def sample_fetch_ext_def sample_ext_def)
  then show "archiveResultArtifact small_store (js ''t'') sample_artifact sample_api
     = store_artifact small_store sample_task sample_url sample_artifact (replicate 3 0) sample_api"
    using sample_find src env by (simp add: archiveResultArtifact_def download_artifact_def declared_length_def)
  have "opt_number (Some (js ''2'')) = NumInt 2" by code_simp
  then show "storageLimit (x_env small_store) = 2"
    by (simp add: storageLimit_def asPositiveInteger_def small_store_def is_safe_integer_def max_safe_integer_def)
qed


text \<open>
  a result that arrives for a task that has already ended is still downloaded and
  archived before the event is discarded: the call returns, no event, push or publication
  results from it, yet the file stays stored and counts against the owner's quota.
\<close>

theorem late_result_is_charged:
  assumes "find_task (ap_db w) (ev_taskId (ev_base e)) = Some t" "isTerminalStatus (t_status t)"
    and "ev_detail e = ResultCreated (ArtifactResult a)" "artifact_ok (x_vurl x) a"
    and "af_downloadUrl a = Some (u # us)"
    and "archiveResultArtifact x (ev_taskId (ev_base e)) a w = (w1, Inr (key, arch))"
  shows "persistTaskEvent x e None w = (w1, Inr ())
    \<and> db_events (ap_db w1) = db_events (ap_db w) \<and> ap_published w1 = ap_published w
    \<and> usage (ap_db w) (t_userId t) < usage (ap_db w1) (t_userId t)"
proof -
  have f: "same_log (ap_db w) (ap_db w1)" "same_outbox w w1"
    using archive_frame [of w x "ev_taskId (ev_base e)" a] assms(6) by simp_all
  have "usage (ap_db w) (t_userId t) < usage (ap_db w1) (t_userId t)"
    by (rule archive_run [OF assms(6)]) (use assms(1) download_artifact_body(1) in auto)
  moreover have "persistTaskEvent x e None w = (w1, Inr ())"
    using assms(1-3,5,6)
    by (simp add: persistTaskEvent_def given_id_def prepareTaskEvent_def persist_tx_def Let_def
        parse_artifact_result_json [OF assms(4)] same_log_find [OF f(1)])
  ultimately show ?thesis
    using f by (simp add: same_log_find [OF f(1)] same_outbox_def)
qed

theorem late_result_is_charged_witness:
  "\<exists>w w1. db_tasks (ap_db w) = [sample_task\<lparr>t_status := Cancelled\<rparr>]
     \<and> persistTaskEvent (sample_fetch_ext 3) (sample_event (ResultCreated (ArtifactResult sample_artifact)))
         None w = (w1, Inr ())
     \<and> usage (ap_db w) (js ''u'') < usage (ap_db w1) (js ''u'')"
proof -
  let ?t = "sample_task\<lparr>t_status := Cancelled\<rparr>"
  let ?w = "sample_api\<lparr>ap_db := (ap_db sample_api)\<lparr>db_tasks := [?t]\<rparr>\<rparr>"
  let ?e = "sample_event (ResultCreated (ArtifactResult sample_artifact))"
  have t: "find_task (ap_db ?w) (js ''t'') = Some ?t"
    by (simp add: find_task_def sample_task_def)
  have "usage (ap_db ?w) v = 0" for v
    by (simp add: sample_api_def db_empty_def file_usage_def artifact_usage_def usage_def)
  from sample_store [OF t this]
  obtain w1 key arch where a: "archiveResultArtifact (sample_fetch_ext 3) (js ''t'') sample_artifact ?w
       = (w1, Inr (key, arch))" by blast
  have e: "ev_taskId (ev_base ?e) = js ''t''" "ev_detail ?e = ResultCreated (ArtifactResult sample_artifact)"
    by (simp_all add: sample_event_def)
  have ok: "artifact_ok (x_vurl (sample_fetch_ext 3)) sample_artifact" "isTerminalStatus (t_status ?t)"
    "t_userId ?t = js ''u''" "db_tasks (ap_db ?w) = [?t]"
    by (simp_all add: artifact_ok_def sample_fetch_ext_def sample_artifact_def isTerminalStatus_def
        sample_task_def)
  obtain u us where url: "af_downloadUrl sample_artifact = Some (u # us)"
    by (simp add: sample_artifact_def js_def)
  show ?thesis
    using late_result_is_charged [where x = "sample_fetch_ext 3" and w = ?w and e = ?e and t = ?t,
        unfolded e(1), OF t ok(2) e(2) ok(1) url a] ok(3,4)
    by (intro exI [of _ ?w] exI [of _ w1]) simp
qed

end
