(* ===== verification/Quotas.thy ===== *)
theory Quotas
  imports ApiCommon
begin

text \<open>
  \<^verbatim>\<open>apps/mobile-api/src/security/abuse-protection.service.ts\<close>: request rate limiting and the
  daily task quota on Redis counters, and the guard in front of the routes; and
  \<^verbatim>\<open>apps/mobile-api/src/queue/task-queue.service.ts\<close>. The Lua scripts run atomically on a map of
  counters; a counter that has expired is a missing one. Job queues of BullMQ are the
  record \<open>queue_api\<close>, with what its documentation promises in \<open>queue_laws\<close>.
\<close>

section \<open>Counters\<close>

type_synonym redis = "(jstr, nat) jmap"

definition rd_get :: "redis \<Rightarrow> jstr \<Rightarrow> nat" where
  "rd_get r k = (case jm_get r k of None \<Rightarrow> 0 | Some n \<Rightarrow> n)"

definition rd_incr :: "jstr \<Rightarrow> redis \<Rightarrow> redis \<times> nat" where
  "rd_incr k r = (jm_set k (rd_get r k + 1) r, rd_get r k + 1)"

definition rd_decr :: "jstr \<Rightarrow> redis \<Rightarrow> redis" where
  "rd_decr k r = jm_set k (rd_get r k - 1) r"

lemma rd_get_incr [simp]:
  "rd_get (fst (rd_incr k r)) k' = (if k' = k then rd_get r k + 1 else rd_get r k')"
  by (simp add: rd_incr_def rd_get_def)

lemma rd_get_decr [simp]:
  "rd_get (rd_decr k r) k' = (if k' = k then rd_get r k - 1 else rd_get r k')"
  by (simp add: rd_decr_def rd_get_def)

definition ap_positiveInteger :: "jstr option \<Rightarrow> nat \<Rightarrow> nat" where
  "ap_positiveInteger v fallback =
     (let parsed = opt_number v
      in if is_safe_integer parsed
         then (case parsed of NumInt i \<Rightarrow> if i > 0 then nat i else fallback | _ \<Rightarrow> fallback)
         else fallback)"

section \<open>Rate limit\<close>

definition rate_limit :: "env \<Rightarrow> bool \<Rightarrow> nat" where
  "rate_limit env authenticated =
     (if authenticated then ap_positiveInteger (env ''RATE_LIMIT_AUTHENTICATED_PER_MINUTE'') 120
      else ap_positiveInteger (env ''RATE_LIMIT_ANONYMOUS_PER_MINUTE'') 30)"

definition rate_key :: "bool \<Rightarrow> jstr \<Rightarrow> nat \<Rightarrow> jstr" where
  "rate_key authenticated identity bucket =
     js ''clawwork:rate:'' @ (if authenticated then js ''user'' else js ''ip'') @ js '':''
     @ identity @ js '':'' @ js_of_nat bucket"

definition consumeRequest :: "env \<Rightarrow> nat \<Rightarrow> jstr \<Rightarrow> bool \<Rightarrow> redis \<Rightarrow> redis \<times> (exn + unit)" where
  "consumeRequest env now identity authenticated r =
     (let bucket = now div 60000;
          (r', n) = rd_incr (rate_key authenticated identity bucket) r
      in if n > rate_limit env authenticated
         then (r', Inl (TooManyRequests (js ''request rate limit exceeded'')))
         else (r', Inr ()))"

record request =
  rq_user :: "jstr option"
  rq_ip :: "jstr option"
  rq_remote :: "jstr option"
  rq_url :: "jstr option"

text \<open>The guard: the outcome, and whether the \<^verbatim>\<open>Retry-After\<close> header is set.\<close>

definition canActivate :: "env \<Rightarrow> nat \<Rightarrow> request \<Rightarrow> redis \<Rightarrow> redis \<times> (exn + bool) \<times> bool" where
  "canActivate env now q r =
     (let path = hd (js_split 63 (case rq_url q of Some u \<Rightarrow> u | None \<Rightarrow> []))
      in if js_starts_with path (js ''/health/'') \<or> path = js ''/metrics'' then (r, Inr True, False)
         else
           let identity = (case rq_user q of Some u \<Rightarrow> u
                           | None \<Rightarrow> (case rq_ip q of Some i \<Rightarrow> i
                                     | None \<Rightarrow> (case rq_remote q of Some a \<Rightarrow> a | None \<Rightarrow> js ''unknown'')))
           in case consumeRequest env now identity (rq_user q \<noteq> None) r of
                (r', Inl e) \<Rightarrow> (r', Inl e, (case e of TooManyRequests _ \<Rightarrow> True | _ \<Rightarrow> False))
              | (r', Inr _) \<Rightarrow> (r', Inr True, False))"

section \<open>Daily quota\<close>

definition daily_limit :: "env \<Rightarrow> nat" where
  "daily_limit env = ap_positiveInteger (env ''USER_DAILY_TASK_LIMIT'') 100"

definition daily_key :: "jstr \<Rightarrow> jstr \<Rightarrow> jstr" where
  "daily_key uid day = js ''clawwork:quota:tasks:'' @ uid @ js '':'' @ day"

text \<open>\<open>day\<close> is the date part of the present time.\<close>

definition reserveDailyTask :: "env \<Rightarrow> jstr \<Rightarrow> jstr \<Rightarrow> redis \<Rightarrow> redis \<times> (exn + unit)" where
  "reserveDailyTask env day uid r =
     (let k = daily_key uid day; (r', n) = rd_incr k r
      in if n > daily_limit env
         then (rd_decr k r', Inl (TooManyRequests (js ''daily task quota exceeded'')))
         else (r', Inr ()))"

definition releaseDailyTask :: "jstr \<Rightarrow> jstr \<Rightarrow> redis \<Rightarrow> redis" where
  "releaseDailyTask day uid r =
     (let k = daily_key uid day in if rd_get r k > 0 then rd_decr k r else r)"

lemma ap_positiveInteger_eq: "ap_positiveInteger v f = positive_or f (opt_number v)"
  by (cases "opt_number v") (auto simp: ap_positiveInteger_def positive_or_def is_safe_integer_def)

lemma daily_limit_pos: "0 < daily_limit env"
  by (simp add: daily_limit_def ap_positiveInteger_eq positive_or_pos)

lemma daily_key_inject [simp]: "daily_key uid d = daily_key uid d' \<longleftrightarrow> d = d'"
  by (simp add: daily_key_def)

lemma reserve_ok: "snd (reserveDailyTask env day uid r) = Inr () \<longleftrightarrow> rd_get r (daily_key uid day) < daily_limit env"
  by (simp add: reserveDailyTask_def rd_incr_def Let_def Suc_le_eq not_less)

lemma reserve_get:
  "rd_get (fst (reserveDailyTask env day uid r)) k =
     (if k = daily_key uid day \<and> rd_get r k < daily_limit env then rd_get r k + 1 else rd_get r k)"
  by (auto simp: reserveDailyTask_def Let_def rd_incr_def rd_decr_def rd_get_def)

lemma release_get:
  "rd_get (releaseDailyTask day uid r) k =
     (if k = daily_key uid day then rd_get r k - 1 else rd_get r k)"
  by (simp add: releaseDailyTask_def Let_def)

datatype quota_op = Reserve | Release

fun quota_step :: "env \<Rightarrow> jstr \<Rightarrow> jstr \<Rightarrow> quota_op \<Rightarrow> redis \<Rightarrow> redis" where
  "quota_step env day uid Reserve r = fst (reserveDailyTask env day uid r)"
| "quota_step env day uid Release r = releaseDailyTask day uid r"

interpretation quota: machine "quota_step env day uid"
    "\<lambda>r. rd_get r (daily_key uid day) \<le> daily_limit env" for env day uid
proof
  fix r i assume "rd_get r (daily_key uid day) \<le> daily_limit env"
  then show "rd_get (quota_step env day uid i r) (daily_key uid day) \<le> daily_limit env"
    by (cases i) (auto simp: reserve_get release_get)
qed



text \<open>
  the date is read again on release: a reservation made before midnight and released
  after it stays charged to the day it was made on, and takes one off the next day's count.
\<close>

theorem release_after_midnight:
  assumes "day \<noteq> day'" "snd (reserveDailyTask env day uid r) = Inr ()"
  shows "rd_get (releaseDailyTask day' uid (fst (reserveDailyTask env day uid r))) (daily_key uid day)
      = rd_get r (daily_key uid day) + 1
    \<and> rd_get (releaseDailyTask day' uid (fst (reserveDailyTask env day uid r))) (daily_key uid day')
      = rd_get r (daily_key uid day') - 1"
  using assms by (auto simp: reserve_ok reserve_get release_get)

theorem release_after_midnight_witness:
  "rd_get (releaseDailyTask (js ''2'') [] (fst (reserveDailyTask (\<lambda>_. None) (js ''1'') [] [])))
     (daily_key [] (js ''1'')) = 1"
proof -
  have "snd (reserveDailyTask (\<lambda>_. None) (js ''1'') [] []) = Inr ()"
    using daily_limit_pos by (simp add: reserve_ok rd_get_def)
  then show ?thesis
    using release_after_midnight [of "js ''1''" "js ''2''" "\<lambda>_. None" "[]" "[]"]
    by (simp add: rd_get_def)
qed

section \<open>The job queue\<close>

record 'q queue_api =
  qa_state :: "'q \<Rightarrow> jstr \<Rightarrow> jstr option"
  qa_remove :: "jstr \<Rightarrow> 'q \<Rightarrow> 'q"
  qa_add :: "jstr \<Rightarrow> nat \<Rightarrow> 'q \<Rightarrow> 'q \<times> jstr option"

text \<open>
  What BullMQ documents: a removed job is gone; a job added under a new id waits; adding
  under the id of a job that is kept does nothing.
\<close>

definition queue_laws :: "'q queue_api \<Rightarrow> bool" where
  "queue_laws qa \<longleftrightarrow>
     (\<forall>q i j. qa_state qa (qa_remove qa i q) j = (if j = i then None else qa_state qa q j))
     \<and> (\<forall>q i n. qa_state qa q i = None \<longrightarrow>
          (\<forall>j. qa_state qa (fst (qa_add qa i n q)) j =
             (if j = i then Some (js ''waiting'') else qa_state qa q j)))
     \<and> (\<forall>q i n. qa_state qa q i \<noteq> None \<longrightarrow> fst (qa_add qa i n q) = q)"

definition queue_attempts :: "env \<Rightarrow> nat" where
  "queue_attempts env =
     ap_positiveInteger (env ''TASK_QUEUE_ATTEMPTS'')
       (if env ''NODE_ENV'' = Some (js ''test'') then 1 else 5)"

definition tq_enqueue :: "'q queue_api \<Rightarrow> env \<Rightarrow> jstr \<Rightarrow> bool \<Rightarrow> 'q \<Rightarrow> 'q \<times> jstr" where
  "tq_enqueue qa env taskId reconcile q =
     (let q1 = (if reconcile \<and> (qa_state qa q taskId = Some (js ''failed'') \<or>
                               qa_state qa q taskId = Some (js ''completed''))
                then qa_remove qa taskId q else q);
          (q2, jid) = qa_add qa taskId (queue_attempts env) q1
      in (q2, case jid of Some i \<Rightarrow> i | None \<Rightarrow> taskId))"

definition tq_cancel :: "'q queue_api \<Rightarrow> jstr \<Rightarrow> 'q \<Rightarrow> 'q \<times> bool" where
  "tq_cancel qa taskId q =
     (case qa_state qa q taskId of
        None \<Rightarrow> (q, False)
      | Some st \<Rightarrow>
          if st \<in> {js ''waiting'', js ''delayed'', js ''paused'', js ''prioritized''}
          then (qa_remove qa taskId q, True) else (q, False))"

text \<open>The handler of the worker's \<^verbatim>\<open>failed\<close> event: whether the final failure is reported.\<close>

definition tq_final_failure :: "(nat \<times> nat option) option \<Rightarrow> bool" where
  "tq_final_failure job =
     (case job of
        None \<Rightarrow> False
      | Some (made, attempts) \<Rightarrow> \<not> made < (case attempts of Some a \<Rightarrow> a | None \<Rightarrow> 1))"

text \<open>
  recovery after a restart re-arms every queued task: a reconciling enqueue leaves a job
  that is neither failed nor completed, new if the old one had ended; an ordinary enqueue
  leaves an ended job as it is, and no enqueue touches another task's job.
\<close>

theorem enqueue_reconciles:
  assumes "queue_laws qa"
  shows "qa_state qa (fst (tq_enqueue qa env i True q)) i \<notin> {None, Some (js ''failed''), Some (js ''completed'')}
    \<and> (qa_state qa q i \<noteq> None \<longrightarrow> fst (tq_enqueue qa env i False q) = q)
    \<and> (j \<noteq> i \<longrightarrow> qa_state qa (fst (tq_enqueue qa env i b q)) j = qa_state qa q j)"
proof -
  have rm: "qa_state qa (qa_remove qa i q) j = (if j = i then None else qa_state qa q j)" for q i j
    using assms by (simp add: queue_laws_def)
  have add: "qa_state qa q i = None \<Longrightarrow> qa_state qa (fst (qa_add qa i n q)) j =
      (if j = i then Some (js ''waiting'') else qa_state qa q j)" for q i j n
    using assms by (simp add: queue_laws_def)
  have keep: "qa_state qa q i \<noteq> None \<Longrightarrow> fst (qa_add qa i n q) = q" for q i n
    using assms by (simp add: queue_laws_def)
  show ?thesis
    by (cases "qa_state qa q i")
      (auto simp: tq_enqueue_def Let_def rm add keep split_beta)
qed

theorem enqueue_reconciles_witness:
  "let qa = \<lparr>qa_state = jm_get, qa_remove = jm_delete,
       qa_add = (\<lambda>i n q. if jm_get q i = None then (jm_set i (js ''waiting'') q, Some i) else (q, Some i))\<rparr>
   in qa_state qa (fst (tq_enqueue qa (\<lambda>_. None) (js ''t'') True [(js ''t'', js ''failed'')])) (js ''t'')
       \<notin> {None, Some (js ''failed''), Some (js ''completed'')}"
  unfolding Let_def
  by (rule enqueue_reconciles [where j = "[]" and b = True, THEN conjunct1]) (simp add: queue_laws_def)

end
