(* ===== verification/TaskRouter.thy ===== *)
theory TaskRouter
  imports ApiCommon
begin

text \<open>
  \<^verbatim>\<open>apps/task-router/src/rules.ts\<close>: the rules that choose a task's type from its text. The
  Chinese keywords are written as their UTF-16 code units.
\<close>

datatype task_type = DocumentSummary | MeetingMinutes | EmailDraft | WeeklyReport

definition task_type_text :: "task_type \<Rightarrow> jstr" where
  "task_type_text ty =
     (case ty of DocumentSummary \<Rightarrow> js ''document_summary'' | MeetingMinutes \<Rightarrow> js ''meeting_minutes''
      | EmailDraft \<Rightarrow> js ''email_draft'' | WeeklyReport \<Rightarrow> js ''weekly_report'')"

record route_result =
  rt_taskType :: task_type
  rt_toneStyle :: jstr
  rt_needFileParse :: bool

definition meetingMinutesKeywords :: "jstr list" where
  "meetingMinutesKeywords = [[0x7EAA, 0x8981], [0x4F1A, 0x8BAE, 0x7EAA, 0x8981]]"

definition emailKeywords :: "jstr list" where
  "emailKeywords = [[0x90AE, 0x4EF6], [0x90AE, 0x7BB1], js ''email'', js ''mail'']"

definition reportKeywords :: "jstr list" where
  "reportKeywords = [[0x5468, 0x62A5], [0x6C47, 0x62A5]]"

definition routeByRules :: "jstr \<Rightarrow> jstr list \<Rightarrow> route_result" where
  "routeByRules rawText fileIds =
     (let tx = js_lower (js_trim rawText);
          needFileParse = length fileIds > 0
      in if list_ex (js_includes tx) meetingMinutesKeywords
         then \<lparr>rt_taskType = MeetingMinutes, rt_toneStyle = js ''default'', rt_needFileParse = needFileParse\<rparr>
         else if list_ex (js_includes tx) emailKeywords
         then \<lparr>rt_taskType = EmailDraft, rt_toneStyle = js ''formal'', rt_needFileParse = needFileParse\<rparr>
         else if list_ex (js_includes tx) reportKeywords
         then \<lparr>rt_taskType = WeeklyReport, rt_toneStyle = js ''formal'', rt_needFileParse = needFileParse\<rparr>
         else \<lparr>rt_taskType = DocumentSummary, rt_toneStyle = js ''default'', rt_needFileParse = needFileParse\<rparr>)"

text \<open>The longer keyword for minutes holds the shorter one, so it never decides alone.\<close>

lemma minutes_keywords:
  "js_includes [0x4F1A, 0x8BAE, 0x7EAA, 0x8981] [0x7EAA, 0x8981]"
  by (simp add: js_includes_def js_starts_with_def)

end
