(* ===== verification/Sse.thy ===== *)
theory Sse
  imports SharedTypes
begin

text \<open>
  Server-sent events as the services frame them: the reading loop that cuts a buffer at blank
  lines (\<^verbatim>\<open>relayAdapterEvents\<close> and \<^verbatim>\<open>parseAdapterEvent\<close> of \<^verbatim>\<open>tasks.service.ts\<close>, the mobile
  client's \<^verbatim>\<open>stream.ts\<close>) and the frames the stream endpoints write. A stream is the sequence of its
  decoded chunks; the framing is shown not to depend on how it is chunked, as long as no
  chunk ends between a carriage return and its line feed.
\<close>

section \<open>Cutting the buffer\<close>

definition sse_sep :: jstr where
  "sse_sep = [10, 10]"

text \<open>\<^verbatim>\<open>replace(/\r\n/g, "\n")\<close>.\<close>

fun crlf_to_lf :: "jstr \<Rightarrow> jstr" where
  "crlf_to_lf [] = []"
| "crlf_to_lf [c] = [c]"
| "crlf_to_lf (c # d # s) =
     (if c = 13 \<and> d = 10 then 10 # crlf_to_lf s else c # crlf_to_lf (d # s))"

text \<open>The inner loop: the complete frames in the buffer, and what is left.\<close>

function sse_drain :: "jstr \<Rightarrow> jstr list \<times> jstr" where
  "sse_drain buf =
     (case js_index_of sse_sep buf of
        None \<Rightarrow> ([], buf)
      | Some i \<Rightarrow>
          (let (frames, rest) = sse_drain (drop (i + 2) buf) in (take i buf # frames, rest)))"
  by pat_completeness auto
termination
  by (relation "measure length") (auto dest: js_index_of_bound simp: sse_sep_def)

declare sse_drain.simps [simp del]

definition sse_feed :: "jstr \<Rightarrow> jstr \<Rightarrow> jstr list \<times> jstr" where
  "sse_feed buf chunk = sse_drain (buf @ crlf_to_lf chunk)"

text \<open>A whole stream: the frames in order and the unfinished rest.\<close>

fun sse_read :: "jstr \<Rightarrow> jstr list \<Rightarrow> jstr list \<times> jstr" where
  "sse_read buf [] = ([], buf)"
| "sse_read buf (c # cs) =
     (let (fs, r) = sse_feed buf c; (fs', r') = sse_read r cs in (fs @ fs', r'))"

text \<open>\<^verbatim>\<open>lines.find((line) => line.startsWith(p))\<close> without the prefix.\<close>

definition find_line :: "jstr \<Rightarrow> jstr \<Rightarrow> jstr option" where
  "find_line p frame =
     map_option (drop (length p)) (find (\<lambda>l. js_starts_with l p) (js_split 10 frame))"

text \<open>
  A frame becomes an event and its id; frames without data, with text that is not JSON or
  with JSON that is no event are skipped.
\<close>

definition parseAdapterEvent ::
  "(jstr \<Rightarrow> bool) \<Rightarrow> (jstr \<Rightarrow> json option) \<Rightarrow> jstr \<Rightarrow> (task_event \<times> jstr option) option" where
  "parseAdapterEvent vurl jparse raw =
     (case find_line (js ''data: '') raw of
        None \<Rightarrow> None
      | Some t \<Rightarrow>
          (case jparse t of
             None \<Rightarrow> None
           | Some v \<Rightarrow> map_option (\<lambda>e. (e, find_line (js ''id: '') raw)) (parse_task_event vurl v)))"

section \<open>The frames the endpoints write\<close>

text \<open>\<^verbatim>\<open>writeSseEvent\<close> of the adapter: an id line, a data line and a blank line.\<close>

definition writeSseEvent :: "(json \<Rightarrow> jstr) \<Rightarrow> nat \<Rightarrow> task_event \<Rightarrow> jstr" where
  "writeSseEvent stringify n e =
     js ''id: '' @ js_of_nat n @ [10] @ js ''data: '' @ stringify (event_json e) @ [10, 10]"

section \<open>The frames do not depend on the chunking\<close>

lemma sse_drain_append:
  "sse_drain (a @ b) =
     (let (fs, r) = sse_drain a; (fs', r') = sse_drain (r @ b) in (fs @ fs', r'))"
proof (induction a rule: sse_drain.induct)
  case (1 a)
  show ?case
  proof (cases "js_index_of sse_sep a")
    case None
    then show ?thesis by (simp add: sse_drain.simps [of a])
  next
    case (Some i)
    have "i + 2 \<le> length a" using js_index_of_bound [OF Some] by (simp add: sse_sep_def)
    then have d: "drop (i + 2) (a @ b) = drop (i + 2) a @ b" "take i (a @ b) = take i a" by simp_all
    show ?thesis
      using "1.IH" [OF Some]
      by (simp only: sse_drain.simps [of a] sse_drain.simps [of "a @ b"] Some
          js_index_of_append [OF Some] option.case d)
        (simp add: Let_def split: prod.split)
  qed
qed

lemma crlf_to_lf_append:
  assumes "a = [] \<or> last a \<noteq> 13 \<or> b = [] \<or> hd b \<noteq> 10"
  shows "crlf_to_lf (a @ b) = crlf_to_lf a @ crlf_to_lf b"
  using assms
proof (induction a rule: crlf_to_lf.induct)
  case (2 c)
  then show ?case by (cases b) auto
qed (auto split: if_splits)

text \<open>No chunk ends between a carriage return and its line feed.\<close>

fun crlf_whole :: "jstr list \<Rightarrow> bool" where
  "crlf_whole [] = True"
| "crlf_whole (c # cs) \<longleftrightarrow>
     (c = [] \<or> last c \<noteq> 13 \<or> concat cs = [] \<or> hd (concat cs) \<noteq> 10) \<and> crlf_whole cs"

text \<open>
  reading a stream chunk by chunk yields the frames, in order, and the rest that
  reading it in one piece yields, whatever the chunks, unless one ends between a carriage
  return and its line feed.
\<close>

theorem sse_read_chunks:
  "crlf_whole cs \<Longrightarrow> sse_read buf cs = (case cs of [] \<Rightarrow> ([], buf) | _ \<Rightarrow> sse_feed buf (concat cs))"
proof (induction cs arbitrary: buf)
  case Nil
  then show ?case by simp
next
  case (Cons c cs)
  have "crlf_to_lf (c @ concat cs) = crlf_to_lf c @ crlf_to_lf (concat cs)"
    using Cons.prems by (intro crlf_to_lf_append) auto
  then have "sse_feed buf (concat (c # cs)) =
      (let (fs, r) = sse_feed buf c; (fs', r') = sse_feed r (concat cs) in (fs @ fs', r'))"
    using sse_drain_append [of "buf @ crlf_to_lf c" "crlf_to_lf (concat cs)"]
    by (auto simp: sse_feed_def Let_def split: prod.splits)
  moreover have "sse_feed r [] = ([], r)" if "sse_feed buf c = (fs, r)" for fs r
    using that sse_drain_append [of "buf @ crlf_to_lf c" "[]"]
    by (simp add: sse_feed_def Let_def split: prod.splits)
  ultimately show ?case
    using Cons.IH Cons.prems by (cases cs) (auto simp: Let_def split: prod.splits)
qed

theorem sse_read_chunks_witness:
  "sse_read [] [js ''data: a'', [10], [10]] = sse_feed [] (js ''data: a'' @ [10, 10])"
  using sse_read_chunks [of "[js ''data: a'', [10], [10]]" "[]"] by (simp add: js_def)

section \<open>A line feed split off its carriage return\<close>

text \<open>
  the replacement of line ends works chunk by chunk, so a blank line whose last
  carriage return and line feed arrive in different chunks is not recognised: the frame
  that the stream delivers in one piece is held back and joined with the next one.
\<close>

theorem sse_crlf_split_lost:
  "sse_read [] [js ''data: a'' @ [13, 10, 13, 10]] = ([js ''data: a''], [])
   \<and> sse_read [] [js ''data: a'' @ [13, 10, 13], [10]] = ([], js ''data: a'' @ [10, 13, 10])"
  by (simp add: js_def sse_feed_def sse_drain.simps sse_sep_def js_starts_with_def)

section \<open>What the adapter writes, the relay reads\<close>

lemma sse_index_line:
  assumes "10 \<notin> set l"
  shows "js_index_of sse_sep (l @ 10 # 10 # s) = Some (length l)"
    "c \<noteq> 10 \<Longrightarrow> js_index_of sse_sep (l @ 10 # c # s)
       = map_option (\<lambda>i. i + length l + 1) (js_index_of sse_sep (c # s))"
proof -
  show "js_index_of sse_sep (l @ 10 # 10 # s) = Some (length l)"
    using assms by (induction l) (auto simp: sse_sep_def js_starts_with_def)
  show "js_index_of sse_sep (l @ 10 # c # s)
       = map_option (\<lambda>i. i + length l + 1) (js_index_of sse_sep (c # s))" if "c \<noteq> 10"
    using assms that
  proof (induction l)
    case Nil
    then show ?case by (simp add: sse_sep_def js_starts_with_def)
  next
    case (Cons x l)
    then have "js_index_of sse_sep ((x # l) @ 10 # c # s)
        = map_option Suc (js_index_of sse_sep (l @ 10 # c # s))"
      by (auto simp: sse_sep_def js_starts_with_def)
    with Cons show ?case by (simp add: option.map_comp comp_def)
  qed
qed

lemma sse_drain_frame:
  assumes "10 \<notin> set a" "10 \<notin> set b" "b \<noteq> []"
  shows "sse_drain (a @ [10] @ b @ [10, 10] @ s) =
    (let (fs, r) = sse_drain s in ((a @ [10] @ b) # fs, r))"
proof -
  obtain c b' where b: "b = c # b'" "c \<noteq> 10" using assms(2,3) by (cases b) auto
  have "js_index_of sse_sep (b @ 10 # 10 # s) = Some (length b)"
    by (rule sse_index_line [OF assms(2)])
  then have "js_index_of sse_sep (a @ 10 # b @ 10 # 10 # s) = Some (length a + 1 + length b)"
    using sse_index_line(2) [OF assms(1) b(2), of "b' @ 10 # 10 # s"] b by (simp add: ac_simps)
  moreover have "drop (length a + 1 + length b + 2) (a @ [10] @ b @ [10, 10] @ s) = s"
  proof -
    have "length a + 1 + length b + 2 = length (a @ [10] @ b @ [10, 10])"
      "a @ [10] @ b @ [10, 10] @ s = (a @ [10] @ b @ [10, 10]) @ s" by simp_all
    moreover have "drop (length x) (x @ s) = s" for x by simp
    ultimately show ?thesis by metis
  qed
  moreover have "take (length a + 1 + length b) (a @ [10] @ b @ [10, 10] @ s) = a @ [10] @ b"
    by simp
  ultimately show ?thesis
    by (subst sse_drain.simps) simp
qed

lemma js_split_line: "10 \<notin> set a \<Longrightarrow> js_split 10 (a @ 10 # s) = a # js_split 10 s"
  by (induction a) auto

lemma js_split_single: "10 \<notin> set a \<Longrightarrow> js_split 10 a = [a]"
  by (induction a) auto

lemma no_lf_texts:
  "10 \<notin> set (js_of_nat n)" "13 \<notin> set (js_of_nat n)"
  "10 \<notin> set (js ''id: '')" "10 \<notin> set (js ''data: '')" "13 \<notin> set (js ''id: '')" "13 \<notin> set (js ''data: '')"
proof -
  show "10 \<notin> set (js_of_nat n)" "13 \<notin> set (js_of_nat n)"
    using js_of_nat_dec [of 10 n] js_of_nat_dec [of 13 n] by (auto simp: is_dec_def)
qed (simp_all add: js_def)

lemma parse_frame:
  assumes "detail_ok vurl (ev_detail e)" "jparse (stringify (event_json e)) = Some (event_json e)"
    and "10 \<notin> set (stringify (event_json e))"
  shows "parseAdapterEvent vurl jparse
      ((js ''id: '' @ js_of_nat n) @ [10] @ (js ''data: '' @ stringify (event_json e)))
    = Some (e, Some (js_of_nat n))"
proof -
  have "js_split 10 ((js ''id: '' @ js_of_nat n) @ [10] @ (js ''data: '' @ stringify (event_json e)))
      = [js ''id: '' @ js_of_nat n, js ''data: '' @ stringify (event_json e)]"
    using assms(3) js_split_line [of "js ''id: '' @ js_of_nat n" "js ''data: '' @ stringify (event_json e)"]
      js_split_single [of "js ''data: '' @ stringify (event_json e)"]
    by (simp add: no_lf_texts)
  moreover have "\<not> js_starts_with (js ''id: '' @ x) (js ''data: '')" for x
    by (simp add: js_starts_with_def js_def)
  ultimately show ?thesis
    using assms by (simp add: parseAdapterEvent_def find_line_def js_starts_with_append
        parse_task_event_json)
qed

lemma drain_written:
  assumes "\<And>n e. (n, e) \<in> set items \<Longrightarrow> 10 \<notin> set (stringify (event_json e))"
  shows "sse_drain (concat (map (\<lambda>(n, e). writeSseEvent stringify n e) items)) =
    (map (\<lambda>(n, e). (js ''id: '' @ js_of_nat n) @ [10] @ (js ''data: '' @ stringify (event_json e))) items, [])"
  using assms
proof (induction items)
  case Nil
  then show ?case by (simp add: sse_drain.simps sse_sep_def)
next
  case (Cons item items)
  obtain n e where item: "item = (n, e)" by fastforce
  have "sse_drain ((js ''id: '' @ js_of_nat n) @ [10] @ (js ''data: '' @ stringify (event_json e)) @ [10, 10]
      @ concat (map (\<lambda>(n, e). writeSseEvent stringify n e) items)) =
     (let (fs, r) = sse_drain (concat (map (\<lambda>(n, e). writeSseEvent stringify n e) items))
      in (((js ''id: '' @ js_of_nat n) @ [10] @ (js ''data: '' @ stringify (event_json e))) # fs, r))"
    by (rule sse_drain_frame) (use Cons.prems item no_lf_texts in auto)
  moreover have "sse_drain (concat (map (\<lambda>(n, e). writeSseEvent stringify n e) items)) =
    (map (\<lambda>(n, e). (js ''id: '' @ js_of_nat n) @ [10] @ (js ''data: '' @ stringify (event_json e))) items, [])"
    by (rule Cons.IH) (use Cons.prems in auto)
  ultimately show ?case using item by (simp add: writeSseEvent_def)
qed

lemma crlf_whole_clean: "13 \<notin> set (concat cs) \<Longrightarrow> crlf_whole cs"
  by (induction cs) (auto dest: last_in_set)

lemma crlf_to_lf_clean: "13 \<notin> set s \<Longrightarrow> crlf_to_lf s = s"
  by (induction s rule: crlf_to_lf.induct) auto

text \<open>
  C5: the events the adapter writes to a stream are exactly the events, with their ids and
  in order, that the relay of the API reads from it, however the network cuts the stream
  into chunks. \<^verbatim>\<open>JSON.parse\<close> is assumed to undo \<^verbatim>\<open>JSON.stringify\<close>, whose text holds no line
  ends.
\<close>

theorem adapter_stream_roundtrip:
  assumes "\<And>n e. (n, e) \<in> set items \<Longrightarrow> jparse (stringify (event_json e)) = Some (event_json e)"
    and "\<And>n e. (n, e) \<in> set items \<Longrightarrow>
      10 \<notin> set (stringify (event_json e)) \<and> 13 \<notin> set (stringify (event_json e))"
    and "list_all (\<lambda>(n, e). detail_ok vurl (ev_detail e)) items"
    and "concat cs = concat (map (\<lambda>(n, e). writeSseEvent stringify n e) items)"
  shows "map (parseAdapterEvent vurl jparse) (fst (sse_read [] cs))
    = map (\<lambda>(n, e). Some (e, Some (js_of_nat n))) items"
proof -
  have "13 \<notin> set (concat cs)"
    unfolding assms(4) using assms(2) no_lf_texts by (auto simp: writeSseEvent_def)
  then have "fst (sse_read [] cs) = fst (sse_drain (concat cs))"
    using sse_read_chunks [OF crlf_whole_clean, of cs "[]"]
    by (cases cs) (auto simp: sse_feed_def crlf_to_lf_clean sse_drain.simps sse_sep_def)
  also have "\<dots> = map (\<lambda>(n, e). (js ''id: '' @ js_of_nat n) @ [10]
      @ (js ''data: '' @ stringify (event_json e))) items"
    unfolding assms(4) by (subst drain_written) (use assms(2) in auto)
  finally have frames: "fst (sse_read [] cs) = map (\<lambda>(n, e). (js ''id: '' @ js_of_nat n) @ [10]
      @ (js ''data: '' @ stringify (event_json e))) items" .
  have "parseAdapterEvent vurl jparse ((js ''id: '' @ js_of_nat n) @ [10]
      @ (js ''data: '' @ stringify (event_json e))) = Some (e, Some (js_of_nat n))"
    if "(n, e) \<in> set items" for n e
    by (rule parse_frame) (use assms that in \<open>auto simp: list_all_iff\<close>)
  then show ?thesis unfolding frames by auto
qed

theorem adapter_stream_roundtrip_witness:
  "let e = \<lparr>ev_base = \<lparr>ev_taskId = [], ev_sessionId = [], ev_runId = [], ev_timestamp = []\<rparr>,
            ev_detail = CompletedEv\<rparr>
   in map (parseAdapterEvent (\<lambda>_. False) (\<lambda>_. Some (event_json e)))
       (fst (sse_read [] [js ''id: '' @ js_of_nat 1, [10] @ js ''data: {}'', [10], [10]]))
     = [Some (e, Some (js_of_nat 1))]"
proof -
  define e :: task_event where "e = \<lparr>ev_base = \<lparr>ev_taskId = [], ev_sessionId = [], ev_runId = [],
    ev_timestamp = []\<rparr>, ev_detail = CompletedEv\<rparr>"
  have "js ''data: '' @ js ''{}'' = js ''data: {}''" by (simp add: js_def)
  then show ?thesis
    using adapter_stream_roundtrip [of "[(1, e)]" "\<lambda>_. Some (event_json e)" "\<lambda>_. js ''{}''" "\<lambda>_. False"
        "[js ''id: '' @ js_of_nat 1, [10] @ js ''data: {}'', [10], [10]]"]
    by (simp add: writeSseEvent_def js_def e_def)
qed

end
