(* ===== verification/TaskLifecycle.thy ===== *)
theory TaskLifecycle
  imports TaskLog Quotas TaskRouter Sse
begin

text \<open>
  The life of a task in \<^verbatim>\<open>TasksService\<close>: creation under the quotas, the queue worker, dispatch
  to the adapter, the relay of the adapter's stream, cancellation and recovery at start. The
  state \<open>svc\<close> adds to the API's state the Redis counters, the running relays and the requests
  sent to the adapter. What one call learns from outside is the record \<open>calls\<close>; the relay
  handles several events in one step and takes one \<open>ext\<close> for each.
\<close>

record http_reply =
  hr_ok :: bool
  hr_json :: "json option"

record object_info =
  oi_sizeBytes :: nat
  oi_mimeType :: jstr
  oi_etag :: "jstr option"

record calls =
  cl_x :: "nat \<Rightarrow> ext"
  cl_taskId :: jstr
  cl_sessionId :: jstr
  cl_day :: jstr
  cl_releaseDay :: jstr
  cl_settings :: "jstr \<times> jstr"
  cl_enqueue :: "jstr \<Rightarrow> exn + jstr"
  cl_qcancel :: "jstr \<Rightarrow> exn + bool"
  cl_post :: "jstr \<Rightarrow> json \<Rightarrow> exn + http_reply"
  cl_inspect :: "jstr \<Rightarrow> exn + object_info"
  cl_encode :: "jstr \<Rightarrow> jstr"

text \<open>The first \<open>ext\<close> is the one most operations use.\<close>

abbreviation cl_ext :: "calls \<Rightarrow> ext" where
  "cl_ext c \<equiv> cl_x c 0"

text \<open>A relay: the unread text, and whether its controller was aborted, by the timer or not.\<close>

record relay =
  rl_buffer :: jstr
  rl_aborted :: bool
  rl_timedOut :: bool
  rl_deadline :: nat

record svc =
  sv_api :: api
  sv_redis :: redis
  sv_relays :: "(jstr, relay) jmap"
  sv_posts :: "jstr list"

definition upd_api :: "(api \<Rightarrow> api) \<Rightarrow> svc \<Rightarrow> svc" where
  "upd_api f s = s\<lparr>sv_api := f (sv_api s)\<rparr>"

definition upd_db :: "(db \<Rightarrow> db) \<Rightarrow> svc \<Rightarrow> svc" where
  "upd_db f s = s\<lparr>sv_api := (sv_api s)\<lparr>ap_db := f (ap_db (sv_api s))\<rparr>\<rparr>"

abbreviation sv_db :: "svc \<Rightarrow> db" where
  "sv_db s \<equiv> ap_db (sv_api s)"

text \<open>An operation of the API as one on the service.\<close>

definition on_api :: "(api \<Rightarrow> api \<times> 'a) \<Rightarrow> svc \<Rightarrow> svc \<times> 'a" where
  "on_api f s = (let (w, r) = f (sv_api s) in (s\<lparr>sv_api := w\<rparr>, r))"

section \<open>Creation\<close>

record create_input =
  ci_text :: jstr
  ci_fileIds :: "jstr list"
  ci_tone :: "jstr option"
  ci_length :: "jstr option"

record created =
  cd_taskId :: jstr
  cd_sessionId :: jstr
  cd_streamUrl :: jstr
  cd_initialStatus :: jstr
  cd_errorMessage :: "jstr option"

definition uploaded_files :: "db \<Rightarrow> jstr \<Rightarrow> jstr list \<Rightarrow> db_file list" where
  "uploaded_files d uid ids =
     filter (\<lambda>f. f_id f \<in> set ids \<and> f_userId f = uid \<and> f_status f = Uploaded) (db_files d)"

definition new_task ::
  "calls \<Rightarrow> jstr \<Rightarrow> create_input \<Rightarrow> jstr option \<Rightarrow> jstr \<Rightarrow> db_file list \<Rightarrow> task" where
  "new_task c uid input parent sid files =
     \<lparr>t_id = cl_taskId c, t_sessionId = sid, t_userId = uid, t_parentTaskId = parent,
      t_taskType = task_type_text (rt_taskType (routeByRules (ci_text input) (ci_fileIds input))),
      t_status = Queued, t_inputText = js_trim (ci_text input),
      t_preferredTone = (case ci_tone input of Some t \<Rightarrow> t | None \<Rightarrow> fst (cl_settings c)),
      t_preferredLength = (case ci_length input of Some t \<Rightarrow> t | None \<Rightarrow> snd (cl_settings c)),
      t_runId = None, t_adapterStreamUrl = None, t_errorCode = None, t_errorMessage = None,
      t_createdAt = x_now (cl_ext c), t_updatedAt = x_now (cl_ext c), t_startedAt = None,
      t_completedAt = None, t_queueJobId = None, t_attemptCount = 0, t_files = map f_id files\<rparr>"

definition new_session :: "calls \<Rightarrow> jstr \<Rightarrow> create_input \<Rightarrow> session" where
  "new_session c uid input =
     \<lparr>s_id = cl_sessionId c, s_userId = uid, s_title = take 40 (js_trim (ci_text input)),
      s_status = Queued, s_currentTaskId = None, s_createdAt = x_now (cl_ext c),
      s_updatedAt = x_now (cl_ext c)\<rparr>"

text \<open>
  The transaction of \<^verbatim>\<open>enqueueTask\<close>: the concurrency quota, the session, the task. The primary
  keys refuse an id that is taken.
\<close>

definition create_tx ::
  "calls \<Rightarrow> jstr \<Rightarrow> create_input \<Rightarrow> jstr option \<Rightarrow> jstr option \<Rightarrow> db_file list \<Rightarrow> db \<Rightarrow> exn + db \<times> task" where
  "create_tx c uid input session parent files d =
     (if length (active_tasks d uid) \<ge> concurrentLimit (x_env (cl_ext c))
      then Inl (TooManyRequests (js ''concurrent task quota exceeded''))
      else
        if find_task d (cl_taskId c) \<noteq> None \<or> (session = None \<and> find_session d (cl_sessionId c) \<noteq> None)
        then Inl (JsError (Some (js ''P2002'')) (js ''Unique constraint failed''))
        else
        let (d1, found) =
              (case session of
                 Some sid \<Rightarrow> (d, find (\<lambda>s. s_id s = sid \<and> s_userId s = uid) (db_sessions d))
               | None \<Rightarrow> (d\<lparr>db_sessions := db_sessions d @ [new_session c uid input]\<rparr>,
                          Some (new_session c uid input)))
        in case found of
             None \<Rightarrow> Inl (NotFound (js ''session not found''))
           | Some s \<Rightarrow>
               let t = new_task c uid input parent (s_id s) files
               in Inr (upd_session (x_now (cl_ext c)) (s_id s)
                         (\<lambda>u. u\<lparr>s_currentTaskId := Some (t_id t), s_status := Queued\<rparr>)
                         (d1\<lparr>db_tasks := db_tasks d1 @ [t]\<rparr>), t))"

text \<open>After the transaction: the job, or the failure of the task when the queue is down.\<close>

definition start_job :: "calls \<Rightarrow> task \<Rightarrow> svc \<Rightarrow> svc \<times> (exn + created)" where
  "start_job c t s =
     (let url = js ''/tasks/'' @ t_id t @ js ''/stream''
      in case cl_enqueue c (t_id t) of
           Inr jid \<Rightarrow>
             (upd_db (upd_task (x_now (cl_ext c)) (t_id t) (\<lambda>u. u\<lparr>t_queueJobId := Some jid\<rparr>)) s,
              Inr \<lparr>cd_taskId = t_id t, cd_sessionId = t_sessionId t, cd_streamUrl = url,
                   cd_initialStatus = js ''queued'', cd_errorMessage = None\<rparr>)
         | Inl e \<Rightarrow>
             (case on_api (failTask (cl_ext c) (t_id t) (js ''TASK_QUEUE_UNAVAILABLE'') (exn_message e)) s of
                (s', Inl err) \<Rightarrow> (s', Inl err)
              | (s', Inr _) \<Rightarrow>
                  (s', Inr \<lparr>cd_taskId = t_id t, cd_sessionId = t_sessionId t, cd_streamUrl = url,
                            cd_initialStatus = js ''failed'', cd_errorMessage = Some (exn_message e)\<rparr>)))"

definition enqueueTask ::
  "calls \<Rightarrow> jstr \<Rightarrow> create_input \<Rightarrow> jstr option \<Rightarrow> jstr option \<Rightarrow> svc \<Rightarrow> svc \<times> (exn + created)" where
  "enqueueTask c uid input session parent s =
     (let files = uploaded_files (sv_db s) uid (ci_fileIds input)
      in if length files \<noteq> card (set (ci_fileIds input))
         then (s, Inl (BadRequest (js ''one or more files are missing, unowned, or incomplete'')))
         else case reserveDailyTask (x_env (cl_ext c)) (cl_day c) uid (sv_redis s) of
                (r, Inl e) \<Rightarrow> (s\<lparr>sv_redis := r\<rparr>, Inl e)
              | (r, Inr _) \<Rightarrow>
                  let s1 = s\<lparr>sv_redis := r\<rparr>
                  in case create_tx c uid input session parent files (sv_db s1) of
                       Inl e \<Rightarrow> (s1\<lparr>sv_redis := releaseDailyTask (cl_releaseDay c) uid (sv_redis s1)\<rparr>, Inl e)
                     | Inr (d, t) \<Rightarrow> start_job c t (upd_db (\<lambda>_. d) s1))"

definition createTask :: "calls \<Rightarrow> jstr \<Rightarrow> create_input \<Rightarrow> svc \<Rightarrow> svc \<times> (exn + created)" where
  "createTask c uid input s = enqueueTask c uid input None None s"

definition createFollowUp ::
  "calls \<Rightarrow> jstr \<Rightarrow> jstr \<Rightarrow> create_input \<Rightarrow> svc \<Rightarrow> svc \<times> (exn + created)" where
  "createFollowUp c uid taskId input s =
     (case find_owned_task (sv_db s) uid taskId of
        None \<Rightarrow> (s, Inl (NotFound (js ''task not found'')))
      | Some p \<Rightarrow> enqueueTask c uid input (Some (t_sessionId p)) (Some (t_id p)) s)"

definition regenerate :: "calls \<Rightarrow> jstr \<Rightarrow> jstr \<Rightarrow> svc \<Rightarrow> svc \<times> (exn + created)" where
  "regenerate c uid taskId s =
     (case find_owned_task (sv_db s) uid taskId of
        None \<Rightarrow> (s, Inl (NotFound (js ''task not found'')))
      | Some src \<Rightarrow>
          enqueueTask c uid
            \<lparr>ci_text = t_inputText src, ci_fileIds = t_files src,
             ci_tone = Some (t_preferredTone src), ci_length = Some (t_preferredLength src)\<rparr>
            (Some (t_sessionId src)) (Some (t_id src)) s)"

section \<open>Requests to the adapter\<close>

definition reply_message :: "http_reply \<Rightarrow> jstr \<Rightarrow> jstr" where
  "reply_message rp dflt =
     (case Option.bind (hr_json rp) (\<lambda>v. prop_str v (js ''message'')) of Some m \<Rightarrow> m | None \<Rightarrow> dflt)"

definition reply_code :: "http_reply \<Rightarrow> jstr \<Rightarrow> jstr" where
  "reply_code rp dflt =
     (case Option.bind (hr_json rp) (\<lambda>v. prop_str v (js ''code'')) of Some m \<Rightarrow> m | None \<Rightarrow> dflt)"

definition requestGatewayCancellation :: "calls \<Rightarrow> jstr \<Rightarrow> svc \<Rightarrow> svc \<times> (exn + unit)" where
  "requestGatewayCancellation c taskId s =
     (let adapterUrl = asNonEmptyString (x_env (cl_ext c) ''OPENCLAW_ADAPTER_URL'');
          url = adapterUrl @ js ''/gateway/tasks/'' @ cl_encode c taskId @ js ''/cancel''
      in if adapterUrl = []
         then (s, Inl (Conflict (js ''adapter is unavailable; running task was not cancelled'')))
         else
           let s1 = s\<lparr>sv_posts := sv_posts s @ [url]\<rparr>
           in case cl_post c url JNull of
                Inl e \<Rightarrow> (s1, Inl e)
              | Inr rp \<Rightarrow>
                  if hr_ok rp then (s1, Inr ())
                  else (s1, Inl (Conflict (reply_message rp (js ''running task could not be cancelled'')))))"

definition gateway_file_json :: "calls \<Rightarrow> db_file \<Rightarrow> json" where
  "gateway_file_json c f = JObj
     [(js ''fileId'', JStr (f_id f)), (js ''filename'', JStr (f_filename f)),
      (js ''mimeType'', JStr (f_mimeType f)), (js ''sizeBytes'', JInt (int (f_sizeBytes f))),
      (js ''storageKey'', JStr (f_storageKey f)),
      (js ''contentUrl'', JStr (x_presign (cl_ext c) (f_storageKey f) False))]"

definition requestGatewayExecution ::
  "calls \<Rightarrow> jstr \<Rightarrow> task \<Rightarrow> json list \<Rightarrow> svc \<Rightarrow> svc \<times> (exn + jstr \<times> jstr)" where
  "requestGatewayExecution c adapterUrl t files s =
     (let url = adapterUrl @ js ''/gateway/tasks/execute'';
          body = JObj [(js ''taskId'', JStr (t_id t)), (js ''sessionId'', JStr (t_sessionId t)),
                       (js ''message'', JStr (buildExecutionMessage (t_inputText t) (t_taskType t)
                                               (t_preferredTone t) (t_preferredLength t))),
                       (js ''files'', JArr files)];
          s1 = s\<lparr>sv_posts := sv_posts s @ [url]\<rparr>
      in case cl_post c url body of
           Inl e \<Rightarrow> (s1, Inl e)
         | Inr rp \<Rightarrow>
             if \<not> hr_ok rp
             then (s1, Inl (JsError (Some (reply_code rp (js ''GATEWAY_UNAVAILABLE'')))
                              (reply_message rp (js ''adapter request failed''))))
             else case hr_json rp of
                    None \<Rightarrow> (s1, Inl (JsError None (js ''invalid JSON'')))
                  | Some v \<Rightarrow>
                      (case (prop_str v (js ''runId''), prop_str v (js ''streamUrl'')) of
                         (Some r, Some u) \<Rightarrow> (s1, Inr (r, u))
                       | _ \<Rightarrow> (s1, Inl (JsError None (js ''adapter returned invalid execution metadata'')))))"

section \<open>The relay of the adapter's stream\<close>

definition startAdapterRelay :: "jstr \<Rightarrow> nat \<Rightarrow> svc \<Rightarrow> svc" where
  "startAdapterRelay taskId deadline s =
     (if jm_get (sv_relays s) taskId \<noteq> None then s
      else s\<lparr>sv_relays := jm_set taskId
              \<lparr>rl_buffer = [], rl_aborted = False, rl_timedOut = False, rl_deadline = deadline\<rparr>
              (sv_relays s)\<rparr>)"

text \<open>\<^verbatim>\<open>activeRelays.get(taskId)?.abort()\<close>.\<close>

definition abort_relay :: "jstr \<Rightarrow> svc \<Rightarrow> svc" where
  "abort_relay taskId s =
     (case jm_get (sv_relays s) taskId of
        None \<Rightarrow> s
      | Some r \<Rightarrow> s\<lparr>sv_relays := jm_set taskId (r\<lparr>rl_aborted := True\<rparr>) (sv_relays s)\<rparr>)"

text \<open>The \<^verbatim>\<open>Last-Event-ID\<close> the relay connects with.\<close>

definition relay_last_event_id :: "db \<Rightarrow> jstr \<Rightarrow> jstr option" where
  "relay_last_event_id d taskId =
     (case filter (\<lambda>r. te_taskId r = taskId \<and> te_sourceEventId r \<noteq> None) (db_events d) of
        [] \<Rightarrow> None
      | r # rs \<Rightarrow> te_sourceEventId (last (r # rs)))"

datatype relay_outcome = FramesDone | TerminalSeen | Threw exn

fun relay_frames :: "(nat \<Rightarrow> ext) \<Rightarrow> jstr list \<Rightarrow> api \<Rightarrow> api \<times> relay_outcome" where
  "relay_frames xs [] w = (w, FramesDone)"
| "relay_frames xs (f # fs) w =
     (case parseAdapterEvent (x_vurl (xs 0)) (x_json (xs 0)) f of
        None \<Rightarrow> relay_frames (\<lambda>n. xs (Suc n)) fs w
      | Some (e, src) \<Rightarrow>
          (case persistTaskEvent (xs 0) e src w of
             (w', Inl err) \<Rightarrow> (w', Threw err)
           | (w', Inr _) \<Rightarrow>
               if terminal_detail (ev_detail e) then (w', TerminalSeen)
               else relay_frames (\<lambda>n. xs (Suc n)) fs w'))"

text \<open>The \<^verbatim>\<open>finally\<close> block, and the \<^verbatim>\<open>catch\<close> block before it.\<close>

definition relay_end :: "jstr \<Rightarrow> svc \<Rightarrow> svc" where
  "relay_end taskId s = s\<lparr>sv_relays := jm_delete taskId (sv_relays s)\<rparr>"

definition fail_task :: "calls \<Rightarrow> jstr \<Rightarrow> jstr \<Rightarrow> jstr \<Rightarrow> svc \<Rightarrow> svc" where
  "fail_task c taskId code message s = fst (on_api (failTask (cl_ext c) taskId code message) s)"

definition relay_catch :: "calls \<Rightarrow> jstr \<Rightarrow> relay \<Rightarrow> exn \<Rightarrow> svc \<Rightarrow> svc" where
  "relay_catch c taskId r err s =
     relay_end taskId
       (if rl_timedOut r
        then fail_task c taskId (js ''TASK_TIMEOUT'') (js ''task execution timed out'')
               (fst (requestGatewayCancellation c taskId s))
        else if \<not> rl_aborted r
        then fail_task c taskId (js ''GATEWAY_STREAM_ERROR'') (exn_message err) s
        else s)"

text \<open>
  What happens to a relay: a chunk is read; the stream ends; connecting or reading fails; the
  timer fires while it waits for a chunk (the abort makes the read fail); the timer fires
  while it persists the events of a chunk. The \<open>ext\<close>s from 1 on are for the frames of a chunk.
\<close>

datatype relay_input =
    RelayChunk jstr
  | RelayDone
  | RelayError exn
  | RelayTimeout
  | RelayChunkTimeout jstr

definition relay_chunk :: "calls \<Rightarrow> jstr \<Rightarrow> relay \<Rightarrow> jstr \<Rightarrow> svc \<Rightarrow> svc" where
  "relay_chunk c taskId r chunk s =
     (let (frames, rest) = sse_feed (rl_buffer r) chunk;
          (s1, res) = on_api (relay_frames (\<lambda>n. cl_x c (Suc n)) frames) s
      in case res of
           TerminalSeen \<Rightarrow> relay_end taskId s1
         | Threw err \<Rightarrow> relay_catch c taskId r err s1
         | FramesDone \<Rightarrow>
             if rl_aborted r then relay_end taskId s1
             else s1\<lparr>sv_relays := jm_set taskId (r\<lparr>rl_buffer := rest\<rparr>) (sv_relays s1)\<rparr>)"

definition relay_step :: "calls \<Rightarrow> jstr \<Rightarrow> relay_input \<Rightarrow> svc \<Rightarrow> svc" where
  "relay_step c taskId inp s =
     (case jm_get (sv_relays s) taskId of
        None \<Rightarrow> s
      | Some r \<Rightarrow>
          (case inp of
             RelayChunk chunk \<Rightarrow> relay_chunk c taskId r chunk s
           | RelayChunkTimeout chunk \<Rightarrow>
               relay_chunk c taskId (r\<lparr>rl_aborted := True, rl_timedOut := True\<rparr>) chunk s
           | RelayDone \<Rightarrow>
               relay_end taskId
                 (if rl_aborted r then s
                  else fail_task c taskId (js ''GATEWAY_STREAM_CLOSED'') (js ''gateway stream closed early'') s)
           | RelayError err \<Rightarrow> relay_catch c taskId r err s
           | RelayTimeout \<Rightarrow>
               relay_catch c taskId (r\<lparr>rl_aborted := True, rl_timedOut := True\<rparr>)
                 (JsError None (js ''This operation was aborted'')) s))"

section \<open>Dispatch\<close>

text \<open>The conditional update: only a task that is still queued becomes running.\<close>

definition mark_running :: "calls \<Rightarrow> jstr \<Rightarrow> jstr \<Rightarrow> jstr \<Rightarrow> db \<Rightarrow> db" where
  "mark_running c taskId runId streamUrl d =
     upd_task (x_now (cl_ext c)) taskId
       (\<lambda>u. u\<lparr>t_status := Running, t_runId := Some runId, t_adapterStreamUrl := Some streamUrl,
             t_startedAt := Some (x_now (cl_ext c)), t_errorCode := None, t_errorMessage := None\<rparr>) d"

text \<open>
  \<open>race\<close> is what other requests do to the service while the adapter is being asked.
\<close>

definition dispatchTask ::
  "calls \<Rightarrow> (svc \<Rightarrow> svc) \<Rightarrow> task \<Rightarrow> json list \<Rightarrow> svc \<Rightarrow> svc \<times> (exn + unit)" where
  "dispatchTask c race t files s =
     (let adapterUrl = asNonEmptyString (x_env (cl_ext c) ''OPENCLAW_ADAPTER_URL'')
      in if adapterUrl = []
         then (s, Inl (JsError (Some (js ''GATEWAY_UNAVAILABLE'')) (js ''OpenClaw adapter is not configured'')))
         else case requestGatewayExecution c adapterUrl t files s of
                (s1, Inl e) \<Rightarrow> (s1, Inl e)
              | (s1, Inr (runId, surl)) \<Rightarrow>
                  let s2 = race s1;
                      streamUrl = (if js_starts_with surl (js ''http'') then surl else adapterUrl @ surl)
                  in if map_option t_status (find_task (sv_db s2) (t_id t)) \<noteq> Some Queued
                     then (fst (requestGatewayCancellation c (t_id t) s2), Inr ())
                     else
                       (startAdapterRelay (t_id t) (x_now (cl_ext c) + taskTimeoutMs (x_env (cl_ext c)))
                          (upd_db (\<lambda>d. upd_session (x_now (cl_ext c)) (t_sessionId t)
                                     (\<lambda>u. u\<lparr>s_status := Running\<rparr>)
                                     (mark_running c (t_id t) runId streamUrl d)) s2),
                        Inr ()))"

text \<open>The files of a task, each compared with the stored object; the first mismatch is thrown.\<close>

fun check_files :: "calls \<Rightarrow> db_file list \<Rightarrow> exn + json list" where
  "check_files c [] = Inr []"
| "check_files c (f # fs) =
     (case cl_inspect c (f_storageKey f) of
        Inl e \<Rightarrow> Inl e
      | Inr ob \<Rightarrow>
          if oi_sizeBytes ob \<noteq> f_sizeBytes f \<or> oi_mimeType ob \<noteq> f_mimeType f
             \<or> f_etag f = None \<or> f_etag f = Some [] \<or> oi_etag ob \<noteq> f_etag f
          then Inl (JsError (Some (js ''FILE_INTEGRITY_FAILED''))
                     (js ''file integrity check failed for '' @ f_filename f))
          else map_sum id (\<lambda>rest. gateway_file_json c f # rest) (check_files c fs))"

definition linked_files :: "db \<Rightarrow> task \<Rightarrow> db_file list" where
  "linked_files d t = List.map_filter (find_file d) (t_files t)"

definition processQueuedTask ::
  "calls \<Rightarrow> (svc \<Rightarrow> svc) \<Rightarrow> jstr \<Rightarrow> svc \<Rightarrow> svc \<times> (exn + unit)" where
  "processQueuedTask c race taskId s =
     (case find_task (sv_db s) taskId of
        None \<Rightarrow> (s, Inr ())
      | Some t \<Rightarrow>
          if t_status t \<noteq> Queued then (s, Inr ())
          else
            let s1 = upd_db (upd_task (x_now (cl_ext c)) (t_id t)
                              (\<lambda>u. u\<lparr>t_attemptCount := t_attemptCount u + 1\<rparr>)) s
            in case check_files c (linked_files (sv_db s1) t) of
                 Inl e \<Rightarrow> (s1, Inl e)
               | Inr files \<Rightarrow> dispatchTask c race t files s1)"

text \<open>What the queue calls when a job has failed for good.\<close>

definition onFinalFailure :: "calls \<Rightarrow> jstr \<Rightarrow> exn \<Rightarrow> svc \<Rightarrow> svc" where
  "onFinalFailure c taskId e s =
     fail_task c taskId
       (case exn_code e of Some k \<Rightarrow> k | None \<Rightarrow> js ''TASK_QUEUE_EXHAUSTED'')
       (if exn_message e = [] then js ''task dispatch retries exhausted'' else exn_message e) s"

section \<open>Cancellation\<close>

definition status_text :: "task_status \<Rightarrow> jstr" where
  "status_text st =
     (case st of Queued \<Rightarrow> js ''queued'' | Running \<Rightarrow> js ''running'' | Completed \<Rightarrow> js ''completed''
      | Failed \<Rightarrow> js ''failed'' | Cancelled \<Rightarrow> js ''cancelled'')"

definition cancel_event :: "calls \<Rightarrow> task \<Rightarrow> task_event" where
  "cancel_event c t =
     \<lparr>ev_base = \<lparr>ev_taskId = t_id t, ev_sessionId = t_sessionId t, ev_runId = run_id_or_task t,
        ev_timestamp = x_iso (cl_ext c)\<rparr>,
      ev_detail = CancelledEv (js ''task cancelled by user'')\<rparr>"

text \<open>
  \<open>race\<close> is what other requests and the relay do while the queue or the adapter is being asked;
  the row that was read before it decides the path and the session and run of the event.
\<close>

definition cancelTask ::
  "calls \<Rightarrow> (svc \<Rightarrow> svc) \<Rightarrow> jstr \<Rightarrow> jstr \<Rightarrow> svc \<Rightarrow> svc \<times> (exn + jstr \<times> jstr)" where
  "cancelTask c race uid taskId s =
     (case find_owned_task (sv_db s) uid taskId of
        None \<Rightarrow> (s, Inl (NotFound (js ''task not found'')))
      | Some t \<Rightarrow>
          if isTerminalStatus (t_status t) then (s, Inr (t_id t, status_text (t_status t)))
          else
            (case (if t_status t = Queued
                   then (s, map_sum id (\<lambda>_. ()) (cl_qcancel c (t_id t)))
                   else requestGatewayCancellation c (t_id t) s) of
               (s1, Inl e) \<Rightarrow> (s1, Inl e)
             | (s1, Inr _) \<Rightarrow>
                 (case on_api (persistTaskEvent (cl_ext c) (cancel_event c t) None) (abort_relay (t_id t) (race s1)) of
                    (s2, Inl e) \<Rightarrow> (s2, Inl e)
                  | (s2, Inr _) \<Rightarrow> (s2, Inr (t_id t, js ''cancelled'')))))"

section \<open>Recovery at start\<close>

text \<open>Queued tasks get their job again; the result is the first failure of the queue.\<close>

fun requeue :: "calls \<Rightarrow> task list \<Rightarrow> svc \<Rightarrow> svc \<times> (exn + unit)" where
  "requeue c [] s = (s, Inr ())"
| "requeue c (t # ts) s =
     (case cl_enqueue c (t_id t) of
        Inl e \<Rightarrow> (s, Inl e)
      | Inr jid \<Rightarrow>
          requeue c ts
            (upd_db (upd_task (x_now (cl_ext c)) (t_id t) (\<lambda>u. u\<lparr>t_queueJobId := Some jid\<rparr>)) s))"

text \<open>Running tasks are relayed again for the time they have left, or failed.\<close>

definition resume_running :: "calls \<Rightarrow> task \<Rightarrow> svc \<Rightarrow> svc" where
  "resume_running c t s =
     (let now = x_now (cl_ext c);
          elapsed = (case t_startedAt t of Some st \<Rightarrow> int now - int st | None \<Rightarrow> 0);
          remaining = int (taskTimeoutMs (x_env (cl_ext c))) - elapsed
      in if t_adapterStreamUrl t = None \<or> t_adapterStreamUrl t = Some [] then s
         else if remaining \<le> 0
         then fail_task c (t_id t) (js ''TASK_TIMEOUT'') (js ''task execution timed out'')
                (fst (requestGatewayCancellation c (t_id t) s))
         else startAdapterRelay (t_id t) (nat (int now + remaining)) s)"

definition onModuleInit :: "calls \<Rightarrow> svc \<Rightarrow> svc \<times> (exn + unit)" where
  "onModuleInit c s =
     (let queued = take 10000 (filter (\<lambda>t. t_status t = Queued) (db_tasks (sv_db s)))
      in case requeue c queued s of
           (s1, Inl e) \<Rightarrow> (s1, Inl e)
         | (s1, Inr _) \<Rightarrow>
             let running = filter (\<lambda>t. t_status t = Running \<and> t_adapterStreamUrl t \<noteq> None)
                             (db_tasks (sv_db s1))
             in (fold (resume_running c) running s1, Inr ()))"

text \<open>\<^verbatim>\<open>onModuleDestroy\<close>: the controllers are aborted and forgotten.\<close>

definition onModuleDestroy :: "svc \<Rightarrow> svc" where
  "onModuleDestroy s = s\<lparr>sv_relays := []\<rparr>"

section \<open>Every operation keeps the database invariant\<close>

lemma sv_db_upd [simp]:
  "sv_db (upd_db f s) = f (sv_db s)" "sv_db (upd_api g s) = ap_db (g (sv_api s))"
  by (simp_all add: upd_db_def upd_api_def)

lemma sv_frames [simp]:
  "sv_redis (upd_db f s) = sv_redis s" "sv_relays (upd_db f s) = sv_relays s"
  "sv_posts (upd_db f s) = sv_posts s"
  "sv_api (relay_end i s) = sv_api s" "sv_api (abort_relay i s) = sv_api s"
  "sv_api (startAdapterRelay i n s) = sv_api s"
  "sv_api (fst (requestGatewayCancellation c i s)) = sv_api s"
  "sv_relays (fst (requestGatewayCancellation c i s)) = sv_relays s"
  "sv_redis (fst (requestGatewayCancellation c i s)) = sv_redis s"
  "sv_api (fst (requestGatewayExecution c u t fs s)) = sv_api s"
  by (simp_all add: upd_db_def relay_end_def abort_relay_def startAdapterRelay_def
      requestGatewayCancellation_def requestGatewayExecution_def Let_def
      split: option.split sum.split)

lemma on_api_frames [simp]:
  "sv_api (fst (on_api f s)) = fst (f (sv_api s))" "snd (on_api f s) = snd (f (sv_api s))"
  "sv_relays (fst (on_api f s)) = sv_relays s" "sv_posts (fst (on_api f s)) = sv_posts s"
  "sv_redis (fst (on_api f s)) = sv_redis s"
  by (simp_all add: on_api_def split_beta)

text \<open>All \<open>ext\<close>s of a call agree on which texts are URLs.\<close>

definition calls_ok :: "(jstr \<Rightarrow> bool) \<Rightarrow> calls \<Rightarrow> bool" where
  "calls_ok vurl c \<longleftrightarrow> (\<forall>n. x_vurl (cl_x c n) = vurl)"

lemma calls_okD [simp]: "calls_ok vurl c \<Longrightarrow> x_vurl (cl_x c n) = vurl"
  by (simp add: calls_ok_def)

lemma failTask_keeps:
  assumes "db_ok (x_vurl x) (ap_db w)"
  shows "db_ok (x_vurl x) (ap_db (fst (failTask x i k m w)))"
  using persist_keeps [OF assms] assms by (simp add: failTask_def split: option.split)

lemma fail_task_keeps:
  "calls_ok vurl c \<Longrightarrow> db_ok vurl (sv_db s) \<Longrightarrow> db_ok vurl (sv_db (fail_task c i k m s))"
  using failTask_keeps [of "cl_ext c" "sv_api s"] by (simp add: fail_task_def)

lemma db_ok_task_field:
  assumes "db_ok vurl d" "\<And>t. t_id (g t) = t_id t" "\<And>t. t_sessionId (g t) = t_sessionId t"
    "\<And>t. t_status (g t) = t_status t"
  shows "db_ok vurl (upd_task now i g d)"
  by (rule db_ok_upd_task [OF assms(1-3)]) (simp add: assms(4))

lemma status_matches_fresh: "status_matches Queued []"
  by (simp add: status_matches_def isTerminalStatus_def)

lemma find_append: "find P (xs @ ys) = (case find P xs of None \<Rightarrow> find P ys | Some x \<Rightarrow> Some x)"
  by (induction xs) auto

lemma fresh_log: "keys_ok d \<Longrightarrow> find_task d i = None \<Longrightarrow> task_log vurl d i = []"
  by (auto simp: keys_ok_def task_log_def filter_empty_conv list_all_iff)

lemma db_ok_add_task:
  assumes "db_ok vurl d" "find_task d (t_id t) = None" "find_session d (t_sessionId t) \<noteq> None"
    "t_status t = Queued"
  shows "db_ok vurl (d\<lparr>db_tasks := db_tasks d @ [t]\<rparr>)"
proof -
  let ?d = "d\<lparr>db_tasks := db_tasks d @ [t]\<rparr>"
  have fs: "find_session ?d = find_session d" by (simp add: find_session_def fun_eq_iff)
  have "t_id t \<notin> t_id ` set (db_tasks d)"
    using assms(2) by (auto simp: find_task_def find_None_all)
  then have "keys_ok ?d"
    using db_okD(1) [OF assms(1)] assms(3)
    by (auto simp: keys_ok_def fs list_all_iff find_task_def find_append split: option.splits)
  moreover have "statuses_ok vurl ?d"
    using db_okD(3) [OF assms(1)] fresh_log [OF db_okD(1) [OF assms(1)] assms(2), of vurl] assms(4)
    by (simp add: statuses_ok_def task_log_def status_matches_fresh)
  ultimately show ?thesis
    using db_okD(2,4) [OF assms(1)] by (simp add: db_ok_def events_ok_def versions_ok_def)
qed

lemma db_ok_add_session:
  assumes "db_ok vurl d" "find_session d (s_id s) = None"
  shows "db_ok vurl (d\<lparr>db_sessions := db_sessions d @ [s]\<rparr>)"
proof -
  let ?d = "d\<lparr>db_sessions := db_sessions d @ [s]\<rparr>"
  have ft: "find_task ?d = find_task d" by (simp add: find_task_def fun_eq_iff)
  have "s_id s \<notin> s_id ` set (db_sessions d)"
    using assms(2) by (auto simp: find_session_def find_None_all)
  then have "keys_ok ?d"
    using db_okD(1) [OF assms(1)]
    by (auto simp: keys_ok_def ft list_all_iff find_session_def find_append split: option.splits)
  then show ?thesis
    using assms(1) by (simp add: db_ok_def events_ok_def versions_ok_def statuses_ok_def task_log_def)
qed

lemma create_tx_shape:
  assumes "create_tx c uid input session parent files d = Inr (d', t)"
  obtains d1 s where "t = new_task c uid input parent (s_id s) files"
    "d' = upd_session (x_now (cl_ext c)) (s_id s) (\<lambda>u. u\<lparr>s_currentTaskId := Some (t_id t), s_status := Queued\<rparr>)
            (d1\<lparr>db_tasks := db_tasks d1 @ [t]\<rparr>)"
    "d1 = d \<and> find_session d (s_id s) \<noteq> None \<and> s_userId s = uid \<and> session = Some (s_id s) \<or>
     d1 = d\<lparr>db_sessions := db_sessions d @ [s]\<rparr> \<and> s = new_session c uid input
       \<and> find_session d (s_id s) = None \<and> session = None"
    "find_task d (cl_taskId c) = None"
    "length (active_tasks d uid) < concurrentLimit (x_env (cl_ext c))"
proof (cases session)
  case None
  show ?thesis
    by (rule that [of "new_session c uid input" "d\<lparr>db_sessions := db_sessions d @ [new_session c uid input]\<rparr>"])
      (use assms None in \<open>auto simp: create_tx_def Let_def new_session_def split: if_splits\<close>)
next
  case (Some sid)
  then obtain s where s: "find (\<lambda>s. s_id s = sid \<and> s_userId s = uid) (db_sessions d) = Some s"
    using assms by (auto simp: create_tx_def Let_def split: if_splits option.splits)
  from find_Some_set [OF s] have "s \<in> set (db_sessions d)" "s_id s = sid" "s_userId s = uid" by auto
  then show ?thesis
    by (intro that [of s d]) (use assms Some s in
      \<open>auto simp: create_tx_def Let_def find_session_def find_None_all split: if_splits\<close>)
qed

lemma create_tx_ok:
  assumes "create_tx c uid input session parent files d = Inr (d', t)" "db_ok vurl d"
  shows "db_ok vurl d'"
proof -
  obtain d1 s where c: "t = new_task c uid input parent (s_id s) files"
    "d' = upd_session (x_now (cl_ext c)) (s_id s) (\<lambda>u. u\<lparr>s_currentTaskId := Some (t_id t), s_status := Queued\<rparr>)
            (d1\<lparr>db_tasks := db_tasks d1 @ [t]\<rparr>)"
    "d1 = d \<and> find_session d (s_id s) \<noteq> None \<and> s_userId s = uid \<and> session = Some (s_id s) \<or>
     d1 = d\<lparr>db_sessions := db_sessions d @ [s]\<rparr> \<and> s = new_session c uid input
       \<and> find_session d (s_id s) = None \<and> session = None"
    "find_task d (cl_taskId c) = None"
    by (rule create_tx_shape [OF assms(1)])
  have "db_ok vurl d1" using c(3) assms(2) db_ok_add_session by blast
  moreover have "find_task d1 (t_id t) = None" "find_session d1 (t_sessionId t) \<noteq> None"
    using c by (auto simp: find_task_def find_session_def new_task_def find_append split: option.splits)
  ultimately have "db_ok vurl (d1\<lparr>db_tasks := db_tasks d1 @ [t]\<rparr>)"
    by (intro db_ok_add_task) (simp_all add: c(1) new_task_def)
  then show ?thesis unfolding c(2) by (rule db_ok_upd_session) simp
qed

lemma start_job_keeps:
  assumes "calls_ok vurl c" "db_ok vurl (sv_db s)"
  shows "db_ok vurl (sv_db (fst (start_job c t s)))"
proof (cases "cl_enqueue c (t_id t)")
  case (Inl e)
  obtain s' r where f: "on_api (failTask (cl_ext c) (t_id t) (js ''TASK_QUEUE_UNAVAILABLE'') (exn_message e)) s = (s', r)"
    by fastforce
  have "db_ok vurl (sv_db s')"
    using fail_task_keeps [OF assms] f by (metis fail_task_def fst_conv)
  with f Inl show ?thesis by (cases r) (simp_all add: start_job_def Let_def)
next
  case (Inr jid)
  then show ?thesis
    using db_ok_task_field [OF assms(2), of "\<lambda>u. u\<lparr>t_queueJobId := Some jid\<rparr>"]
    by (simp add: start_job_def)
qed

lemma enqueueTask_keeps:
  assumes "calls_ok vurl c" "db_ok vurl (sv_db s)"
  shows "db_ok vurl (sv_db (fst (enqueueTask c uid input session parent s)))"
proof -
  have "db_ok vurl (sv_db (fst (start_job c t (upd_db (\<lambda>_. d) (s\<lparr>sv_redis := r\<rparr>)))))"
    if "create_tx c uid input session parent fs (sv_db s) = Inr (d, t)" for fs d t r
    by (rule start_job_keeps [OF assms(1)]) (simp add: create_tx_ok [OF that assms(2)])
  then show ?thesis
    using assms(2) by (auto simp: enqueueTask_def Let_def split: prod.splits sum.splits)
qed

lemma mark_running_keeps:
  assumes "db_ok vurl d" "map_option t_status (find_task d i) = Some Queued"
  shows "db_ok vurl (mark_running c i r u d)"
  unfolding mark_running_def
proof (rule db_ok_upd_task [OF assms(1)])
  fix t assume "t \<in> set (db_tasks d)" "t_id t = i"
  then have "t_status t = Queued"
    using find_task_unique [OF db_okD(1) [OF assms(1)]] assms(2) by force
  then show "isTerminalStatus (t_status t) = isTerminalStatus (t_status (t\<lparr>t_status := Running,
      t_runId := Some r, t_adapterStreamUrl := Some u, t_startedAt := Some (x_now (cl_ext c)),
      t_errorCode := None, t_errorMessage := None\<rparr>)) \<and>
    (isTerminalStatus (t_status t) \<longrightarrow> t_status (t\<lparr>t_status := Running,
      t_runId := Some r, t_adapterStreamUrl := Some u, t_startedAt := Some (x_now (cl_ext c)),
      t_errorCode := None, t_errorMessage := None\<rparr>) = t_status t)"
    by (simp add: isTerminalStatus_def)
qed simp_all

lemma dispatchTask_keeps:
  assumes "db_ok vurl (sv_db s)" "\<And>s. db_ok vurl (sv_db s) \<Longrightarrow> db_ok vurl (sv_db (race s))"
  shows "db_ok vurl (sv_db (fst (dispatchTask c race t files s)))"
proof -
  have s1: "sv_api (fst (requestGatewayExecution c u t files s)) = sv_api s" for u by simp
  have "db_ok vurl (sv_db (race s1))" if "requestGatewayExecution c u t files s = (s1, r)" for u s1 r
    using assms that s1 [of u] by simp
  moreover have "db_ok vurl (sv_db s1)" if "requestGatewayExecution c u t files s = (s1, r)" for u s1 r
    using assms(1) that s1 [of u] by simp
  ultimately show ?thesis
    using assms(1) mark_running_keeps
    by (auto simp: dispatchTask_def Let_def db_ok_upd_session split: prod.splits sum.splits)
qed

lemma processQueuedTask_keeps:
  assumes "db_ok vurl (sv_db s)" "\<And>s. db_ok vurl (sv_db s) \<Longrightarrow> db_ok vurl (sv_db (race s))"
  shows "db_ok vurl (sv_db (fst (processQueuedTask c race i s)))"
proof -
  have "db_ok vurl (sv_db (upd_db (upd_task n j (\<lambda>u. u\<lparr>t_attemptCount := t_attemptCount u + 1\<rparr>)) s))" for n j
    by (simp add: db_ok_task_field [OF assms(1)])
  then show ?thesis
    using assms dispatchTask_keeps
    by (auto simp: processQueuedTask_def Let_def split: option.splits sum.splits)
qed

lemma relay_frames_keeps:
  assumes "\<And>n. x_vurl (xs n) = vurl" "db_ok vurl (ap_db w)"
  shows "db_ok vurl (ap_db (fst (relay_frames xs fs w)))"
  using assms
proof (induction xs fs w rule: relay_frames.induct)
  case (2 xs f fs w)
  have keep: "db_ok vurl (ap_db w')" if "persistTaskEvent (xs 0) e src w = (w', r)" for e src w' r
    using persist_keeps [of "xs 0" w e src] "2.prems" that by simp
  show ?case
    using "2.IH" "2.prems" keep
    by (auto split: option.split prod.split sum.split)
qed simp

lemma relay_catch_keeps:
  assumes "calls_ok vurl c" "db_ok vurl (sv_db s)"
  shows "db_ok vurl (sv_db (relay_catch c i r e s))"
  using fail_task_keeps [OF assms(1)] assms(2) by (simp add: relay_catch_def)

lemma relay_chunk_keeps:
  assumes "calls_ok vurl c" "db_ok vurl (sv_db s)"
  shows "db_ok vurl (sv_db (relay_chunk c i r chunk s))"
proof -
  have "db_ok vurl (sv_db s1)" if "on_api (relay_frames (\<lambda>n. cl_x c (Suc n)) fs) s = (s1, res)" for fs s1 res
    using relay_frames_keeps [of "\<lambda>n. cl_x c (Suc n)" vurl "sv_api s" fs] assms that
      on_api_frames(1) [of "relay_frames (\<lambda>n. cl_x c (Suc n)) fs" s] by simp
  then show ?thesis
    using relay_catch_keeps [OF assms(1)]
    by (auto simp: relay_chunk_def split: prod.split relay_outcome.split)
qed

lemma relay_step_keeps:
  assumes "calls_ok vurl c" "db_ok vurl (sv_db s)"
  shows "db_ok vurl (sv_db (relay_step c i inp s))"
  using assms(2) relay_chunk_keeps [OF assms] relay_catch_keeps [OF assms] fail_task_keeps [OF assms]
  by (simp add: relay_step_def split: option.split relay_input.split)

lemma cancelTask_keeps:
  assumes "calls_ok vurl c" "db_ok vurl (sv_db s)"
    and race: "\<And>s. db_ok vurl (sv_db s) \<Longrightarrow> db_ok vurl (sv_db (race s))"
  shows "db_ok vurl (sv_db (fst (cancelTask c race uid i s)))"
proof -
  have persist: "db_ok vurl (sv_db s2)"
    if "on_api (persistTaskEvent (cl_ext c) e None) (abort_relay j (race s1)) = (s2, r)" "sv_api s1 = sv_api s"
    for e j s1 s2 r
  proof -
    have "db_ok vurl (sv_db (race s1))" using race assms(2) that(2) by simp
    then show ?thesis
      using persist_keeps [of "cl_ext c" "sv_api (race s1)" e None] assms(1) that(1)
        on_api_frames(1) [of "persistTaskEvent (cl_ext c) e None" "abort_relay j (race s1)"] by simp
  qed
  have api: "sv_api s1 = sv_api s" if "requestGatewayCancellation c j s = (s1, r)" for j s1 r
    using that sv_frames(7) [of c j s] by simp
  show ?thesis
    using assms(2) persist api
    by (auto simp: cancelTask_def split: option.split prod.splits sum.splits if_splits)
qed

lemma requeue_keeps:
  "db_ok vurl (sv_db s) \<Longrightarrow> db_ok vurl (sv_db (fst (requeue c ts s)))"
proof (induction ts arbitrary: s)
  case (Cons t ts)
  have "db_ok vurl (upd_task n i (\<lambda>u. u\<lparr>t_queueJobId := Some jid\<rparr>) (sv_db s))" for n i jid
    by (rule db_ok_task_field [OF Cons.prems]) simp_all
  with Cons show ?case by (auto split: sum.split)
qed simp

lemma resume_running_keeps:
  "calls_ok vurl c \<Longrightarrow> db_ok vurl (sv_db s) \<Longrightarrow> db_ok vurl (sv_db (resume_running c t s))"
  by (simp add: resume_running_def Let_def fail_task_keeps)

lemma onModuleInit_keeps:
  assumes "calls_ok vurl c" "db_ok vurl (sv_db s)"
  shows "db_ok vurl (sv_db (fst (onModuleInit c s)))"
proof -
  obtain s1 r where q: "requeue c (take 10000 (filter (\<lambda>t. t_status t = Queued) (db_tasks (sv_db s)))) s = (s1, r)"
    by fastforce
  then have "db_ok vurl (sv_db s1)" using requeue_keeps [OF assms(2)] by (metis fst_conv)
  then have "db_ok vurl (sv_db (fold (resume_running c) ts s1))" for ts
    by (induction ts arbitrary: s1) (simp_all add: resume_running_keeps [OF assms(1)])
  with q \<open>db_ok vurl (sv_db s1)\<close> show ?thesis
    by (cases r) (simp_all add: onModuleInit_def)
qed

section \<open>Outcomes\<close>

lemma fail_task_effect:
  assumes "db_ok (x_vurl (cl_ext c)) (sv_db s)" "find_task (sv_db s) i = Some t"
  shows "\<exists>t'. find_task (sv_db (fail_task c i k m s)) i = Some t' \<and> isTerminalStatus (t_status t')
    \<and> (isTerminalStatus (t_status t) \<longrightarrow> t' = t)
    \<and> (\<not> isTerminalStatus (t_status t) \<longrightarrow> t_status t' = Failed \<and> t_errorCode t' = Some k)"
  using failTask_effect [OF assms, of k m "\<lambda>_. False"] assms(2)
  by (auto simp: fail_task_def isTerminalStatus_def split: if_splits)

lemma fail_task_relays [simp]: "sv_relays (fail_task c i k m s) = sv_relays s"
  by (simp add: fail_task_def)

lemma relay_catch_effect:
  assumes "db_ok (x_vurl (cl_ext c)) (sv_db s)" "find_task (sv_db s) i = Some t"
    "rl_timedOut r \<or> \<not> rl_aborted r"
  shows "\<exists>t'. find_task (sv_db (relay_catch c i r e s)) i = Some t' \<and> isTerminalStatus (t_status t')"
proof (cases "rl_timedOut r")
  case True
  let ?s = "fst (requestGatewayCancellation c i s)"
  have "db_ok (x_vurl (cl_ext c)) (sv_db ?s)" "find_task (sv_db ?s) i = Some t"
    using assms(1,2) by simp_all
  from fail_task_effect [OF this] show ?thesis using True unfolding relay_catch_def by fastforce
next
  case False
  with assms(3) fail_task_effect [OF assms(1,2)] show ?thesis unfolding relay_catch_def by fastforce
qed

lemma relay_catch_gone: "jm_get (sv_relays (relay_catch c i r e s)) i = None"
  by (simp add: relay_catch_def relay_end_def)

text \<open>
  C7: when the adapter's stream ends, cannot be opened or breaks, or the task's time is up
  while the relay waits for data, the relay is gone and the task has ended: no relay ends in
  one of these ways and leaves its task running.
\<close>

theorem relay_end_settles_task:
  assumes "db_ok (x_vurl (cl_ext c)) (sv_db s)" "find_task (sv_db s) i = Some t"
    and "jm_get (sv_relays s) i = Some r" "\<not> rl_aborted r"
    and "inp \<in> {RelayDone, RelayTimeout} \<or> inp = RelayError e"
  shows "jm_get (sv_relays (relay_step c i inp s)) i = None
    \<and> (\<exists>t'. find_task (sv_db (relay_step c i inp s)) i = Some t' \<and> isTerminalStatus (t_status t'))"
proof -
  have gone: "jm_get (sv_relays (relay_end i s')) i = None" for s'
    by (simp add: relay_end_def)
  from assms(5) consider "inp = RelayDone" | "inp = RelayTimeout" | "inp = RelayError e" by auto
  then show ?thesis
  proof cases
    case 1
    then show ?thesis
      using assms(3,4) gone fail_task_effect [OF assms(1,2)]
      by (fastforce simp: relay_step_def)
  next
    case 2
    then show ?thesis
      using assms(3) relay_catch_effect [OF assms(1,2), of "r\<lparr>rl_aborted := True, rl_timedOut := True\<rparr>"]
      by (simp add: relay_step_def relay_catch_gone)
  next
    case 3
    then show ?thesis
      using assms(3,4) relay_catch_effect [OF assms(1,2), of r]
      by (simp add: relay_step_def relay_catch_gone)
  qed
qed

definition sample_calls :: calls where
  "sample_calls = \<lparr>cl_x = (\<lambda>_. sample_ext), cl_taskId = js ''t2'', cl_sessionId = js ''s2'',
     cl_day = [], cl_releaseDay = [], cl_settings = ([], []), cl_enqueue = (\<lambda>i. Inr i),
     cl_qcancel = (\<lambda>_. Inr True), cl_post = (\<lambda>_ _. Inr \<lparr>hr_ok = True, hr_json = None\<rparr>),
     cl_inspect = (\<lambda>_. Inl (JsError None [])), cl_encode = (\<lambda>s. s)\<rparr>"

definition sample_relay :: relay where
  "sample_relay = \<lparr>rl_buffer = [], rl_aborted = False, rl_timedOut = False, rl_deadline = 0\<rparr>"

definition sample_svc :: svc where
  "sample_svc = \<lparr>sv_api = sample_api, sv_redis = [], sv_relays = [(js ''t'', sample_relay)], sv_posts = []\<rparr>"

lemma sample_svc_facts:
  "db_ok v (sv_db sample_svc)" "find_task (sv_db sample_svc) (js ''t'') = Some sample_task"
  "jm_get (sv_relays sample_svc) (js ''t'') = Some sample_relay"
  by (simp_all add: sample_svc_def sample_ok sample_find jm_get_def)

theorem relay_end_settles_task_witness:
  "\<exists>t'. find_task (sv_db (relay_step sample_calls (js ''t'') RelayDone sample_svc)) (js ''t'') = Some t'
     \<and> isTerminalStatus (t_status t')"
  using relay_end_settles_task [where c = sample_calls and inp = RelayDone, OF sample_svc_facts]
  by (simp add: sample_relay_def)


text \<open>An event that is not terminal leaves an active task active.\<close>

lemma persist_active:
  assumes "db_ok (x_vurl x) (ap_db w)" "find_task (ap_db w) i = Some t" "\<not> isTerminalStatus (t_status t)"
    "\<not> terminal_detail (ev_detail e)"
  shows "\<exists>t'. find_task (ap_db (fst (persistTaskEvent x e src w))) i = Some t' \<and> \<not> isTerminalStatus (t_status t')"
proof (cases rule: persistTaskEvent_cases [of src w e x])
  case (stored w1 p d ps)
  have s: "same_log (ap_db w) (ap_db w1)" using prepare_frame [of w x e] stored(1) by simp
  have ok: "versions_ok (ap_db w1)" using assms(1) by (simp add: same_log_find [OF s] db_ok_def)
  obtain u g h where
    l: "log_step (x_vurl x) (ap_db w1) (event_row_of (ap_db w1) (pr_stored p) src) (ev_detail (pr_stored p)) g h d"
    using persist_tx_step [OF stored(2) ok] prepare_result [OF stored(1)] by metis
  have "detail_status (ev_detail (pr_stored p)) = None"
    using assms(4) prepare_result [OF stored(1)]
    by (cases "ev_detail e"; cases "ev_detail (pr_stored p)") auto
  then have "\<not> isTerminalStatus (t_status (g t))"
    using l assms(3) by (simp add: log_step_def isTerminalStatus_def)
  then show ?thesis
    using assms(2,3) stored(3) log_step_find_task [OF l, of i] by (simp add: same_log_find [OF s])
next
  case (prepare w1 err)
  then have s: "same_log (ap_db w) (ap_db w1)" using prepare_frame [of w x e] by simp
  show ?thesis using prepare(2) assms by (simp add: same_log_find [OF s])
next
  case (rollback w1 p err)
  then have s: "same_log (ap_db w) (ap_db w1)" using prepare_frame [of w x e] by simp
  show ?thesis using rollback(3) assms by (simp add: same_log_find [OF s])
next
  case (idle w1 p)
  then have s: "same_log (ap_db w) (ap_db w1)" using prepare_frame [of w x e] by simp
  show ?thesis using idle(3) assms by (simp add: same_log_find [OF s])
qed (use assms in simp)

lemma relay_frames_active:
  assumes "\<And>n. x_vurl (xs n) = vurl" "db_ok vurl (ap_db w)"
    "find_task (ap_db w) i = Some t" "\<not> isTerminalStatus (t_status t)"
    "relay_frames xs fs w = (w', FramesDone)"
  shows "\<exists>t'. find_task (ap_db w') i = Some t' \<and> \<not> isTerminalStatus (t_status t')"
  using assms
proof (induction xs fs w arbitrary: t rule: relay_frames.induct)
  case (2 xs f fs w)
  show ?case
  proof (cases "parseAdapterEvent (x_vurl (xs 0)) (x_json (xs 0)) f")
    case None
    then show ?thesis using "2.IH"(1) [OF None "2.prems"(1-4)] "2.prems"(5) by simp
  next
    case (Some p)
    obtain e src where p: "p = (e, src)" by fastforce
    obtain w1 r where q: "persistTaskEvent (xs 0) e src w = (w1, r)" by fastforce
    have r: "r = Inr ()" "\<not> terminal_detail (ev_detail e)" "relay_frames (\<lambda>n. xs (Suc n)) fs w1 = (w', FramesDone)"
      using "2.prems"(5) Some p q by (auto split: sum.splits if_splits)
    have ok: "db_ok (x_vurl (xs 0)) (ap_db w)" using "2.prems"(1,2) by simp
    have ok1: "db_ok vurl (ap_db w1)" using persist_keeps [OF ok, of e src] q "2.prems"(1) by simp
    obtain t' where t': "find_task (ap_db w1) i = Some t'" "\<not> isTerminalStatus (t_status t')"
      using persist_active [OF ok "2.prems"(3,4) r(2)] q by (metis fst_conv)
    show ?thesis
      by (rule "2.IH"(2) [OF Some p [symmetric] q [symmetric] r(1,2) _ ok1 t' r(3)])
        (use "2.prems"(1) in simp)
  qed
qed auto

text \<open>
  the one way a relay does leave its task running: when the timer fires while the events
  of a chunk are being stored, and none of them ends the task, the reading loop stops at its
  condition and the timeout is never recorded. The relay is gone, no cancellation is sent, and
  the task stays active.
\<close>

theorem timeout_while_persisting:
  assumes "calls_ok vurl c" "db_ok vurl (sv_db s)"
    and "find_task (sv_db s) i = Some t" "\<not> isTerminalStatus (t_status t)"
    and "jm_get (sv_relays s) i = Some r"
    and "relay_frames (\<lambda>n. cl_x c (Suc n)) (fst (sse_feed (rl_buffer r) chunk)) (sv_api s) = (w, FramesDone)"
  shows "jm_get (sv_relays (relay_step c i (RelayChunkTimeout chunk) s)) i = None
    \<and> sv_posts (relay_step c i (RelayChunkTimeout chunk) s) = sv_posts s
    \<and> (\<exists>t'. find_task (sv_db (relay_step c i (RelayChunkTimeout chunk) s)) i = Some t'
          \<and> \<not> isTerminalStatus (t_status t'))"
proof -
  have "relay_step c i (RelayChunkTimeout chunk) s = relay_end i (s\<lparr>sv_api := w\<rparr>)"
    using assms(5,6)
    by (cases "sse_feed (rl_buffer r) chunk") (simp add: relay_step_def relay_chunk_def on_api_def)
  then show ?thesis
    using relay_frames_active [OF _ assms(2,3,4,6)] assms(1) by (simp add: relay_end_def)
qed

theorem timeout_while_persisting_witness:
  "\<exists>t'. find_task (sv_db (relay_step sample_calls (js ''t'') (RelayChunkTimeout (js '': ping'' @ [10, 10]))
      sample_svc)) (js ''t'') = Some t' \<and> \<not> isTerminalStatus (t_status t')"
proof -
  have ok: "calls_ok (\<lambda>_. False) sample_calls"
    by (simp add: calls_ok_def sample_calls_def sample_ext_def)
  have "relay_frames (\<lambda>n. cl_x sample_calls (Suc n)) (fst (sse_feed (rl_buffer sample_relay) (js '': ping'' @ [10, 10])))
      (sv_api sample_svc) = (sv_api sample_svc, FramesDone)"
    by (simp add: sample_relay_def js_def sse_feed_def sse_drain.simps sse_sep_def js_starts_with_def
        parseAdapterEvent_def find_line_def)
  from timeout_while_persisting [OF ok sample_svc_facts(1,2) _ sample_svc_facts(3) this]
  show ?thesis by (simp add: sample_task_def isTerminalStatus_def)
qed

section \<open>Creation under the quotas\<close>

lemma start_job_outcome:
  assumes "db_ok (x_vurl (cl_ext c)) (sv_db s)" "find_task (sv_db s) (t_id t) = Some t'" "t_status t' = Queued"
    "start_job c t s = (s', r)"
  shows "\<exists>cd u. r = Inr cd \<and> cd_taskId cd = t_id t \<and> find_task (sv_db s') (t_id t) = Some u
    \<and> sv_redis s' = sv_redis s
    \<and> (cd_initialStatus cd = js ''queued'' \<and> t_status u = Queued \<or>
       cd_initialStatus cd = js ''failed'' \<and> t_status u = Failed)"
proof (cases "cl_enqueue c (t_id t)")
  case (Inl e)
  obtain w' where w: "failTask (cl_ext c) (t_id t) (js ''TASK_QUEUE_UNAVAILABLE'') (exn_message e) (sv_api s) = (w', Inr ())"
    "\<exists>u. find_task (ap_db w') (t_id t) = Some u \<and> t_status u = Failed"
    using failTask_effect [OF assms(1,2)] assms(3) by (fastforce simp: isTerminalStatus_def)
  then show ?thesis using assms(4) Inl by (auto simp: start_job_def Let_def on_api_def)
next
  case (Inr jid)
  have "find_task (upd_task (x_now (cl_ext c)) (t_id t) (\<lambda>u. u\<lparr>t_queueJobId := Some jid\<rparr>) (sv_db s)) (t_id t)
      = Some (t'\<lparr>t_queueJobId := Some jid, t_updatedAt := x_now (cl_ext c)\<rparr>)"
    using assms(2) find_task_SomeD [OF assms(2)] by (simp add: find_task_upd)
  then show ?thesis using assms(3,4) Inr by (auto simp: start_job_def Let_def)
qed

text \<open>What the creation of a task and the start of its job give together.\<close>

lemma created_task_started:
  assumes "db_ok (x_vurl (cl_ext c)) (sv_db s)"
    and tx: "create_tx c uid input session parent fs (sv_db s) = Inr (d, t)"
    and start: "start_job c t (upd_db (\<lambda>_. d) (s\<lparr>sv_redis := r1\<rparr>)) = (s', r)"
  shows "\<exists>cd u. r = Inr cd \<and> sv_redis s' = r1
    \<and> length (active_tasks (sv_db s) uid) < concurrentLimit (x_env (cl_ext c))
    \<and> find_task (sv_db s) (cd_taskId cd) = None \<and> find_task (sv_db s') (cd_taskId cd) = Some u
    \<and> (cd_initialStatus cd = js ''queued'' \<and> t_status u = Queued \<or>
       cd_initialStatus cd = js ''failed'' \<and> t_status u = Failed)"
proof -
  obtain d1 se where t: "t = new_task c uid input parent (s_id se) fs"
    and d: "d = upd_session (x_now (cl_ext c)) (s_id se)
        (\<lambda>u. u\<lparr>s_currentTaskId := Some (t_id t), s_status := Queued\<rparr>) (d1\<lparr>db_tasks := db_tasks d1 @ [t]\<rparr>)"
    and d1: "d1 = sv_db s \<and> find_session (sv_db s) (s_id se) \<noteq> None \<and> s_userId se = uid
         \<and> session = Some (s_id se) \<or>
       d1 = (sv_db s)\<lparr>db_sessions := db_sessions (sv_db s) @ [se]\<rparr> \<and> se = new_session c uid input
         \<and> find_session (sv_db s) (s_id se) = None \<and> session = None"
    and f: "find_task (sv_db s) (cl_taskId c) = None"
    and lim: "length (active_tasks (sv_db s) uid) < concurrentLimit (x_env (cl_ext c))"
    by (rule create_tx_shape [OF tx])
  have fresh: "find_task (sv_db s) (cl_taskId c) = None" "db_tasks d1 = db_tasks (sv_db s)"
    using f d1 by auto
  have ft: "find_task d (t_id t) = Some t"
    using fresh by (simp add: d find_task_def find_append t new_task_def)
  obtain cd u where "r = Inr cd" "cd_taskId cd = t_id t" "find_task (sv_db s') (t_id t) = Some u"
    "sv_redis s' = r1" "cd_initialStatus cd = js ''queued'' \<and> t_status u = Queued \<or>
      cd_initialStatus cd = js ''failed'' \<and> t_status u = Failed"
    using start_job_outcome [of c "upd_db (\<lambda>_. d) (s\<lparr>sv_redis := r1\<rparr>)" t t s' r] start ft create_tx_ok [OF tx assms(1)]
    by (auto simp: t new_task_def)
  then show ?thesis using lim fresh(1) by (auto simp: t new_task_def)
qed



section \<open>Dispatch and cancellation\<close>

text \<open>
  a task that stopped being queued while the adapter was asked (it was cancelled, or an
  event of the execution already ended it) is not revived: the acceptance changes nothing, no
  relay is started, and the adapter is asked to cancel.
\<close>

theorem dispatch_no_revival:
  assumes "asNonEmptyString (x_env (cl_ext c) ''OPENCLAW_ADAPTER_URL'') = url" "url \<noteq> []"
    and "requestGatewayExecution c url t files s = (s1, Inr (runId, surl))"
    and "map_option t_status (find_task (sv_db (race s1)) (t_id t)) \<noteq> Some Queued"
    and "dispatchTask c race t files s = (s', r)"
  shows "r = Inr () \<and> sv_api s' = sv_api (race s1) \<and> sv_relays s' = sv_relays (race s1)
    \<and> sv_posts s' = sv_posts (race s1) @ [url @ js ''/gateway/tasks/'' @ cl_encode c (t_id t) @ js ''/cancel'']"
proof -
  have "s' = fst (requestGatewayCancellation c (t_id t) (race s1))" "r = Inr ()"
    using assms by (simp_all add: dispatchTask_def)
  then show ?thesis
    using assms(1,2) by (simp add: requestGatewayCancellation_def Let_def split: sum.split)
qed

theorem dispatch_no_revival_witness:
  "\<exists>s'. dispatchTask (sample_calls\<lparr>cl_x := (\<lambda>_. sample_ext\<lparr>x_env := (\<lambda>_. Some (js ''http://a''))\<rparr>),
        cl_post := (\<lambda>_ _. Inr \<lparr>hr_ok = True, hr_json = Some (JObj [(js ''runId'', JStr (js ''r'')),
          (js ''streamUrl'', JStr (js ''/e''))])\<rparr>)\<rparr>)
      (upd_db (\<lambda>d. d\<lparr>db_tasks := [sample_task\<lparr>t_status := Cancelled\<rparr>]\<rparr>)) sample_task [] sample_svc = (s', Inr ())
    \<and> sv_relays s' = sv_relays sample_svc"
proof -
  let ?c = "sample_calls\<lparr>cl_x := (\<lambda>_. sample_ext\<lparr>x_env := (\<lambda>_. Some (js ''http://a''))\<rparr>),
        cl_post := (\<lambda>_ _. Inr \<lparr>hr_ok = True, hr_json = Some (JObj [(js ''runId'', JStr (js ''r'')),
          (js ''streamUrl'', JStr (js ''/e''))])\<rparr>)\<rparr>"
  let ?race = "upd_db (\<lambda>d. d\<lparr>db_tasks := [sample_task\<lparr>t_status := Cancelled\<rparr>]\<rparr>)"
  have trim: "js_trim (js ''http://a'') = js ''http://a''"
    by (rule js_trim_id) (simp add: js_def js_ws_def)
  then have url: "asNonEmptyString (x_env (cl_ext ?c) ''OPENCLAW_ADAPTER_URL'') = js ''http://a''"
    by (simp add: asNonEmptyString_def)
  obtain s1 where s1: "requestGatewayExecution ?c (js ''http://a'') sample_task [] sample_svc
      = (s1, Inr (js ''r'', js ''/e''))" "sv_relays s1 = sv_relays sample_svc"
    by (simp add: requestGatewayExecution_def prop_str_def)
  obtain s' r where d: "dispatchTask ?c ?race sample_task [] sample_svc = (s', r)" by fastforce
  have "map_option t_status (find_task (sv_db (?race s1)) (t_id sample_task)) \<noteq> Some Queued"
    by (simp add: find_task_def)
  from dispatch_no_revival [OF url _ s1(1) this d] d s1(2) show ?thesis by simp
qed

lemma cancel_event_fields [simp]:
  "ev_taskId (ev_base (cancel_event c t)) = t_id t"
  "ev_detail (cancel_event c t) = CancelledEv (js ''task cancelled by user'')"
  by (simp_all add: cancel_event_def)

lemma persist_cancel:
  assumes "find_task (ap_db w) (t_id t) = Some u" "\<not> isTerminalStatus (t_status u)"
  shows "\<exists>w'. persistTaskEvent x (cancel_event c t) None w = (w', Inr ())
    \<and> map_option t_status (find_task (ap_db w') (t_id t)) = Some Cancelled
    \<and> map pm_userId (ap_push w') = map pm_userId (ap_push w) @ [t_userId u]"
proof -
  have "t_id u = t_id t" using assms(1) by (auto simp: find_task_def dest: find_Some_set)
  with assms show ?thesis
    by (simp add: persistTaskEvent_def given_id_def prepareTaskEvent_def persist_tx_def
        apply_event_def Let_def find_task_def upd_task_def upd_session_def find_map_upd terminal_push_def)
qed

lemma persist_cancel_late:
  assumes "\<forall>u. find_task (ap_db w) (t_id t) = Some u \<longrightarrow> isTerminalStatus (t_status u)"
  shows "persistTaskEvent x (cancel_event c t) None w = (w, Inr ())"
  using assms
  by (simp add: persistTaskEvent_def given_id_def prepareTaskEvent_def persist_tx_def Let_def split: option.split)

lemma abort_relay_aborted:
  "jm_get (sv_relays (abort_relay i s)) i = map_option (rl_aborted_update (\<lambda>_. True)) (jm_get (sv_relays s) i)"
  by (simp add: abort_relay_def split: option.split)



end
