(* ===== verification/FileService.thy ===== *)
theory FileService
  imports TaskLifecycle
begin

text \<open>
  The files of \<^verbatim>\<open>TasksService\<close>: upload under the storage quota, completion, download, deletion
  and the two cleanups. The object store is the map of \<open>api\<close>; what it answers to a request is
  an argument.
\<close>

section \<open>Operations\<close>

definition SUPPORTED_MIME_TYPES :: "jstr set" where
  "SUPPORTED_MIME_TYPES = set (map js
     [''image/jpeg'', ''image/png'', ''image/webp'', ''application/pdf'', ''application/msword'',
      ''application/vnd.openxmlformats-officedocument.wordprocessingml.document'',
      ''application/vnd.ms-excel'',
      ''application/vnd.openxmlformats-officedocument.spreadsheetml.sheet'',
      ''text/markdown'', ''text/plain'', ''text/csv''])"

record upload_input =
  ui_filename :: jstr
  ui_mimeType :: jstr
  ui_sizeBytes :: nat

record file_calls =
  fc_x :: ext
  fc_fileId :: jstr
  fc_uploadUrl :: "jstr \<Rightarrow> exn + jstr"
  fc_inspect :: "jstr \<Rightarrow> exn + object_info"

definition toFileRecord :: "db_file \<Rightarrow> file_record" where
  "toFileRecord f =
     \<lparr>fr_fileId = f_id f, fr_filename = f_filename f, fr_mimeType = f_mimeType f,
      fr_sizeBytes = f_sizeBytes f, fr_uploadedAt = f_uploadedAt f,
      fr_status = (if f_status f = Uploaded \<or> f_status f = UploadFailed then f_status f else Uploading),
      fr_storageKey = f_storageKey f\<rparr>"

definition upload_key :: "jstr \<Rightarrow> jstr \<Rightarrow> jstr \<Rightarrow> jstr" where
  "upload_key uid fileId filename =
     js ''users/'' @ uid @ js ''/'' @ fileId @ js ''/'' @ filename"

definition new_file :: "file_calls \<Rightarrow> jstr \<Rightarrow> upload_input \<Rightarrow> db_file" where
  "new_file fc uid input =
     \<lparr>f_id = fc_fileId fc, f_userId = uid, f_filename = sanitizeFilename (ui_filename input),
      f_mimeType = ui_mimeType input, f_sizeBytes = ui_sizeBytes input, f_status = Uploading,
      f_storageKey = upload_key uid (fc_fileId fc) (sanitizeFilename (ui_filename input)),
      f_etag = None, f_updatedAt = x_now (fc_x fc), f_uploadedAt = None\<rparr>"

definition upload_tx :: "file_calls \<Rightarrow> jstr \<Rightarrow> upload_input \<Rightarrow> db \<Rightarrow> exn + db" where
  "upload_tx fc uid input d =
     (let usedBytes = file_usage d uid + artifact_usage d uid
      in if usedBytes + ui_sizeBytes input > storageLimit (x_env (fc_x fc))
         then Inl (TooManyRequests (js ''user storage quota exceeded''))
         else if find_file d (fc_fileId fc) \<noteq> None
         then Inl (JsError (Some (js ''P2002'')) (js ''Unique constraint failed''))
         else Inr (d\<lparr>db_files := db_files d @ [new_file fc uid input]\<rparr>))"

text \<open>The result: the file id, the upload URL and the storage key.\<close>

definition createUploadUrl ::
  "file_calls \<Rightarrow> jstr \<Rightarrow> upload_input \<Rightarrow> db \<Rightarrow> db \<times> (exn + jstr \<times> jstr \<times> jstr)" where
  "createUploadUrl fc uid input d =
     (let maxBytes = maxUploadBytes (x_env (fc_x fc));
          key = f_storageKey (new_file fc uid input)
      in if ui_mimeType input \<notin> SUPPORTED_MIME_TYPES
         then (d, Inl (UnsupportedMediaType (js ''file type is not supported'')))
         else if ui_sizeBytes input > maxBytes
         then (d, Inl (PayloadTooLarge (js ''file exceeds the '' @ js_of_nat maxBytes @ js '' byte upload limit'')))
         else case upload_tx fc uid input d of
                Inl e \<Rightarrow> (d, Inl e)
              | Inr d1 \<Rightarrow>
                  (case fc_uploadUrl fc key of
                     Inl e \<Rightarrow> (upd_file (x_now (fc_x fc)) (fc_fileId fc) (\<lambda>f. f\<lparr>f_status := UploadFailed\<rparr>) d1, Inl e)
                   | Inr url \<Rightarrow> (d1, Inr (fc_fileId fc, url, key))))"

definition find_owned_file :: "db \<Rightarrow> jstr \<Rightarrow> jstr \<Rightarrow> db_file option" where
  "find_owned_file d uid fid = find (\<lambda>f. f_id f = fid \<and> f_userId f = uid) (db_files d)"

definition completeUpload ::
  "file_calls \<Rightarrow> jstr \<Rightarrow> jstr \<Rightarrow> upload_input \<Rightarrow> jstr \<Rightarrow> db \<Rightarrow> db \<times> (exn + file_record)" where
  "completeUpload fc uid fid input key d =
     (case find_owned_file d uid fid of
        None \<Rightarrow> (d, Inl (NotFound (js ''file upload not found'')))
      | Some f \<Rightarrow>
          if f_filename f \<noteq> sanitizeFilename (ui_filename input) \<or> f_mimeType f \<noteq> ui_mimeType input
             \<or> f_sizeBytes f \<noteq> ui_sizeBytes input \<or> f_storageKey f \<noteq> key
          then (d, Inl (BadRequest (js ''upload completion metadata does not match'')))
          else case fc_inspect fc (f_storageKey f) of
                 Inl e \<Rightarrow> (d, Inl e)
               | Inr ob \<Rightarrow>
                   if oi_sizeBytes ob \<noteq> f_sizeBytes f \<or> oi_mimeType ob \<noteq> f_mimeType f
                   then (upd_file (x_now (fc_x fc)) (f_id f) (\<lambda>f. f\<lparr>f_status := UploadFailed\<rparr>) d,
                         Inl (BadRequest (js ''stored object metadata does not match upload request'')))
                   else
                     let g = (\<lambda>f. f\<lparr>f_status := Uploaded, f_uploadedAt := Some (x_now (fc_x fc)),
                                   f_etag := oi_etag ob\<rparr>)
                     in (upd_file (x_now (fc_x fc)) (f_id f) g d, Inr (toFileRecord (g f))))"

definition getFile :: "ext \<Rightarrow> db \<Rightarrow> jstr \<Rightarrow> jstr \<Rightarrow> exn + file_record \<times> jstr option" where
  "getFile x d uid fid =
     (case find_owned_file d uid fid of
        None \<Rightarrow> Inl (NotFound (js ''file not found''))
      | Some f \<Rightarrow>
          Inr (toFileRecord f, if f_status f = Uploaded then Some (x_presign x (f_storageKey f) True) else None))"

definition file_referenced :: "db \<Rightarrow> jstr \<Rightarrow> bool" where
  "file_referenced d fid \<longleftrightarrow> list_ex (\<lambda>t. fid \<in> set (t_files t)) (db_tasks d)"

definition remove_file :: "jstr \<Rightarrow> api \<Rightarrow> api" where
  "remove_file fid w =
     w\<lparr>ap_db := (ap_db w)\<lparr>db_files := filter (\<lambda>f. f_id f \<noteq> fid) (db_files (ap_db w))\<rparr>\<rparr>"

definition deleteFile :: "ext \<Rightarrow> jstr \<Rightarrow> jstr \<Rightarrow> api \<Rightarrow> api \<times> (exn + jstr)" where
  "deleteFile x uid fid w =
     (case find_owned_file (ap_db w) uid fid of
        None \<Rightarrow> (w, Inl (NotFound (js ''file not found'')))
      | Some f \<Rightarrow>
          if file_referenced (ap_db w) (f_id f)
          then (w, Inl (Conflict (js ''file is referenced by task history'')))
          else case delete_object x (f_storageKey f) w of
                 (w1, Some e) \<Rightarrow> (w1, Inl e)
               | (w1, None) \<Rightarrow> (remove_file (f_id f) w1, Inr (f_id f)))"

section \<open>Cleanups\<close>

text \<open>The loops of the cleanups: an object that cannot be deleted stops the loop.\<close>

fun delete_files :: "ext \<Rightarrow> db_file list \<Rightarrow> api \<Rightarrow> api \<times> (exn + unit)" where
  "delete_files x [] w = (w, Inr ())"
| "delete_files x (f # fs) w =
     (case delete_object x (f_storageKey f) w of
        (w1, Some e) \<Rightarrow> (w1, Inl e)
      | (w1, None) \<Rightarrow> delete_files x fs (remove_file (f_id f) w1))"

fun delete_artifacts :: "ext \<Rightarrow> db_artifact list \<Rightarrow> api \<Rightarrow> api \<times> (exn + unit)" where
  "delete_artifacts x [] w = (w, Inr ())"
| "delete_artifacts x (a # as) w =
     (case delete_object x (ra_storageKey a) w of
        (w1, Some e) \<Rightarrow> (w1, Inl e)
      | (w1, None) \<Rightarrow>
          delete_artifacts x as
            (w1\<lparr>ap_db := (ap_db w1)\<lparr>db_artifacts := filter (\<lambda>b. ra_id b \<noteq> ra_id a) (db_artifacts (ap_db w1))\<rparr>\<rparr>))"

definition hours_ago :: "ext \<Rightarrow> nat \<Rightarrow> int" where
  "hours_ago x h = int (x_now x) - int h * (60 * 60000)"

text \<open>The rows each cleanup selects, at most 200 of each kind.\<close>

definition unreferenced_files :: "ext \<Rightarrow> jstr option \<Rightarrow> db \<Rightarrow> db_file list" where
  "unreferenced_files x userId d =
     (let cutoff = hours_ago x (asPositiveInteger (x_env x ''UNREFERENCED_FILE_RETENTION_HOURS'') (7 * 24))
      in take 200 (filter (\<lambda>f. (case userId of Some u \<Rightarrow> f_userId f = u | None \<Rightarrow> True)
           \<and> f_status f = Uploaded \<and> int (f_updatedAt f) < cutoff
           \<and> \<not> file_referenced d (f_id f)) (db_files d)))"

definition stale_cutoff :: "ext \<Rightarrow> int" where
  "stale_cutoff x = hours_ago x (asPositiveInteger (x_env x ''STALE_UPLOAD_RETENTION_HOURS'') 24)"

definition stale_files :: "ext \<Rightarrow> db \<Rightarrow> db_file list" where
  "stale_files x d =
     take 200 (filter (\<lambda>f. f_status f \<in> {Uploading, UploadFailed} \<and> int (f_updatedAt f) < stale_cutoff x
       \<and> \<not> file_referenced d (f_id f)) (db_files d))"

definition abandoned_artifacts :: "ext \<Rightarrow> db \<Rightarrow> db_artifact list" where
  "abandoned_artifacts x d =
     take 200 (filter (\<lambda>a. ra_resultId a = None \<and> int (ra_createdAt a) < stale_cutoff x
       \<and> (case find_task d (ra_taskId a) of
            Some t \<Rightarrow> t_status t \<in> {Failed, Cancelled} | None \<Rightarrow> False)) (db_artifacts d))"

definition cleanupUnreferencedFiles :: "ext \<Rightarrow> jstr option \<Rightarrow> api \<Rightarrow> api \<times> (exn + nat)" where
  "cleanupUnreferencedFiles x userId w =
     (let files = unreferenced_files x userId (ap_db w)
      in case delete_files x files w of
           (w1, Inl e) \<Rightarrow> (w1, Inl e)
         | (w1, Inr _) \<Rightarrow> (w1, Inr (length files)))"

definition cleanupStaleFiles :: "ext \<Rightarrow> api \<Rightarrow> api \<times> (exn + nat)" where
  "cleanupStaleFiles x w =
     (let stale = stale_files x (ap_db w)
      in case delete_files x stale w of
           (w1, Inl e) \<Rightarrow> (w1, Inl e)
         | (w1, Inr _) \<Rightarrow>
             let abandoned = abandoned_artifacts x (ap_db w1)
             in case delete_artifacts x abandoned w1 of
                  (w2, Inl e) \<Rightarrow> (w2, Inl e)
                | (w2, Inr _) \<Rightarrow>
                    (case cleanupUnreferencedFiles x None w2 of
                       (w3, Inl e) \<Rightarrow> (w3, Inl e)
                     | (w3, Inr n) \<Rightarrow> (w3, Inr (length stale + length abandoned + n))))"

section \<open>The storage quota\<close>

definition counted :: "jstr \<Rightarrow> db_file \<Rightarrow> nat" where
  "counted uid f = (if f_userId f = uid \<and> f_status f \<noteq> UploadFailed then f_sizeBytes f else 0)"

lemma file_usage_counted: "file_usage d uid = sum_list (map (counted uid) (db_files d))"
  by (simp add: file_usage_def sum_list_map_filter' counted_def [abs_def])

lemma sum_upd:
  fixes c :: "'a \<Rightarrow> nat"
  assumes "distinct (map k xs)" "x \<in> set xs" "\<And>y. k (g y) = k y"
  shows "sum_list (map c (map (\<lambda>y. if k y = k x then g y else y) xs)) + c x = sum_list (map c xs) + c (g x)"
  using assms(1,2)
proof (induction xs)
  case (Cons y ys)
  show ?case
  proof (cases "y = x")
    case True
    then have "map (\<lambda>y. if k y = k x then g y else y) ys = ys"
      using Cons.prems(1) by (intro map_idI) (auto simp: image_iff)
    with True show ?thesis by simp
  next
    case False
    then have "x \<in> set ys" "k y \<noteq> k x" using Cons.prems by (auto simp: image_iff)
    with Cons show ?thesis by simp
  qed
qed simp

lemma usage_upd_file:
  assumes "distinct (map f_id (db_files d))" "f \<in> set (db_files d)" "\<And>f. f_id (g f) = f_id f"
  shows "file_usage (upd_file now (f_id f) g d) uid + counted uid f
    = file_usage d uid + counted uid (g f)"
proof -
  have "counted uid ((g f)\<lparr>f_updatedAt := now\<rparr>) = counted uid (g f)" by (simp add: counted_def)
  then show ?thesis
    using sum_upd [OF assms(1,2), of "\<lambda>f. (g f)\<lparr>f_updatedAt := now\<rparr>" "counted uid"] assms(3)
    by (simp add: file_usage_counted upd_file_def)
qed

lemma artifact_usage_cong: "db_artifacts d' = db_artifacts d \<Longrightarrow> artifact_usage d' u = artifact_usage d u"
  by (simp add: artifact_usage_def)

lemma upload_tx_shape:
  assumes "upload_tx fc uid input d = Inr d1"
  shows "d1 = d\<lparr>db_files := db_files d @ [new_file fc uid input]\<rparr>" "find_file d (fc_fileId fc) = None"
    "usage d uid + ui_sizeBytes input \<le> storageLimit (x_env (fc_x fc))"
  using assms by (auto simp: upload_tx_def Let_def usage_def split: if_splits)

text \<open>
  C12: an upload is only granted for a supported type, within the size limit (never more than
  25 MiB) and within the user's storage quota; the bytes are reserved at once, under the
  caller's own key prefix. A refused or failed grant does not change what the user occupies.
\<close>

theorem upload_within_quota:
  assumes "createUploadUrl fc uid input d = (d', r)"
  shows "(\<forall>fid url key. r = Inr (fid, url, key) \<longrightarrow>
        ui_mimeType input \<in> SUPPORTED_MIME_TYPES
      \<and> ui_sizeBytes input \<le> maxUploadBytes (x_env (fc_x fc)) \<and> maxUploadBytes (x_env (fc_x fc)) \<le> 25 * 1024 * 1024
      \<and> usage d' uid = usage d uid + ui_sizeBytes input
      \<and> usage d' uid \<le> storageLimit (x_env (fc_x fc))
      \<and> key = upload_key uid fid (sanitizeFilename (ui_filename input))
      \<and> map_option f_status (find_file d' fid) = Some Uploading)
    \<and> (\<forall>e. r = Inl e \<longrightarrow> usage d' uid = usage d uid)"
proof (cases "ui_mimeType input \<in> SUPPORTED_MIME_TYPES \<and> ui_sizeBytes input \<le> maxUploadBytes (x_env (fc_x fc))")
  case False
  then have "d' = d" "\<exists>e. r = Inl e" using assms by (auto simp: createUploadUrl_def Let_def split: if_splits)
  then show ?thesis by auto
next
  case True
  have le: "maxUploadBytes (x_env (fc_x fc)) \<le> 25 * 1024 * 1024" by (rule maxUploadBytes_le)
  show ?thesis
  proof (cases "upload_tx fc uid input d")
    case (Inl e)
    then show ?thesis using assms True by (auto simp: createUploadUrl_def Let_def)
  next
    case (Inr d1)
    note tx = upload_tx_shape [OF Inr]
    have u: "usage d1 uid = usage d uid + ui_sizeBytes input"
      by (simp add: tx(1) usage_def file_usage_counted counted_def new_file_def artifact_usage_def)
    have ff: "find_file d1 (fc_fileId fc) = Some (new_file fc uid input)"
      using tx(2) by (simp add: tx(1) find_file_def find_append new_file_def)
    show ?thesis
    proof (cases "fc_uploadUrl fc (f_storageKey (new_file fc uid input))")
      case (Inr url)
      then have "d' = d1" "r = Inr (fc_fileId fc, url, f_storageKey (new_file fc uid input))"
        using assms True \<open>upload_tx fc uid input d = Inr d1\<close> by (auto simp: createUploadUrl_def Let_def)
      then show ?thesis using True le u ff tx(3) by (simp add: new_file_def)
    next
      case (Inl e)
      have fresh: "\<forall>f \<in> set (db_files d). f_id f \<noteq> fc_fileId fc"
        using tx(2) by (simp add: find_file_def find_None_all)
      then have "map (\<lambda>f. if f_id f = fc_fileId fc then f\<lparr>f_status := UploadFailed,
          f_updatedAt := x_now (fc_x fc)\<rparr> else f) (db_files d) = db_files d"
        by (intro map_idI) simp
      then have "usage (upd_file (x_now (fc_x fc)) (fc_fileId fc) (\<lambda>f. f\<lparr>f_status := UploadFailed\<rparr>) d1) uid
          = usage d uid"
        by (simp add: usage_def file_usage_counted upd_file_def tx(1) new_file_def counted_def artifact_usage_def)
      moreover have "d' = upd_file (x_now (fc_x fc)) (fc_fileId fc) (\<lambda>f. f\<lparr>f_status := UploadFailed\<rparr>) d1" "r = Inl e"
        using assms True Inl Inr by (auto simp: createUploadUrl_def Let_def)
      ultimately show ?thesis by simp
    qed
  qed
qed

definition sample_file_calls :: file_calls where
  "sample_file_calls = \<lparr>fc_x = sample_ext, fc_fileId = js ''f'', fc_uploadUrl = (\<lambda>k. Inr k),
     fc_inspect = (\<lambda>_. Inr \<lparr>oi_sizeBytes = 5, oi_mimeType = js ''text/plain'', oi_etag = None\<rparr>)\<rparr>"

definition sample_upload :: upload_input where
  "sample_upload = \<lparr>ui_filename = js ''a'', ui_mimeType = js ''text/plain'', ui_sizeBytes = 5\<rparr>"

theorem upload_within_quota_witness:
  "\<exists>d' v. createUploadUrl sample_file_calls (js ''u'') sample_upload db_empty = (d', Inr v)
     \<and> usage d' (js ''u'') = 5"
proof -
  obtain d' r where c: "createUploadUrl sample_file_calls (js ''u'') sample_upload db_empty = (d', r)" by fastforce
  have lim: "storageLimit (\<lambda>_. None) = 1024 * 1024 * 1024" "maxUploadBytes (\<lambda>_. None) = 10 * 1024 * 1024"
    by (simp_all add: storageLimit_def maxUploadBytes_def absolute_max_upload_bytes_def
        asPositiveInteger_positive_or opt_number_def positive_or_def)
  have "r \<noteq> Inl e" for e
    using c by (auto simp: createUploadUrl_def upload_tx_def sample_file_calls_def sample_upload_def
        sample_ext_def lim SUPPORTED_MIME_TYPES_def db_empty_def file_usage_def artifact_usage_def
        find_file_def Let_def)
  then obtain v where "r = Inr v" by (cases r) auto
  moreover have "usage db_empty (js ''u'') = 0"
    by (simp add: usage_def db_empty_def file_usage_def artifact_usage_def)
  ultimately show ?thesis
    using upload_within_quota [OF c] c by (cases v) (auto simp: sample_upload_def)
qed

lemma find_owned_file_SomeD:
  "find_owned_file d uid fid = Some f \<Longrightarrow> f \<in> set (db_files d) \<and> f_id f = fid \<and> f_userId f = uid"
  unfolding find_owned_file_def by (drule find_Some_set) simp

text \<open>
  completing an upload charges nothing for a file that was counted since its upload was
  granted, but the status of the file is not looked at: a file that had been given up as
  failed, and so left the quota, is taken back, and its bytes are added without the quota
  being checked. A refused completion never adds to what the user occupies.
\<close>

theorem complete_upload_usage:
  assumes "distinct (map f_id (db_files d))" "find_owned_file d uid fid = Some f"
    and "completeUpload fc uid fid input key d = (d', r)"
  shows "(\<forall>v. r = Inr v \<longrightarrow>
        usage d' uid = usage d uid + (if f_status f = UploadFailed then f_sizeBytes f else 0)
      \<and> fr_status v = Uploaded \<and> fr_sizeBytes v = ui_sizeBytes input)
    \<and> (\<forall>e. r = Inl e \<longrightarrow> usage d' uid \<le> usage d uid)"
proof -
  note f = find_owned_file_SomeD [OF assms(2), THEN conjunct1]
    find_owned_file_SomeD [OF assms(2), THEN conjunct2, THEN conjunct2]
  note upd = usage_upd_file [OF assms(1) f(1), where now = "x_now (fc_x fc)" and uid = uid]
  have art: "artifact_usage (upd_file n i g d) uid = artifact_usage d uid" for n i g
    by (simp add: artifact_usage_def)
  show ?thesis
  proof (cases "\<exists>ob. fc_inspect fc (f_storageKey f) = Inr ob \<and> oi_sizeBytes ob = f_sizeBytes f
      \<and> oi_mimeType ob = f_mimeType f \<and> \<not> (f_filename f \<noteq> sanitizeFilename (ui_filename input)
      \<or> f_mimeType f \<noteq> ui_mimeType input \<or> f_sizeBytes f \<noteq> ui_sizeBytes input \<or> f_storageKey f \<noteq> key)")
    case True
    then obtain ob where ob: "fc_inspect fc (f_storageKey f) = Inr ob" by blast
    let ?g = "\<lambda>f. f\<lparr>f_status := Uploaded, f_uploadedAt := Some (x_now (fc_x fc)), f_etag := oi_etag ob\<rparr>"
    have "d' = upd_file (x_now (fc_x fc)) (f_id f) ?g d" "r = Inr (toFileRecord (?g f))"
      using assms(2,3) True ob by (auto simp: completeUpload_def Let_def)
    then show ?thesis
      using upd [of ?g] True f(2) by (auto simp: usage_def art counted_def toFileRecord_def)
  next
    case False
    then have "d' = d \<or> d' = upd_file (x_now (fc_x fc)) (f_id f) (\<lambda>f. f\<lparr>f_status := UploadFailed\<rparr>) d"
      "\<exists>e. r = Inl e"
      using assms(2,3) by (auto simp: completeUpload_def Let_def split: if_splits sum.splits)
    then show ?thesis
      using upd [of "\<lambda>f. f\<lparr>f_status := UploadFailed\<rparr>"] by (auto simp: usage_def art counted_def)
  qed
qed

theorem complete_upload_usage_witness:
  "let f = (new_file sample_file_calls (js ''u'') sample_upload)\<lparr>f_status := UploadFailed\<rparr>;
       d = db_empty\<lparr>db_files := [f]\<rparr>
   in usage d (js ''u'') = 0
    \<and> usage (fst (completeUpload sample_file_calls (js ''u'') (js ''f'') sample_upload (f_storageKey f) d)) (js ''u'') = 5"
proof -
  let ?f = "(new_file sample_file_calls (js ''u'') sample_upload)\<lparr>f_status := UploadFailed\<rparr>"
  let ?d = "db_empty\<lparr>db_files := [?f]\<rparr>"
  obtain d' r where c: "completeUpload sample_file_calls (js ''u'') (js ''f'') sample_upload (f_storageKey ?f) ?d = (d', r)"
    by fastforce
  have own: "find_owned_file ?d (js ''u'') (js ''f'') = Some ?f"
    by (simp add: find_owned_file_def new_file_def sample_file_calls_def)
  have "r \<noteq> Inl e" for e
    using c own by (auto simp: completeUpload_def new_file_def sample_file_calls_def sample_upload_def Let_def)
  then obtain v where "r = Inr v" by (cases r) auto
  moreover have "usage ?d (js ''u'') = 0"
    by (simp add: usage_def db_empty_def file_usage_def artifact_usage_def)
  ultimately show ?thesis
    using complete_upload_usage [OF _ own c] c by (simp add: new_file_def sample_upload_def Let_def)
qed

section \<open>Nothing that is referenced is deleted\<close>

text \<open>Every storage key belongs to one row.\<close>

definition storage_keys :: "db \<Rightarrow> jstr list" where
  "storage_keys d = map f_storageKey (db_files d) @ map ra_storageKey (db_artifacts d)"

text \<open>A file with its row and its object, both as they were.\<close>

definition file_kept :: "jstr \<Rightarrow> api \<Rightarrow> api \<Rightarrow> bool" where
  "file_kept fid w w' \<longleftrightarrow>
     find_file (ap_db w') fid = find_file (ap_db w) fid
     \<and> (\<forall>f. find_file (ap_db w) fid = Some f \<longrightarrow>
          jm_get (ap_objects w') (f_storageKey f) = jm_get (ap_objects w) (f_storageKey f))"

lemma file_kept_refl [simp]: "file_kept fid w w"
  by (simp add: file_kept_def)

lemma file_kept_trans: "file_kept fid w w1 \<Longrightarrow> file_kept fid w1 w2 \<Longrightarrow> file_kept fid w w2"
  by (auto simp: file_kept_def)

lemma find_file_SomeD: "find_file d i = Some f \<Longrightarrow> f \<in> set (db_files d) \<and> f_id f = i"
  unfolding find_file_def by (drule find_Some_set) simp

lemma find_filter_other:
  "i \<noteq> j \<Longrightarrow> find (\<lambda>x. k x = i) (filter (\<lambda>x. k x \<noteq> j) xs) = find (\<lambda>x. k x = i) xs"
  by (induction xs) auto

lemma delete_object_objects:
  "jm_get (ap_objects (fst (delete_object x key w))) k =
     (if k = key \<and> x_delete x key = None then None else jm_get (ap_objects w) k)"
  by (simp add: delete_object_def split: option.split)

lemma delete_object_db [simp]: "ap_db (fst (delete_object x key w)) = ap_db w"
  by (simp add: delete_object_def split: option.split)

lemma distinct_key_neq:
  assumes "distinct (map f_storageKey fs)" "f \<in> set fs" "g \<in> set fs" "f_id f \<noteq> f_id g"
  shows "f_storageKey f \<noteq> f_storageKey g"
  using assms by (auto simp: distinct_map dest: inj_onD)

lemma delete_one_file_kept:
  assumes "distinct (storage_keys (ap_db w))" "f \<in> set (db_files (ap_db w))" "f_id f \<noteq> fid"
  shows "file_kept fid w (fst (delete_object x (f_storageKey f) w))"
    "file_kept fid w (remove_file (f_id f) (fst (delete_object x (f_storageKey f) w)))"
proof -
  have "f_storageKey g \<noteq> f_storageKey f" if "find_file (ap_db w) fid = Some g" for g
    using distinct_key_neq [of "db_files (ap_db w)" g f] find_file_SomeD [OF that] assms
    by (auto simp: storage_keys_def)
  then show "file_kept fid w (fst (delete_object x (f_storageKey f) w))"
    "file_kept fid w (remove_file (f_id f) (fst (delete_object x (f_storageKey f) w)))"
    using assms(3)
    by (auto simp: file_kept_def delete_object_objects remove_file_def find_file_def find_filter_other)
qed

lemma storage_keys_remove:
  "distinct (storage_keys d) \<Longrightarrow> distinct (storage_keys (d\<lparr>db_files := filter P (db_files d)\<rparr>))"
  "distinct (storage_keys d) \<Longrightarrow> distinct (storage_keys (d\<lparr>db_artifacts := filter Q (db_artifacts d)\<rparr>))"
  by (auto simp: storage_keys_def distinct_map_filter)

lemma delete_files_kept:
  assumes "distinct (storage_keys (ap_db w))" "distinct (map f_id fs)" "set fs \<subseteq> set (db_files (ap_db w))"
    "fid \<notin> f_id ` set fs"
  shows "file_kept fid w (fst (delete_files x fs w))
    \<and> db_tasks (ap_db (fst (delete_files x fs w))) = db_tasks (ap_db w)
    \<and> distinct (storage_keys (ap_db (fst (delete_files x fs w))))
    \<and> set (db_files (ap_db (fst (delete_files x fs w)))) \<subseteq> set (db_files (ap_db w))"
  using assms
proof (induction fs arbitrary: w)
  case (Cons f fs)
  let ?w1 = "fst (delete_object x (f_storageKey f) w)"
  have f: "f \<in> set (db_files (ap_db w))" "f_id f \<noteq> fid" using Cons.prems by auto
  note one = delete_one_file_kept [OF Cons.prems(1) f, of x]
  show ?case
  proof (cases "snd (delete_object x (f_storageKey f) w)")
    case (Some e)
    then have "fst (delete_files x (f # fs) w) = ?w1" by (simp add: split_beta)
    then show ?thesis using one(1) Cons.prems(1) by simp
  next
    case None
    let ?w2 = "remove_file (f_id f) ?w1"
    have eq: "fst (delete_files x (f # fs) w) = fst (delete_files x fs ?w2)" using None by (simp add: split_beta)
    have d2: "ap_db ?w2 = (ap_db w)\<lparr>db_files := filter (\<lambda>g. f_id g \<noteq> f_id f) (db_files (ap_db w))\<rparr>"
      by (simp add: remove_file_def)
    have "set fs \<subseteq> set (db_files (ap_db ?w2))"
      using Cons.prems(2,3) by (auto simp: d2 image_iff)
    then have "file_kept fid ?w2 (fst (delete_files x fs ?w2))
        \<and> db_tasks (ap_db (fst (delete_files x fs ?w2))) = db_tasks (ap_db ?w2)
        \<and> distinct (storage_keys (ap_db (fst (delete_files x fs ?w2))))
        \<and> set (db_files (ap_db (fst (delete_files x fs ?w2)))) \<subseteq> set (db_files (ap_db ?w2))"
      by (intro Cons.IH) (use Cons.prems storage_keys_remove(1) [OF Cons.prems(1)] in \<open>auto simp: d2\<close>)
    then show ?thesis
      using file_kept_trans [OF one(2)] unfolding eq by (auto simp: d2)
  qed
qed simp

lemma delete_artifacts_kept:
  assumes "distinct (storage_keys (ap_db w))" "distinct (map ra_id as)" "set as \<subseteq> set (db_artifacts (ap_db w))"
  shows "file_kept fid w (fst (delete_artifacts x as w))
    \<and> db_tasks (ap_db (fst (delete_artifacts x as w))) = db_tasks (ap_db w)
    \<and> db_files (ap_db (fst (delete_artifacts x as w))) = db_files (ap_db w)
    \<and> distinct (storage_keys (ap_db (fst (delete_artifacts x as w))))"
  using assms
proof (induction as arbitrary: w)
  case (Cons a as)
  let ?w1 = "fst (delete_object x (ra_storageKey a) w)"
  have a: "a \<in> set (db_artifacts (ap_db w))" using Cons.prems by auto
  have one: "file_kept fid w ?w1"
    using Cons.prems(1) a find_file_SomeD
    by (fastforce simp: file_kept_def delete_object_objects storage_keys_def)
  show ?case
  proof (cases "snd (delete_object x (ra_storageKey a) w)")
    case (Some e)
    then have "fst (delete_artifacts x (a # as) w) = ?w1" by (simp add: split_beta)
    then show ?thesis using one Cons.prems(1) by simp
  next
    case None
    let ?w2 = "?w1\<lparr>ap_db := (ap_db ?w1)\<lparr>db_artifacts :=
      filter (\<lambda>b. ra_id b \<noteq> ra_id a) (db_artifacts (ap_db ?w1))\<rparr>\<rparr>"
    have eq: "fst (delete_artifacts x (a # as) w) = fst (delete_artifacts x as ?w2)"
      using None by (simp add: split_beta)
    have two: "file_kept fid w ?w2" using one by (simp add: file_kept_def find_file_def)
    have "set as \<subseteq> set (db_artifacts (ap_db ?w2))"
      using Cons.prems(2,3) by (auto simp: image_iff)
    then have "file_kept fid ?w2 (fst (delete_artifacts x as ?w2))
        \<and> db_tasks (ap_db (fst (delete_artifacts x as ?w2))) = db_tasks (ap_db ?w2)
        \<and> db_files (ap_db (fst (delete_artifacts x as ?w2))) = db_files (ap_db ?w2)
        \<and> distinct (storage_keys (ap_db (fst (delete_artifacts x as ?w2))))"
      by (intro Cons.IH) (use Cons.prems storage_keys_remove(2) [OF Cons.prems(1)] in auto)
    then show ?thesis
      using file_kept_trans [OF two] unfolding eq by auto
  qed
qed simp

definition rows_distinct :: "db \<Rightarrow> bool" where
  "rows_distinct d \<longleftrightarrow> distinct (map f_id (db_files d)) \<and> distinct (map ra_id (db_artifacts d))
     \<and> distinct (storage_keys d)"

lemma distinct_taken: "distinct (map k xs) \<Longrightarrow> distinct (map k (take n (filter P xs)))"
  by (simp add: take_map [symmetric] distinct_map_filter)

lemma unreferenced_files_sub:
  "set (unreferenced_files x u d) \<subseteq> set (db_files d)"
  "file_referenced d fid \<Longrightarrow> fid \<notin> f_id ` set (unreferenced_files x u d)"
  "distinct (map f_id (db_files d)) \<Longrightarrow> distinct (map f_id (unreferenced_files x u d))"
  by (auto simp: unreferenced_files_def Let_def distinct_taken dest!: in_set_takeD)

lemma stale_files_sub:
  "set (stale_files x d) \<subseteq> set (db_files d)"
  "file_referenced d fid \<Longrightarrow> fid \<notin> f_id ` set (stale_files x d)"
  "distinct (map f_id (db_files d)) \<Longrightarrow> distinct (map f_id (stale_files x d))"
  by (auto simp: stale_files_def distinct_taken dest!: in_set_takeD)

lemma abandoned_artifacts_sub:
  "set (abandoned_artifacts x d) \<subseteq> set (db_artifacts d)"
  "distinct (map ra_id (db_artifacts d)) \<Longrightarrow> distinct (map ra_id (abandoned_artifacts x d))"
  by (auto simp: abandoned_artifacts_def distinct_taken dest!: in_set_takeD)

lemma cleanupUnreferencedFiles_kept:
  assumes "distinct (map f_id (db_files (ap_db w)))" "distinct (storage_keys (ap_db w))"
    "file_referenced (ap_db w) fid"
  shows "file_kept fid w (fst (cleanupUnreferencedFiles x u w))"
proof -
  have "fst (cleanupUnreferencedFiles x u w) = fst (delete_files x (unreferenced_files x u (ap_db w)) w)"
    by (simp add: cleanupUnreferencedFiles_def Let_def split: prod.split sum.split)
  then show ?thesis
    using delete_files_kept [OF assms(2) unreferenced_files_sub(3) [OF assms(1)]
        unreferenced_files_sub(1) unreferenced_files_sub(2) [OF assms(3)]] by simp
qed

lemma delete_files_artifacts: "db_artifacts (ap_db (fst (delete_files x fs w))) = db_artifacts (ap_db w)"
proof (induction fs arbitrary: w)
  case (Cons f fs)
  then show ?case
    by (cases "snd (delete_object x (f_storageKey f) w)")
      (simp_all add: split_beta remove_file_def)
qed simp

lemma delete_files_ids:
  "distinct (map f_id (db_files (ap_db w))) \<Longrightarrow> distinct (map f_id (db_files (ap_db (fst (delete_files x fs w)))))"
proof (induction fs arbitrary: w)
  case (Cons f fs)
  then show ?case
    by (cases "snd (delete_object x (f_storageKey f) w)")
      (simp_all add: split_beta remove_file_def distinct_map_filter)
qed simp

lemma referenced_cong: "db_tasks d' = db_tasks d \<Longrightarrow> file_referenced d' fid = file_referenced d fid"
  by (simp add: file_referenced_def)

lemma cleanupStaleFiles_kept:
  assumes "rows_distinct (ap_db w)" "file_referenced (ap_db w) fid"
  shows "file_kept fid w (fst (cleanupStaleFiles x w))"
proof -
  have rd: "distinct (map f_id (db_files (ap_db w)))" "distinct (map ra_id (db_artifacts (ap_db w)))"
    "distinct (storage_keys (ap_db w))" using assms(1) by (simp_all add: rows_distinct_def)
  define w1 where "w1 = fst (delete_files x (stale_files x (ap_db w)) w)"
  define w2 where "w2 = fst (delete_artifacts x (abandoned_artifacts x (ap_db w1)) w1)"
  have 1: "file_kept fid w w1" "db_tasks (ap_db w1) = db_tasks (ap_db w)"
    "distinct (storage_keys (ap_db w1))"
    using delete_files_kept [OF rd(3) stale_files_sub(3) [OF rd(1)] stale_files_sub(1)
        stale_files_sub(2) [OF assms(2)]] by (simp_all add: w1_def)
  have ids: "distinct (map ra_id (db_artifacts (ap_db w1)))" "distinct (map f_id (db_files (ap_db w1)))"
    using rd by (simp_all add: w1_def delete_files_artifacts delete_files_ids)
  have 2: "file_kept fid w1 w2" "db_tasks (ap_db w2) = db_tasks (ap_db w1)"
    "db_files (ap_db w2) = db_files (ap_db w1)" "distinct (storage_keys (ap_db w2))"
    using delete_artifacts_kept [OF 1(3) abandoned_artifacts_sub(2) [OF ids(1)] abandoned_artifacts_sub(1)]
    by (simp_all add: w2_def)
  have 3: "file_kept fid w2 (fst (cleanupUnreferencedFiles x None w2))"
    by (rule cleanupUnreferencedFiles_kept)
      (use ids 1(2) 2 assms(2) in \<open>simp_all add: referenced_cong [of "ap_db w2" "ap_db w"]\<close>)
  have "fst (cleanupStaleFiles x w) \<in> {w1, w2, fst (cleanupUnreferencedFiles x None w2)}"
  proof -
    obtain r1 where d1: "delete_files x (stale_files x (ap_db w)) w = (w1, r1)"
      by (metis w1_def prod.collapse)
    obtain r2 where d2: "delete_artifacts x (abandoned_artifacts x (ap_db w1)) w1 = (w2, r2)"
      by (metis w2_def prod.collapse)
    obtain w3 r3 where d3: "cleanupUnreferencedFiles x None w2 = (w3, r3)" by fastforce
    show ?thesis
      by (cases r1; cases r2; cases r3) (simp_all add: cleanupStaleFiles_def Let_def d1 d2 d3)
  qed
  then show ?thesis
    using 1(1) file_kept_trans [OF 1(1) 2(1)] file_kept_trans [OF file_kept_trans [OF 1(1) 2(1)] 3]
    by auto
qed

text \<open>
  C13: no cleanup and no deletion removes a file that a task refers to: its row and its object
  stay as they are, whichever of the store's deletions fail on the way.
\<close>

theorem referenced_files_survive:
  assumes "rows_distinct (ap_db w)" "file_referenced (ap_db w) fid"
  shows "file_kept fid w (fst (cleanupStaleFiles x w))
    \<and> file_kept fid w (fst (cleanupUnreferencedFiles x u w))
    \<and> file_kept fid w (fst (deleteFile x uid other w))"
proof -
  have "file_kept fid w (fst (deleteFile x uid other w))"
  proof (cases "find_owned_file (ap_db w) uid other")
    case None
    then show ?thesis by (simp add: deleteFile_def)
  next
    case (Some f)
    then have f: "f \<in> set (db_files (ap_db w))" using find_owned_file_SomeD by blast
    show ?thesis
    proof (cases "file_referenced (ap_db w) (f_id f)")
      case True
      with Some show ?thesis by (simp add: deleteFile_def)
    next
      case False
      then have "f_id f \<noteq> fid" using assms(2) by auto
      then show ?thesis
        using delete_one_file_kept [of w f fid x] assms(1) f Some False
        by (cases "snd (delete_object x (f_storageKey f) w)")
          (auto simp: deleteFile_def rows_distinct_def split_beta)
    qed
  qed
  then show ?thesis
    using cleanupStaleFiles_kept [OF assms] cleanupUnreferencedFiles_kept assms
    by (simp add: rows_distinct_def)
qed

theorem referenced_files_survive_witness:
  "let f = new_file sample_file_calls (js ''u'') sample_upload;
       w = sample_api\<lparr>ap_db := (ap_db sample_api)\<lparr>db_files := [f],
             db_tasks := [sample_task\<lparr>t_files := [js ''f'']\<rparr>]\<rparr>\<rparr>
   in find_file (ap_db (fst (cleanupStaleFiles (sample_ext\<lparr>x_now := 10 ^ 12\<rparr>) w))) (js ''f'') = Some f"
proof -
  let ?f = "new_file sample_file_calls (js ''u'') sample_upload"
  let ?w = "sample_api\<lparr>ap_db := (ap_db sample_api)\<lparr>db_files := [?f],
    db_tasks := [sample_task\<lparr>t_files := [js ''f'']\<rparr>]\<rparr>\<rparr>"
  have "rows_distinct (ap_db ?w)" "file_referenced (ap_db ?w) (js ''f'')"
    "find_file (ap_db ?w) (js ''f'') = Some ?f"
    by (simp_all add: rows_distinct_def storage_keys_def file_referenced_def sample_api_def db_empty_def
        find_file_def new_file_def sample_file_calls_def)
  then show ?thesis
    using referenced_files_survive [of ?w "js ''f''" "sample_ext\<lparr>x_now := 10 ^ 12\<rparr>"]
    by (simp add: file_kept_def Let_def)
qed

end
