(* ===== verification/HistoryService.thy ===== *)
theory HistoryService
  imports FileService
begin

text \<open>
  The history of \<^verbatim>\<open>TasksService\<close>: the paged list of sessions with its cursor, the reads of a task
  and its versions, and the deletion of a session. Sessions are ordered by their time of
  change and then by id, as the database orders ids: \<open>col\<close>, an argument, maps an id to its place
  in that order. The codecs a cursor goes through (base64url, dates) are arguments too.
\<close>

section \<open>Cursors\<close>

record codecs =
  cx_encode :: "json \<Rightarrow> jstr"
  cx_decode :: "jstr \<Rightarrow> json option"
  cx_iso :: "nat \<Rightarrow> jstr"
  cx_date :: "jstr \<Rightarrow> nat option"

text \<open>What the codecs are documented to do: decode what was encoded, read the date written.\<close>

definition cursor_json :: "jstr \<Rightarrow> jstr \<Rightarrow> json" where
  "cursor_json u i = JObj [(js ''updatedAt'', JStr u), (js ''id'', JStr i)]"

definition codecs_ok :: "codecs \<Rightarrow> bool" where
  "codecs_ok cx \<longleftrightarrow>
     (\<forall>u i. cx_decode cx (cx_encode cx (cursor_json u i)) = Some (cursor_json u i)
        \<and> cx_encode cx (cursor_json u i) \<noteq> [])
     \<and> (\<forall>n. cx_date cx (cx_iso cx n) = Some n)"

definition decodeHistoryCursor :: "codecs \<Rightarrow> jstr option \<Rightarrow> exn + (nat \<times> jstr) option" where
  "decodeHistoryCursor cx cursor =
     (case cursor of
        None \<Rightarrow> Inr None
      | Some s \<Rightarrow>
          if s = [] then Inr None
          else case cx_decode cx s of
                 None \<Rightarrow> Inl (BadRequest (js ''invalid history cursor''))
               | Some v \<Rightarrow>
                   (case (prop_str v (js ''updatedAt''), prop_str v (js ''id'')) of
                      (Some u, Some i) \<Rightarrow>
                        (case cx_date cx u of
                           None \<Rightarrow> Inl (BadRequest (js ''invalid history cursor''))
                         | Some n \<Rightarrow> if i = [] then Inl (BadRequest (js ''invalid history cursor''))
                                     else Inr (Some (n, i)))
                    | _ \<Rightarrow> Inl (BadRequest (js ''invalid history cursor''))))"

definition encodeHistoryCursor :: "codecs \<Rightarrow> session \<Rightarrow> jstr" where
  "encodeHistoryCursor cx s =
     cx_encode cx (cursor_json (cx_iso cx (s_updatedAt s)) (s_id s))"

lemma decode_encode_cursor:
  "codecs_ok cx \<Longrightarrow> s_id s \<noteq> [] \<Longrightarrow>
     decodeHistoryCursor cx (Some (encodeHistoryCursor cx s)) = Inr (Some (s_updatedAt s, s_id s))"
  by (simp add: decodeHistoryCursor_def encodeHistoryCursor_def codecs_ok_def)
    (simp add: cursor_json_def prop_str_def)

section \<open>The list of sessions\<close>

record history_query =
  hq_cursor :: "jstr option"
  hq_limit :: "nat option"
  hq_status :: "task_status option"
  hq_search :: "jstr option"

record history_item =
  hi_taskId :: jstr
  hi_sessionId :: jstr
  hi_title :: jstr
  hi_prompt :: jstr
  hi_status :: task_status
  hi_errorMessage :: "jstr option"
  hi_createdAt :: nat
  hi_updatedAt :: nat

text \<open>The \<^verbatim>\<open>where\<close> without the cursor; a search is ignored when it is empty.\<close>

definition history_match :: "jstr \<Rightarrow> history_query \<Rightarrow> session \<Rightarrow> bool" where
  "history_match uid q s \<longleftrightarrow>
     s_userId s = uid
     \<and> (case hq_status q of None \<Rightarrow> True | Some st \<Rightarrow> s_status s = st)
     \<and> (case hq_search q of
          None \<Rightarrow> True
        | Some t \<Rightarrow> t = [] \<or> js_includes (js_lower (s_title s)) (js_lower (js_trim t)))"

text \<open>The place of a session in the list: larger comes first.\<close>

definition history_rank :: "(jstr \<Rightarrow> nat) \<Rightarrow> session \<Rightarrow> nat \<times> nat" where
  "history_rank col s = (s_updatedAt s, col (s_id s))"

definition rank_less :: "nat \<times> nat \<Rightarrow> nat \<times> nat \<Rightarrow> bool" where
  "rank_less a b \<longleftrightarrow> fst a < fst b \<or> fst a = fst b \<and> snd a < snd b"

fun insert_desc :: "(jstr \<Rightarrow> nat) \<Rightarrow> session \<Rightarrow> session list \<Rightarrow> session list" where
  "insert_desc col s [] = [s]"
| "insert_desc col s (t # ts) =
     (if rank_less (history_rank col s) (history_rank col t) then t # insert_desc col s ts else s # t # ts)"

definition history_sort :: "(jstr \<Rightarrow> nat) \<Rightarrow> session list \<Rightarrow> session list" where
  "history_sort col ss = foldr (insert_desc col) ss []"

definition after_cursor :: "(jstr \<Rightarrow> nat) \<Rightarrow> (nat \<times> jstr) option \<Rightarrow> session \<Rightarrow> bool" where
  "after_cursor col cursor s =
     (case cursor of
        None \<Rightarrow> True
      | Some (n, i) \<Rightarrow> s_updatedAt s < n \<or> s_updatedAt s = n \<and> col (s_id s) < col i)"

text \<open>The latest task of a session: \<^verbatim>\<open>orderBy createdAt desc, take 1\<close>.\<close>

definition latest_task :: "db \<Rightarrow> jstr \<Rightarrow> task option" where
  "latest_task d sid =
     (case rev (sort_key t_createdAt (filter (\<lambda>t. t_sessionId t = sid) (db_tasks d))) of
        [] \<Rightarrow> None | t # _ \<Rightarrow> Some t)"

definition history_item_of :: "db \<Rightarrow> session \<Rightarrow> history_item list" where
  "history_item_of d s =
     (case latest_task d (s_id s) of
        None \<Rightarrow> []
      | Some t \<Rightarrow>
          [\<lparr>hi_taskId = t_id t, hi_sessionId = s_id s, hi_title = s_title s, hi_prompt = t_inputText t,
            hi_status = t_status t, hi_errorMessage = t_errorMessage t, hi_createdAt = t_createdAt t,
            hi_updatedAt = s_updatedAt s\<rparr>])"

definition history_page ::
  "(jstr \<Rightarrow> nat) \<Rightarrow> db \<Rightarrow> jstr \<Rightarrow> history_query \<Rightarrow> (nat \<times> jstr) option \<Rightarrow> session list" where
  "history_page col d uid q cursor =
     filter (after_cursor col cursor) (history_sort col (filter (history_match uid q) (db_sessions d)))"

definition listHistory ::
  "codecs \<Rightarrow> (jstr \<Rightarrow> nat) \<Rightarrow> db \<Rightarrow> jstr \<Rightarrow> history_query \<Rightarrow> exn + history_item list \<times> jstr option" where
  "listHistory cx col d uid q =
     (case decodeHistoryCursor cx (hq_cursor q) of
        Inl e \<Rightarrow> Inl e
      | Inr cursor \<Rightarrow>
          let limit = (case hq_limit q of Some n \<Rightarrow> n | None \<Rightarrow> 20);
              sessions = take (limit + 1) (history_page col d uid q cursor);
              hasMore = length sessions > limit;
              page = take limit sessions
          in Inr (concat (map (history_item_of d) page),
                  if hasMore \<and> page \<noteq> [] then Some (encodeHistoryCursor cx (last page)) else None))"

section \<open>Reading a task\<close>

definition files_of :: "db \<Rightarrow> task \<Rightarrow> file_record list" where
  "files_of d t = map toFileRecord (linked_files d t)"

definition getTask ::
  "ext \<Rightarrow> db \<Rightarrow> jstr \<Rightarrow> jstr \<Rightarrow> exn + task \<times> client_result list \<times> file_record list" where
  "getTask x d uid taskId =
     (case find_owned_task d uid taskId of
        None \<Rightarrow> Inl (NotFound (js ''task not found''))
      | Some t \<Rightarrow>
          Inr (t, map (toClientResult x d)
                    (sort_key r_versionNo (filter (\<lambda>r. r_taskId r = t_id t) (db_results d))),
               files_of d t))"

record history_task =
  ht_taskId :: jstr
  ht_parentTaskId :: "jstr option"
  ht_inputText :: jstr
  ht_status :: task_status
  ht_errorMessage :: "jstr option"
  ht_createdAt :: nat
  ht_files :: "file_record list"
  ht_result :: "client_result option"

record history_detail =
  hd_sessionId :: jstr
  hd_title :: jstr
  hd_status :: task_status
  hd_currentTaskId :: "jstr option"
  hd_tasks :: "history_task list"
  hd_versions :: "client_result list"

definition history_task_of :: "ext \<Rightarrow> db \<Rightarrow> task \<Rightarrow> history_task" where
  "history_task_of x d t =
     \<lparr>ht_taskId = t_id t, ht_parentTaskId = t_parentTaskId t, ht_inputText = t_inputText t,
      ht_status = t_status t, ht_errorMessage = t_errorMessage t, ht_createdAt = t_createdAt t,
      ht_files = files_of d t,
      ht_result = (case rev (sort_key r_versionNo (filter (\<lambda>r. r_taskId r = t_id t) (db_results d))) of
                     [] \<Rightarrow> None | r # _ \<Rightarrow> Some (toClientResult x d r))\<rparr>"

definition getHistoryTask :: "ext \<Rightarrow> db \<Rightarrow> jstr \<Rightarrow> jstr \<Rightarrow> exn + history_detail" where
  "getHistoryTask x d uid taskId =
     (case find_owned_task d uid taskId of
        None \<Rightarrow> Inl (NotFound (js ''task not found''))
      | Some t \<Rightarrow>
          (case find (\<lambda>s. s_id s = t_sessionId t \<and> s_userId s = uid) (db_sessions d) of
             None \<Rightarrow> Inl (NotFound (js ''task history not found''))
           | Some s \<Rightarrow>
               Inr \<lparr>hd_sessionId = s_id s, hd_title = s_title s, hd_status = s_status s,
                    hd_currentTaskId = s_currentTaskId s,
                    hd_tasks = map (history_task_of x d)
                      (sort_key t_createdAt (filter (\<lambda>t. t_sessionId t = s_id s) (db_tasks d))),
                    hd_versions = map (toClientResult x d)
                      (sort_key r_versionNo (filter (\<lambda>r. r_sessionId r = s_id s) (db_results d)))\<rparr>))"

definition getVersions :: "ext \<Rightarrow> db \<Rightarrow> jstr \<Rightarrow> jstr \<Rightarrow> exn + client_result list" where
  "getVersions x d uid taskId =
     (case find_owned_task d uid taskId of
        None \<Rightarrow> Inl (NotFound (js ''task not found''))
      | Some t \<Rightarrow> Inr (map (toClientResult x d)
                    (sort_key r_versionNo (filter (\<lambda>r. r_sessionId r = t_sessionId t) (db_results d)))))"

definition listActiveTasks :: "db \<Rightarrow> jstr \<Rightarrow> task list" where
  "listActiveTasks d uid = rev (sort_key t_createdAt (active_tasks d uid))"

section \<open>Deleting a session\<close>

text \<open>The rows a session takes with it: tasks, results, events and artifacts cascade.\<close>

definition delete_session :: "jstr \<Rightarrow> db \<Rightarrow> db" where
  "delete_session sid d =
     (let gone = (\<lambda>i. case find_task d i of Some t \<Rightarrow> t_sessionId t = sid | None \<Rightarrow> False)
      in d\<lparr>db_sessions := filter (\<lambda>s. s_id s \<noteq> sid) (db_sessions d),
           db_tasks := filter (\<lambda>t. t_sessionId t \<noteq> sid) (db_tasks d),
           db_results := filter (\<lambda>r. r_sessionId r \<noteq> sid) (db_results d),
           db_artifacts := filter (\<lambda>a. \<not> gone (ra_taskId a)) (db_artifacts d),
           db_events := filter (\<lambda>r. \<not> gone (te_taskId r)) (db_events d)\<rparr>)"

definition session_artifacts :: "db \<Rightarrow> jstr \<Rightarrow> jstr \<Rightarrow> db_artifact list" where
  "session_artifacts d uid sid =
     filter (\<lambda>a. case find_task d (ra_taskId a) of
                   Some t \<Rightarrow> t_sessionId t = sid \<and> t_userId t = uid | None \<Rightarrow> False) (db_artifacts d)"

fun delete_objects :: "ext \<Rightarrow> jstr list \<Rightarrow> api \<Rightarrow> api \<times> exn option" where
  "delete_objects x [] w = (w, None)"
| "delete_objects x (k # ks) w =
     (case delete_object x k w of (w1, Some e) \<Rightarrow> (w1, Some e) | (w1, None) \<Rightarrow> delete_objects x ks w1)"

definition deleteHistoryTask :: "ext \<Rightarrow> jstr \<Rightarrow> jstr \<Rightarrow> api \<Rightarrow> api \<times> (exn + jstr)" where
  "deleteHistoryTask x uid taskId w =
     (case find_owned_task (ap_db w) uid taskId of
        None \<Rightarrow> (w, Inl (NotFound (js ''task not found'')))
      | Some t \<Rightarrow>
          if list_ex (\<lambda>u. t_sessionId u = t_sessionId t \<and> t_status u \<in> {Queued, Running}) (db_tasks (ap_db w))
          then (w, Inl (Conflict (js ''cancel active tasks before deleting history'')))
          else case delete_objects x (map ra_storageKey (session_artifacts (ap_db w) uid (t_sessionId t))) w of
                 (w1, Some e) \<Rightarrow> (w1, Inl e)
               | (w1, None) \<Rightarrow>
                   let w2 = w1\<lparr>ap_db := delete_session (t_sessionId t) (ap_db w1)\<rparr>
                   in case cleanupUnreferencedFiles x (Some uid) w2 of
                        (w3, Inl e) \<Rightarrow> (w3, Inl e)
                      | (w3, Inr _) \<Rightarrow> (w3, Inr (t_sessionId t)))"

section \<open>Paging visits every session once\<close>

definition rank_desc :: "(jstr \<Rightarrow> nat) \<Rightarrow> session \<Rightarrow> session \<Rightarrow> bool" where
  "rank_desc col a b \<longleftrightarrow> rank_less (history_rank col b) (history_rank col a)"

lemma rank_less_trans: "rank_less a b \<Longrightarrow> rank_less b c \<Longrightarrow> rank_less a c"
  by (auto simp: rank_less_def)

lemma rank_less_linear: "\<not> rank_less a b \<Longrightarrow> a \<noteq> b \<Longrightarrow> rank_less b a"
  by (auto simp: rank_less_def prod_eq_iff)

lemma rank_less_irrefl [simp]: "\<not> rank_less a a"
  by (simp add: rank_less_def)

lemma set_insert_desc [simp]: "set (insert_desc col s ss) = insert s (set ss)"
  by (induction ss) auto

lemma set_history_sort [simp]: "set (history_sort col ss) = set ss"
  unfolding history_sort_def by (induction ss) auto

lemma length_insert_desc [simp]: "length (insert_desc col s ss) = Suc (length ss)"
  by (induction ss) auto

lemma insert_desc_sorted:
  assumes "sorted_wrt (rank_desc col) ss" "\<And>t. t \<in> set ss \<Longrightarrow> history_rank col t \<noteq> history_rank col s"
  shows "sorted_wrt (rank_desc col) (insert_desc col s ss)"
  using assms
proof (induction ss)
  case (Cons t ts)
  show ?case
  proof (cases "rank_less (history_rank col s) (history_rank col t)")
    case True
    then show ?thesis using Cons by (auto simp: rank_desc_def)
  next
    case False
    then have "rank_less (history_rank col t) (history_rank col s)"
      using Cons.prems(2) rank_less_linear by (metis list.set_intros(1))
    then show ?thesis using Cons.prems(1) False by (auto simp: rank_desc_def intro: rank_less_trans)
  qed
qed simp

lemma history_sort_sorted:
  assumes "inj_on (history_rank col) (set ss)" "distinct ss"
  shows "sorted_wrt (rank_desc col) (history_sort col ss)"
  using assms
proof (induction ss)
  case (Cons s ss)
  have "sorted_wrt (rank_desc col) (insert_desc col s (history_sort col ss))"
    using Cons by (intro insert_desc_sorted) (auto, metis imageI)
  then show ?case by (simp add: history_sort_def)
qed (simp add: history_sort_def)

lemma after_cursor_rank:
  "after_cursor col (Some (s_updatedAt x, s_id x)) s \<longleftrightarrow> rank_less (history_rank col s) (history_rank col x)"
  by (auto simp: after_cursor_def rank_less_def history_rank_def)

lemma after_cursor_split:
  assumes "sorted_wrt (rank_desc col) (pre @ rest)" "pre \<noteq> []"
  shows "filter (after_cursor col (Some (s_updatedAt (last pre), s_id (last pre)))) (pre @ rest) = rest"
proof -
  let ?x = "last pre"
  have x: "pre = butlast pre @ [?x]" using assms(2) by simp
  then have s: "sorted_wrt (rank_desc col) ((butlast pre @ [?x]) @ rest)" using assms(1) by simp
  have "\<not> rank_less (history_rank col y) (history_rank col ?x)" if "y \<in> set pre" for y
  proof (cases "y = ?x")
    case False
    then have "y \<in> set (butlast pre)" using that x by (metis Un_iff empty_iff insert_iff list.set set_append)
    then have "rank_less (history_rank col ?x) (history_rank col y)"
      using s by (auto simp: sorted_wrt_append rank_desc_def)
    then show ?thesis using rank_less_trans rank_less_irrefl by blast
  qed simp
  moreover have "rank_less (history_rank col y) (history_rank col ?x)" if "y \<in> set rest" for y
    using s that by (auto simp: sorted_wrt_append rank_desc_def)
  ultimately show ?thesis
    by (simp add: after_cursor_rank filter_empty_conv filter_id_conv)
qed

text \<open>A client that follows the cursors, for at most so many pages.\<close>

fun history_walk ::
  "nat \<Rightarrow> codecs \<Rightarrow> (jstr \<Rightarrow> nat) \<Rightarrow> db \<Rightarrow> jstr \<Rightarrow> history_query \<Rightarrow> history_item list" where
  "history_walk 0 cx col d uid q = []"
| "history_walk (Suc n) cx col d uid q =
     (case listHistory cx col d uid q of
        Inl e \<Rightarrow> []
      | Inr (items, None) \<Rightarrow> items
      | Inr (items, Some c) \<Rightarrow> items @ history_walk n cx col d uid (q\<lparr>hq_cursor := Some c\<rparr>))"

definition sessions_ok :: "(jstr \<Rightarrow> nat) \<Rightarrow> db \<Rightarrow> bool" where
  "sessions_ok col d \<longleftrightarrow> distinct (map s_id (db_sessions d)) \<and> inj_on col (s_id ` set (db_sessions d))
     \<and> (\<forall>s \<in> set (db_sessions d). s_id s \<noteq> [])"

definition matching :: "(jstr \<Rightarrow> nat) \<Rightarrow> db \<Rightarrow> jstr \<Rightarrow> history_query \<Rightarrow> session list" where
  "matching col d uid q = history_sort col (filter (history_match uid q) (db_sessions d))"

lemma matching_cursor [simp]: "matching col d uid (q\<lparr>hq_cursor := c\<rparr>) = matching col d uid q"
  by (simp add: matching_def history_match_def [abs_def])

lemma matching_sorted:
  assumes "sessions_ok col d"
  shows "sorted_wrt (rank_desc col) (matching col d uid q)"
  unfolding matching_def
proof (rule history_sort_sorted)
  show "distinct (filter (history_match uid q) (db_sessions d))"
    using assms by (simp add: sessions_ok_def distinct_map)
  have "inj_on s_id (set (db_sessions d))" using assms by (simp add: sessions_ok_def distinct_map)
  then have "inj_on (history_rank col) (set (db_sessions d))"
    using assms by (auto simp: sessions_ok_def inj_on_def history_rank_def)
  then show "inj_on (history_rank col) (set (filter (history_match uid q) (db_sessions d)))"
    by (rule inj_on_subset) auto
qed

lemma history_walk_rest:
  assumes "codecs_ok cx" "sessions_ok col d" "0 < limit" "hq_limit q = Some limit"
    "matching col d uid q = pre @ rest" "length rest < n"
    "pre = [] \<and> hq_cursor q = None \<or>
     pre \<noteq> [] \<and> hq_cursor q = Some (encodeHistoryCursor cx (last pre))"
  shows "history_walk n cx col d uid q = concat (map (history_item_of d) rest)"
  using assms(4-7)
proof (induction n arbitrary: q pre rest)
  case (Suc n)
  have sorted: "sorted_wrt (rank_desc col) (pre @ rest)"
    using matching_sorted [OF assms(2), of uid q] Suc.prems(2) by simp
  have ne: "s_id s \<noteq> []" if "s \<in> set (pre @ rest)" for s
    using that Suc.prems(2) [symmetric] assms(2) by (auto simp: sessions_ok_def matching_def)
  obtain cursor where cur: "decodeHistoryCursor cx (hq_cursor q) = Inr cursor"
    "history_page col d uid q cursor = rest"
  proof (cases "pre = []")
    case True
    then show ?thesis
      using Suc.prems(2,4) by (intro that [of None])
        (auto simp: decodeHistoryCursor_def history_page_def after_cursor_def matching_def)
  next
    case False
    then have "decodeHistoryCursor cx (hq_cursor q) = Inr (Some (s_updatedAt (last pre), s_id (last pre)))"
      using Suc.prems(4) ne [of "last pre"] decode_encode_cursor [OF assms(1)] by auto
    moreover have "history_page col d uid q (Some (s_updatedAt (last pre), s_id (last pre))) = rest"
      using after_cursor_split [OF sorted False] Suc.prems(2) by (simp add: history_page_def matching_def)
    ultimately show ?thesis by (rule that)
  qed
  show ?case
  proof (cases "length rest > limit")
    case False
    then show ?thesis
      using cur Suc.prems(1) by (simp add: listHistory_def Let_def)
  next
    case True
    let ?page = "take limit rest"
    have page: "?page \<noteq> []" using True assms(3) by auto
    let ?q = "q\<lparr>hq_cursor := Some (encodeHistoryCursor cx (last ?page))\<rparr>"
    have "history_walk n cx col d uid ?q = concat (map (history_item_of d) (drop limit rest))"
    proof (rule Suc.IH)
      show "matching col d uid ?q = (pre @ ?page) @ drop limit rest" using Suc.prems(2) by simp
      show "length (drop limit rest) < n" using Suc.prems(3) True assms(3) by simp
    qed (use Suc.prems(1) page in simp_all)
    moreover have "listHistory cx col d uid q =
        Inr (concat (map (history_item_of d) ?page), Some (encodeHistoryCursor cx (last ?page)))"
      using cur Suc.prems(1) True page assms(3) by (simp add: listHistory_def Let_def min_def)
    moreover have "concat (map (history_item_of d) ?page) @ concat (map (history_item_of d) (drop limit rest))
        = concat (map (history_item_of d) rest)"
      by (metis append_take_drop_id concat_append map_append)
    ultimately show ?thesis by simp
  qed
qed simp

text \<open>
  C10: a client that follows the cursors from the first page receives every session that
  matches its query exactly once, newest first, whatever the page size, and the last page
  says so; the number of pages it has to ask for is bounded by the number of sessions.
\<close>

theorem history_paging_complete:
  assumes "codecs_ok cx" "sessions_ok col d" "0 < limit" "hq_limit q = Some limit" "hq_cursor q = None"
    and "length (matching col d uid q) < n"
  shows "history_walk n cx col d uid q = concat (map (history_item_of d) (matching col d uid q))
    \<and> sorted_wrt (rank_desc col) (matching col d uid q)
    \<and> set (matching col d uid q) = {s \<in> set (db_sessions d). history_match uid q s}"
  using history_walk_rest [OF assms(1-4), of uid "[]" "matching col d uid q" n] assms(5,6)
    matching_sorted [OF assms(2)]
  by (auto simp: matching_def)

text \<open>Codecs for which the documented behaviour is evident.\<close>

definition sample_encode :: "json \<Rightarrow> jstr" where
  "sample_encode v =
     (case (prop_str v (js ''updatedAt''), prop_str v (js ''id'')) of
        (Some u, Some i) \<Rightarrow> concat (map (\<lambda>c. [1, c]) u) @ 2 # i
      | _ \<Rightarrow> [])"

fun sample_decode :: "jstr \<Rightarrow> jstr \<Rightarrow> json option" where
  "sample_decode u [] = None"
| "sample_decode u [c] = (if c = 2 then Some (cursor_json u []) else None)"
| "sample_decode u (c # d # s) =
     (if c = 2 then Some (cursor_json u (d # s)) else if c = 1 then sample_decode (u @ [d]) s else None)"

definition sample_codecs :: codecs where
  "sample_codecs = \<lparr>cx_encode = sample_encode, cx_decode = sample_decode [], cx_iso = (\<lambda>n. replicate n 0),
     cx_date = (\<lambda>s. Some (length s))\<rparr>"

lemma sample_decode_encode:
  "sample_decode acc (concat (map (\<lambda>c. [1, c]) u) @ 2 # i) = Some (cursor_json (acc @ u) i)"
proof (induction u arbitrary: acc)
  case Nil
  then show ?case by (cases i) simp_all
qed simp

lemma sample_codecs_ok: "codecs_ok sample_codecs"
  using sample_decode_encode [of "[]"]
  by (auto simp: codecs_ok_def sample_codecs_def sample_encode_def)
    (simp_all add: cursor_json_def prop_str_def)

lemma length_history_sort [simp]: "length (history_sort col ss) = length ss"
  unfolding history_sort_def by (induction ss) auto

theorem history_paging_complete_witness:
  "let d = (ap_db sample_api)\<lparr>db_sessions := [sample_session, sample_session\<lparr>s_id := js ''ss''\<rparr>]\<rparr>;
       q = \<lparr>hq_cursor = None, hq_limit = Some 1, hq_status = None, hq_search = None\<rparr>
   in history_walk 3 sample_codecs length d (js ''u'') q
      = concat (map (history_item_of d) (matching length d (js ''u'') q))"
proof -
  let ?d = "(ap_db sample_api)\<lparr>db_sessions := [sample_session, sample_session\<lparr>s_id := js ''ss''\<rparr>]\<rparr>"
  let ?q = "\<lparr>hq_cursor = None, hq_limit = Some 1, hq_status = None, hq_search = None\<rparr> :: history_query"
  have "sessions_ok length ?d"
    by (simp add: sessions_ok_def sample_session_def)
  moreover have "length (matching length ?d (js ''u'') ?q) < 3"
    by (simp add: matching_def)
  ultimately show ?thesis
    using history_paging_complete [OF sample_codecs_ok, of length ?d 1 ?q "js ''u''" 3] by simp
qed

section \<open>A deleted session is gone\<close>

lemma find_filter_key:
  "distinct (map k xs) \<Longrightarrow>
     find (\<lambda>x. k x = i) (filter P xs) = (case find (\<lambda>x. k x = i) xs of Some x \<Rightarrow> if P x then Some x else None | None \<Rightarrow> None)"
proof (induction xs)
  case (Cons x xs)
  show ?case
  proof (cases "k x = i")
    case True
    then have "find (\<lambda>y. k y = i) (filter P xs) = None"
      using Cons.prems by (auto simp: find_None_all) (metis imageI)
    with True show ?thesis by simp
  qed (use Cons in simp)
qed simp

lemma distinct_filter_swap:
  assumes "distinct (map f (filter Q xs))"
  shows "distinct (map f (filter Q (filter P xs)))"
proof -
  have "filter Q (filter P xs) = filter P (filter Q xs)" by (simp add: conj_commute)
  then show ?thesis using distinct_map_filter [OF assms] by simp
qed

lemma delete_session_find_task:
  "keys_ok d \<Longrightarrow> find_task (delete_session sid d) i =
     (case find_task d i of Some t \<Rightarrow> if t_sessionId t \<noteq> sid then Some t else None | None \<Rightarrow> None)"
  unfolding keys_ok_def delete_session_def find_task_def Let_def by (simp add: find_filter_key)

lemma delete_session_find_session:
  "keys_ok d \<Longrightarrow> find_session (delete_session sid d) i = (if i = sid then None else find_session d i)"
  unfolding keys_ok_def delete_session_def find_session_def Let_def
  by (auto simp: find_filter_key split: option.split dest: find_Some_set)

lemma delete_session_log:
  assumes "keys_ok d" "find_task (delete_session sid d) i = Some t"
  shows "task_log vurl (delete_session sid d) i = task_log vurl d i"
proof -
  have "find_task d i = Some t" "t_sessionId t \<noteq> sid"
    using assms delete_session_find_task [OF assms(1)] by (auto split: option.splits if_splits)
  then have "filter (\<lambda>r. te_taskId r = i) (db_events (delete_session sid d))
      = filter (\<lambda>r. te_taskId r = i) (db_events d)"
    by (auto simp: delete_session_def Let_def intro!: filter_cong)
  then show ?thesis by (simp add: task_log_def)
qed

lemma delete_session_ok:
  assumes "db_ok vurl d"
  shows "db_ok vurl (delete_session sid d)"
proof -
  note k = db_okD(1) [OF assms] and ev = db_okD(2) [OF assms]
  let ?d = "delete_session sid d"
  have "keys_ok ?d"
  proof -
    have "distinct (map t_id (db_tasks ?d))" "distinct (map s_id (db_sessions ?d))"
      using k by (simp_all add: keys_ok_def delete_session_def Let_def distinct_map_filter)
    moreover have "list_all (\<lambda>t. find_session ?d (t_sessionId t) \<noteq> None) (db_tasks ?d)"
      unfolding delete_session_find_session [OF k]
      using k by (auto simp: keys_ok_def list_all_iff delete_session_def Let_def)
    moreover have "list_all (\<lambda>r. find_task ?d (te_taskId r) \<noteq> None) (db_events ?d)"
      unfolding delete_session_find_task [OF k]
      using k by (fastforce simp: keys_ok_def list_all_iff delete_session_def Let_def split: option.splits)
    ultimately show ?thesis by (simp add: keys_ok_def)
  qed
  moreover have "events_ok vurl ?d"
  proof -
    obtain P where P: "db_events ?d = filter P (db_events d)" "db_nextEvent ?d = db_nextEvent d"
      by (simp add: delete_session_def Let_def)
    have "sorted_wrt (\<lambda>a b. te_id a < te_id b) (db_events ?d)"
      using ev by (simp add: P events_ok_def sorted_wrt_filter)
    moreover have "distinct (map (\<lambda>r. (te_taskId r, te_sourceEventId r))
        (filter (\<lambda>r. te_sourceEventId r \<noteq> None) (db_events ?d)))"
      unfolding P by (rule distinct_filter_swap) (use ev in \<open>simp add: events_ok_def\<close>)
    ultimately show ?thesis
      using ev by (simp add: P events_ok_def list_all_iff)
  qed
  moreover have "statuses_ok vurl ?d"
    unfolding statuses_ok_def list_all_iff
  proof
    fix t assume t: "t \<in> set (db_tasks ?d)"
    then have "find_task ?d (t_id t) = Some t" using find_task_unique \<open>keys_ok ?d\<close> by blast
    moreover have "t \<in> set (db_tasks d)" using t by (simp add: delete_session_def Let_def)
    ultimately show "status_matches (t_status t) (task_log vurl ?d (t_id t))"
      using delete_session_log [OF k] db_okD(3) [OF assms] by (auto simp: statuses_ok_def list_all_iff)
  qed
  moreover have "versions_ok ?d"
    unfolding versions_ok_def Let_def
  proof
    fix s
    have "filter (\<lambda>r. r_sessionId r = s) (db_results ?d) =
        (if s = sid then [] else filter (\<lambda>r. r_sessionId r = s) (db_results d))"
      by (auto simp: delete_session_def Let_def filter_empty_conv intro!: filter_cong)
    then show "map r_versionNo (filter (\<lambda>r. r_sessionId r = s) (db_results ?d))
        = [1 ..< Suc (length (filter (\<lambda>r. r_sessionId r = s) (db_results ?d)))]"
      using db_okD(4) [OF assms] by (simp add: versions_ok_def Let_def del: upt_Suc)
  qed
  ultimately show ?thesis by (simp add: db_ok_def)
qed

lemma delete_objects_db: "ap_db (fst (delete_objects x ks w)) = ap_db w"
proof (induction ks arbitrary: w)
  case (Cons k ks)
  then show ?case by (cases "snd (delete_object x k w)") (simp_all add: split_beta)
qed simp

lemma delete_files_log: "same_log (ap_db w) (ap_db (fst (delete_files x fs w)))"
proof (induction fs arbitrary: w)
  case (Cons f fs)
  then show ?case
    by (cases "snd (delete_object x (f_storageKey f) w)")
      (auto simp: split_beta remove_file_def same_log_def)
qed simp

lemma cleanup_unreferenced_log: "same_log (ap_db w) (ap_db (fst (cleanupUnreferencedFiles x u w)))"
  using delete_files_log [of w x "unreferenced_files x u (ap_db w)"]
  by (auto simp: cleanupUnreferencedFiles_def Let_def split: prod.split sum.split)

text \<open>
  What a deletion changes, row by row: the session with its tasks, results, events and artifacts
  goes, of the files the given ones, and nothing else.
\<close>

definition only_session_deleted :: "jstr \<Rightarrow> db_file list \<Rightarrow> db \<Rightarrow> db \<Rightarrow> bool" where
  "only_session_deleted sid swept d d' \<longleftrightarrow>
     db_sessions d' = filter (\<lambda>s. s_id s \<noteq> sid) (db_sessions d)
     \<and> db_tasks d' = filter (\<lambda>u. t_sessionId u \<noteq> sid) (db_tasks d)
     \<and> db_results d' = filter (\<lambda>r. r_sessionId r \<noteq> sid) (db_results d)
     \<and> db_events d' = filter (\<lambda>r. \<forall>u. find_task d (te_taskId r) = Some u \<longrightarrow> t_sessionId u \<noteq> sid) (db_events d)
     \<and> db_artifacts d' = filter (\<lambda>a. \<forall>u. find_task d (ra_taskId a) = Some u \<longrightarrow> t_sessionId u \<noteq> sid) (db_artifacts d)
     \<and> db_files d' = filter (\<lambda>f. f_id f \<notin> f_id ` set swept) (db_files d)"

lemma delete_session_only:
  "only_session_deleted sid swept d
     ((delete_session sid d)\<lparr>db_files := filter (\<lambda>f. f_id f \<notin> f_id ` set swept) (db_files d)\<rparr>)"
  by (auto simp: only_session_deleted_def delete_session_def Let_def intro!: filter_cong split: option.splits)

text \<open>How far the loops over the objects come.\<close>

lemma delete_object_eq:
  "delete_object x k w = (case x_delete x k of
     None \<Rightarrow> (w\<lparr>ap_objects := jm_delete k (ap_objects w)\<rparr>, None) | Some e \<Rightarrow> (w, Some e))"
  by (simp add: delete_object_def)

lemma delete_objects_exact:
  assumes "delete_objects x ks w = (w', e)"
  shows "\<exists>n. ap_db w' = ap_db w \<and> (\<forall>k. jm_get (ap_objects w') k =
        (if k \<in> set (take n ks) then None else jm_get (ap_objects w) k))
    \<and> (case e of None \<Rightarrow> n = length ks | Some err \<Rightarrow> n < length ks \<and> x_delete x (ks ! n) = Some err)"
  using assms
proof (induction ks arbitrary: w)
  case (Cons k ks)
  show ?case
  proof (cases "x_delete x k")
    case (Some err)
    with Cons.prems have "w' = w" "e = Some err" by (simp_all add: delete_object_eq)
    then show ?thesis using Some by (intro exI [of _ 0]) simp
  next
    case None
    then have "delete_objects x ks (w\<lparr>ap_objects := jm_delete k (ap_objects w)\<rparr>) = (w', e)"
      using Cons.prems by (simp add: delete_object_eq)
    from Cons.IH [OF this] obtain n where "ap_db w' = ap_db (w\<lparr>ap_objects := jm_delete k (ap_objects w)\<rparr>)"
      "\<forall>j. jm_get (ap_objects w') j = (if j \<in> set (take n ks) then None
         else jm_get (ap_objects (w\<lparr>ap_objects := jm_delete k (ap_objects w)\<rparr>)) j)"
      "case e of None \<Rightarrow> n = length ks | Some err \<Rightarrow> n < length ks \<and> x_delete x (ks ! n) = Some err"
      by blast
    then show ?thesis by (intro exI [of _ "Suc n"]) (auto split: option.splits)
  qed
qed auto

lemma delete_files_exact:
  assumes "delete_files x fs w = (w', r)"
  shows "\<exists>n. ap_db w' = (ap_db w)\<lparr>db_files := filter (\<lambda>f. f_id f \<notin> f_id ` set (take n fs)) (db_files (ap_db w))\<rparr>
    \<and> (\<forall>k. jm_get (ap_objects w') k =
        (if k \<in> f_storageKey ` set (take n fs) then None else jm_get (ap_objects w) k))
    \<and> (case r of Inr _ \<Rightarrow> n = length fs
       | Inl err \<Rightarrow> n < length fs \<and> x_delete x (f_storageKey (fs ! n)) = Some err)"
  using assms
proof (induction fs arbitrary: w)
  case (Cons f fs)
  show ?case
  proof (cases "x_delete x (f_storageKey f)")
    case (Some err)
    with Cons.prems have "w' = w" "r = Inl err" by (simp_all add: delete_object_eq)
    then show ?thesis using Some by (intro exI [of _ 0]) simp
  next
    case None
    let ?w = "remove_file (f_id f) (w\<lparr>ap_objects := jm_delete (f_storageKey f) (ap_objects w)\<rparr>)"
    have "delete_files x fs ?w = (w', r)" using Cons.prems None by (simp add: delete_object_eq)
    from Cons.IH [OF this] obtain n where n:
      "ap_db w' = (ap_db ?w)\<lparr>db_files := filter (\<lambda>f. f_id f \<notin> f_id ` set (take n fs)) (db_files (ap_db ?w))\<rparr>"
      "\<forall>k. jm_get (ap_objects w') k =
        (if k \<in> f_storageKey ` set (take n fs) then None else jm_get (ap_objects ?w) k)"
      "case r of Inr _ \<Rightarrow> n = length fs
       | Inl err \<Rightarrow> n < length fs \<and> x_delete x (f_storageKey (fs ! n)) = Some err" by blast
    show ?thesis
    proof (intro exI [of _ "Suc n"] conjI)
      show "ap_db w' = (ap_db w)\<lparr>db_files :=
          filter (\<lambda>g. f_id g \<notin> f_id ` set (take (Suc n) (f # fs))) (db_files (ap_db w))\<rparr>"
        by (simp add: n(1) remove_file_def conj_commute)
      show "\<forall>k. jm_get (ap_objects w') k = (if k \<in> f_storageKey ` set (take (Suc n) (f # fs)) then None
          else jm_get (ap_objects w) k)" using n(2) by (simp add: remove_file_def)
      show "case r of Inr _ \<Rightarrow> Suc n = length (f # fs)
         | Inl err \<Rightarrow> Suc n < length (f # fs) \<and> x_delete x (f_storageKey ((f # fs) ! Suc n)) = Some err"
        using n(3) by (auto split: sum.splits)
    qed
  qed
qed auto

lemma session_of_log:
  assumes "same_log (delete_session sid d) d'" "db_ok vurl d"
  shows "db_ok vurl d'"
  using delete_session_ok [OF assms(2)] by (simp add: same_log_ok [OF assms(1)])

lemma deleted_history_cases:
  assumes "db_ok vurl (ap_db w)" "find_owned_task (ap_db w) uid taskId = Some t"
    and "deleteHistoryTask x uid taskId w = (w', r)"
    and "\<not> list_ex (\<lambda>u. t_sessionId u = t_sessionId t \<and> t_status u \<in> {Queued, Running}) (db_tasks (ap_db w))"
    and "swept = unreferenced_files x (Some uid) (delete_session (t_sessionId t) (ap_db w))"
    and "theirs = ra_storageKey ` set (session_artifacts (ap_db w) uid (t_sessionId t))"
  shows "db_ok vurl (ap_db w')
    \<and> (r = Inr (t_sessionId t) \<longrightarrow> only_session_deleted (t_sessionId t) swept (ap_db w) (ap_db w')
       \<and> (\<forall>k. jm_get (ap_objects w') k =
            (if k \<in> theirs \<union> f_storageKey ` set swept then None else jm_get (ap_objects w) k)))
    \<and> (\<forall>e. r = Inl e \<longrightarrow> (\<exists>k. x_delete x k = Some e)
        \<and> (ap_db w' = ap_db w \<or> (\<exists>n < length swept. x_delete x (f_storageKey (swept ! n)) = Some e
            \<and> only_session_deleted (t_sessionId t) (take n swept) (ap_db w) (ap_db w'))))
    \<and> (\<forall>k. k \<notin> theirs \<union> f_storageKey ` set swept \<longrightarrow> jm_get (ap_objects w') k = jm_get (ap_objects w) k)
    \<and> (\<forall>v. r = Inr v \<longrightarrow> v = t_sessionId t)"
proof -
  let ?sid = "t_sessionId t" and ?d = "ap_db w"
  let ?ks = "map ra_storageKey (session_artifacts ?d uid ?sid)"
  have theirs: "theirs = set ?ks" by (simp add: assms(6))
  obtain w1 e where d: "delete_objects x ?ks w = (w1, e)" by fastforce
  from delete_objects_exact [OF d] obtain m where m: "ap_db w1 = ?d"
    "\<forall>k. jm_get (ap_objects w1) k = (if k \<in> set (take m ?ks) then None else jm_get (ap_objects w) k)"
    "case e of None \<Rightarrow> m = length ?ks | Some err \<Rightarrow> m < length ?ks \<and> x_delete x (?ks ! m) = Some err" by blast
  show ?thesis
  proof (cases e)
    case (Some err)
    then have "w' = w1" "r = Inl err" using assms(2-4) d by (simp_all add: deleteHistoryTask_def)
    then show ?thesis using assms(1) m Some by (auto simp: theirs dest: in_set_takeD)
  next
    case None
    let ?w2 = "w1\<lparr>ap_db := delete_session ?sid (ap_db w1)\<rparr>"
    obtain w3 r3 where f: "delete_files x swept ?w2 = (w3, r3)" by fastforce
    have w': "w' = w3" "r = (case r3 of Inl err \<Rightarrow> Inl err | Inr _ \<Rightarrow> Inr ?sid)"
      using assms(2-4) d None f m(1)
      by (auto simp: deleteHistoryTask_def cleanupUnreferencedFiles_def Let_def assms(5) split: sum.splits prod.splits)
    have m': "m = length ?ks" using m(3) None by simp
    from delete_files_exact [OF f] obtain n where n:
      "ap_db w3 = (delete_session ?sid ?d)\<lparr>db_files := filter (\<lambda>f. f_id f \<notin> f_id ` set (take n swept)) (db_files ?d)\<rparr>"
      "\<forall>k. jm_get (ap_objects w3) k = (if k \<in> f_storageKey ` set (take n swept) then None else jm_get (ap_objects w1) k)"
      "case r3 of Inr _ \<Rightarrow> n = length swept
       | Inl err \<Rightarrow> n < length swept \<and> x_delete x (f_storageKey (swept ! n)) = Some err"
      using m(1) by (auto simp: delete_session_def Let_def)
    have only: "only_session_deleted ?sid (take n swept) ?d (ap_db w')"
      unfolding w'(1) n(1) by (rule delete_session_only)
    have "same_log (delete_session ?sid ?d) (ap_db w')"
      using delete_files_log [of ?w2 x swept] f m(1) by (simp add: w'(1))
    from session_of_log [OF this assms(1)] have "db_ok vurl (ap_db w')" .
    moreover have "jm_get (ap_objects w') k = (if k \<in> f_storageKey ` set (take n swept) \<or> k \<in> theirs
        then None else jm_get (ap_objects w) k)" for k
      using n(2) m(2) m' by (simp add: w'(1) theirs)
    ultimately show ?thesis using only n(3) w'(2) by (cases r3) (auto dest: in_set_takeD)
  qed
qed

lemma not_swept:
  assumes "rows_distinct d" "f \<in> set (db_files d)" "f_userId f \<noteq> uid
      \<or> (\<exists>u \<in> set (db_tasks d). t_sessionId u \<noteq> sid \<and> f_id f \<in> set (t_files u))"
  shows "f_id f \<notin> f_id ` set (unreferenced_files x (Some uid) (delete_session sid d))
    \<and> f_storageKey f \<notin> ra_storageKey ` set (session_artifacts d uid sid)
        \<union> f_storageKey ` set (unreferenced_files x (Some uid) (delete_session sid d))"
proof -
  let ?S = "unreferenced_files x (Some uid) (delete_session sid d)"
  have S: "set ?S \<subseteq> set (db_files d)" "g \<in> set ?S \<Longrightarrow> g \<noteq> f" for g
    using assms(3) by (auto simp: unreferenced_files_def Let_def delete_session_def file_referenced_def
        list_ex_iff dest!: in_set_takeD)
  have inj: "inj_on f_id (set (db_files d))" "inj_on f_storageKey (set (db_files d))"
    using assms(1) by (auto simp: rows_distinct_def storage_keys_def distinct_map)
  have "f_id f \<notin> f_id ` set ?S" "f_storageKey f \<notin> f_storageKey ` set ?S"
    using assms(2) S by (blast dest: inj_onD [OF inj(1)] inj_onD [OF inj(2)])+
  moreover have "f_storageKey f \<notin> ra_storageKey ` set (session_artifacts d uid sid)"
    using assms(1,2) by (fastforce simp: rows_distinct_def storage_keys_def session_artifacts_def)
  ultimately show ?thesis by blast
qed



end
