(* ===== verification/ApiMachine.thy ===== *)
theory ApiMachine
  imports HistoryService
begin

text \<open>
  The API as one machine: every operation of \<^verbatim>\<open>TasksService\<close> that changes state, in any order,
  with the operations that other requests slip in while a dispatch waits for the adapter or a
  cancellation for the queue or the adapter.
\<close>

datatype api_op =
    EnqueueOp jstr create_input "jstr option" "jstr option"
  | ProcessOp jstr "(calls \<times> api_op) list"
  | FinalFailureOp jstr exn
  | RelayOp jstr relay_input
  | EventOp task_event "jstr option"
  | CancelOp jstr jstr "(calls \<times> api_op) list"
  | InitOp
  | DestroyOp
  | UploadOp file_calls jstr upload_input
  | CompleteUploadOp file_calls jstr jstr upload_input jstr
  | DeleteFileOp jstr jstr
  | CleanupOp
  | DeleteHistoryOp jstr jstr

text \<open>All texts of a call are judged by the same URL test.\<close>

definition with_vurl :: "(jstr \<Rightarrow> bool) \<Rightarrow> calls \<Rightarrow> calls" where
  "with_vurl vurl c = c\<lparr>cl_x := (\<lambda>n. (cl_x c n)\<lparr>x_vurl := vurl\<rparr>)\<rparr>"

function api_step :: "(jstr \<Rightarrow> bool) \<Rightarrow> calls \<Rightarrow> api_op \<Rightarrow> svc \<Rightarrow> svc"
  and api_steps :: "(jstr \<Rightarrow> bool) \<Rightarrow> (calls \<times> api_op) list \<Rightarrow> svc \<Rightarrow> svc" where
  "api_step vurl c (EnqueueOp uid input sid parent) s =
     fst (enqueueTask (with_vurl vurl c) uid input sid parent s)"
| "api_step vurl c (ProcessOp i others) s =
     fst (processQueuedTask (with_vurl vurl c) (\<lambda>u. api_steps vurl others u) i s)"
| "api_step vurl c (FinalFailureOp i e) s = onFinalFailure (with_vurl vurl c) i e s"
| "api_step vurl c (RelayOp i inp) s = relay_step (with_vurl vurl c) i inp s"
| "api_step vurl c (EventOp e src) s =
     fst (on_api (persistTaskEvent (cl_ext (with_vurl vurl c)) e src) s)"
| "api_step vurl c (CancelOp uid i others) s =
     fst (cancelTask (with_vurl vurl c) (\<lambda>u. api_steps vurl others u) uid i s)"
| "api_step vurl c InitOp s = fst (onModuleInit (with_vurl vurl c) s)"
| "api_step vurl c DestroyOp s = onModuleDestroy s"
| "api_step vurl c (UploadOp fc uid input) s = upd_db (\<lambda>d. fst (createUploadUrl fc uid input d)) s"
| "api_step vurl c (CompleteUploadOp fc uid fid input key) s =
     upd_db (\<lambda>d. fst (completeUpload fc uid fid input key d)) s"
| "api_step vurl c (DeleteFileOp uid fid) s = fst (on_api (deleteFile (cl_ext c) uid fid) s)"
| "api_step vurl c CleanupOp s = fst (on_api (cleanupStaleFiles (cl_ext c)) s)"
| "api_step vurl c (DeleteHistoryOp uid i) s = fst (on_api (deleteHistoryTask (cl_ext c) uid i) s)"
| "api_steps vurl [] s = s"
| "api_steps vurl ((c, op) # ops) s = api_steps vurl ops (api_step vurl c op s)"
  by pat_completeness auto
termination
  by (relation "measure (case_sum (\<lambda>(v, c, op, s). size op)
        (\<lambda>(v, ops, s). size_list (size_prod (\<lambda>_. 0) size) ops))")
    auto

section \<open>Operations on files do not touch the log\<close>

lemma upd_file_log: "same_log d (upd_file n i g d)"
  by (simp add: same_log_def)

lemma same_log_trans: "same_log a b \<Longrightarrow> same_log b c \<Longrightarrow> same_log a c"
  by (simp add: same_log_def)

lemma createUploadUrl_log: "same_log d (fst (createUploadUrl fc uid input d))"
  by (auto simp: createUploadUrl_def upload_tx_def Let_def same_log_def split: sum.split)

lemma completeUpload_log: "same_log d (fst (completeUpload fc uid fid input key d))"
  by (auto simp: completeUpload_def Let_def same_log_def split: sum.split option.split)

lemma deleteFile_log: "same_log (ap_db w) (ap_db (fst (deleteFile x uid fid w)))"
proof -
  have "same_log (ap_db w) (ap_db (fst (case delete_object x k w of
      (w1, Some e) \<Rightarrow> (w1, Inl e) | (w1, None) \<Rightarrow> (remove_file i w1, Inr i))))" for k i
    by (cases "snd (delete_object x k w)") (auto simp: split_beta remove_file_def same_log_def)
  then show ?thesis by (simp add: deleteFile_def split: option.split)
qed

lemma delete_artifacts_log: "same_log (ap_db w) (ap_db (fst (delete_artifacts x as w)))"
proof (induction as arbitrary: w)
  case (Cons a as)
  then show ?case
    by (cases "snd (delete_object x (ra_storageKey a) w)") (auto simp: split_beta same_log_def)
qed simp

lemma cleanupStaleFiles_log: "same_log (ap_db w) (ap_db (fst (cleanupStaleFiles x w)))"
proof -
  define w1 where "w1 = fst (delete_files x (stale_files x (ap_db w)) w)"
  define w2 where "w2 = fst (delete_artifacts x (abandoned_artifacts x (ap_db w1)) w1)"
  obtain r1 r2 w3 r3 where d: "delete_files x (stale_files x (ap_db w)) w = (w1, r1)"
    "delete_artifacts x (abandoned_artifacts x (ap_db w1)) w1 = (w2, r2)"
    "cleanupUnreferencedFiles x None w2 = (w3, r3)"
    by (metis w1_def w2_def prod.collapse)
  have "fst (cleanupStaleFiles x w) \<in> {w1, w2, w3}"
    by (cases r1; cases r2; cases r3) (simp_all add: cleanupStaleFiles_def Let_def d)
  moreover have "same_log (ap_db w) (ap_db w1)" "same_log (ap_db w1) (ap_db w2)" "same_log (ap_db w2) (ap_db w3)"
    using delete_files_log [of w x] delete_artifacts_log [of w1 x] cleanup_unreferenced_log [of w2 x None] d(3)
    by (simp_all add: w1_def w2_def)
  ultimately show ?thesis using same_log_trans by auto
qed

lemma deleteHistoryTask_ok:
  assumes "db_ok vurl (ap_db w)"
  shows "db_ok vurl (ap_db (fst (deleteHistoryTask x uid i w)))"
proof -
  have *: "db_ok vurl (ap_db (fst (cleanupUnreferencedFiles x u w')))" if "db_ok vurl (ap_db w')" for u w'
    using that same_log_ok [OF cleanup_unreferenced_log] by blast
  have d: "ap_db w1 = ap_db w" if "delete_objects x ks w = (w1, e)" for ks w1 e
    using delete_objects_db that by (metis fst_conv)
  have "db_ok vurl (ap_db (fst (cleanupUnreferencedFiles x (Some uid)
      (w1\<lparr>ap_db := delete_session sid (ap_db w1)\<rparr>))))" if "ap_db w1 = ap_db w" for w1 sid
    by (rule *) (simp add: that delete_session_ok [OF assms])
  then show ?thesis
    using assms d
    by (auto simp: deleteHistoryTask_def Let_def split: option.split prod.split sum.split) (metis fst_conv)+
qed

section \<open>The invariant\<close>

lemma with_vurl_ok [simp]: "calls_ok vurl (with_vurl vurl c)"
  by (simp add: calls_ok_def with_vurl_def)

lemma api_step_ok:
  "db_ok vurl (sv_db s) \<Longrightarrow> db_ok vurl (sv_db (api_step vurl c op s))"
  "db_ok vurl (sv_db s) \<Longrightarrow> db_ok vurl (sv_db (api_steps vurl ops s))"
proof (induction vurl c op s and vurl ops s rule: api_step_api_steps.induct)
  case (2 vurl c i others s)
  then show ?case by (simp add: processQueuedTask_keeps)
next
  case (6 vurl c uid i others s)
  then show ?case by (simp add: cancelTask_keeps)
next
  case (5 vurl c e src s)
  then show ?case using persist_keeps [of "cl_ext (with_vurl vurl c)" "sv_api s" e src]
      calls_okD [OF with_vurl_ok, of vurl c 0] by simp
qed (simp_all add: enqueueTask_keeps relay_step_keeps onModuleInit_keeps fail_task_keeps
    onFinalFailure_def onModuleDestroy_def same_log_ok [OF createUploadUrl_log] same_log_ok [OF completeUpload_log]
    same_log_ok [OF deleteFile_log] same_log_ok [OF cleanupStaleFiles_log] deleteHistoryTask_ok)

interpretation api: machine "\<lambda>(c, op). api_step vurl c op" "\<lambda>s. db_ok vurl (sv_db s)" for vurl
  by unfold_locales (auto simp: api_step_ok)

text \<open>
  C1: from an empty database, whatever requests, worker runs, stream chunks, failures,
  restarts and cleanups follow, and in whatever order they interleave: the versions of every
  session are numbered 1, 2, 3 and so on without gap or repetition, every stored event can be
  read back, event ids increase, and every task's status agrees with its event log, which
  holds at most one terminal event, as the last.
\<close>

theorem api_always_consistent:
  assumes "sv_db s = db_empty"
  shows "let d = sv_db (fold (\<lambda>(c, op). api_step vurl c op) ops s)
    in (\<forall>sid. map r_versionNo (filter (\<lambda>r. r_sessionId r = sid) (db_results d))
          = [1 ..< Suc (length (filter (\<lambda>r. r_sessionId r = sid) (db_results d)))])
     \<and> sorted_wrt (\<lambda>a b. te_id a < te_id b) (db_events d)
     \<and> (\<forall>r \<in> set (db_events d). row_detail vurl r \<noteq> None)
     \<and> (\<forall>i t. find_task d i = Some t \<longrightarrow> status_matches (t_status t) (task_log vurl d i))"
proof -
  let ?d = "sv_db (fold (\<lambda>(c, op). api_step vurl c op) ops s)"
  have ok: "db_ok vurl ?d"
    by (rule api.inv_run) (simp add: assms db_ok_empty)
  have "\<forall>r \<in> set (db_events ?d). row_detail vurl r \<noteq> None"
    using db_okD(2) [OF ok] by (auto simp: events_ok_def list_all_iff row_ok_def row_detail_def split: option.splits)
  then show ?thesis
    using db_okD(2,4) [OF ok] status_of_task [OF ok]
    by (simp add: Let_def versions_ok_def events_ok_def del: upt_Suc)
qed

theorem api_always_consistent_witness:
  "\<exists>s. sv_db s = db_empty \<and> sorted_wrt (\<lambda>a b. te_id a < te_id b)
     (db_events (sv_db (fold (\<lambda>(c, op). api_step (\<lambda>_. False) c op) [(sample_calls, InitOp), (sample_calls, CleanupOp)] s)))"
proof -
  let ?s = "\<lparr>sv_api = \<lparr>ap_db = db_empty, ap_objects = [], ap_published = [], ap_push = []\<rparr>,
    sv_redis = [], sv_relays = [], sv_posts = []\<rparr> :: svc"
  have "sv_db ?s = db_empty" by simp
  then show ?thesis
    using api_always_consistent [of ?s "\<lambda>_. False" "[(sample_calls, InitOp), (sample_calls, CleanupOp)]"]
    unfolding Let_def by blast
qed

end
