(* ===== verification/EventBroker.thy ===== *)
theory EventBroker
  imports SharedTypes
begin

text \<open>
  \<^verbatim>\<open>apps/openclaw-adapter/src/event-broker.ts\<close>: the adapter's in-memory event log, one per
  task, with live listeners, a retention timer started by a terminal event and replay after
  an id. Listeners are numbered; a call of a listener is a delivery in the result of
  \<open>br_publish\<close>. A retention timer is the time at which it fires.
\<close>

section \<open>State and operations\<close>

record broker_event =
  be_id :: nat
  be_event :: task_event

record broker =
  br_history :: "(jstr, broker_event list) jmap"
  br_listeners :: "(jstr, nat list) jmap"
  br_timers :: "(jstr, nat) jmap"
  br_nextIds :: "(jstr, nat) jmap"
  br_retentionMs :: nat
  br_maxEvents :: nat

definition br_new :: "nat \<Rightarrow> nat \<Rightarrow> broker" where
  "br_new retention maxEvents =
     \<lparr>br_history = [], br_listeners = [], br_timers = [], br_nextIds = [],
      br_retentionMs = retention, br_maxEvents = maxEvents\<rparr>"

definition br_isTerminalEvent :: "task_event \<Rightarrow> bool" where
  "br_isTerminalEvent e \<longleftrightarrow>
     event_type (ev_detail e) = js ''task.completed'' \<or>
     event_type (ev_detail e) = js ''task.failed'' \<or>
     event_type (ev_detail e) = js ''task.cancelled''"

text \<open>\<^verbatim>\<open>xs.slice(-n)\<close>: the last \<open>n\<close> elements; \<^verbatim>\<open>slice(-0)\<close> is the whole list.\<close>

definition slice_last :: "nat \<Rightarrow> 'a list \<Rightarrow> 'a list" where
  "slice_last n xs = (if n = 0 then xs else drop (length xs - n) xs)"

definition br_history_of :: "broker \<Rightarrow> jstr \<Rightarrow> broker_event list" where
  "br_history_of b t = (case jm_get (br_history b) t of None \<Rightarrow> [] | Some es \<Rightarrow> es)"

definition br_next_id :: "broker \<Rightarrow> jstr \<Rightarrow> nat" where
  "br_next_id b t = (case jm_get (br_nextIds b) t of None \<Rightarrow> 1 | Some n \<Rightarrow> n)"

definition br_listeners_of :: "broker \<Rightarrow> jstr \<Rightarrow> nat list" where
  "br_listeners_of b t = (case jm_get (br_listeners b) t of None \<Rightarrow> [] | Some ls \<Rightarrow> ls)"

definition br_scheduleCleanup :: "nat \<Rightarrow> jstr \<Rightarrow> broker \<Rightarrow> broker" where
  "br_scheduleCleanup now t b = b\<lparr>br_timers := jm_set t (now + br_retentionMs b) (br_timers b)\<rparr>"

text \<open>The result: the broker, the stored event, and the listeners called with it.\<close>

definition br_publish ::
  "nat \<Rightarrow> jstr \<Rightarrow> task_event \<Rightarrow> broker \<Rightarrow> broker \<times> broker_event \<times> nat list" where
  "br_publish now t e b =
     (let be = \<lparr>be_id = br_next_id b t, be_event = e\<rparr>;
          b1 = b\<lparr>br_nextIds := jm_set t (be_id be + 1) (br_nextIds b)\<rparr>;
          h = slice_last (br_maxEvents b) (br_history_of b1 t @ [be]);
          b2 = b1\<lparr>br_history := jm_set t h (br_history b1)\<rparr>;
          called = br_listeners_of b2 t
      in if br_isTerminalEvent e
         then (br_scheduleCleanup now t (b2\<lparr>br_listeners := jm_delete t (br_listeners b2)\<rparr>),
               be, called)
         else (b2, be, called))"

definition br_replay :: "jstr \<Rightarrow> nat \<Rightarrow> broker \<Rightarrow> broker_event list" where
  "br_replay t afterId b = filter (\<lambda>item. be_id item > afterId) (br_history_of b t)"

definition br_subscribe :: "jstr \<Rightarrow> nat \<Rightarrow> broker \<Rightarrow> broker" where
  "br_subscribe t l b =
     (let ls = br_listeners_of b t
      in b\<lparr>br_listeners := jm_set t (if l \<in> set ls then ls else ls @ [l]) (br_listeners b)\<rparr>)"

text \<open>The function \<^verbatim>\<open>subscribe\<close> returns.\<close>

definition br_unsubscribe :: "jstr \<Rightarrow> nat \<Rightarrow> broker \<Rightarrow> broker" where
  "br_unsubscribe t l b =
     (case jm_get (br_listeners b) t of
        None \<Rightarrow> b
      | Some ls \<Rightarrow>
          let ls' = removeAll l ls
          in b\<lparr>br_listeners := (if ls' = [] then jm_delete t (br_listeners b)
                               else jm_set t ls' (br_listeners b))\<rparr>)"

definition br_cleanup :: "jstr \<Rightarrow> broker \<Rightarrow> broker" where
  "br_cleanup t b =
     b\<lparr>br_timers := jm_delete t (br_timers b), br_history := jm_delete t (br_history b),
       br_listeners := jm_delete t (br_listeners b), br_nextIds := jm_delete t (br_nextIds b)\<rparr>"

definition br_close :: "broker \<Rightarrow> broker" where
  "br_close b = b\<lparr>br_timers := [], br_history := [], br_listeners := [], br_nextIds := []\<rparr>"

text \<open>The retention timers due at a time fire, each cleaning its task up.\<close>

definition br_fire_timers :: "nat \<Rightarrow> broker \<Rightarrow> broker" where
  "br_fire_timers now b = fold br_cleanup (map fst (filter (\<lambda>(t, due). due \<le> now) (br_timers b))) b"

datatype broker_op =
    PublishOp nat jstr task_event
  | SubscribeOp jstr nat
  | UnsubscribeOp jstr nat
  | CleanupOp jstr
  | FireOp nat
  | CloseOp

fun broker_step :: "broker_op \<Rightarrow> broker \<Rightarrow> broker" where
  "broker_step (PublishOp now t e) b = fst (br_publish now t e b)"
| "broker_step (SubscribeOp t l) b = br_subscribe t l b"
| "broker_step (UnsubscribeOp t l) b = br_unsubscribe t l b"
| "broker_step (CleanupOp t) b = br_cleanup t b"
| "broker_step (FireOp now) b = br_fire_timers now b"
| "broker_step CloseOp b = br_close b"

lemma br_isTerminalEvent_iff [simp]: "br_isTerminalEvent e \<longleftrightarrow> terminal_detail (ev_detail e)"
  by (cases "ev_detail e") (simp_all add: br_isTerminalEvent_def)

lemmas br_lookup_defs = br_history_of_def br_next_id_def br_listeners_of_def
lemmas br_op_defs = br_publish_def br_subscribe_def br_unsubscribe_def br_cleanup_def
  br_close_def br_scheduleCleanup_def Let_def

section \<open>The invariant: ids are consecutive and end just before the next id\<close>

definition broker_ok :: "broker \<Rightarrow> bool" where
  "broker_ok b \<longleftrightarrow>
     (\<forall>t. let h = br_history_of b t; n = br_next_id b t
          in length h < n \<and> map be_id h = [n - length h ..< n])"

lemma broker_okD:
  assumes "broker_ok b"
  shows "0 < br_next_id b t" "length (br_history_of b t) < br_next_id b t"
    "map be_id (br_history_of b t) = [br_next_id b t - length (br_history_of b t) ..< br_next_id b t]"
proof -
  from assms have "length (br_history_of b t) < br_next_id b t \<and>
      map be_id (br_history_of b t) =
        [br_next_id b t - length (br_history_of b t) ..< br_next_id b t]"
    by (simp add: broker_ok_def Let_def)
  then show "0 < br_next_id b t" "length (br_history_of b t) < br_next_id b t"
    "map be_id (br_history_of b t) = [br_next_id b t - length (br_history_of b t) ..< br_next_id b t]"
    by simp_all
qed

lemma broker_ok_cong:
  "br_history b' = br_history b \<Longrightarrow> br_nextIds b' = br_nextIds b \<Longrightarrow> broker_ok b' = broker_ok b"
  by (simp add: broker_ok_def br_lookup_defs)

lemma broker_ok_new: "broker_ok (br_new r m)"
  by (simp add: broker_ok_def br_new_def br_lookup_defs)

lemma length_slice_last: "length (slice_last n xs) \<le> length xs"
  by (simp add: slice_last_def)

lemma slice_last_ids:
  assumes "map f xs = [k - length xs ..< k]" "length xs \<le> k"
  shows "map f (slice_last n xs) = [k - length (slice_last n xs) ..< k]"
  using assms by (auto simp: slice_last_def drop_map [symmetric] drop_upt)

lemma br_publish_history:
  "br_history_of (fst (br_publish now t e b)) t' =
     (if t' = t then slice_last (br_maxEvents b)
        (br_history_of b t @ [\<lparr>be_id = br_next_id b t, be_event = e\<rparr>])
      else br_history_of b t')"
  by (simp add: br_op_defs br_lookup_defs)

lemma br_publish_next:
  "br_next_id (fst (br_publish now t e b)) t' =
     (if t' = t then Suc (br_next_id b t) else br_next_id b t')"
  by (simp add: br_op_defs br_lookup_defs)

lemma br_publish_max [simp]: "br_maxEvents (fst (br_publish now t e b)) = br_maxEvents b"
  by (simp add: br_op_defs)

lemma broker_ok_publish:
  assumes "broker_ok b"
  shows "broker_ok (fst (br_publish now t e b))"
proof -
  let ?h = "br_history_of b t" and ?n = "br_next_id b t"
  let ?h1 = "?h @ [\<lparr>be_id = ?n, be_event = e\<rparr>]"
  have ids: "map be_id ?h1 = [Suc ?n - length ?h1 ..< Suc ?n]"
    using broker_okD [OF assms, of t] by (simp add: less_imp_le)
  have len: "length ?h1 \<le> ?n" using broker_okD(2) [OF assms, of t] by simp
  have "map be_id (slice_last (br_maxEvents b) ?h1) =
      [Suc ?n - length (slice_last (br_maxEvents b) ?h1) ..< Suc ?n]"
    by (rule slice_last_ids [OF ids]) (use len in simp)
  moreover have "length (slice_last (br_maxEvents b) ?h1) < Suc ?n"
    using length_slice_last [of "br_maxEvents b" ?h1] len by simp
  ultimately show ?thesis
    unfolding broker_ok_def Let_def
    by (simp add: br_publish_history br_publish_next broker_okD [OF assms] del: upt_Suc)
qed

lemma broker_ok_cleanup: "broker_ok b \<Longrightarrow> broker_ok (br_cleanup t b)"
  by (simp add: broker_ok_def br_op_defs br_lookup_defs)

lemma broker_ok_fire: "broker_ok b \<Longrightarrow> broker_ok (br_fire_timers now b)"
  unfolding br_fire_timers_def
  by (rule fold_invariant [where Q = "\<lambda>_. True"]) (auto intro: broker_ok_cleanup)

lemma broker_ok_listeners:
  "broker_ok (br_subscribe t l b) = broker_ok b" "broker_ok (br_unsubscribe t l b) = broker_ok b"
  by (rule broker_ok_cong; simp add: br_op_defs split: option.split)+

lemma broker_ok_close: "broker_ok (br_close b)"
  by (simp add: broker_ok_def br_close_def br_lookup_defs)

lemma broker_ok_step: "broker_ok b \<Longrightarrow> broker_ok (broker_step op b)"
  by (cases op) (simp_all add: broker_ok_publish broker_ok_listeners broker_ok_cleanup
      broker_ok_fire broker_ok_close)

interpretation broker: machine broker_step broker_ok
  by unfold_locales (rule broker_ok_step)

section \<open>The broker as a resumable log\<close>

lemma broker_history_sorted:
  "broker_ok b \<Longrightarrow> sorted_wrt (\<lambda>x y. be_id x < be_id y) (br_history_of b t)"
  using broker_okD(3) [of b t] by (metis sorted_wrt_map sorted_wrt_upt)

lemma broker_history_ids:
  assumes "broker_ok b" "x \<in> set (br_history_of b t)"
  shows "0 < be_id x" "be_id x < br_next_id b t"
proof -
  have "be_id x \<in> set [br_next_id b t - length (br_history_of b t) ..< br_next_id b t]"
    using broker_okD(3) [OF assms(1), of t] assms(2) by (metis image_eqI set_map)
  then show "0 < be_id x" "be_id x < br_next_id b t"
    using broker_okD(2) [OF assms(1), of t] by auto
qed

interpretation broker_log: resumable_log "\<lambda>b. br_history_of b t" be_id "\<lambda>b n. br_replay t n b" broker_ok
  for t
  by unfold_locales (auto simp: broker_history_sorted broker_history_ids br_replay_def)

definition br_publish_all :: "nat \<Rightarrow> jstr \<Rightarrow> task_event list \<Rightarrow> broker \<Rightarrow> broker" where
  "br_publish_all now t es b = fold (\<lambda>e b. fst (br_publish now t e b)) es b"

lemma br_publish_all_max [simp]: "br_maxEvents (br_publish_all now t es b) = br_maxEvents b"
  unfolding br_publish_all_def by (induction es arbitrary: b) simp_all

lemma br_publish_all_next: "br_next_id (br_publish_all now t es b) t = br_next_id b t + length es"
  unfolding br_publish_all_def by (induction es arbitrary: b) (simp_all add: br_publish_next)

lemma slice_last_slice_last:
  "slice_last n (slice_last n xs @ ys) = slice_last n (xs @ ys)"
proof (cases "length xs \<le> n")
  case True
  then show ?thesis by (simp add: slice_last_def)
next
  case False
  then have "length xs + length ys - (length xs - n + n) + (length xs - n) = length xs + length ys - n"
    by simp
  with False show ?thesis by (simp add: slice_last_def)
qed

lemma br_publish_all_history:
  "br_history_of (br_publish_all now t es b) t =
     (if es = [] then br_history_of b t
      else slice_last (br_maxEvents b)
        (br_history_of b t @ map (\<lambda>(i, e). \<lparr>be_id = br_next_id b t + i, be_event = e\<rparr>) (enumerate 0 es)))"
proof (induction es rule: rev_induct)
  case Nil
  then show ?case by (simp add: br_publish_all_def)
next
  case (snoc e es)
  have "br_publish_all now t (es @ [e]) b = fst (br_publish now t e (br_publish_all now t es b))"
    by (simp add: br_publish_all_def)
  then show ?case
    by (simp add: br_publish_history snoc.IH br_publish_all_next slice_last_slice_last
        enumerate_append_eq)
qed

lemma slice_last_fits:
  assumes "length ys \<le> n" "ys \<noteq> []"
  shows "slice_last n (xs @ ys) = drop (length xs + length ys - n) xs @ ys"
  using assms by (cases "n = 0") (auto simp: slice_last_def)

text \<open>
  C6: a reader that knows the last id of a task and then misses at most the retained number
  of events receives exactly the missed events, in order and with consecutive ids.
\<close>

theorem broker_replay_exact:
  assumes ok: "broker_ok b" and fits: "length es \<le> br_maxEvents b"
  shows "map be_event (br_replay t (br_next_id b t - 1) (br_publish_all now t es b)) = es
    \<and> map be_id (br_replay t (br_next_id b t - 1) (br_publish_all now t es b))
        = [br_next_id b t ..< br_next_id b t + length es]"
proof -
  let ?n = "br_next_id b t" and ?h = "br_history_of b t"
  let ?new = "map (\<lambda>(i, e). \<lparr>be_id = ?n + i, be_event = e\<rparr>) (enumerate 0 es)"
  have old: "filter (\<lambda>item. ?n - 1 < be_id item) (drop k ?h) = []" for k
    using broker_history_ids(2) [OF ok] by (fastforce simp: filter_empty_conv dest: in_set_dropD)
  have new: "filter (\<lambda>item. ?n - 1 < be_id item) ?new = ?new"
    using broker_okD(1) [OF ok, of t] by (auto simp: filter_id_conv)
  have hist: "\<exists>k. br_history_of (br_publish_all now t es b) t = drop k ?h @ ?new"
    using fits slice_last_fits [of ?new "br_maxEvents b" ?h]
    by (auto simp: br_publish_all_history length_enumerate enumerate_eq_zip intro: exI [of _ 0])
  then have "br_replay t (?n - 1) (br_publish_all now t es b) = ?new"
    using old new by (auto simp: br_replay_def)
  moreover have "map be_event ?new = es"
    by (simp add: comp_def case_prod_beta)
  moreover have "map be_id ?new = [?n ..< ?n + length es]"
  proof -
    have "map be_id ?new = map ((+) ?n) (map fst (enumerate 0 es))"
      by (simp only: map_map) (simp add: comp_def case_prod_beta)
    also have "\<dots> = [?n ..< ?n + length es]"
      by (rule nth_equalityI) simp_all
    finally show ?thesis .
  qed
  ultimately show ?thesis by simp
qed

theorem broker_replay_exact_witness:
  "map be_event (br_replay (js ''t'') 0 (br_publish_all 0 (js ''t'')
      [\<lparr>ev_base = \<lparr>ev_taskId = js ''t'', ev_sessionId = js ''s'', ev_runId = js ''r'', ev_timestamp = []\<rparr>,
        ev_detail = Accepted\<rparr>] (br_new 300000 1000))) =
   [\<lparr>ev_base = \<lparr>ev_taskId = js ''t'', ev_sessionId = js ''s'', ev_runId = js ''r'', ev_timestamp = []\<rparr>,
     ev_detail = Accepted\<rparr>]"
  using broker_replay_exact [OF broker_ok_new [of 300000 1000], of
      "[\<lparr>ev_base = \<lparr>ev_taskId = js ''t'', ev_sessionId = js ''s'', ev_runId = js ''r'', ev_timestamp = []\<rparr>,
        ev_detail = Accepted\<rparr>]" "js ''t''" 0]
  by (simp add: br_new_def br_next_id_def)

end
