(* ===== verification/GatewayInput.thy ===== *)
theory GatewayInput
  imports ApiCommon
begin

text \<open>
  \<^verbatim>\<open>apps/openclaw-adapter/src/gateway-input.ts\<close>: how the adapter turns a message and its files
  into what it sends to the gateway. Images become base64 attachments; other files go to the
  isolated parser service and their text is inlined in the message within a character
  budget. The network, the file system and the parser service are the record
  \<open>input_calls\<close>. A \<^verbatim>\<open>content-length\<close> that is not an integer literal is taken not to exceed the limit.
\<close>

type_synonym octets = "8 word list"

record gateway_file =
  gf_fileId :: jstr
  gf_filename :: jstr
  gf_mimeType :: jstr
  gf_sizeBytes :: nat
  gf_storageKey :: jstr
  gf_contentUrl :: "jstr option"
  gf_contentPath :: "jstr option"

datatype attachment_type = FileAttachment | ImageAttachment

record gateway_attachment =
  ga_type :: attachment_type
  ga_mimeType :: jstr
  ga_fileName :: jstr
  ga_content :: jstr

record prepared_input =
  pi_message :: jstr
  pi_attachments :: "gateway_attachment list"

definition MAX_DOCUMENT_CHARS_PER_FILE :: nat where
  "MAX_DOCUMENT_CHARS_PER_FILE = 6000"

definition MAX_DOCUMENT_CHARS_TOTAL :: nat where
  "MAX_DOCUMENT_CHARS_TOTAL = 16000"

definition MAX_FILE_BYTES :: nat where
  "MAX_FILE_BYTES = 25 * 1024 * 1024"

datatype parse_error_code = FileNotFound | FileTooLarge | ParseFailed | UnsupportedFileType

text \<open>A \<^verbatim>\<open>ParseFileError\<close>, or any other \<^verbatim>\<open>Error\<close>.\<close>

datatype input_error = ParseFileError parse_error_code jstr | PlainError jstr

fun input_error_message :: "input_error \<Rightarrow> jstr" where
  "input_error_message (ParseFileError _ m) = m"
| "input_error_message (PlainError m) = m"

record object_response =
  or_ok :: bool
  or_status :: nat
  or_contentLength :: "jstr option"
  or_body :: octets

record parser_response =
  ps_ok :: bool
  ps_status :: nat
  ps_json :: "json option"

text \<open>
  \<open>ic_fetch\<close>, \<open>ic_readFile\<close> and \<open>ic_parser\<close> give the message of the error thrown or the answer;
  \<open>ic_endpoint\<close> is \<^verbatim>\<open>new URL("/parse", parserUrl)\<close>.
\<close>

record input_calls =
  ic_env :: env
  ic_fetch :: "jstr \<Rightarrow> jstr + object_response"
  ic_readFile :: "jstr \<Rightarrow> jstr + octets"
  ic_endpoint :: "jstr \<Rightarrow> jstr + jstr"
  ic_parser :: "jstr \<Rightarrow> (jstr \<times> jstr) list \<Rightarrow> octets \<Rightarrow> jstr + parser_response"

section \<open>Texts\<close>

definition isImageMime :: "jstr \<Rightarrow> bool" where
  "isImageMime mimeType \<longleftrightarrow> js_starts_with mimeType (js ''image/'')"

definition truncation_mark :: jstr where
  "truncation_mark = [10] @ js ''...[truncated]...''"

definition truncateText :: "jstr \<Rightarrow> nat \<Rightarrow> jstr" where
  "truncateText t maxChars =
     (if length t \<le> maxChars then t
      else js_trim_end (take (maxChars - 18) t) @ truncation_mark)"

definition formatFallbackDocumentNote :: "gateway_file \<Rightarrow> parse_error_code \<Rightarrow> jstr \<Rightarrow> jstr" where
  "formatFallbackDocumentNote f code message =
     (if code = UnsupportedFileType
      then js_join (js '' '')
        [js ''The user attached '' @ gf_filename f @ js '' ('' @ gf_mimeType f @ js '').'',
         js ''Readable text extraction is not supported for this format yet.'',
         js ''Use the file metadata in your response or ask the user to re-upload as PDF, DOCX, XLSX, CSV, TXT, or Markdown if exact contents are needed.'']
      else js_join (js '' '')
        [js ''The user attached '' @ gf_filename f @ js '' ('' @ gf_mimeType f @ js '').'',
         js ''Readable text extraction failed locally: '' @ message @ js ''.'',
         js ''Use the file metadata in your response and ask for a different format if exact contents are needed.''])"

definition quote_char :: jstr where
  "quote_char = [34]"

definition buildDocumentBlock :: "nat \<Rightarrow> gateway_file \<Rightarrow> jstr \<Rightarrow> jstr" where
  "buildDocumentBlock index f content =
     js_join [10]
       [js ''<attached_document index='' @ quote_char @ js_of_nat index @ quote_char @ js ''>'',
        js ''fileName: '' @ gf_filename f,
        js ''mimeType: '' @ gf_mimeType f,
        js ''sizeBytes: '' @ js_of_nat (gf_sizeBytes f),
        js ''content:'',
        content,
        js ''</attached_document>'']"

section \<open>Loading a file\<close>

text \<open>\<^verbatim>\<open>Number(null)\<close> is 0; a length that is no number is not compared.\<close>

definition declared_too_large :: "jstr option \<Rightarrow> bool" where
  "declared_too_large h =
     (case (case h of None \<Rightarrow> NumInt 0 | Some s \<Rightarrow> js_number s) of
        NumInt i \<Rightarrow> i > int MAX_FILE_BYTES
      | _ \<Rightarrow> False)"

definition truthy :: "jstr option \<Rightarrow> bool" where
  "truthy s \<longleftrightarrow> s \<noteq> None \<and> s \<noteq> Some []"

definition loadFile :: "input_calls \<Rightarrow> gateway_file \<Rightarrow> input_error + octets" where
  "loadFile c f =
     (let name = gf_filename f
      in if gf_sizeBytes f > MAX_FILE_BYTES
         then Inl (PlainError (js ''file '' @ name @ js '' exceeds the adapter size limit''))
         else if truthy (gf_contentUrl f) then
           (case ic_fetch c (the (gf_contentUrl f)) of
              Inl m \<Rightarrow> Inl (PlainError m)
            | Inr r \<Rightarrow>
                if \<not> or_ok r
                then Inl (PlainError (js ''object download failed ('' @ js_of_nat (or_status r) @ js '')''))
                else if declared_too_large (or_contentLength r)
                then Inl (PlainError (js ''file '' @ name @ js '' exceeds the adapter size limit''))
                else if length (or_body r) > MAX_FILE_BYTES \<or> length (or_body r) \<noteq> gf_sizeBytes f
                then Inl (PlainError (js ''downloaded size for '' @ name @ js '' does not match metadata''))
                else Inr (or_body r))
         else if truthy (gf_contentPath f) then
           (case ic_readFile c (the (gf_contentPath f)) of
              Inl m \<Rightarrow> Inl (PlainError m)
            | Inr body \<Rightarrow>
                if length body > MAX_FILE_BYTES \<or> length body \<noteq> gf_sizeBytes f
                then Inl (PlainError (js ''local size for '' @ name @ js '' does not match metadata''))
                else Inr body)
         else Inl (PlainError (js ''file '' @ name @ js '' has no readable content source'')))"

text \<open>\<^verbatim>\<open>buffer.toString("base64")\<close>.\<close>

definition b64_char :: "nat \<Rightarrow> jchar" where
  "b64_char n =
     (if n < 26 then of_nat (65 + n) else if n < 52 then of_nat (71 + n)
      else if n < 62 then of_nat (n - 4) else if n = 62 then 43 else 47)"

fun base64 :: "octets \<Rightarrow> jstr" where
  "base64 [] = []"
| "base64 [a] = [b64_char (unat a div 4), b64_char (unat a mod 4 * 16), 61, 61]"
| "base64 [a, b] =
     [b64_char (unat a div 4), b64_char (unat a mod 4 * 16 + unat b div 16),
      b64_char (unat b mod 16 * 4), 61]"
| "base64 (a # b # c # r) =
     [b64_char (unat a div 4), b64_char (unat a mod 4 * 16 + unat b div 16),
      b64_char (unat b mod 16 * 4 + unat c div 64), b64_char (unat c mod 64)] @ base64 r"

definition toImageAttachment :: "input_calls \<Rightarrow> gateway_file \<Rightarrow> input_error + gateway_attachment" where
  "toImageAttachment c f =
     (case loadFile c f of
        Inl e \<Rightarrow> Inl e
      | Inr content \<Rightarrow> Inr \<lparr>ga_type = ImageAttachment, ga_mimeType = gf_mimeType f,
                            ga_fileName = gf_filename f, ga_content = base64 content\<rparr>)"

section \<open>The parser service\<close>

definition parser_error_code :: "json option \<Rightarrow> parse_error_code option" where
  "parser_error_code v =
     (case v of
        Some (JStr s) \<Rightarrow>
          if s = js ''FILE_NOT_FOUND'' then Some FileNotFound
          else if s = js ''FILE_TOO_LARGE'' then Some FileTooLarge
          else if s = js ''PARSE_FAILED'' then Some ParseFailed
          else if s = js ''UNSUPPORTED_FILE_TYPE'' then Some UnsupportedFileType
          else None
      | _ \<Rightarrow> None)"

text \<open>\<^verbatim>\<open>path.extname\<close>: from the last dot of the last path segment, unless that dot starts it.\<close>

definition last_segment :: "jstr \<Rightarrow> jstr" where
  "last_segment p = rev (takeWhile (\<lambda>c. c \<noteq> 47) (dropWhile (\<lambda>c. c = 47) (rev p)))"

definition js_extname :: "jstr \<Rightarrow> jstr" where
  "js_extname p =
     (let base = last_segment p; ext = rev (takeWhile (\<lambda>c. c \<noteq> 46) (rev base))
      in if 46 \<notin> set base \<or> base = js ''..'' \<or> length ext + 1 = length base then []
         else 46 # ext)"

definition parse_headers :: "env \<Rightarrow> gateway_file \<Rightarrow> (jstr \<times> jstr) list" where
  "parse_headers env f =
     (let extension = take 12 (js_lower (js_extname (gf_filename f)))
      in [(js ''Content-Type'', js ''application/octet-stream''), (js ''X-File-Extension'', extension)]
         @ (if truthy (env ''FILE_PARSER_INTERNAL_TOKEN'')
            then [(js ''Authorization'', js ''Bearer '' @ the (env ''FILE_PARSER_INTERNAL_TOKEN''))]
            else []))"

definition request_failed :: "jstr \<Rightarrow> input_error" where
  "request_failed m = PlainError (js ''isolated parser request failed: '' @ m)"

definition parseWithIsolatedService :: "input_calls \<Rightarrow> gateway_file \<Rightarrow> input_error + jstr" where
  "parseWithIsolatedService c f =
     (let parserUrl = (case ic_env c ''FILE_PARSER_URL'' of
                         Some u \<Rightarrow> u | None \<Rightarrow> js ''http://127.0.0.1:3003'')
      in case ic_endpoint c parserUrl of
           Inl m \<Rightarrow> Inl (request_failed m)
         | Inr endpoint \<Rightarrow>
             (case loadFile c f of
                Inl e \<Rightarrow> Inl (request_failed (input_error_message e))
              | Inr body \<Rightarrow>
                  (case ic_parser c endpoint (parse_headers (ic_env c) f) body of
                     Inl m \<Rightarrow> Inl (request_failed m)
                   | Inr r \<Rightarrow>
                       let payload = (case ps_json r of None \<Rightarrow> JNull | Some v \<Rightarrow> v)
                       in if \<not> ps_ok r \<or> jprop payload (js ''ok'') = Some (JBool False)
                          then Inl (ParseFileError
                                 (case parser_error_code (jprop payload (js ''code'')) of
                                    Some k \<Rightarrow> k | None \<Rightarrow> ParseFailed)
                                 (case prop_str payload (js ''message'') of
                                    Some m \<Rightarrow> m
                                  | None \<Rightarrow> js ''parser service failed with status '' @ js_of_nat (ps_status r)))
                          else case prop_str payload (js ''text'') of
                                 None \<Rightarrow> Inl (PlainError (js ''isolated parser returned an invalid response''))
                               | Some t \<Rightarrow> Inr t)))"

section \<open>The message\<close>

definition document_budget :: "nat \<Rightarrow> nat" where
  "document_budget remainingChars = max 256 (min MAX_DOCUMENT_CHARS_PER_FILE remainingChars)"

text \<open>The block and the characters it is charged.\<close>

definition toDocumentBlock ::
  "input_calls \<Rightarrow> gateway_file \<Rightarrow> nat \<Rightarrow> nat \<Rightarrow> input_error + jstr \<times> nat" where
  "toDocumentBlock c f index remainingChars =
     (let budget = document_budget remainingChars
      in case parseWithIsolatedService c f of
           Inr t \<Rightarrow> Inr (buildDocumentBlock index f (truncateText t budget), min (length t) budget)
         | Inl (ParseFileError code m) \<Rightarrow>
             if code \<noteq> FileNotFound
             then (let fallback = formatFallbackDocumentNote f code m
                   in Inr (buildDocumentBlock index f (truncateText fallback budget),
                           min (length fallback) budget))
             else Inl (ParseFileError code m)
         | Inl e \<Rightarrow> Inl e)"

definition mergeMessageWithDocumentBlocks :: "jstr \<Rightarrow> jstr list \<Rightarrow> jstr" where
  "mergeMessageWithDocumentBlocks message documentBlocks =
     (if documentBlocks = [] then message
      else
        let trimmedMessage = js_trim message;
            documentSection = js_join [10, 10]
              ((js ''Attached document context follows. These files are part of the user'' @ [39]
                @ js ''s request.'') # documentBlocks)
        in if trimmedMessage \<noteq> [] then trimmedMessage @ [10, 10] @ documentSection
           else documentSection)"

definition omitted_note :: "gateway_file \<Rightarrow> jstr" where
  "omitted_note f =
     js ''The user attached '' @ gf_filename f @ js '' ('' @ gf_mimeType f
     @ js ''), but local document context was truncated because the request already includes too much extracted content.''"

text \<open>The loop over the files: attachments and blocks so far, and the characters left.\<close>

fun prepare_files ::
  "input_calls \<Rightarrow> nat \<Rightarrow> gateway_file list \<Rightarrow> nat \<Rightarrow>
     input_error + gateway_attachment list \<times> jstr list" where
  "prepare_files c index [] remainingChars = Inr ([], [])"
| "prepare_files c index (f # fs) remainingChars =
     (if isImageMime (gf_mimeType f) then
        (case toImageAttachment c f of
           Inl e \<Rightarrow> Inl e
         | Inr a \<Rightarrow> map_sum id (apfst ((#) a)) (prepare_files c (index + 1) fs remainingChars))
      else if remainingChars = 0 then
        map_sum id (apsnd ((#) (buildDocumentBlock (index + 1) f (omitted_note f))))
          (prepare_files c (index + 1) fs remainingChars)
      else
        (case toDocumentBlock c f (index + 1) remainingChars of
           Inl e \<Rightarrow> Inl e
         | Inr (block, charsUsed) \<Rightarrow>
             map_sum id (apsnd ((#) block))
               (prepare_files c (index + 1) fs (remainingChars - charsUsed))))"

definition prepareGatewayInput ::
  "input_calls \<Rightarrow> jstr \<Rightarrow> gateway_file list option \<Rightarrow> input_error + prepared_input" where
  "prepareGatewayInput c message files =
     (case prepare_files c 0 (case files of Some fs \<Rightarrow> fs | None \<Rightarrow> []) MAX_DOCUMENT_CHARS_TOTAL of
        Inl e \<Rightarrow> Inl e
      | Inr (attachments, documentBlocks) \<Rightarrow>
          Inr \<lparr>pi_message = mergeMessageWithDocumentBlocks message documentBlocks,
               pi_attachments = attachments\<rparr>)"

section \<open>What is sent\<close>

lemma length_truncateText: "18 \<le> n \<Longrightarrow> length (truncateText t n) \<le> min (length t) n"
  using length_js_trim_end [of "take (n - 18) t"]
  by (auto simp: truncateText_def truncation_mark_def)

lemma truncateText_short: "length t \<le> n \<Longrightarrow> truncateText t n = t"
  by (simp add: truncateText_def)

lemma document_budget_bounds:
  "256 \<le> document_budget r" "document_budget r \<le> 6000" "0 < r \<Longrightarrow> document_budget r \<le> r + 255"
  by (auto simp: document_budget_def MAX_DOCUMENT_CHARS_PER_FILE_def)

text \<open>All of what there is to show of a document, before it is cut: its text or the note.\<close>

definition full_text :: "input_calls \<Rightarrow> gateway_file \<Rightarrow> jstr option" where
  "full_text c f =
     (case parseWithIsolatedService c f of
        Inr t \<Rightarrow> Some t
      | Inl (ParseFileError code m) \<Rightarrow>
          if code = FileNotFound then None else Some (formatFallbackDocumentNote f code m)
      | Inl _ \<Rightarrow> None)"

lemma toDocumentBlock_Inr:
  assumes "toDocumentBlock c f i r = Inr (block, used)"
  obtains t where "full_text c f = Some t" "block = buildDocumentBlock i f (truncateText t (document_budget r))"
    "used = min (length t) (document_budget r)"
  using assms by (auto simp: toDocumentBlock_def full_text_def Let_def
      split: sum.splits input_error.splits if_splits)

text \<open>The text of a document's block: extracted text, or the note for an omitted file.\<close>

fun document_text :: "gateway_file \<Rightarrow> jstr option \<Rightarrow> jstr" where
  "document_text f (Some t) = t"
| "document_text f None = omitted_note f"

definition document_blocks :: "(nat \<times> gateway_file) list \<Rightarrow> jstr option list \<Rightarrow> jstr list" where
  "document_blocks fs ts = map2 (\<lambda>(i, f) t. buildDocumentBlock i f (document_text f t)) fs ts"

definition extracted_chars :: "jstr option list \<Rightarrow> nat" where
  "extracted_chars ts = sum_list (map (\<lambda>t. case t of Some u \<Rightarrow> length u | None \<Rightarrow> 0) ts)"

definition numbered_documents :: "nat \<Rightarrow> gateway_file list \<Rightarrow> (nat \<times> gateway_file) list" where
  "numbered_documents i fs = filter (\<lambda>(n, f). \<not> isImageMime (gf_mimeType f)) (enumerate i fs)"

lemma numbered_documents_simps [simp]:
  "numbered_documents i [] = []"
  "numbered_documents i (f # fs) =
     (if isImageMime (gf_mimeType f) then numbered_documents (Suc i) fs
      else (i, f) # numbered_documents (Suc i) fs)"
  by (simp_all add: numbered_documents_def)

lemma document_blocks_Cons [simp]:
  "document_blocks ((i, f) # fs) (t # ts) =
     buildDocumentBlock i f (document_text f t) # document_blocks fs ts"
  by (simp add: document_blocks_def)

lemma extracted_chars_Cons [simp]:
  "extracted_chars (t # ts) = (case t of Some u \<Rightarrow> length u | None \<Rightarrow> 0) + extracted_chars ts"
  by (simp add: extracted_chars_def)

text \<open>What a document is shown with: its whole text and its budget, or nothing when it is omitted.\<close>

definition cut_text :: "(jstr \<times> nat) option \<Rightarrow> jstr option" where
  "cut_text = map_option (\<lambda>(t, b). truncateText t b)"

definition charged :: "(jstr \<times> nat) option list \<Rightarrow> nat" where
  "charged ds = sum_list (map (\<lambda>d. case d of Some (t, b) \<Rightarrow> min (length t) b | None \<Rightarrow> 0) ds)"

lemma charged_simps [simp]:
  "charged [] = 0" "charged (None # ds) = charged ds"
  "charged (Some (t, b) # ds) = min (length t) b + charged ds"
  by (simp_all add: charged_def)

text \<open>
  A document for which characters are left of r gets its budget of them, one for which none are
  left is omitted.
\<close>

definition budgeted ::
  "input_calls \<Rightarrow> nat \<Rightarrow> (nat \<times> gateway_file) list \<Rightarrow> (jstr \<times> nat) option list \<Rightarrow> bool" where
  "budgeted c r docs ds \<longleftrightarrow> length ds = length docs \<and>
     (\<forall>k < length docs. let left = r - charged (take k ds) in
        if left = 0 then ds ! k = None
        else \<exists>t. full_text c (snd (docs ! k)) = Some t \<and> ds ! k = Some (t, document_budget left))"

lemma budgeted_Cons:
  assumes "budgeted c (r - charged [d]) docs ds"
    and "if r = 0 then d = None else \<exists>t. full_text c (snd p) = Some t \<and> d = Some (t, document_budget r)"
  shows "budgeted c r (p # docs) (d # ds)"
proof -
  have "r - charged [d] - charged xs = r - charged (d # xs)" for xs
    by (cases d) auto
  then show ?thesis
    using assms by (auto simp: budgeted_def nth_Cons Let_def split: nat.split)
qed

lemma prepare_files_blocks:
  assumes "prepare_files c i fs r = Inr (atts, blocks)"
  shows "\<exists>ds. budgeted c r (numbered_documents (Suc i) fs) ds
    \<and> blocks = document_blocks (numbered_documents (Suc i) fs) (map cut_text ds)"
  using assms
proof (induction c i fs r arbitrary: atts blocks rule: prepare_files.induct)
  case (1 c i r)
  then show ?case by (simp add: document_blocks_def budgeted_def)
next
  case (2 c i f fs r)
  consider (image) "isImageMime (gf_mimeType f)"
    | (omitted) "\<not> isImageMime (gf_mimeType f)" "r = 0"
    | (doc) "\<not> isImageMime (gf_mimeType f)" "r \<noteq> 0" by auto
  then show ?case
  proof cases
    case image
    with "2.prems" obtain a as where "toImageAttachment c f = Inr a"
      "prepare_files c (i + 1) fs r = Inr (as, blocks)"
      by (auto split: sum.splits simp: map_sum_def)
    with "2.IH"(1) [OF image] image show ?thesis by simp
  next
    case omitted
    with "2.prems" obtain bs where bs: "prepare_files c (i + 1) fs r = Inr (atts, bs)"
      "blocks = buildDocumentBlock (i + 1) f (omitted_note f) # bs"
      by (auto split: sum.splits simp: map_sum_def)
    from "2.IH"(2) [OF omitted bs(1)] obtain ds where ds:
      "budgeted c r (numbered_documents (Suc (i + 1)) fs) ds"
      "bs = document_blocks (numbered_documents (Suc (i + 1)) fs) (map cut_text ds)" by auto
    have "budgeted c r ((Suc i, f) # numbered_documents (Suc (i + 1)) fs) (None # ds)"
      by (rule budgeted_Cons) (use ds(1) omitted in simp_all)
    then show ?thesis using omitted bs(2) ds(2) by (intro exI [of _ "None # ds"]) (simp add: cut_text_def)
  next
    case doc
    with "2.prems" doc obtain block used bs where b: "toDocumentBlock c f (i + 1) r = Inr (block, used)"
      "prepare_files c (i + 1) fs (r - used) = Inr (atts, bs)" "blocks = block # bs"
      by (auto split: sum.splits simp: map_sum_def)
    obtain t where t: "full_text c f = Some t" "block = buildDocumentBlock (i + 1) f (truncateText t (document_budget r))"
      "used = min (length t) (document_budget r)" by (rule toDocumentBlock_Inr [OF b(1)])
    from "2.IH"(3) [OF doc b(1) refl b(2)] obtain ds where ds:
      "budgeted c (r - used) (numbered_documents (Suc (i + 1)) fs) ds"
      "bs = document_blocks (numbered_documents (Suc (i + 1)) fs) (map cut_text ds)" by auto
    have "budgeted c r ((Suc i, f) # numbered_documents (Suc (i + 1)) fs) (Some (t, document_budget r) # ds)"
      by (rule budgeted_Cons) (use ds(1) t doc in simp_all)
    then show ?thesis
      using doc b(3) t(2) ds(2) by (intro exI [of _ "Some (t, document_budget r) # ds"]) (simp add: cut_text_def)
  qed
qed

text \<open>The bounds this gives, and that nothing is cut while everything fits.\<close>

lemma budgeted_tail:
  assumes "budgeted c r (p # docs) (d # ds)"
  shows "budgeted c (r - charged [d]) docs ds"
    "if r = 0 then d = None else \<exists>t. full_text c (snd p) = Some t \<and> d = Some (t, document_budget r)"
proof -
  have r: "r - charged [d] - charged xs = r - charged (d # xs)" for xs
    by (cases d) auto
  show "budgeted c (r - charged [d]) docs ds"
    unfolding budgeted_def
  proof (intro conjI allI impI)
    show "length ds = length docs" using assms by (simp add: budgeted_def)
    fix k assume "k < length docs"
    then show "let left = r - charged [d] - charged (take k ds) in
        if left = 0 then ds ! k = None
        else \<exists>t. full_text c (snd (docs ! k)) = Some t \<and> ds ! k = Some (t, document_budget left)"
      using assms unfolding budgeted_def r by (elim conjE allE [of _ "Suc k"]) (auto simp: Let_def split: if_splits)
  qed
  show "if r = 0 then d = None else \<exists>t. full_text c (snd p) = Some t \<and> d = Some (t, document_budget r)"
    using assms unfolding budgeted_def by (elim conjE allE [of _ 0]) (auto simp: Let_def split: if_splits)
qed

lemma budgeted_bounds:
  "budgeted c r docs ds \<Longrightarrow> extracted_chars (map cut_text ds) \<le> (if r = 0 then 0 else r + 255)
     \<and> (\<forall>t. Some t \<in> set (map cut_text ds) \<longrightarrow> length t \<le> 6000)"
proof (induction docs arbitrary: r ds)
  case Nil
  then show ?case by (simp add: budgeted_def extracted_chars_def)
next
  case (Cons p docs)
  then obtain d es where ds: "ds = d # es" by (cases ds) (auto simp: budgeted_def)
  note tl = budgeted_tail [OF Cons.prems [unfolded ds]]
  note IH = Cons.IH [OF tl(1)]
  show ?case
  proof (cases "r = 0")
    case True
    then show ?thesis using tl(2) IH by (auto simp: ds cut_text_def)
  next
    case False
    then obtain t where t: "d = Some (t, document_budget r)" using tl(2) by auto
    have "length (truncateText t (document_budget r)) \<le> min (length t) (document_budget r)"
      using document_budget_bounds(1) [of r] by (intro length_truncateText) linarith
    then show ?thesis
      using IH False document_budget_bounds(2) [of r] document_budget_bounds(3) [of r]
      by (auto simp: ds t cut_text_def split: if_splits)
  qed
qed

lemma budgeted_fits:
  assumes "budgeted c r docs ds" "list_all2 (\<lambda>p t. full_text c (snd p) = Some t) docs ts"
    "sum_list (map length ts) < r" "\<forall>t \<in> set ts. length t \<le> MAX_DOCUMENT_CHARS_PER_FILE"
  shows "map cut_text ds = map Some ts"
  using assms
proof (induction docs arbitrary: r ds ts)
  case Nil
  then show ?case by (simp add: budgeted_def)
next
  case (Cons p docs)
  then obtain d es where ds: "ds = d # es" by (cases ds) (auto simp: budgeted_def)
  from Cons.prems(2) obtain t us where ts: "ts = t # us" "full_text c (snd p) = Some t"
    "list_all2 (\<lambda>p t. full_text c (snd p) = Some t) docs us" by (auto simp: list_all2_Cons1)
  note tl = budgeted_tail [OF Cons.prems(1) [unfolded ds]]
  have d: "d = Some (t, document_budget r)" using tl(2) Cons.prems(3) ts(2) by (auto split: if_splits)
  have len: "length t \<le> document_budget r"
    using Cons.prems(3,4) by (auto simp: document_budget_def ts(1))
  have "map cut_text es = map Some us"
    by (rule Cons.IH [OF tl(1) ts(3)]) (use Cons.prems(3,4) len in \<open>auto simp: ts(1) d\<close>)
  then show ?case using len by (simp add: ds ts(1) d cut_text_def truncateText_short)
qed

lemma prepare_files_attachments:
  "prepare_files c i fs r = Inr (atts, blocks) \<Longrightarrow>
     list_all2 (\<lambda>f a. toImageAttachment c f = Inr a) (filter (isImageMime \<circ> gf_mimeType) fs) atts"
proof (induction c i fs r arbitrary: atts blocks rule: prepare_files.induct)
  case (2 c i f fs r)
  show ?case
  proof (cases "isImageMime (gf_mimeType f)")
    case True
    with "2.prems" obtain a as where "toImageAttachment c f = Inr a" "atts = a # as"
      "prepare_files c (i + 1) fs r = Inr (as, blocks)"
      by (auto split: sum.splits simp: map_sum_def)
    with "2.IH"(1) [OF True] True show ?thesis by simp
  next
    case False
    show ?thesis
    proof (cases "r = 0")
      case True
      with False "2.prems" obtain bs where "prepare_files c (i + 1) fs r = Inr (atts, bs)"
        by (auto split: sum.splits simp: map_sum_def)
      with "2.IH"(2) [OF False True] False show ?thesis by simp
    next
      case r: False
      with False "2.prems" obtain p bs where p: "toDocumentBlock c f (i + 1) r = Inr p"
        "prepare_files c (i + 1) fs (r - snd p) = Inr (atts, bs)"
        by (auto split: sum.splits simp: map_sum_def)
      with "2.IH"(3) [OF False r p(1) prod.collapse p(2)] False show ?thesis by simp
    qed
  qed
qed simp

lemma loadFile_size: "loadFile c f = Inr b \<Longrightarrow> length b = gf_sizeBytes f \<and> length b \<le> MAX_FILE_BYTES"
  by (auto simp: loadFile_def Let_def split: if_splits sum.splits)

text \<open>
  C19: the prepared message holds one block per document, numbered by its place among the
  files. A block shows the text the parser service gave (or the note on why it gave none), cut to
  the budget of the document: at most 6000 characters and at most what the documents before it
  have left of 16000, but always 256 while anything is left. So at most 6000 characters are shown
  of each document and 16255 in all; texts that fit are shown uncut; a document for which nothing
  is left shows a note. The images, and only they, become attachments, in order.
\<close>

theorem prepare_within_budget:
  assumes "prepareGatewayInput c message files = Inr p" and "fs = (case files of Some fs \<Rightarrow> fs | None \<Rightarrow> [])"
    and "docs = numbered_documents 1 fs"
  shows "\<exists>ds. pi_message p = mergeMessageWithDocumentBlocks message (document_blocks docs (map cut_text ds))
      \<and> length ds = length docs
      \<and> (\<forall>k < length docs. let left = MAX_DOCUMENT_CHARS_TOTAL - charged (take k ds) in
           if left = 0 then ds ! k = None
           else \<exists>t. full_text c (snd (docs ! k)) = Some t
             \<and> ds ! k = Some (t, max 256 (min MAX_DOCUMENT_CHARS_PER_FILE left)))
      \<and> extracted_chars (map cut_text ds) \<le> MAX_DOCUMENT_CHARS_TOTAL + 255
      \<and> (\<forall>t. Some t \<in> set (map cut_text ds) \<longrightarrow> length t \<le> MAX_DOCUMENT_CHARS_PER_FILE)
      \<and> (\<forall>ts. list_all2 (\<lambda>p t. full_text c (snd p) = Some t) docs ts
           \<and> sum_list (map length ts) < MAX_DOCUMENT_CHARS_TOTAL
           \<and> (\<forall>t \<in> set ts. length t \<le> MAX_DOCUMENT_CHARS_PER_FILE) \<longrightarrow> map cut_text ds = map Some ts)
      \<and> list_all2 (\<lambda>f a. toImageAttachment c f = Inr a)
          (filter (isImageMime \<circ> gf_mimeType) fs) (pi_attachments p)"
proof -
  from assms(1,2) obtain blocks where b:
    "prepare_files c 0 fs MAX_DOCUMENT_CHARS_TOTAL = Inr (pi_attachments p, blocks)"
    "pi_message p = mergeMessageWithDocumentBlocks message blocks"
    by (auto simp: prepareGatewayInput_def split: sum.splits)
  from prepare_files_blocks [OF b(1)] obtain ds where ds:
    "budgeted c MAX_DOCUMENT_CHARS_TOTAL docs ds" "blocks = document_blocks docs (map cut_text ds)"
    by (auto simp: assms(3))
  have "extracted_chars (map cut_text ds) \<le> MAX_DOCUMENT_CHARS_TOTAL + 255"
    "\<forall>t. Some t \<in> set (map cut_text ds) \<longrightarrow> length t \<le> MAX_DOCUMENT_CHARS_PER_FILE"
    using budgeted_bounds [OF ds(1)] by (simp_all add: MAX_DOCUMENT_CHARS_TOTAL_def MAX_DOCUMENT_CHARS_PER_FILE_def)
  then show ?thesis
    using b(2) ds(2) budgeted_fits [OF ds(1)] prepare_files_attachments [OF b(1)]
      ds(1) [unfolded budgeted_def document_budget_def]
    by (intro exI [of _ ds]) blast
qed

text \<open>A parser that answers every file with n characters.\<close>

definition sample_parser :: "nat \<Rightarrow> input_calls" where
  "sample_parser n =
     \<lparr>ic_env = (\<lambda>_. None), ic_fetch = (\<lambda>_. Inl []), ic_readFile = (\<lambda>_. Inr [0]),
      ic_endpoint = (\<lambda>u. Inr u),
      ic_parser = (\<lambda>_ _ _. Inr \<lparr>ps_ok = True, ps_status = 200,
         ps_json = Some (JObj [(js ''ok'', JBool True), (js ''text'', JStr (replicate n 97))])\<rparr>)\<rparr>"

definition sample_document :: gateway_file where
  "sample_document =
     \<lparr>gf_fileId = js ''f'', gf_filename = js ''a.txt'', gf_mimeType = js ''text/plain'',
      gf_sizeBytes = 1, gf_storageKey = js ''k'', gf_contentUrl = None, gf_contentPath = Some (js ''p'')\<rparr>"

lemma sample_parse: "parseWithIsolatedService (sample_parser n) sample_document = Inr (replicate n 97)"
  by (simp add: parseWithIsolatedService_def sample_parser_def sample_document_def loadFile_def
      truthy_def MAX_FILE_BYTES_def prop_str_def Let_def)

lemma sample_block:
  "n \<le> document_budget r \<Longrightarrow> toDocumentBlock (sample_parser n) sample_document i r =
     Inr (buildDocumentBlock i sample_document (replicate n 97), n)"
  by (simp add: toDocumentBlock_def sample_parse truncateText_def Let_def)

lemma sample_not_image: "\<not> isImageMime (gf_mimeType sample_document)"
  by (simp add: isImageMime_def sample_document_def js_starts_with_def js_def)

lemma sample_prepare:
  "prepareGatewayInput (sample_parser 200) (js ''hi'') (Some [sample_document]) =
     Inr \<lparr>pi_message = mergeMessageWithDocumentBlocks (js ''hi'')
           [buildDocumentBlock 1 sample_document (replicate 200 97)], pi_attachments = []\<rparr>"
  by (simp add: prepareGatewayInput_def sample_not_image sample_block document_budget_def
      MAX_DOCUMENT_CHARS_TOTAL_def MAX_DOCUMENT_CHARS_PER_FILE_def)

theorem prepare_within_budget_witness:
  "\<exists>ds. map cut_text ds = [Some (replicate 200 97)]
    \<and> mergeMessageWithDocumentBlocks (js ''hi'') [buildDocumentBlock 1 sample_document (replicate 200 97)] =
      mergeMessageWithDocumentBlocks (js ''hi'')
        (document_blocks (numbered_documents 1 [sample_document]) (map cut_text ds))"
proof -
  have "list_all2 (\<lambda>p t. full_text (sample_parser 200) (snd p) = Some t)
      (numbered_documents 1 [sample_document]) [replicate 200 97]"
    by (simp add: full_text_def sample_parse sample_not_image)
  moreover obtain ds where ds: "mergeMessageWithDocumentBlocks (js ''hi'')
        [buildDocumentBlock 1 sample_document (replicate 200 97)] =
      mergeMessageWithDocumentBlocks (js ''hi'')
        (document_blocks (numbered_documents 1 [sample_document]) (map cut_text ds))"
    "\<forall>ts. list_all2 (\<lambda>p t. full_text (sample_parser 200) (snd p) = Some t) (numbered_documents 1 [sample_document]) ts
       \<and> sum_list (map length ts) < MAX_DOCUMENT_CHARS_TOTAL
       \<and> (\<forall>t \<in> set ts. length t \<le> MAX_DOCUMENT_CHARS_PER_FILE) \<longrightarrow> map cut_text ds = map Some ts"
    using prepare_within_budget [OF sample_prepare refl refl] by (elim exE conjE) (simp only: option.case prepared_input.simps)
  moreover have "sum_list (map length [replicate 200 97 :: jstr]) < MAX_DOCUMENT_CHARS_TOTAL
      \<and> (\<forall>t \<in> set [replicate 200 97 :: jstr]. length t \<le> MAX_DOCUMENT_CHARS_PER_FILE)"
    by (simp add: MAX_DOCUMENT_CHARS_TOTAL_def MAX_DOCUMENT_CHARS_PER_FILE_def)
  ultimately have "map cut_text ds = map Some [replicate 200 97]" by blast
  then show ?thesis using ds(1) by (intro exI [of _ ds]) simp
qed

end
