(* ===== verification/GatewayProtocol.thy ===== *)
theory GatewayProtocol
  imports GatewayInput
begin

text \<open>
  The protocol between the adapter and the OpenClaw gateway
  (\<^verbatim>\<open>packages/openclaw-protocol/src/index.ts\<close>) and the pure functions of
  \<^verbatim>\<open>apps/openclaw-adapter/src\<close> on it: error codes (\<^verbatim>\<open>error-map.ts\<close>), the requests the two gateway
  clients send, the reading of results and text snapshots out of gateway events. Frames are
  taken to have the declared types, which the code asserts with a cast; an absent optional
  member is \<open>None\<close>, and the nested optional objects of a frame are flattened.
\<close>

section \<open>Frames and requests\<close>

record success_payload =
  sp_runId :: "jstr option"
  sp_status :: "jstr option"
  sp_mainSessionKey :: "jstr option"

record event_payload =
  ep_runId :: "jstr option"
  ep_sessionKey :: "jstr option"
  ep_state :: "jstr option"
  ep_errorMessage :: "jstr option"
  ep_stream :: "jstr option"
  ep_ts :: "int option"
  ep_data :: "(jstr \<times> json) list option"
  ep_message :: "json option"

datatype gateway_frame =
    ChallengeFrame "jstr option"
  | SuccessFrame jstr success_payload
  | ErrorFrame jstr "jstr option" "jstr option"
  | EventFrame jstr event_payload

datatype gateway_method = ConnectMethod | ChatSend | ChatAbort

record gateway_request =
  rq_id :: jstr
  rq_method :: gateway_method
  rq_params :: json

fun is_challenge :: "gateway_frame \<Rightarrow> bool" where
  "is_challenge (ChallengeFrame _) = True"
| "is_challenge (EventFrame e _) = (e = js ''connect.challenge'')"
| "is_challenge _ = False"

section \<open>Errors\<close>

text \<open>The code of an error and whether a retry can help.\<close>

definition mapGatewayError :: "jstr \<Rightarrow> jstr \<times> bool" where
  "mapGatewayError code =
     (if code = js ''AGENT_TIMEOUT'' then (js ''GATEWAY_TIMEOUT'', True)
      else if code = js ''UNAVAILABLE'' then (js ''GATEWAY_UNAVAILABLE'', True)
      else if code = js ''NOT_PAIRED'' \<or> code = js ''DEVICE_IDENTITY_REQUIRED''
      then (js ''GATEWAY_PAIRING_REQUIRED'', False)
      else if code = js ''INVALID_REQUEST'' then (js ''GATEWAY_INVALID_REQUEST'', False)
      else if code = js ''AUTH_REQUIRED'' \<or> code = js ''UNAUTHORIZED''
      then (js ''GATEWAY_AUTH_REQUIRED'', False)
      else if code = js ''HTTP_CHAT_COMPLETIONS_DISABLED''
      then (js ''GATEWAY_HTTP_ENDPOINT_DISABLED'', False)
      else if code = js ''EMPTY_RESPONSE'' then (js ''GATEWAY_EMPTY_RESPONSE'', False)
      else if code = js ''ABORTED'' then (js ''GATEWAY_ABORTED'', True)
      else (js ''GATEWAY_ERROR'', False))"

record gateway_error =
  ge_code :: jstr
  ge_retryable :: bool
  ge_message :: jstr

definition toGatewayExecutionError :: "jstr \<Rightarrow> jstr \<Rightarrow> gateway_error" where
  "toGatewayExecutionError rawCode message =
     \<lparr>ge_code = fst (mapGatewayError rawCode), ge_retryable = snd (mapGatewayError rawCode),
      ge_message = message\<rparr>"

definition combineGatewayErrors :: "gateway_error \<Rightarrow> gateway_error \<Rightarrow> gateway_error" where
  "combineGatewayErrors wsError httpError =
     \<lparr>ge_code = ge_code httpError, ge_retryable = ge_retryable httpError,
      ge_message =
        (if ge_message httpError = ge_message wsError then ge_message httpError
         else ge_message wsError @ js '' (HTTP fallback: '' @ ge_message httpError @ js '')'')\<rparr>"

section \<open>Input, session keys and requests\<close>

record gateway_input =
  gi_gatewayUrl :: jstr
  gi_taskId :: jstr
  gi_sessionId :: jstr
  gi_message :: jstr
  gi_files :: "gateway_file list option"
  gi_gatewayToken :: "jstr option"
  gi_gatewayPassword :: "jstr option"
  gi_taskTimeoutMs :: "int option"

text \<open>\<^verbatim>\<open>asNonEmptyString(process.env.X) || fallback\<close>.\<close>

definition env_or :: "env \<Rightarrow> string \<Rightarrow> string \<Rightarrow> jstr" where
  "env_or env k d = (if asNonEmptyString (env k) \<noteq> [] then asNonEmptyString (env k) else js d)"

definition agent_id :: "env \<Rightarrow> jstr" where
  "agent_id env = env_or env ''OPENCLAW_GATEWAY_AGENT_ID'' ''main''"

definition resolveGatewaySessionKey :: "jstr \<Rightarrow> jstr \<Rightarrow> jstr \<Rightarrow> jstr" where
  "resolveGatewaySessionKey sid agentId fallback =
     (let s = js_lower (js_trim sid)
      in if s \<noteq> [] then js ''agent:'' @ agentId @ js '':session:'' @ s else fallback)"

definition sessionKeyFor :: "jstr \<Rightarrow> jstr \<Rightarrow> jstr" where
  "sessionKeyFor sid agentId = js ''agent:'' @ agentId @ js '':session:'' @ js_lower (js_trim sid)"

definition auth_params :: "jstr option \<Rightarrow> jstr option \<Rightarrow> (jstr \<times> json) list" where
  "auth_params token password =
     (if asNonEmptyString token \<noteq> []
      then [(js ''auth'', JObj [(js ''token'', JStr (asNonEmptyString token))])]
      else if asNonEmptyString password \<noteq> []
      then [(js ''auth'', JObj [(js ''password'', JStr (asNonEmptyString password))])]
      else [])"

definition connect_params ::
  "jstr \<Rightarrow> (jstr \<times> json) list \<Rightarrow> jstr option \<Rightarrow> jstr option \<Rightarrow> json" where
  "connect_params userAgent client token password = JObj
     ([(js ''minProtocol'', JInt 3), (js ''maxProtocol'', JInt 3), (js ''role'', JStr (js ''operator'')),
       (js ''scopes'', JArr [JStr (js ''operator.read''), JStr (js ''operator.write''),
                             JStr (js ''operator.talk.secrets'')]),
       (js ''caps'', JArr []), (js ''commands'', JArr []), (js ''permissions'', JObj []),
       (js ''locale'', JStr (js ''en-US'')), (js ''userAgent'', JStr userAgent),
       (js ''client'', JObj client)]
      @ auth_params token password)"

text \<open>\<^verbatim>\<open>buildConnectRequest\<close> of \<^verbatim>\<open>gateway-client.ts\<close>.\<close>

definition buildConnectRequest :: "env \<Rightarrow> gateway_input \<Rightarrow> gateway_request" where
  "buildConnectRequest env i =
     \<lparr>rq_id = js ''connect-1'', rq_method = ConnectMethod, rq_params =
        connect_params (js ''ClawWorkAdapter/0.1.0 (Node.js)'')
          [(js ''id'', JStr (env_or env ''OPENCLAW_GATEWAY_CLIENT_ID'' ''openclaw-android'')),
           (js ''displayName'', JStr (env_or env ''OPENCLAW_GATEWAY_CLIENT_DISPLAY_NAME'' ''ClawWork Adapter'')),
           (js ''version'', JStr (js ''0.1.0'')),
           (js ''platform'', JStr (env_or env ''OPENCLAW_GATEWAY_CLIENT_PLATFORM'' ''android'')),
           (js ''mode'', JStr (env_or env ''OPENCLAW_GATEWAY_CLIENT_MODE'' ''ui'')),
           (js ''instanceId'', JStr (env_or env ''OPENCLAW_GATEWAY_CLIENT_INSTANCE_ID'' ''clawwork-adapter'')),
           (js ''deviceFamily'', JStr (env_or env ''OPENCLAW_GATEWAY_CLIENT_DEVICE_FAMILY'' ''Desktop''))]
          (gi_gatewayToken i) (gi_gatewayPassword i)\<rparr>"

text \<open>\<^verbatim>\<open>PersistentGatewayClient.buildConnectRequest\<close>.\<close>

definition persistentConnectRequest :: "env \<Rightarrow> jstr option \<Rightarrow> jstr option \<Rightarrow> gateway_request" where
  "persistentConnectRequest env token password =
     \<lparr>rq_id = js ''persistent-connect'', rq_method = ConnectMethod, rq_params =
        connect_params (js ''ClawWorkAdapter/0.2.0 (Node.js)'')
          [(js ''id'', JStr (env_or env ''OPENCLAW_GATEWAY_CLIENT_ID'' ''openclaw-android'')),
           (js ''displayName'', JStr (js ''ClawWork Adapter'')),
           (js ''version'', JStr (js ''0.2.0'')),
           (js ''platform'', JStr (env_or env ''OPENCLAW_GATEWAY_CLIENT_PLATFORM'' ''android'')),
           (js ''mode'', JStr (env_or env ''OPENCLAW_GATEWAY_CLIENT_MODE'' ''ui'')),
           (js ''instanceId'', JStr (env_or env ''OPENCLAW_GATEWAY_CLIENT_INSTANCE_ID'' ''clawwork-adapter'')),
           (js ''deviceFamily'', JStr (js ''Desktop''))]
          token password\<rparr>"

fun attachment_type_text :: "attachment_type \<Rightarrow> jstr" where
  "attachment_type_text FileAttachment = js ''file''"
| "attachment_type_text ImageAttachment = js ''image''"

definition attachment_json :: "gateway_attachment \<Rightarrow> json" where
  "attachment_json a = JObj
     [(js ''type'', JStr (attachment_type_text (ga_type a))), (js ''mimeType'', JStr (ga_mimeType a)),
      (js ''fileName'', JStr (ga_fileName a)), (js ''content'', JStr (ga_content a))]"

definition buildChatRequest ::
  "jstr \<Rightarrow> jstr \<Rightarrow> jstr \<Rightarrow> gateway_attachment list \<Rightarrow> int \<Rightarrow> gateway_request" where
  "buildChatRequest taskId sessionKey message attachments timeout =
     \<lparr>rq_id = taskId, rq_method = ChatSend, rq_params = JObj
        ([(js ''sessionKey'', JStr sessionKey), (js ''message'', JStr message)]
         @ (if attachments \<noteq> [] then [(js ''attachments'', JArr (map attachment_json attachments))] else [])
         @ [(js ''thinking'', JStr (js ''default'')), (js ''idempotencyKey'', JStr taskId),
            (js ''timeoutMs'', JInt timeout)])\<rparr>"

definition abortRequest :: "jstr \<Rightarrow> jstr \<Rightarrow> jstr \<Rightarrow> gateway_request" where
  "abortRequest taskId sessionKey runId =
     \<lparr>rq_id = js ''abort:'' @ taskId, rq_method = ChatAbort, rq_params = JObj
        ((js ''sessionKey'', JStr sessionKey) #
         (if runId \<noteq> [] then [(js ''runId'', JStr runId)] else []))\<rparr>"

section \<open>Reading results\<close>

fun asRecord :: "json option \<Rightarrow> (jstr \<times> json) list option" where
  "asRecord (Some (JObj ms)) = Some ms"
| "asRecord _ = None"

definition safe_parse :: "(jstr \<Rightarrow> bool) \<Rightarrow> json option \<Rightarrow> artifact option" where
  "safe_parse vurl v = Option.bind v (parse_artifact_result vurl)"

fun is_number :: "json option \<Rightarrow> bool" where
  "is_number (Some (JInt _)) = True"
| "is_number (Some (JFrac _)) = True"
| "is_number _ = False"

text \<open>A bare artifact object: the members the source copies, when they all have their types.\<close>

definition bare_artifact :: "(jstr \<times> json) list \<Rightarrow> json option" where
  "bare_artifact ms =
     (let v = JObj ms
      in case (prop_str v (js ''kind''), prop_str v (js ''fileName''), prop_str v (js ''mimeType''),
               prop_str v (js ''downloadUrl''), prop_str v (js ''previewText'')) of
           (Some k, Some fn, Some mt, Some url, Some pt) \<Rightarrow>
             Some (JObj [(js ''type'', JStr (js ''artifact'')),
               (js ''artifact'', JObj
                 ([(js ''kind'', JStr k), (js ''fileName'', JStr fn), (js ''mimeType'', JStr mt),
                   (js ''downloadUrl'', JStr url), (js ''previewText'', JStr pt)]
                  @ (if is_number (jprop v (js ''sizeBytes''))
                     then [(js ''sizeBytes'', the (jprop v (js ''sizeBytes'')))] else [])))])
         | _ \<Rightarrow> None)"

lemma member_size:
  "map_of ms k = Some (w :: json) \<Longrightarrow> size w < Suc (size_list (size_prod (\<lambda>x :: jstr. 0) size) ms)"
  using jprop_size [of "JObj ms" k w] by simp

text \<open>\<^verbatim>\<open>null\<close> is \<open>None\<close>; the recursion follows the member \<^verbatim>\<open>result\<close>.\<close>

function normalizeArtifactPayload :: "(jstr \<Rightarrow> bool) \<Rightarrow> json option \<Rightarrow> json option" where
  "normalizeArtifactPayload vurl v =
     (case safe_parse vurl v of
        Some a \<Rightarrow> Some (artifact_result_json a)
      | None \<Rightarrow>
          (case v of
             Some (JObj ms) \<Rightarrow>
               (case (prop_str (JObj ms) (js ''type'') = Some (js ''artifact''),
                      asRecord (jprop (JObj ms) (js ''artifact''))) of
                  (True, Some am) \<Rightarrow>
                    Some (JObj [(js ''type'', JStr (js ''artifact'')), (js ''artifact'', JObj am)])
                | _ \<Rightarrow>
                    (case jprop (JObj ms) (js ''result'') of
                       None \<Rightarrow> bare_artifact ms
                     | Some r \<Rightarrow>
                         (case normalizeArtifactPayload vurl (Some r) of
                            Some n \<Rightarrow> Some n
                          | None \<Rightarrow> bare_artifact ms)))
           | _ \<Rightarrow> None))"
  by pat_completeness auto
termination
  by (relation "measure (\<lambda>(_, v). case v of None \<Rightarrow> 0 | Some j \<Rightarrow> Suc (size j))")
    (auto dest: member_size)

declare normalizeArtifactPayload.simps [simp del]

fun extractArtifactResult :: "(jstr \<Rightarrow> bool) \<Rightarrow> json option list \<Rightarrow> artifact option" where
  "extractArtifactResult vurl [] = None"
| "extractArtifactResult vurl (cand # cs) =
     (case normalizeArtifactPayload vurl cand of
        None \<Rightarrow> extractArtifactResult vurl cs
      | Some n \<Rightarrow>
          (case safe_parse vurl (Some n) of
             Some a \<Rightarrow> Some a
           | None \<Rightarrow> extractArtifactResult vurl cs))"

text \<open>\<^verbatim>\<open>String(frame.payload.data?.text ?? "")\<close>.\<close>

definition snapshot_text :: "event_payload \<Rightarrow> jstr" where
  "snapshot_text p =
     (case Option.bind (ep_data p) (\<lambda>d. jprop (JObj d) (js ''text'')) of
        None \<Rightarrow> [] | Some JNull \<Rightarrow> [] | Some v \<Rightarrow> js_string v)"

text \<open>The delta and the snapshot to remember.\<close>

definition normalizeAssistantDelta :: "jstr \<Rightarrow> jstr \<Rightarrow> jstr \<times> jstr" where
  "normalizeAssistantDelta nextSnapshot previousSnapshot =
     (if nextSnapshot = [] then ([], nextSnapshot)
      else if previousSnapshot \<noteq> [] \<and> js_starts_with nextSnapshot previousSnapshot
      then (drop (length previousSnapshot) nextSnapshot, nextSnapshot)
      else (nextSnapshot, nextSnapshot))"

section \<open>Properties of the readers\<close>

lemma extractArtifactResult_ok: "extractArtifactResult vurl cs = Some a \<Longrightarrow> artifact_ok vurl a"
  by (induction vurl cs rule: extractArtifactResult.induct)
    (auto simp: safe_parse_def dest: parse_artifact_result_ok split: option.splits)

declare extractArtifactResult.simps [simp del]

lemma normalizeAssistantDelta_append:
  assumes "prefix prev nxt" "nxt \<noteq> []"
  shows "normalizeAssistantDelta nxt prev = (drop (length prev) nxt, nxt)"
  using assms by (auto simp: normalizeAssistantDelta_def prefix_def js_starts_with_append)

text \<open>The deltas of a sequence of snapshots, as the clients emit them.\<close>

fun snapshot_deltas :: "jstr \<Rightarrow> jstr list \<Rightarrow> jstr list" where
  "snapshot_deltas prev [] = []"
| "snapshot_deltas prev (s # ss) =
     (let (d, prev') = normalizeAssistantDelta s prev
      in (if d = [] then [] else [d]) @ snapshot_deltas prev' ss)"

fun growing :: "jstr \<Rightarrow> jstr list \<Rightarrow> bool" where
  "growing prev [] = True"
| "growing prev (s # ss) \<longleftrightarrow> s \<noteq> [] \<and> prefix prev s \<and> growing s ss"

lemma snapshot_deltas_growing:
  "growing prev ss \<Longrightarrow> prev @ concat (snapshot_deltas prev ss) = last (prev # ss)"
proof (induction ss arbitrary: prev)
  case Nil
  then show ?case by simp
next
  case (Cons s ss)
  then obtain d where s: "s = prev @ d" "s \<noteq> []" "growing s ss" by (auto simp: prefix_def)
  then have "normalizeAssistantDelta s prev = (d, s)"
    by (simp add: normalizeAssistantDelta_append)
  with Cons.IH [OF s(3)] s show ?case by (cases ss) auto
qed

end
