(* ===== verification/GatewayClient.thy ===== *)
theory GatewayClient
  imports GatewayProtocol
begin

text \<open>
  \<^verbatim>\<open>apps/openclaw-adapter/src/gateway-client.ts\<close>: one task run over a gateway connection of
  its own, with the HTTP endpoint as the fallback. The closure of \<^verbatim>\<open>executeGatewayTask\<close> is the
  record \<open>gw\<close>; what can happen to it (frames, errors, timers, control calls, the answer of
  the HTTP request) is the datatype \<open>gw_in\<close>, and \<open>gw_step\<close> is the handler of each. The
  record also logs what the run does to its surroundings: requests sent, events passed to
  \<^verbatim>\<open>onEvent\<close>, the settlement of the promise. Timestamps taken in one step are one text.
\<close>

section \<open>State\<close>

record accepted_run =
  ac_taskId :: jstr
  ac_sessionId :: jstr
  ac_runId :: jstr
  ac_sessionKey :: jstr

datatype ready_state = Connecting | Opened | Closing | Closed

datatype fallback_state = NoFallback | FallbackRunning gateway_error | FallbackDone

text \<open>The request of the HTTP fallback: URL, headers, timeout and body.\<close>

record http_request =
  hr_url :: jstr
  hr_headers :: "(jstr \<times> jstr) list"
  hr_timeoutMs :: int
  hr_body :: json

record gw =
  gw_ready :: ready_state
  gw_listening :: bool
  gw_connectTimer :: bool
  gw_sessionKey :: jstr
  gw_runId :: jstr
  gw_lastSnapshot :: jstr
  gw_settled :: bool
  gw_fallback :: fallback_state
  gw_sent :: "gateway_request list"
  gw_events :: "task_event list"
  gw_outcome :: "(exn + accepted_run) option"
  gw_requests :: "http_request list"
  gw_uncaught :: bool

text \<open>A gateway URL as far as it is rewritten; its text is protocol, authority, path, query, fragment.\<close>

record gateway_url =
  gu_protocol :: jstr
  gu_authority :: jstr
  gu_pathname :: jstr
  gu_search :: jstr
  gu_hash :: jstr

record gw_config =
  gc_env :: env
  gc_input :: gateway_input
  gc_prepared :: prepared_input
  gc_vurl :: "jstr \<Rightarrow> bool"
  gc_url :: "jstr \<Rightarrow> gateway_url option"

text \<open>
  What the HTTP request comes to: an error thrown, with the \<^verbatim>\<open>code\<close> it carries if any, or a
  response whose body is JSON or fails to be.
\<close>

datatype http_outcome =
    HttpThrows "jstr option" jstr
  | HttpResponse bool nat "jstr + json"

datatype gw_in =
    WsOpen
  | WsFrame jstr gateway_frame
  | WsInvalid
  | WsError jstr jstr
  | WsClose jstr nat jstr
  | ConnectTimeout jstr
  | GwCancel jstr
  | GwClose
  | HttpDone jstr http_outcome

definition gw_initial :: "gw_config \<Rightarrow> gw" where
  "gw_initial c =
     \<lparr>gw_ready = Connecting, gw_listening = True, gw_connectTimer = True,
      gw_sessionKey = resolveGatewaySessionKey (gi_sessionId (gc_input c)) (agent_id (gc_env c)) (js ''main''),
      gw_runId = [], gw_lastSnapshot = [], gw_settled = False, gw_fallback = NoFallback,
      gw_sent = [], gw_events = [], gw_outcome = None, gw_requests = [], gw_uncaught = False\<rparr>"

definition gateway_exn :: "gateway_error \<Rightarrow> exn" where
  "gateway_exn e = JsError (Some (ge_code e)) (ge_message e)"

section \<open>Control\<close>

definition gw_send :: "gateway_request \<Rightarrow> gw \<Rightarrow> gw" where
  "gw_send r g = g\<lparr>gw_sent := gw_sent g @ [r]\<rparr>"

definition gw_event :: "gw_config \<Rightarrow> jstr \<Rightarrow> jstr \<Rightarrow> event_detail \<Rightarrow> task_event" where
  "gw_event c now runId d =
     \<lparr>ev_base = \<lparr>ev_taskId = gi_taskId (gc_input c), ev_sessionId = gi_sessionId (gc_input c),
                 ev_runId = runId, ev_timestamp = now\<rparr>,
      ev_detail = d\<rparr>"

definition gw_emit :: "gw_config \<Rightarrow> jstr \<Rightarrow> jstr \<Rightarrow> event_detail \<Rightarrow> gw \<Rightarrow> gw" where
  "gw_emit c now runId d g = g\<lparr>gw_events := gw_events g @ [gw_event c now runId d]\<rparr>"

text \<open>\<^verbatim>\<open>resolvedRunId || input.taskId\<close>.\<close>

definition gw_run_or_task :: "gw_config \<Rightarrow> gw \<Rightarrow> jstr" where
  "gw_run_or_task c g = (if gw_runId g \<noteq> [] then gw_runId g else gi_taskId (gc_input c))"

definition gw_cleanup :: "gw \<Rightarrow> gw" where
  "gw_cleanup g =
     g\<lparr>gw_connectTimer := False, gw_listening := False,
       gw_ready := (if gw_ready g = Opened \<or> gw_ready g = Connecting then Closing else gw_ready g)\<rparr>"

definition gw_cancel :: "gw_config \<Rightarrow> jstr \<Rightarrow> gw \<Rightarrow> gw" where
  "gw_cancel c now g =
     (let g1 = (if gw_ready g = Opened
                then gw_send (abortRequest (gi_taskId (gc_input c)) (gw_sessionKey g) (gw_runId g)) g
                else g)
      in gw_cleanup (gw_emit c now (gw_run_or_task c g1) (CancelledEv (js ''task cancelled by user'')) g1))"

definition resolveAccepted :: "accepted_run \<Rightarrow> gw \<Rightarrow> gw" where
  "resolveAccepted r g =
     (if gw_settled g then g
      else g\<lparr>gw_settled := True, gw_connectTimer := False, gw_outcome := Some (Inr r)\<rparr>)"

definition rejectExecution :: "gateway_error \<Rightarrow> gw \<Rightarrow> gw" where
  "rejectExecution e g =
     (if gw_settled g then g
      else (gw_cleanup (g\<lparr>gw_settled := True\<rparr>))\<lparr>gw_outcome := Some (Inl (gateway_exn e))\<rparr>)"

definition failAfterAccepted :: "gw_config \<Rightarrow> jstr \<Rightarrow> gateway_error \<Rightarrow> gw \<Rightarrow> gw" where
  "failAfterAccepted c now e g =
     gw_cleanup (gw_emit c now (gw_run_or_task c g) (FailedEv (ge_code e) (ge_message e)) g)"

section \<open>The HTTP fallback\<close>

definition toHttpGatewayUrl :: "gw_config \<Rightarrow> gateway_error + jstr" where
  "toHttpGatewayUrl c =
     (case gc_url c (gi_gatewayUrl (gc_input c)) of
        None \<Rightarrow> Inl \<lparr>ge_code = js ''ERR_INVALID_URL'', ge_retryable = False, ge_message = js ''Invalid URL''\<rparr>
      | Some u \<Rightarrow>
          if gu_protocol u \<notin> {js ''ws:'', js ''wss:'', js ''http:'', js ''https:''}
          then Inl (toGatewayExecutionError (js ''INVALID_REQUEST'') (js ''invalid gateway url protocol''))
          else
            let protocol = (if gu_protocol u = js ''ws:'' then js ''http:''
                            else if gu_protocol u = js ''wss:'' then js ''https:'' else gu_protocol u)
            in Inr (protocol @ js ''//'' @ gu_authority u @ js ''/v1/chat/completions''))"

definition or_else :: "jstr \<Rightarrow> jstr \<Rightarrow> jstr" where
  "or_else s d = (if s \<noteq> [] then s else d)"

text \<open>The request, where no attachment and no bad URL keeps it from being made.\<close>

definition http_request_of :: "gw_config \<Rightarrow> jstr \<Rightarrow> http_request list" where
  "http_request_of c sessionKey =
     (case (pi_attachments (gc_prepared c), toHttpGatewayUrl c) of
        ([], Inr url) \<Rightarrow>
          (let authSecret = or_else (asNonEmptyString (gi_gatewayToken (gc_input c)))
                 (asNonEmptyString (gi_gatewayPassword (gc_input c)))
           in [\<lparr>hr_url = url,
                hr_headers =
                  [(js ''Content-Type'', js ''application/json''),
                   (js ''x-openclaw-agent-id'', agent_id (gc_env c)),
                   (js ''x-openclaw-session-key'', sessionKey)]
                  @ (if authSecret \<noteq> [] then [(js ''Authorization'', js ''Bearer '' @ authSecret)] else []),
                hr_timeoutMs = (case gi_taskTimeoutMs (gc_input c) of Some t \<Rightarrow> t | None \<Rightarrow> 30000),
                hr_body = JObj [(js ''model'', JStr (js ''openclaw'')), (js ''stream'', JBool False),
                  (js ''messages'', JArr [JObj [(js ''role'', JStr (js ''user'')),
                     (js ''content'', JStr (pi_message (gc_prepared c)))]])]\<rparr>])
      | _ \<Rightarrow> [])"

text \<open>The HTTP run starts here, with its request; its end is the input \<open>HttpDone\<close>.\<close>

definition failBeforeAccepted :: "gw_config \<Rightarrow> jstr \<Rightarrow> gateway_error \<Rightarrow> gw \<Rightarrow> gw" where
  "failBeforeAccepted c now e g =
     (if gw_settled g then failAfterAccepted c now e g
      else if gw_fallback g \<noteq> NoFallback then g
      else (gw_cleanup (g\<lparr>gw_fallback := FallbackRunning e\<rparr>))
             \<lparr>gw_requests := gw_requests g @ http_request_of c (gw_sessionKey g)\<rparr>)"

text \<open>One part of a message's content.\<close>

definition content_part :: "json \<Rightarrow> jstr" where
  "content_part item =
     (case (prop_str item (js ''type''), prop_str item (js ''text''), prop_str item (js ''input_text'')) of
        (ty, tx, ip) \<Rightarrow>
          if ty = Some (js ''text'') \<and> tx \<noteq> None then the tx
          else if ty = Some (js ''input_text'') \<and> ip \<noteq> None then the ip
          else case ip of Some s \<Rightarrow> s | None \<Rightarrow> [])"

definition extractContent :: "json option \<Rightarrow> jstr" where
  "extractContent content =
     (case content of
        Some (JStr s) \<Rightarrow> js_trim s
      | Some (JArr items) \<Rightarrow> js_trim (js_join [10] (filter (\<lambda>s. s \<noteq> []) (map content_part items)))
      | _ \<Rightarrow> [])"

text \<open>\<^verbatim>\<open>payload.choices?.[0]\<close>.\<close>

definition first_choice :: "json option \<Rightarrow> json option" where
  "first_choice v =
     (case v of
        Some (JArr (x # _)) \<Rightarrow> Some x
      | Some (JObj ms) \<Rightarrow> jprop (JObj ms) (js ''0'')
      | Some (JStr (ch # _)) \<Rightarrow> Some (JStr [ch])
      | _ \<Rightarrow> None)"

text \<open>\<^verbatim>\<open>v?.key\<close> where \<^verbatim>\<open>v\<close> may be missing.\<close>

definition opt_prop :: "json option \<Rightarrow> jstr \<Rightarrow> json option" where
  "opt_prop v k = Option.bind v (\<lambda>j. jprop j k)"

definition opt_text :: "json option \<Rightarrow> jstr" where
  "opt_text v = (case v of Some (JStr s) \<Rightarrow> js_trim s | _ \<Rightarrow> [])"

text \<open>The error of a response that is not ok.\<close>

definition http_status_error :: "nat \<Rightarrow> json option \<Rightarrow> gateway_error" where
  "http_status_error status payload =
     (let message = opt_text (opt_prop (opt_prop payload (js ''error'')) (js ''message''))
      in if status = 401
         then toGatewayExecutionError (js ''AUTH_REQUIRED'')
                (or_else message (js ''gateway token/password invalid''))
         else if status = 404
         then toGatewayExecutionError (js ''HTTP_CHAT_COMPLETIONS_DISABLED'')
                (or_else message (js ''OpenClaw HTTP chat completions endpoint is disabled. Enable gateway.http.endpoints.chatCompletions.enabled.''))
         else if status \<ge> 500
         then toGatewayExecutionError (js ''UNAVAILABLE'')
                (or_else message (js ''gateway http chat completions request failed''))
         else toGatewayExecutionError (js ''GATEWAY_ERROR'')
                (or_else message (js ''gateway http fallback failed: '' @ js_of_nat status)))"

text \<open>The typing of an error thrown: it is kept where it carries a code.\<close>

definition typed_http_error :: "jstr option \<Rightarrow> jstr \<Rightarrow> gateway_error" where
  "typed_http_error code m =
     (case code of
        Some k \<Rightarrow> \<lparr>ge_code = k, ge_retryable = False, ge_message = m\<rparr>
      | None \<Rightarrow> toGatewayExecutionError (js ''UNAVAILABLE'') m)"

text \<open>The reply and run id of an ok response.\<close>

definition http_reply :: "gw_config \<Rightarrow> jstr + json \<Rightarrow> gateway_error + jstr \<times> jstr" where
  "http_reply c body =
     (case body of
        Inl m \<Rightarrow> Inl (typed_http_error None m)
      | Inr JNull \<Rightarrow> Inl (typed_http_error None (js ''Cannot read properties of null (reading choices)''))
      | Inr payload \<Rightarrow>
          (let reply = extractContent (opt_prop (opt_prop (first_choice (jprop payload (js ''choices'')))
                         (js ''message'')) (js ''content''))
           in if reply = []
              then Inl (toGatewayExecutionError (js ''EMPTY_RESPONSE'') (js ''gateway returned an empty reply''))
              else Inr (reply, or_else (opt_text (jprop payload (js ''id'')))
                                 (js ''http-'' @ gi_taskId (gc_input c)))))"

definition executeGatewayTaskViaHttp ::
  "gw_config \<Rightarrow> jstr \<Rightarrow> jstr \<Rightarrow> http_outcome \<Rightarrow> gateway_error + accepted_run \<times> task_event list" where
  "executeGatewayTaskViaHttp c now sessionKey outcome =
     (if pi_attachments (gc_prepared c) \<noteq> []
      then Inl (toGatewayExecutionError (js ''HTTP_ATTACHMENTS_UNSUPPORTED'')
             (js ''gateway websocket image attachments are required for image-backed tasks''))
      else case toHttpGatewayUrl c of
             Inl e \<Rightarrow> Inl e
           | Inr url \<Rightarrow>
               (case outcome of
                  HttpThrows code m \<Rightarrow> Inl (typed_http_error code m)
                | HttpResponse ok status body \<Rightarrow>
                    if \<not> ok
                    then Inl (http_status_error status (case body of Inl _ \<Rightarrow> None | Inr v \<Rightarrow> Some v))
                    else case http_reply c body of
                           Inl e \<Rightarrow> Inl e
                         | Inr (reply, runId) \<Rightarrow>
                             Inr (\<lparr>ac_taskId = gi_taskId (gc_input c), ac_sessionId = gi_sessionId (gc_input c),
                                   ac_runId = runId, ac_sessionKey = sessionKey\<rparr>,
                                  map (gw_event c now runId) [Accepted, Delta reply, CompletedEv])))"

text \<open>The continuation of the HTTP run.\<close>

definition gw_http_done :: "gw_config \<Rightarrow> jstr \<Rightarrow> http_outcome \<Rightarrow> gw \<Rightarrow> gw" where
  "gw_http_done c now outcome g =
     (case gw_fallback g of
        FallbackRunning wsError \<Rightarrow>
          (let g1 = g\<lparr>gw_fallback := FallbackDone\<rparr>
           in case executeGatewayTaskViaHttp c now (gw_sessionKey g) outcome of
                Inl e \<Rightarrow> rejectExecution (combineGatewayErrors wsError e) g1
              | Inr (r, es) \<Rightarrow>
                  (let g2 = g1\<lparr>gw_events := gw_events g1 @ es\<rparr>
                   in if gw_settled g2 then g2
                      else g2\<lparr>gw_settled := True, gw_outcome := Some (Inr r)\<rparr>))
      | _ \<Rightarrow> g)"

section \<open>Frames\<close>

definition gw_agent_frame :: "gw_config \<Rightarrow> jstr \<Rightarrow> event_payload \<Rightarrow> gw \<Rightarrow> gw" where
  "gw_agent_frame c now p g =
     (let runId = (case ep_runId p of Some r \<Rightarrow> r | None \<Rightarrow> gw_runId g)
      in case extractArtifactResult (gc_vurl c) [map_option JObj (ep_data p), ep_message p] of
           Some a \<Rightarrow> gw_emit c now runId (ResultCreated (ArtifactResult a)) g
         | None \<Rightarrow>
             if ep_stream p = Some (js ''assistant'')
             then (let (delta, snapshot) = normalizeAssistantDelta (snapshot_text p) (gw_lastSnapshot g);
                       g1 = g\<lparr>gw_lastSnapshot := snapshot\<rparr>
                   in if delta \<noteq> [] then gw_emit c now runId (Delta delta) g1 else g1)
             else gw_emit c now runId
                    (StageChanged (case ep_stream p of Some s \<Rightarrow> s | None \<Rightarrow> js ''agent'')) g)"

definition gw_chat_frame :: "gw_config \<Rightarrow> jstr \<Rightarrow> event_payload \<Rightarrow> gw \<Rightarrow> gw" where
  "gw_chat_frame c now p g =
     (let runId = (case ep_runId p of Some r \<Rightarrow> r | None \<Rightarrow> gw_runId g);
          state = (case ep_state p of Some s \<Rightarrow> s | None \<Rightarrow> js ''unknown'');
          g1 = (case extractArtifactResult (gc_vurl c) [ep_message p, map_option JObj (ep_data p)] of
                  Some a \<Rightarrow> gw_emit c now runId (ResultCreated (ArtifactResult a)) g
                | None \<Rightarrow> g)
      in if state = js ''error'' then
           failAfterAccepted c now (toGatewayExecutionError (js ''GATEWAY_ERROR'')
             (case ep_errorMessage p of Some m \<Rightarrow> m | None \<Rightarrow> js ''gateway task failed'')) g1
         else if state = js ''aborted'' then
           failAfterAccepted c now (toGatewayExecutionError (js ''ABORTED'') (js ''gateway task was aborted'')) g1
         else if state = js ''final'' then gw_cleanup (gw_emit c now runId CompletedEv g1)
         else g1)"

definition gw_connected :: "gw_config \<Rightarrow> success_payload \<Rightarrow> gw \<Rightarrow> gw" where
  "gw_connected c p g =
     (let key = resolveGatewaySessionKey (gi_sessionId (gc_input c)) (agent_id (gc_env c))
                  (case sp_mainSessionKey p of Some k \<Rightarrow> k | None \<Rightarrow> js ''main'')
      in gw_send (buildChatRequest (gi_taskId (gc_input c)) key (pi_message (gc_prepared c))
                   (pi_attachments (gc_prepared c))
                   (case gi_taskTimeoutMs (gc_input c) of Some t \<Rightarrow> t | None \<Rightarrow> 30000))
           (g\<lparr>gw_sessionKey := key\<rparr>))"

definition gw_accepted :: "gw_config \<Rightarrow> jstr \<Rightarrow> success_payload \<Rightarrow> gw \<Rightarrow> gw" where
  "gw_accepted c now p g =
     (let runId = or_else (asNonEmptyString (sp_runId p)) (gi_taskId (gc_input c));
          g1 = gw_emit c now runId Accepted (g\<lparr>gw_runId := runId\<rparr>)
      in resolveAccepted \<lparr>ac_taskId = gi_taskId (gc_input c), ac_sessionId = gi_sessionId (gc_input c),
           ac_runId = runId, ac_sessionKey = gw_sessionKey g1\<rparr> g1)"

definition opt_or :: "jstr option \<Rightarrow> string \<Rightarrow> jstr" where
  "opt_or v d = (case v of Some s \<Rightarrow> s | None \<Rightarrow> js d)"

definition gw_frame :: "gw_config \<Rightarrow> jstr \<Rightarrow> gateway_frame \<Rightarrow> gw \<Rightarrow> gw" where
  "gw_frame c now f g =
     (if is_challenge f then gw_send (buildConnectRequest (gc_env c) (gc_input c)) g
      else case f of
        SuccessFrame fid p \<Rightarrow>
          if fid = js ''connect-1'' then gw_connected c p g
          else if fid = gi_taskId (gc_input c) then gw_accepted c now p g
          else g
      | ErrorFrame fid code msg \<Rightarrow>
          if fid = js ''connect-1''
          then failBeforeAccepted c now (toGatewayExecutionError (opt_or code ''UNKNOWN'')
                 (opt_or msg ''gateway connect rejected'')) g
          else if fid = gi_taskId (gc_input c)
          then (let e = toGatewayExecutionError (opt_or code ''UNKNOWN'') (opt_or msg ''gateway task rejected'')
                in if \<not> gw_settled g then rejectExecution e g else failAfterAccepted c now e g)
          else g
      | EventFrame ev p \<Rightarrow>
          if ev = js ''agent'' then gw_agent_frame c now p g
          else if ev = js ''chat'' then gw_chat_frame c now p g
          else g
      | ChallengeFrame _ \<Rightarrow> g)"

section \<open>Socket events and timers\<close>

definition gw_ws_error :: "gw_config \<Rightarrow> jstr \<Rightarrow> jstr \<Rightarrow> gw \<Rightarrow> gw" where
  "gw_ws_error c now m g =
     (let e = toGatewayExecutionError (js ''UNAVAILABLE'') (or_else m (js ''gateway websocket request failed''))
      in if \<not> gw_settled g then failBeforeAccepted c now e g else failAfterAccepted c now e g)"

definition gw_ws_close :: "gw_config \<Rightarrow> jstr \<Rightarrow> nat \<Rightarrow> jstr \<Rightarrow> gw \<Rightarrow> gw" where
  "gw_ws_close c now code reason g =
     (let detail = js_trim reason;
          message = js ''gateway connection closed ('' @ js_of_nat code @ js '')''
                    @ (if detail \<noteq> [] then js '': '' @ detail else []);
          e = toGatewayExecutionError (js ''UNAVAILABLE'') message
      in if \<not> gw_settled g then failBeforeAccepted c now e g
         else if code \<noteq> 1000 then failAfterAccepted c now e g
         else g)"

definition gw_connect_timeout :: "gw_config \<Rightarrow> jstr \<Rightarrow> gw \<Rightarrow> gw" where
  "gw_connect_timeout c now g =
     (if gw_connectTimer g
      then failBeforeAccepted c now
             (toGatewayExecutionError (js ''AGENT_TIMEOUT'') (js ''gateway connect timed out''))
             (g\<lparr>gw_connectTimer := False\<rparr>)
      else g)"

text \<open>
  The socket's ready state follows the socket; its listeners are called only while they are
  attached. A frame that is no JSON throws out of the listener.
\<close>

fun gw_step :: "gw_config \<Rightarrow> gw_in \<Rightarrow> gw \<Rightarrow> gw" where
  "gw_step c WsOpen g = g\<lparr>gw_ready := (if gw_ready g = Connecting then Opened else gw_ready g)\<rparr>"
| "gw_step c (WsFrame now f) g = (if gw_listening g then gw_frame c now f g else g)"
| "gw_step c WsInvalid g = (if gw_listening g then g\<lparr>gw_uncaught := True\<rparr> else g)"
| "gw_step c (WsError now m) g = (if gw_listening g then gw_ws_error c now m g else g)"
| "gw_step c (WsClose now code reason) g =
     (let g1 = g\<lparr>gw_ready := Closed\<rparr>
      in if gw_listening g then gw_ws_close c now code reason g1 else g1)"
| "gw_step c (ConnectTimeout now) g = gw_connect_timeout c now g"
| "gw_step c (GwCancel now) g = gw_cancel c now g"
| "gw_step c GwClose g = gw_cleanup g"
| "gw_step c (HttpDone now outcome) g = gw_http_done c now outcome g"

definition gw_run :: "gw_config \<Rightarrow> gw_in list \<Rightarrow> gw \<Rightarrow> gw" where
  "gw_run c is g = fold (gw_step c) is g"

text \<open>
  \<^verbatim>\<open>executeGatewayTask\<close>: the input is prepared and the socket opened, or the promise is
  rejected at once (\<open>wsError\<close> is the message with which \<^verbatim>\<open>new WebSocket\<close> throws, if it does).
\<close>

definition executeGatewayTask ::
  "input_calls \<Rightarrow> (jstr \<Rightarrow> bool) \<Rightarrow> (jstr \<Rightarrow> gateway_url option) \<Rightarrow> jstr option \<Rightarrow> gateway_input \<Rightarrow>
     exn + gw_config \<times> gw" where
  "executeGatewayTask calls vurl parse wsError i =
     (case prepareGatewayInput calls (gi_message i) (gi_files i) of
        Inl e \<Rightarrow> Inl (gateway_exn (toGatewayExecutionError (js ''INVALID_REQUEST'') (input_error_message e)))
      | Inr prepared \<Rightarrow>
          (case wsError of
             Some m \<Rightarrow> Inl (JsError None m)
           | None \<Rightarrow>
               (let c = \<lparr>gc_env = ic_env calls, gc_input = i, gc_prepared = prepared, gc_vurl = vurl,
                         gc_url = parse\<rparr>
                in Inr (c, gw_initial c))))"

definition sendTaskToGateway :: "jstr \<Rightarrow> jstr \<Rightarrow> jstr \<Rightarrow> gateway_input" where
  "sendTaskToGateway url requestId message =
     \<lparr>gi_gatewayUrl = url, gi_taskId = requestId, gi_sessionId = js ''session-1'', gi_message = message,
      gi_files = None, gi_gatewayToken = None, gi_gatewayPassword = None, gi_taskTimeoutMs = None\<rparr>"

end
