(* ===== verification/PersistentClient.thy ===== *)
theory PersistentClient
  imports GatewayClient
begin

text \<open>
  \<^verbatim>\<open>apps/openclaw-adapter/src/persistent-gateway-client.ts\<close>: the adapter's one connection to
  the gateway, which all task runs share, with reconnection, a heartbeat, and the client of
  \<^verbatim>\<open>gateway-client.ts\<close> as the fallback of a run it cannot place.

  The \<^verbatim>\<open>ActiveTask\<close> objects are shared between two maps and the timers, so they live in a store
  (\<open>pc_tasks\<close>) under the number of their execution, and the maps hold numbers. Sockets are
  numbered too, because the handlers of a socket that was replaced stay attached. An
  execution (one call of \<^verbatim>\<open>execute\<close>) goes through the phases below; what awaits a promise is run
  in the step that settles it, as the microtasks that follow a handler are.
\<close>

section \<open>State\<close>

record pc_config =
  cf_env :: env
  cf_gatewayUrl :: jstr
  cf_gatewayToken :: "jstr option"
  cf_gatewayPassword :: "jstr option"
  cf_taskTimeoutMs :: "int option"
  cf_wsError :: "jstr option"
  cf_vurl :: "jstr \<Rightarrow> bool"
  cf_url :: "jstr \<Rightarrow> gateway_url option"

record active_task =
  at_input :: gateway_input
  at_sessionKey :: jstr
  at_runId :: jstr
  at_lastSnapshot :: jstr
  at_settled :: bool
  at_timer :: bool

record fallback_entry =
  fb_exec :: nat
  fb_sessionId :: jstr
  fb_runId :: jstr

text \<open>Where the promise of an execution stands.\<close>

datatype exec_phase =
    Preparing gateway_input
  | AwaitingConnection gateway_input prepared_input
  | AwaitingAccept gateway_input
  | FallbackPreparing gateway_input
  | FallbackStarted gateway_input
  | ExecSettled

datatype socket_call = SendCall gateway_request | PingCall | TerminateCall | CloseCall

text \<open>\<open>pc_waiting\<close> is the connection promise with the executions that await it.\<close>

record pc =
  pc_socket :: "nat option"
  pc_ready :: "(nat, ready_state) jmap"
  pc_nextSocket :: nat
  pc_waiting :: "nat list option"
  pc_connectTimer :: "nat option"
  pc_heartbeat :: bool
  pc_reconnectTimer :: bool
  pc_connected :: bool
  pc_closed :: bool
  pc_lastPong :: bool
  pc_tasks :: "(nat, active_task) jmap"
  pc_activeByTask :: "(jstr, nat) jmap"
  pc_taskByRun :: "(jstr, nat) jmap"
  pc_fallbackByTask :: "(jstr, fallback_entry) jmap"
  pc_runs :: "(nat, gw_config \<times> gw) jmap"
  pc_phase :: "(nat, exec_phase) jmap"
  pc_calls :: "(nat \<times> socket_call) list"
  pc_events :: "(nat \<times> task_event) list"
  pc_outcomes :: "(nat \<times> (exn + accepted_run)) list"
  pc_uncaught :: bool

definition pc_new :: pc where
  "pc_new =
     \<lparr>pc_socket = None, pc_ready = [], pc_nextSocket = 0, pc_waiting = None, pc_connectTimer = None,
      pc_heartbeat = False, pc_reconnectTimer = False, pc_connected = False, pc_closed = False,
      pc_lastPong = True, pc_tasks = [], pc_activeByTask = [], pc_taskByRun = [], pc_fallbackByTask = [],
      pc_runs = [], pc_phase = [], pc_calls = [], pc_events = [], pc_outcomes = [], pc_uncaught = False\<rparr>"

definition pc_error :: "string \<Rightarrow> string \<Rightarrow> exn" where
  "pc_error code message = JsError (Some (js code)) (js message)"

text \<open>\<^verbatim>\<open>error.code ?? "GATEWAY_ERROR"\<close>.\<close>

definition error_code_or :: "exn \<Rightarrow> jstr" where
  "error_code_or e = (case exn_code e of Some c \<Rightarrow> c | None \<Rightarrow> js ''GATEWAY_ERROR'')"

section \<open>The socket\<close>

definition socket_open :: "pc \<Rightarrow> bool" where
  "socket_open s \<longleftrightarrow> Option.bind (pc_socket s) (jm_get (pc_ready s)) = Some Opened"

text \<open>A call on the current socket, if there is one.\<close>

definition socket_call :: "socket_call \<Rightarrow> pc \<Rightarrow> pc" where
  "socket_call k s =
     (case pc_socket s of None \<Rightarrow> s | Some n \<Rightarrow> s\<lparr>pc_calls := pc_calls s @ [(n, k)]\<rparr>)"

text \<open>\<^verbatim>\<open>terminate\<close> and \<^verbatim>\<open>close\<close> leave the socket closing until its close event.\<close>

definition end_socket :: "nat \<Rightarrow> socket_call \<Rightarrow> pc \<Rightarrow> pc" where
  "end_socket n k s =
     s\<lparr>pc_calls := pc_calls s @ [(n, k)],
       pc_ready := (if jm_get (pc_ready s) n = Some Closed then pc_ready s
                    else jm_set n Closing (pc_ready s))\<rparr>"

definition end_current :: "socket_call \<Rightarrow> pc \<Rightarrow> pc" where
  "end_current k s = (case pc_socket s of None \<Rightarrow> s | Some n \<Rightarrow> end_socket n k s)"

section \<open>Executions and their promises\<close>

definition set_phase :: "nat \<Rightarrow> exec_phase \<Rightarrow> pc \<Rightarrow> pc" where
  "set_phase x ph s = s\<lparr>pc_phase := jm_set x ph (pc_phase s)\<rparr>"

definition settle :: "nat \<Rightarrow> exn + accepted_run \<Rightarrow> pc \<Rightarrow> pc" where
  "settle x r s = set_phase x ExecSettled (s\<lparr>pc_outcomes := pc_outcomes s @ [(x, r)]\<rparr>)"

text \<open>
  The \<^verbatim>\<open>catch\<close> of \<^verbatim>\<open>execute\<close>: the persistent run failed; a client that is closed passes the error
  on, any other starts the fallback, which prepares the input again.
\<close>

definition persistent_failed :: "nat \<Rightarrow> gateway_input \<Rightarrow> exn \<Rightarrow> pc \<Rightarrow> pc" where
  "persistent_failed x i e s =
     (if pc_closed s then settle x (Inl e) s else set_phase x (FallbackPreparing i) s)"

text \<open>\<^verbatim>\<open>active.reject\<close> and \<^verbatim>\<open>active.resolve\<close>: without effect on a promise that is settled.\<close>

definition active_reject :: "nat \<Rightarrow> exn \<Rightarrow> pc \<Rightarrow> pc" where
  "active_reject x e s =
     (case jm_get (pc_phase s) x of
        Some (AwaitingAccept i) \<Rightarrow> persistent_failed x i e s
      | _ \<Rightarrow> s)"

definition active_resolve :: "nat \<Rightarrow> accepted_run \<Rightarrow> pc \<Rightarrow> pc" where
  "active_resolve x r s =
     (case jm_get (pc_phase s) x of
        Some (AwaitingAccept i) \<Rightarrow> settle x (Inr r) s
      | _ \<Rightarrow> s)"

section \<open>Tasks\<close>

definition upd_active :: "nat \<Rightarrow> (active_task \<Rightarrow> active_task) \<Rightarrow> pc \<Rightarrow> pc" where
  "upd_active x f s =
     (case jm_get (pc_tasks s) x of
        None \<Rightarrow> s
      | Some a \<Rightarrow> s\<lparr>pc_tasks := jm_set x (f a) (pc_tasks s)\<rparr>)"

definition pc_event :: "jstr \<Rightarrow> active_task \<Rightarrow> event_detail \<Rightarrow> task_event" where
  "pc_event now a d =
     \<lparr>ev_base = \<lparr>ev_taskId = gi_taskId (at_input a), ev_sessionId = gi_sessionId (at_input a),
                 ev_runId = or_else (at_runId a) (gi_taskId (at_input a)), ev_timestamp = now\<rparr>,
      ev_detail = d\<rparr>"

text \<open>The event of an execution's task passed to its handler.\<close>

definition pc_emit :: "jstr \<Rightarrow> nat \<Rightarrow> event_detail \<Rightarrow> pc \<Rightarrow> pc" where
  "pc_emit now x d s =
     (case jm_get (pc_tasks s) x of
        None \<Rightarrow> s
      | Some a \<Rightarrow> s\<lparr>pc_events := pc_events s @ [(x, pc_event now a d)]\<rparr>)"

definition emitFailure :: "jstr \<Rightarrow> nat \<Rightarrow> exn \<Rightarrow> pc \<Rightarrow> pc" where
  "emitFailure now x e s = pc_emit now x (FailedEv (error_code_or e) (exn_message e)) s"

definition removeTask :: "nat \<Rightarrow> pc \<Rightarrow> pc" where
  "removeTask x s =
     (case jm_get (pc_tasks s) x of
        None \<Rightarrow> s
      | Some a \<Rightarrow>
          upd_active x (\<lambda>a. a\<lparr>at_timer := False\<rparr>)
            (s\<lparr>pc_activeByTask := jm_delete (gi_taskId (at_input a)) (pc_activeByTask s),
               pc_taskByRun := (if at_runId a \<noteq> [] then jm_delete (at_runId a) (pc_taskByRun s)
                                else pc_taskByRun s)\<rparr>))"

text \<open>Reject a task that was not accepted yet, fail one that was: the two ways a task is lost.\<close>

definition lose_task :: "jstr \<Rightarrow> exn \<Rightarrow> nat \<Rightarrow> pc \<Rightarrow> pc" where
  "lose_task now e x s =
     (case jm_get (pc_tasks s) x of
        None \<Rightarrow> s
      | Some a \<Rightarrow>
          if \<not> at_settled a then active_reject x e (upd_active x (\<lambda>a. a\<lparr>at_settled := True\<rparr>) s)
          else emitFailure now x e s)"

definition failAll :: "jstr \<Rightarrow> exn \<Rightarrow> pc \<Rightarrow> pc" where
  "failAll now e s =
     (fold (\<lambda>x s. upd_active x (\<lambda>a. a\<lparr>at_timer := False\<rparr>) (lose_task now e x s))
        (jm_values (pc_activeByTask s)) s)\<lparr>pc_activeByTask := [], pc_taskByRun := []\<rparr>"

definition findActive :: "jstr option \<Rightarrow> jstr option \<Rightarrow> pc \<Rightarrow> nat option" where
  "findActive runId sessionKey s =
     (if truthy runId \<and> jm_get (pc_taskByRun s) (the runId) \<noteq> None
      then jm_get (pc_taskByRun s) (the runId)
      else if truthy sessionKey
      then find (\<lambda>x. map_option at_sessionKey (jm_get (pc_tasks s) x) = sessionKey)
             (jm_values (pc_activeByTask s))
      else case pc_activeByTask s of [(t, x)] \<Rightarrow> Some x | _ \<Rightarrow> None)"

section \<open>Connecting\<close>

definition rejectCurrentConnection :: "exn \<Rightarrow> pc \<Rightarrow> pc" where
  "rejectCurrentConnection e s =
     (let waiters = (case pc_waiting s of None \<Rightarrow> [] | Some xs \<Rightarrow> xs);
          s1 = s\<lparr>pc_connectTimer := None, pc_waiting := None\<rparr>
      in fold (\<lambda>x s. case jm_get (pc_phase s) x of
                       Some (AwaitingConnection i p) \<Rightarrow> persistent_failed x i e s
                     | _ \<Rightarrow> s) waiters s1)"

text \<open>
  A new socket and a new promise, unless one is open or under way. \<^verbatim>\<open>new WebSocket\<close> throws for
  a URL it does not accept, after the promise was stored.
\<close>

definition ensureConnected :: "pc_config \<Rightarrow> pc \<Rightarrow> pc \<times> exn option" where
  "ensureConnected c s =
     (if pc_connected s \<and> socket_open s then (s, None)
      else if pc_waiting s \<noteq> None then (s, None)
      else
        let s1 = s\<lparr>pc_waiting := Some []\<rparr>
        in case cf_wsError c of
             Some m \<Rightarrow> (s1, Some (JsError None m))
           | None \<Rightarrow>
               (let n = pc_nextSocket s1
                in (s1\<lparr>pc_socket := Some n, pc_ready := jm_set n Connecting (pc_ready s1),
                       pc_nextSocket := Suc n, pc_connectTimer := Some n\<rparr>, None)))"

definition handleDisconnect :: "jstr \<Rightarrow> exn \<Rightarrow> pc \<Rightarrow> pc" where
  "handleDisconnect now e s =
     (let s1 = rejectCurrentConnection e (s\<lparr>pc_connected := False, pc_heartbeat := False\<rparr>);
          s2 = (if pc_connected s then failAll now e s1 else s1)
      in if \<not> pc_closed s2 \<and> \<not> pc_reconnectTimer s2 then s2\<lparr>pc_reconnectTimer := True\<rparr> else s2)"

definition startHeartbeat :: "pc \<Rightarrow> pc" where
  "startHeartbeat s = s\<lparr>pc_lastPong := True, pc_heartbeat := True\<rparr>"

definition heartbeat_tick :: "pc \<Rightarrow> pc" where
  "heartbeat_tick s =
     (if \<not> pc_heartbeat s \<or> \<not> socket_open s then s
      else if \<not> pc_lastPong s then end_current TerminateCall s
      else socket_call PingCall (s\<lparr>pc_lastPong := False\<rparr>))"

section \<open>Executing\<close>

text \<open>The client's own \<^verbatim>\<open>buildChatRequest\<close>, with its task timeout.\<close>

definition persistentChatRequest ::
  "pc_config \<Rightarrow> jstr \<Rightarrow> jstr \<Rightarrow> jstr \<Rightarrow> gateway_attachment list \<Rightarrow> gateway_request" where
  "persistentChatRequest c taskId sessionKey message attachments =
     buildChatRequest taskId sessionKey message attachments
       (case cf_taskTimeoutMs c of Some t \<Rightarrow> t | None \<Rightarrow> 120000)"

text \<open>The rest of \<^verbatim>\<open>executePersistent\<close> once the connection promise is fulfilled.\<close>

definition place_task :: "pc_config \<Rightarrow> nat \<Rightarrow> gateway_input \<Rightarrow> prepared_input \<Rightarrow> pc \<Rightarrow> pc" where
  "place_task c x i p s =
     (if \<not> socket_open s
      then persistent_failed x i (pc_error ''GATEWAY_UNAVAILABLE'' ''gateway connection is unavailable'') s
      else
        let sessionKey = sessionKeyFor (gi_sessionId i) (agent_id (cf_env c));
            a = \<lparr>at_input = i, at_sessionKey = sessionKey, at_runId = [], at_lastSnapshot = [],
                 at_settled = False, at_timer = True\<rparr>;
            s1 = s\<lparr>pc_tasks := jm_set x a (pc_tasks s),
                   pc_activeByTask := jm_set (gi_taskId i) x (pc_activeByTask s)\<rparr>
        in set_phase x (AwaitingAccept i)
             (socket_call (SendCall (persistentChatRequest c (gi_taskId i) sessionKey (pi_message p)
                (pi_attachments p))) s1))"

text \<open>\<^verbatim>\<open>execute\<close> begins by preparing the input, with the options of the client filled in.\<close>

definition execute :: "pc_config \<Rightarrow> nat \<Rightarrow> gateway_input \<Rightarrow> pc \<Rightarrow> pc" where
  "execute c x i s =
     set_phase x (Preparing (i\<lparr>gi_gatewayUrl := cf_gatewayUrl c, gi_gatewayToken := cf_gatewayToken c,
       gi_gatewayPassword := cf_gatewayPassword c, gi_taskTimeoutMs := cf_taskTimeoutMs c\<rparr>)) s"

fun input_exn :: "input_error \<Rightarrow> exn" where
  "input_exn (ParseFileError FileNotFound m) = JsError (Some (js ''FILE_NOT_FOUND'')) m"
| "input_exn (ParseFileError FileTooLarge m) = JsError (Some (js ''FILE_TOO_LARGE'')) m"
| "input_exn (ParseFileError ParseFailed m) = JsError (Some (js ''PARSE_FAILED'')) m"
| "input_exn (ParseFileError UnsupportedFileType m) = JsError (Some (js ''UNSUPPORTED_FILE_TYPE'')) m"
| "input_exn (PlainError m) = JsError None m"

definition executePersistent ::
  "pc_config \<Rightarrow> nat \<Rightarrow> input_error + prepared_input \<Rightarrow> pc \<Rightarrow> pc" where
  "executePersistent c x prep s =
     (case jm_get (pc_phase s) x of
        Some (Preparing i) \<Rightarrow>
          (case prep of
             Inl e \<Rightarrow> persistent_failed x i (input_exn e) s
           | Inr p \<Rightarrow>
               (case ensureConnected c s of
                  (s1, Some e) \<Rightarrow> persistent_failed x i e s1
                | (s1, None) \<Rightarrow>
                    (case pc_waiting s1 of
                       Some xs \<Rightarrow>
                         if pc_connected s1 \<and> socket_open s1 then place_task c x i p s1
                         else set_phase x (AwaitingConnection i p) (s1\<lparr>pc_waiting := Some (xs @ [x])\<rparr>)
                     | None \<Rightarrow> place_task c x i p s1)))
      | _ \<Rightarrow> s)"

definition resolve_connection :: "pc_config \<Rightarrow> pc \<Rightarrow> pc" where
  "resolve_connection c s =
     (let waiters = (case pc_waiting s of None \<Rightarrow> [] | Some xs \<Rightarrow> xs);
          s1 = startHeartbeat (s\<lparr>pc_connected := True, pc_connectTimer := None, pc_waiting := None\<rparr>)
      in fold (\<lambda>x s. case jm_get (pc_phase s) x of
                       Some (AwaitingConnection i p) \<Rightarrow> place_task c x i p s
                     | _ \<Rightarrow> s) waiters s1)"

text \<open>The timer of an execution: it looks its task up by id when it fires.\<close>

definition task_timeout :: "jstr \<Rightarrow> nat \<Rightarrow> pc \<Rightarrow> pc" where
  "task_timeout now x s =
     (case jm_get (pc_tasks s) x of
        None \<Rightarrow> s
      | Some a \<Rightarrow>
          if \<not> at_timer a then s
          else
            let s1 = upd_active x (\<lambda>a. a\<lparr>at_timer := False\<rparr>) s
            in case jm_get (pc_activeByTask s1) (gi_taskId (at_input a)) of
                 None \<Rightarrow> s1
               | Some y \<Rightarrow> removeTask y (lose_task now (pc_error ''TASK_TIMEOUT'' ''gateway task timed out'') y s1))"

section \<open>Frames\<close>

definition on_response_ok :: "jstr \<Rightarrow> nat \<Rightarrow> success_payload \<Rightarrow> pc \<Rightarrow> pc" where
  "on_response_ok now x p s =
     (case jm_get (pc_tasks s) x of
        None \<Rightarrow> s
      | Some a \<Rightarrow>
          let runId = or_else (asNonEmptyString (sp_runId p)) (gi_taskId (at_input a));
              s1 = upd_active x (\<lambda>a. a\<lparr>at_runId := runId\<rparr>) s;
              s2 = s1\<lparr>pc_taskByRun := jm_set runId x (pc_taskByRun s1)\<rparr>;
              s3 = pc_emit now x Accepted s2;
              s4 = upd_active x (\<lambda>a. a\<lparr>at_settled := True\<rparr>) s3
          in active_resolve x \<lparr>ac_taskId = gi_taskId (at_input a), ac_sessionId = gi_sessionId (at_input a),
               ac_runId = runId, ac_sessionKey = at_sessionKey a\<rparr> s4)"

definition on_response_error :: "nat \<Rightarrow> jstr option \<Rightarrow> jstr option \<Rightarrow> pc \<Rightarrow> pc" where
  "on_response_error x code msg s =
     removeTask x (active_reject x
       (JsError (Some (opt_or code ''GATEWAY_ERROR'')) (opt_or msg ''gateway task rejected''))
       (upd_active x (\<lambda>a. a\<lparr>at_settled := True\<rparr>) s))"

definition on_assistant :: "jstr \<Rightarrow> nat \<Rightarrow> event_payload \<Rightarrow> pc \<Rightarrow> pc" where
  "on_assistant now x p s =
     (case jm_get (pc_tasks s) x of
        None \<Rightarrow> s
      | Some a \<Rightarrow>
          let (delta, snapshot) = normalizeAssistantDelta (snapshot_text p) (at_lastSnapshot a);
              s1 = upd_active x (\<lambda>a. a\<lparr>at_lastSnapshot := snapshot\<rparr>) s
          in if delta \<noteq> [] then pc_emit now x (Delta delta) s1 else s1)"

definition on_chat_state :: "jstr \<Rightarrow> nat \<Rightarrow> event_payload \<Rightarrow> pc \<Rightarrow> pc" where
  "on_chat_state now x p s =
     (if ep_state p = Some (js ''error'') then
        removeTask x (emitFailure now x
          (JsError (Some (js ''GATEWAY_ERROR'')) (opt_or (ep_errorMessage p) ''gateway task failed'')) s)
      else if ep_state p = Some (js ''aborted'') then
        removeTask x (emitFailure now x (pc_error ''GATEWAY_ABORTED'' ''gateway task was aborted'') s)
      else if ep_state p = Some (js ''final'') then removeTask x (pc_emit now x CompletedEv s)
      else s)"

definition on_task_event :: "pc_config \<Rightarrow> jstr \<Rightarrow> jstr \<Rightarrow> event_payload \<Rightarrow> pc \<Rightarrow> pc" where
  "on_task_event c now ev p s =
     (case findActive (ep_runId p) (ep_sessionKey p) s of
        None \<Rightarrow> s
      | Some x \<Rightarrow>
          let found = extractArtifactResult (cf_vurl c) [map_option JObj (ep_data p), ep_message p];
              s1 = (case found of Some a \<Rightarrow> pc_emit now x (ResultCreated (ArtifactResult a)) s | None \<Rightarrow> s)
          in if ev = js ''agent'' then
               (if ep_stream p = Some (js ''assistant'') then on_assistant now x p s1
                else if found = None then pc_emit now x (StageChanged (opt_or (ep_stream p) ''agent'')) s1
                else s1)
             else on_chat_state now x p s1)"

text \<open>A frame, or text that is no JSON.\<close>

definition handleMessage :: "pc_config \<Rightarrow> jstr \<Rightarrow> gateway_frame option \<Rightarrow> pc \<Rightarrow> pc" where
  "handleMessage c now raw s =
     (case raw of
        None \<Rightarrow>
          end_current TerminateCall
            (handleDisconnect now (pc_error ''GATEWAY_PROTOCOL_ERROR'' ''invalid gateway frame'') s)
      | Some f \<Rightarrow>
          if is_challenge f
          then socket_call (SendCall (persistentConnectRequest (cf_env c) (cf_gatewayToken c) (cf_gatewayPassword c))) s
          else case f of
            SuccessFrame fid p \<Rightarrow>
              if fid = js ''persistent-connect'' then resolve_connection c s
              else (case jm_get (pc_activeByTask s) fid of None \<Rightarrow> s | Some x \<Rightarrow> on_response_ok now x p s)
          | ErrorFrame fid code msg \<Rightarrow>
              if fid = js ''persistent-connect''
              then end_current CloseCall (rejectCurrentConnection
                     (JsError (Some (opt_or code ''GATEWAY_AUTH_ERROR'')) (opt_or msg ''gateway rejected connect'')) s)
              else (case jm_get (pc_activeByTask s) fid of None \<Rightarrow> s | Some x \<Rightarrow> on_response_error x code msg s)
          | EventFrame ev p \<Rightarrow>
              if ev = js ''agent'' \<or> ev = js ''chat'' then on_task_event c now ev p s else s
          | ChallengeFrame _ \<Rightarrow> s)"

section \<open>The fallback\<close>

text \<open>The handler the fallback run gets: it keeps the entry of \<^verbatim>\<open>fallbackByTask\<close> up to date.\<close>

definition fallback_event :: "nat \<Rightarrow> jstr \<Rightarrow> task_event \<Rightarrow> pc \<Rightarrow> pc" where
  "fallback_event x taskId e s =
     (let s1 = (case jm_get (pc_fallbackByTask s) taskId of
                  Some f \<Rightarrow>
                    if ev_detail e = Accepted
                    then s\<lparr>pc_fallbackByTask := jm_set taskId (f\<lparr>fb_runId := ev_runId (ev_base e)\<rparr>)
                                                   (pc_fallbackByTask s)\<rparr>
                    else s
                | None \<Rightarrow> s);
          s2 = s1\<lparr>pc_events := pc_events s1 @ [(x, e)]\<rparr>
      in if terminal_detail (ev_detail e)
         then s2\<lparr>pc_fallbackByTask := jm_delete taskId (pc_fallbackByTask s2)\<rparr> else s2)"

text \<open>The \<^verbatim>\<open>finally\<close>: an execution that fails takes the entry of its task away.\<close>

definition fallback_settled :: "nat \<Rightarrow> jstr \<Rightarrow> exn + accepted_run \<Rightarrow> pc \<Rightarrow> pc" where
  "fallback_settled x taskId r s =
     (case r of
        Inr _ \<Rightarrow> settle x r s
      | Inl _ \<Rightarrow> settle x r (s\<lparr>pc_fallbackByTask := jm_delete taskId (pc_fallbackByTask s)\<rparr>))"

text \<open>The fallback's own preparation is done: its run begins and its control is registered.\<close>

definition fallback_prepared ::
  "pc_config \<Rightarrow> nat \<Rightarrow> input_error + prepared_input \<Rightarrow> pc \<Rightarrow> pc" where
  "fallback_prepared c x prep s =
     (case jm_get (pc_phase s) x of
        Some (FallbackPreparing i) \<Rightarrow>
          (case prep of
             Inl e \<Rightarrow> fallback_settled x (gi_taskId i)
                 (Inl (gateway_exn (toGatewayExecutionError (js ''INVALID_REQUEST'') (input_error_message e)))) s
           | Inr p \<Rightarrow>
               (case cf_wsError c of
                  Some m \<Rightarrow> fallback_settled x (gi_taskId i) (Inl (JsError None m)) s
                | None \<Rightarrow>
                    (let gc = \<lparr>gc_env = cf_env c, gc_input = i, gc_prepared = p, gc_vurl = cf_vurl c,
                               gc_url = cf_url c\<rparr>
                     in set_phase x (FallbackStarted i)
                          (s\<lparr>pc_runs := jm_set x (gc, gw_initial gc) (pc_runs s),
                             pc_fallbackByTask := jm_set (gi_taskId i)
                               \<lparr>fb_exec = x, fb_sessionId = gi_sessionId i, fb_runId = gi_taskId i\<rparr>
                               (pc_fallbackByTask s)\<rparr>))))
      | _ \<Rightarrow> s)"

text \<open>One step of a fallback run: its new events reach the handler, its promise settles the execution.\<close>

definition fallback_step :: "nat \<Rightarrow> gw_in \<Rightarrow> pc \<Rightarrow> pc" where
  "fallback_step x i s =
     (case jm_get (pc_runs s) x of
        None \<Rightarrow> s
      | Some (gc, g) \<Rightarrow>
          let g' = gw_step gc i g;
              taskId = gi_taskId (gc_input gc);
              s1 = s\<lparr>pc_runs := jm_set x (gc, g') (pc_runs s)\<rparr>;
              s2 = fold (fallback_event x taskId) (drop (length (gw_events g)) (gw_events g')) s1
          in case (gw_outcome g, gw_outcome g') of
               (None, Some r) \<Rightarrow> fallback_settled x taskId r s2
             | _ \<Rightarrow> s2)"

section \<open>Cancelling and closing\<close>

record cancelled_run =
  cr_taskId :: jstr
  cr_sessionId :: jstr
  cr_runId :: jstr

text \<open>\<^verbatim>\<open>null\<close> is \<open>Inr None\<close>.\<close>

definition cancel :: "jstr \<Rightarrow> jstr \<Rightarrow> pc \<Rightarrow> pc \<times> (exn + cancelled_run option)" where
  "cancel now taskId s =
     (case jm_get (pc_activeByTask s) taskId of
        None \<Rightarrow>
          (case jm_get (pc_fallbackByTask s) taskId of
             None \<Rightarrow> (s, Inr None)
           | Some f \<Rightarrow>
               (let s1 = fallback_step (fb_exec f) (GwCancel now) s
                in (s1\<lparr>pc_fallbackByTask := jm_delete taskId (pc_fallbackByTask s1)\<rparr>,
                    Inr (Some \<lparr>cr_taskId = taskId, cr_sessionId = fb_sessionId f, cr_runId = fb_runId f\<rparr>))))
      | Some x \<Rightarrow>
          (case jm_get (pc_tasks s) x of
             None \<Rightarrow> (s, Inr None)
           | Some a \<Rightarrow>
               if \<not> socket_open s
               then (s, Inl (pc_error ''GATEWAY_UNAVAILABLE'' ''gateway connection is unavailable''))
               else
                 let s1 = socket_call (SendCall (abortRequest taskId (at_sessionKey a) (at_runId a))) s;
                     s2 = pc_emit now x (CancelledEv (js ''task cancelled by user'')) s1;
                     s3 = (if \<not> at_settled a
                           then active_reject x (pc_error ''TASK_CANCELLED'' ''task cancelled by user'')
                                  (upd_active x (\<lambda>a. a\<lparr>at_settled := True\<rparr>) s2)
                           else s2)
                 in (removeTask x s3,
                     Inr (Some \<lparr>cr_taskId = taskId, cr_sessionId = gi_sessionId (at_input a),
                                cr_runId = or_else (at_runId a) taskId\<rparr>))))"

definition close_client :: "jstr \<Rightarrow> pc \<Rightarrow> pc" where
  "close_client now s =
     (let s1 = s\<lparr>pc_closed := True, pc_connected := False, pc_connectTimer := None, pc_heartbeat := False,
                 pc_reconnectTimer := False\<rparr>;
          s2 = failAll now (pc_error ''GATEWAY_SHUTDOWN'' ''gateway client is shutting down'') s1;
          s3 = (fold (\<lambda>f. fallback_step (fb_exec f) GwClose) (jm_values (pc_fallbackByTask s2)) s2)
                 \<lparr>pc_fallbackByTask := []\<rparr>;
          s4 = (case Option.bind (pc_socket s3) (jm_get (pc_ready s3)) of
                  None \<Rightarrow> s3 | Some Closed \<Rightarrow> s3 | Some _ \<Rightarrow> end_current CloseCall s3)
      in s4\<lparr>pc_socket := None\<rparr>)"

section \<open>The client as a machine\<close>

datatype pc_in =
    PcExecute nat gateway_input
  | PcPrepared nat "input_error + prepared_input"
  | PcFallbackPrepared nat "input_error + prepared_input"
  | PcFallback nat gw_in
  | SockOpen nat
  | SockFrame jstr "gateway_frame option"
  | SockPong
  | SockError jstr
  | SockClose jstr nat nat jstr
  | PcConnectTimeout
  | PcHeartbeat
  | PcReconnect
  | PcTaskTimeout jstr nat
  | PcCancel jstr jstr
  | PcClose jstr

text \<open>The control calls come from the client itself, not from outside.\<close>

fun is_control :: "gw_in \<Rightarrow> bool" where
  "is_control (GwCancel _) = True"
| "is_control GwClose = True"
| "is_control _ = False"

definition connect_timeout :: "pc \<Rightarrow> pc" where
  "connect_timeout s =
     (case pc_connectTimer s of
        None \<Rightarrow> s
      | Some n \<Rightarrow> end_socket n TerminateCall
          (rejectCurrentConnection (pc_error ''GATEWAY_TIMEOUT'' ''gateway connect timed out'') s))"

definition socket_error :: "jstr \<Rightarrow> pc \<Rightarrow> pc" where
  "socket_error m s =
     (if \<not> pc_connected s
      then rejectCurrentConnection (JsError (Some (js ''GATEWAY_UNAVAILABLE''))
             (or_else m (js ''gateway connection failed''))) s
      else s)"

definition socket_closed :: "jstr \<Rightarrow> nat \<Rightarrow> nat \<Rightarrow> jstr \<Rightarrow> pc \<Rightarrow> pc" where
  "socket_closed now n code reason s =
     (let detail = js_trim reason
      in handleDisconnect now
           (JsError (Some (js ''GATEWAY_UNAVAILABLE''))
              (js ''gateway closed ('' @ js_of_nat code @ js '')'' @ (if detail \<noteq> [] then js '': '' @ detail else [])))
           (s\<lparr>pc_ready := jm_set n Closed (pc_ready s)\<rparr>))"

definition reconnect :: "pc_config \<Rightarrow> pc \<Rightarrow> pc" where
  "reconnect c s =
     (if \<not> pc_reconnectTimer s then s
      else case ensureConnected c (s\<lparr>pc_reconnectTimer := False\<rparr>) of
             (s1, None) \<Rightarrow> s1
           | (s1, Some e) \<Rightarrow> s1\<lparr>pc_uncaught := True\<rparr>)"

fun pc_step :: "pc_config \<Rightarrow> pc_in \<Rightarrow> pc \<Rightarrow> pc" where
  "pc_step c (PcExecute x i) s = (if jm_get (pc_phase s) x = None then execute c x i s else s)"
| "pc_step c (PcPrepared x prep) s = executePersistent c x prep s"
| "pc_step c (PcFallbackPrepared x prep) s = fallback_prepared c x prep s"
| "pc_step c (PcFallback x i) s = (if is_control i then s else fallback_step x i s)"
| "pc_step c (SockOpen n) s =
     s\<lparr>pc_ready := (if jm_get (pc_ready s) n = Some Connecting then jm_set n Opened (pc_ready s)
                    else pc_ready s)\<rparr>"
| "pc_step c (SockFrame now raw) s = handleMessage c now raw s"
| "pc_step c SockPong s = s\<lparr>pc_lastPong := True\<rparr>"
| "pc_step c (SockError m) s = socket_error m s"
| "pc_step c (SockClose now n code reason) s = socket_closed now n code reason s"
| "pc_step c PcConnectTimeout s = connect_timeout s"
| "pc_step c PcHeartbeat s = heartbeat_tick s"
| "pc_step c PcReconnect s = reconnect c s"
| "pc_step c (PcTaskTimeout now x) s = task_timeout now x s"
| "pc_step c (PcCancel now taskId) s = fst (cancel now taskId s)"
| "pc_step c (PcClose now) s = close_client now s"

definition pc_run :: "pc_config \<Rightarrow> pc_in list \<Rightarrow> pc \<Rightarrow> pc" where
  "pc_run c is s = fold (pc_step c) is s"

end
