(* ===== verification/GatewayRuns.thy ===== *)
theory GatewayRuns
  imports GatewayClient
begin

text \<open>
  What a run of the gateway client guarantees: its events are well formed and belong to
  its task, it ends once, its promise is settled, and the deltas add up to the gateway's text. The
  invariant \<open>gw_inv\<close> ties the listeners, the connect timer, the fallback and the promise together.
\<close>

definition event_fits :: "gw_config \<Rightarrow> task_event \<Rightarrow> bool" where
  "event_fits c e \<longleftrightarrow>
     ev_taskId (ev_base e) = gi_taskId (gc_input c) \<and> ev_sessionId (ev_base e) = gi_sessionId (gc_input c)
     \<and> detail_ok (gc_vurl c) (ev_detail e)"

definition is_terminal :: "task_event \<Rightarrow> bool" where
  "is_terminal e \<longleftrightarrow> terminal_detail (ev_detail e)"

definition gw_inv :: "gw_config \<Rightarrow> gw \<Rightarrow> bool" where
  "gw_inv c g \<longleftrightarrow>
     (gw_outcome g = None \<longleftrightarrow> \<not> gw_settled g)
     \<and> (gw_listening g \<longrightarrow> gw_fallback g = NoFallback \<and> (\<forall>e \<in> set (gw_events g). \<not> is_terminal e))
     \<and> (gw_connectTimer g \<longleftrightarrow> gw_listening g \<and> \<not> gw_settled g)
     \<and> (\<forall>e \<in> set (gw_events g). event_fits c e)
     \<and> (\<forall>e. gw_fallback g = FallbackRunning e \<longrightarrow> \<not> gw_settled g)"

lemmas gw_control_defs = gw_cleanup_def gw_send_def gw_emit_def gw_cancel_def resolveAccepted_def
  rejectExecution_def failAfterAccepted_def failBeforeAccepted_def

lemmas gw_socket_defs = gw_ws_error_def gw_ws_close_def gw_connect_timeout_def

lemma gw_event_fits [simp]:
  "event_fits c (gw_event c now r d) = detail_ok (gc_vurl c) d"
  "is_terminal (gw_event c now r d) = terminal_detail d"
  by (simp_all add: event_fits_def gw_event_def is_terminal_def)

lemma gw_inv_initial: "gw_inv c (gw_initial c)"
  by (simp add: gw_inv_def gw_initial_def)

lemma gw_inv_fail:
  assumes "gw_inv c g" "gw_listening g"
  shows "gw_inv c (failAfterAccepted c now e g)" "gw_inv c (failBeforeAccepted c now e g)"
    "gw_inv c (rejectExecution e g)"
  using assms by (auto simp: gw_inv_def gw_control_defs)

lemma gw_inv_emit:
  "gw_inv c g \<Longrightarrow> \<not> terminal_detail d \<Longrightarrow> detail_ok (gc_vurl c) d \<Longrightarrow> gw_inv c (gw_emit c now r d g)"
  by (auto simp: gw_inv_def gw_control_defs)

lemma gw_emit_listening [simp]: "gw_listening (gw_emit c now r d g) = gw_listening g"
  by (simp add: gw_emit_def)

lemma gw_inv_agent:
  assumes "gw_inv c g"
  shows "gw_inv c (gw_agent_frame c now p g)"
proof -
  have "gw_inv c (g\<lparr>gw_lastSnapshot := s\<rparr>)" for s using assms by (simp add: gw_inv_def)
  with assms show ?thesis
    unfolding gw_agent_frame_def Let_def
    by (auto intro!: gw_inv_emit dest: extractArtifactResult_ok split: option.split prod.split)
qed

lemma gw_inv_chat:
  assumes "gw_inv c g" "gw_listening g"
  shows "gw_inv c (gw_chat_frame c now p g)"
proof -
  define g1 where "g1 = (case extractArtifactResult (gc_vurl c) [ep_message p, map_option JObj (ep_data p)] of
      Some a \<Rightarrow> gw_emit c now (case ep_runId p of Some r \<Rightarrow> r | None \<Rightarrow> gw_runId g)
        (ResultCreated (ArtifactResult a)) g
    | None \<Rightarrow> g)"
  have g1: "gw_inv c g1" "gw_listening g1"
    using assms unfolding g1_def
    by (auto intro!: gw_inv_emit dest: extractArtifactResult_ok split: option.split)
  have "gw_inv c (gw_cleanup (gw_emit c now r CompletedEv g1))" for r
    using g1 by (auto simp: gw_inv_def gw_control_defs)
  with g1 show ?thesis
    unfolding gw_chat_frame_def Let_def g1_def [symmetric] by (simp add: gw_inv_fail)
qed

lemma gw_inv_send: "gw_inv c (gw_send r g) = gw_inv c g"
  by (simp add: gw_inv_def gw_send_def)

lemma gw_inv_frame:
  assumes "gw_inv c g" "gw_listening g"
  shows "gw_inv c (gw_frame c now f g)"
proof -
  have "gw_inv c (gw_connected c p g)" for p
    using assms(1) by (simp add: gw_connected_def gw_inv_send Let_def) (simp add: gw_inv_def)
  moreover have "gw_inv c (gw_accepted c now p g)" for p
    using assms by (auto simp: gw_accepted_def gw_inv_def gw_control_defs Let_def)
  ultimately show ?thesis
    using assms unfolding gw_frame_def
    by (auto simp: Let_def gw_inv_send gw_inv_fail gw_inv_agent gw_inv_chat split: gateway_frame.split)
qed

lemma http_events_fit:
  assumes "executeGatewayTaskViaHttp c now k o' = Inr (r, es)"
  shows "\<exists>reply. es = map (gw_event c now (ac_runId r)) [Accepted, Delta reply, CompletedEv]"
  using assms
  by (fastforce simp: executeGatewayTaskViaHttp_def split: if_splits sum.splits http_outcome.splits prod.splits)

lemma gw_inv_http: "gw_inv c g \<Longrightarrow> gw_inv c (gw_http_done c now o' g)"
  by (auto simp: gw_inv_def gw_http_done_def gw_control_defs Let_def
      dest!: http_events_fit split: fallback_state.split sum.split)

lemma gw_inv_step: "gw_inv c g \<Longrightarrow> gw_inv c (gw_step c i g)"
proof (cases i)
  case (WsClose now code reason)
  assume inv: "gw_inv c g"
  then have "gw_inv c (g\<lparr>gw_ready := Closed\<rparr>)" by (simp add: gw_inv_def)
  with WsClose show ?thesis
    by (simp add: gw_ws_close_def Let_def gw_inv_fail)
next
  case (ConnectTimeout now)
  assume "gw_inv c g"
  with ConnectTimeout show ?thesis
    by (auto simp: gw_connect_timeout_def gw_inv_def gw_control_defs)
qed (auto simp: gw_inv_frame gw_inv_http gw_ws_error_def gw_inv_fail Let_def,
  auto simp: gw_inv_def gw_control_defs Let_def)

interpretation gw_machine: machine "gw_step c" "gw_inv c" for c
  by unfold_locales (rule gw_inv_step)

lemma gw_inv_run: "gw_inv c g \<Longrightarrow> gw_inv c (gw_run c is g)"
  unfolding gw_run_def by (rule gw_machine.inv_run)


section \<open>A run ends once\<close>

text \<open>Only the last event is terminal, and after it nothing is under way.\<close>

definition gw_once :: "gw \<Rightarrow> bool" where
  "gw_once g \<longleftrightarrow>
     (\<forall>e \<in> set (butlast (gw_events g)). \<not> is_terminal e)
     \<and> ((\<exists>e \<in> set (gw_events g). is_terminal e) \<longrightarrow>
          \<not> gw_listening g \<and> (\<forall>e. gw_fallback g \<noteq> FallbackRunning e))"

definition gw_open :: "gw \<Rightarrow> bool" where
  "gw_open g \<longleftrightarrow> gw_listening g \<and> gw_fallback g = NoFallback \<and> (\<forall>e \<in> set (gw_events g). \<not> is_terminal e)"

lemma gw_open_once: "gw_open g \<Longrightarrow> gw_once g"
  by (auto simp: gw_open_def gw_once_def dest: in_set_butlastD)

lemma gw_inv_open: "gw_inv c g \<Longrightarrow> gw_listening g \<Longrightarrow> gw_open g"
  by (simp add: gw_inv_def gw_open_def)

lemma gw_once_fail:
  assumes "gw_open g"
  shows "gw_once (failAfterAccepted c now e g)" "gw_once (failBeforeAccepted c now e g)"
    "gw_once (rejectExecution e g)"
  using assms
  by (auto simp: gw_once_def gw_open_def gw_control_defs butlast_append dest: in_set_butlastD)

lemma gw_open_emit: "gw_open g \<Longrightarrow> \<not> terminal_detail d \<Longrightarrow> gw_open (gw_emit c now r d g)"
  by (auto simp: gw_open_def gw_emit_def)

lemma gw_once_completed: "gw_open g \<Longrightarrow> gw_once (gw_cleanup (gw_emit c now r CompletedEv g))"
  by (auto simp: gw_once_def gw_open_def gw_control_defs butlast_append)

lemma gw_once_frame:
  assumes "gw_open g"
  shows "gw_once (gw_frame c now f g)"
proof -
  have send: "gw_open (gw_send r h) = gw_open h" for r h by (simp add: gw_open_def gw_send_def)
  have "gw_open (gw_connected c p g)" for p
    using assms by (simp add: gw_connected_def send Let_def) (simp add: gw_open_def)
  moreover have "gw_open (gw_accepted c now p g)" for p
    using assms by (auto simp: gw_accepted_def gw_open_def gw_control_defs Let_def)
  moreover have "gw_open (gw_agent_frame c now p g)" for p
  proof -
    have "gw_open (g\<lparr>gw_lastSnapshot := s\<rparr>)" for s using assms by (simp add: gw_open_def)
    with assms show ?thesis
      unfolding gw_agent_frame_def Let_def
      by (auto intro!: gw_open_emit split: option.split prod.split)
  qed
  moreover have "gw_once (gw_chat_frame c now p g)" for p
  proof -
    define g1 where "g1 = (case extractArtifactResult (gc_vurl c) [ep_message p, map_option JObj (ep_data p)] of
        Some a \<Rightarrow> gw_emit c now (case ep_runId p of Some r \<Rightarrow> r | None \<Rightarrow> gw_runId g)
          (ResultCreated (ArtifactResult a)) g
      | None \<Rightarrow> g)"
    have "gw_open g1" using assms unfolding g1_def by (auto intro!: gw_open_emit split: option.split)
    then show ?thesis
      unfolding gw_chat_frame_def Let_def g1_def [symmetric]
      by (simp add: gw_once_fail gw_once_completed gw_open_once)
  qed
  ultimately show ?thesis
    using assms unfolding gw_frame_def
    by (auto simp: Let_def send gw_once_fail gw_open_once split: gateway_frame.split)
qed

lemma gw_once_http:
  assumes "gw_inv c g" "gw_once g"
  shows "gw_once (gw_http_done c now o' g)"
proof (cases "gw_fallback g")
  case (FallbackRunning w)
  with assms(2) have "\<forall>e \<in> set (gw_events g). \<not> is_terminal e"
    by (auto simp: gw_once_def)
  moreover have "\<not> gw_listening g" using assms(1) FallbackRunning by (auto simp: gw_inv_def)
  ultimately show ?thesis using FallbackRunning
    by (auto simp: gw_once_def gw_http_done_def gw_control_defs Let_def butlast_append
        dest!: http_events_fit dest: in_set_butlastD split: sum.split)
qed (use assms in \<open>simp_all add: gw_http_done_def\<close>)

lemma gw_once_cong:
  "gw_events h = gw_events g \<Longrightarrow> gw_listening h = gw_listening g \<Longrightarrow> gw_fallback h = gw_fallback g
     \<Longrightarrow> gw_once h = gw_once g"
  by (simp add: gw_once_def)

fun is_cancel :: "gw_in \<Rightarrow> bool" where
  "is_cancel (GwCancel _) = True"
| "is_cancel _ = False"

lemma gw_once_step:
  assumes "gw_inv c g" "gw_once g" "\<not> is_cancel i"
  shows "gw_once (gw_step c i g)"
proof (cases i)
  case (WsClose now code reason)
  have "gw_once (g\<lparr>gw_ready := Closed\<rparr>)" using assms(2) by (simp add: gw_once_def)
  moreover have "gw_open (g\<lparr>gw_ready := Closed\<rparr>)" if "gw_listening g"
    using gw_inv_open [OF assms(1) that] by (simp add: gw_open_def)
  ultimately show ?thesis
    by (simp add: WsClose gw_ws_close_def Let_def gw_once_fail)
next
  case (ConnectTimeout now)
  have "gw_open (g\<lparr>gw_connectTimer := False\<rparr>)" if "gw_connectTimer g"
    using assms(1) that gw_inv_open [OF assms(1)] by (auto simp: gw_inv_def gw_open_def)
  with assms(2) ConnectTimeout show ?thesis
    by (simp add: gw_connect_timeout_def gw_once_fail)
qed (use assms gw_inv_open [OF assms(1)] in
    \<open>auto simp: gw_once_frame gw_once_http gw_ws_error_def gw_once_fail Let_def\<close>,
  (use assms in \<open>simp add: gw_once_def gw_cleanup_def\<close>)+)

lemma gw_once_run:
  "gw_inv c g \<Longrightarrow> gw_once g \<Longrightarrow> \<forall>i \<in> set is. \<not> is_cancel i \<Longrightarrow> gw_once (gw_run c is g)"
  unfolding gw_run_def
  by (induction "is" arbitrary: g) (simp_all add: gw_inv_step gw_once_step)

lemma gw_quiet_step:
  assumes "\<not> gw_listening g" "\<forall>e. gw_fallback g \<noteq> FallbackRunning e" "gw_inv c g" "\<not> is_cancel i"
  shows "gw_events (gw_step c i g) = gw_events g \<and> \<not> gw_listening (gw_step c i g)
    \<and> gw_fallback (gw_step c i g) = gw_fallback g"
  using assms by (cases i) (auto simp: gw_http_done_def gw_connect_timeout_def gw_cleanup_def gw_inv_def
      Let_def split: fallback_state.split)

lemma gw_quiet_run:
  assumes "\<not> gw_listening g" "\<forall>e. gw_fallback g \<noteq> FallbackRunning e" "gw_inv c g" "\<forall>i \<in> set is. \<not> is_cancel i"
  shows "gw_events (gw_run c is g) = gw_events g"
  using assms
proof (induction "is" arbitrary: g)
  case Nil
  then show ?case by (simp add: gw_run_def)
next
  case (Cons i "is")
  from gw_quiet_step [OF Cons.prems(1,2,3), of i] Cons.prems(4)
  have "gw_events (gw_run c is (gw_step c i g)) = gw_events (gw_step c i g)"
    by (intro Cons.IH) (use Cons.prems in \<open>auto simp: gw_inv_step\<close>)
  with gw_quiet_step [OF Cons.prems(1,2,3), of i] Cons.prems(4) show ?case
    by (simp add: gw_run_def)
qed

text \<open>
  C21: unless it is cancelled, a run emits at most one terminal event, as its last: whatever
  frames, errors, timers or HTTP answers follow, the events stay as they are.
\<close>

theorem gateway_run_ends_once:
  assumes "\<forall>i \<in> set is. \<not> is_cancel i" and "\<forall>i \<in> set later. \<not> is_cancel i"
    and "e \<in> set (gw_events (gw_run c is (gw_initial c)))" and "is_terminal e"
  shows "gw_events (gw_run c (is @ later) (gw_initial c)) = gw_events (gw_run c is (gw_initial c))
    \<and> (\<exists>before. gw_events (gw_run c is (gw_initial c)) = before @ [e] \<and> (\<forall>b \<in> set before. \<not> is_terminal b))"
proof -
  let ?g = "gw_run c is (gw_initial c)"
  have inv: "gw_inv c ?g" by (rule gw_inv_run [OF gw_inv_initial])
  have "gw_once (gw_initial c)" by (simp add: gw_once_def gw_initial_def)
  then have once: "gw_once ?g" using gw_once_run gw_inv_initial assms(1) by blast
  with assms(3,4) have quiet: "\<not> gw_listening ?g" "\<forall>e. gw_fallback ?g \<noteq> FallbackRunning e"
    by (auto simp: gw_once_def)
  have "gw_events ?g = butlast (gw_events ?g) @ [last (gw_events ?g)]"
    using assms(3) by (cases "gw_events ?g" rule: rev_cases) auto
  moreover from this have "e = last (gw_events ?g)"
    using once assms(3,4) unfolding gw_once_def by (metis Un_iff empty_iff empty_set insert_iff list.simps(15) set_append)
  ultimately show ?thesis
    using gw_quiet_run [OF quiet inv assms(2)] once
    by (auto simp: gw_run_def gw_once_def)
qed

section \<open>The promise is settled\<close>

lemma gw_http_settles:
  assumes "gw_fallback g = FallbackRunning w" "\<not> gw_settled g"
  shows "gw_outcome (gw_http_done c now o' g) =
    Some (case executeGatewayTaskViaHttp c now (gw_sessionKey g) o' of
            Inl e \<Rightarrow> Inl (gateway_exn (combineGatewayErrors w e))
          | Inr (r, es) \<Rightarrow> Inr r)"
  using assms by (auto simp: gw_http_done_def gw_control_defs Let_def split: sum.split)

text \<open>The error with which a run that is not settled is given up before it was accepted.\<close>

fun give_up_error :: "gw_in \<Rightarrow> gateway_error option" where
  "give_up_error (WsError now m) =
     Some (toGatewayExecutionError (js ''UNAVAILABLE'') (or_else m (js ''gateway websocket request failed'')))"
| "give_up_error (WsClose now code reason) =
     Some (toGatewayExecutionError (js ''UNAVAILABLE'')
       (js ''gateway connection closed ('' @ js_of_nat code @ js '')''
        @ (if js_trim reason \<noteq> [] then js '': '' @ js_trim reason else [])))"
| "give_up_error (ConnectTimeout now) =
     Some (toGatewayExecutionError (js ''AGENT_TIMEOUT'') (js ''gateway connect timed out''))"
| "give_up_error _ = None"

lemma gw_give_up:
  assumes "gw_inv c g" "gw_listening g" "\<not> gw_settled g" "give_up_error i = Some w"
  shows "gw_fallback (gw_step c i g) = FallbackRunning w" "\<not> gw_settled (gw_step c i g)"
    "gw_sessionKey (gw_step c i g) = gw_sessionKey g"
  using assms
  by (cases i; auto simp: gw_socket_defs failBeforeAccepted_def gw_cleanup_def gw_inv_def Let_def)+

text \<open>
  a run that is neither accepted nor closed has its connect timer armed; and when that
  timer fires, or the socket fails or closes, the HTTP request is made and its end settles
  the promise: with the HTTP run's result, or with the two errors combined.
\<close>

theorem gateway_run_settles:
  assumes "g = gw_run c is (gw_initial c)" and "gw_listening g" and "\<not> gw_settled g"
  shows "gw_connectTimer g
    \<and> (\<forall>i w. give_up_error i = Some w \<longrightarrow>
        gw_outcome (gw_run c [i, HttpDone now answer] g) =
          Some (case executeGatewayTaskViaHttp c now (gw_sessionKey g) answer of
                  Inl e \<Rightarrow> Inl (gateway_exn (combineGatewayErrors w e))
                | Inr (r, es) \<Rightarrow> Inr r))"
proof -
  have inv: "gw_inv c g" using assms(1) gw_inv_run [OF gw_inv_initial] by simp
  with assms(2,3) have "gw_connectTimer g" by (simp add: gw_inv_def)
  moreover have "gw_outcome (gw_run c [i, HttpDone now answer] g) =
      Some (case executeGatewayTaskViaHttp c now (gw_sessionKey g) answer of
              Inl e \<Rightarrow> Inl (gateway_exn (combineGatewayErrors w e)) | Inr (r, es) \<Rightarrow> Inr r)"
    if "give_up_error i = Some w" for i w
    using gw_give_up [OF inv assms(2,3) that] gw_http_settles [of "gw_step c i g" w c now answer]
    by (simp add: gw_run_def)
  ultimately show ?thesis by blast
qed

text \<open>Nothing that can still happen settles a run that has ended without settling.\<close>

lemma gw_stuck_step:
  assumes "gw_inv c g" "\<not> gw_listening g" "gw_fallback g = NoFallback" "\<not> gw_settled g"
  shows "\<not> gw_listening (gw_step c i g) \<and> gw_fallback (gw_step c i g) = NoFallback
    \<and> \<not> gw_settled (gw_step c i g)"
  using assms
  by (cases i) (auto simp: gw_http_done_def gw_connect_timeout_def gw_control_defs gw_inv_def Let_def)

lemma gw_stuck_run:
  assumes "gw_inv c g" "\<not> gw_listening g" "gw_fallback g = NoFallback" "\<not> gw_settled g"
  shows "gw_outcome (gw_run c is g) = None"
  using assms
proof (induction "is" arbitrary: g)
  case Nil
  then show ?case by (simp add: gw_run_def gw_inv_def)
next
  case (Cons i "is")
  then have "gw_outcome (gw_run c is (gw_step c i g)) = None"
    using gw_stuck_step [OF Cons.prems] gw_inv_step by (intro Cons.IH) blast+
  then show ?case by (simp add: gw_run_def)
qed

definition ends_chat :: "event_payload \<Rightarrow> bool" where
  "ends_chat p \<longleftrightarrow> ep_state p \<in> {Some (js ''final''), Some (js ''error''), Some (js ''aborted'')}"

lemma gw_chat_end:
  assumes "ends_chat p"
  shows "\<not> gw_listening (gw_chat_frame c now p g) \<and> gw_fallback (gw_chat_frame c now p g) = gw_fallback g
    \<and> gw_settled (gw_chat_frame c now p g) = gw_settled g"
  using assms
  by (auto simp: ends_chat_def gw_chat_frame_def gw_control_defs Let_def split: option.split)

text \<open>
  if the gateway ends the chat before it has answered the request for it, the run is
  over, and whatever happens afterwards its promise is never settled, neither resolved nor
  rejected.
\<close>

theorem early_end_never_settles:
  assumes "g = gw_run c is (gw_initial c)" and "gw_listening g" and "\<not> gw_settled g" and "ends_chat p"
  shows "gw_outcome (gw_run c (WsFrame now (EventFrame (js ''chat'') p) # later) g) = None"
proof -
  have inv: "gw_inv c g" using assms(1) gw_inv_run [OF gw_inv_initial] by simp
  let ?h = "gw_step c (WsFrame now (EventFrame (js ''chat'') p)) g"
  have h: "?h = gw_chat_frame c now p g" using assms(2) by (simp add: gw_frame_def)
  have "gw_fallback g = NoFallback" using inv assms(2) by (simp add: gw_inv_def)
  then have "\<not> gw_listening ?h \<and> gw_fallback ?h = NoFallback \<and> \<not> gw_settled ?h"
    unfolding h using gw_chat_end [OF assms(4), of c now g] assms(3) by simp
  then have "gw_outcome (gw_run c later ?h) = None"
    using gw_inv_step [OF inv] by (intro gw_stuck_run) blast+
  then show ?thesis by (simp add: gw_run_def)
qed

text \<open>
  a run cancelled while its HTTP request is under way goes on when the answer comes:
  after the cancellation it emits acceptance, the reply and completion, and its promise is
  resolved as accepted.
\<close>

theorem cancel_during_fallback:
  assumes "gw_fallback g = FallbackRunning w" and "\<not> gw_settled g"
    and "executeGatewayTaskViaHttp c t2 (gw_sessionKey g) answer = Inr (r, es)"
  shows "\<exists>reply. map ev_detail (gw_events (gw_run c [GwCancel t1, HttpDone t2 answer] g)) =
      map ev_detail (gw_events g) @ [CancelledEv (js ''task cancelled by user''), Accepted, Delta reply, CompletedEv]
    \<and> gw_outcome (gw_run c [GwCancel t1, HttpDone t2 answer] g) = Some (Inr r)"
proof -
  obtain reply where "es = map (gw_event c t2 (ac_runId r)) [Accepted, Delta reply, CompletedEv]"
    using http_events_fit [OF assms(3)] by blast
  with assms show ?thesis
    by (intro exI [of _ reply])
      (auto simp: gw_run_def gw_http_done_def gw_cancel_def gw_emit_def gw_send_def gw_cleanup_def
        gw_event_def Let_def)
qed

section \<open>The deltas add up\<close>

definition assistant_frame :: "jstr \<Rightarrow> event_payload \<Rightarrow> bool" where
  "assistant_frame s p \<longleftrightarrow>
     ep_stream p = Some (js ''assistant'') \<and> ep_data p = Some [(js ''text'', JStr s)] \<and> ep_message p = None"

lemma assistant_no_artifact:
  assumes "assistant_frame s p"
  shows "extractArtifactResult vurl [map_option JObj (ep_data p), ep_message p] = None"
    "snapshot_text p = s"
proof -
  have "normalizeArtifactPayload vurl (Some (JObj [(js ''text'', JStr s)])) = None"
    by (simp add: normalizeArtifactPayload.simps safe_parse_def parse_artifact_result_def prop_str_def
        bare_artifact_def Let_def)
  moreover have "normalizeArtifactPayload vurl None = None"
    by (simp add: normalizeArtifactPayload.simps safe_parse_def)
  ultimately show "extractArtifactResult vurl [map_option JObj (ep_data p), ep_message p] = None"
    "snapshot_text p = s"
    using assms by (simp_all add: assistant_frame_def extractArtifactResult.simps snapshot_text_def)
qed

fun delta_of :: "event_detail \<Rightarrow> jstr" where
  "delta_of (Delta d) = d"
| "delta_of _ = []"

definition deltas_text :: "task_event list \<Rightarrow> jstr" where
  "deltas_text es = concat (map (delta_of \<circ> ev_detail) es)"

lemma gw_assistant_step:
  assumes "gw_listening g" "assistant_frame s p"
  shows "deltas_text (gw_events (gw_step c (WsFrame now (EventFrame (js ''agent'') p)) g)) =
      deltas_text (gw_events g) @ fst (normalizeAssistantDelta s (gw_lastSnapshot g))"
    and "gw_lastSnapshot (gw_step c (WsFrame now (EventFrame (js ''agent'') p)) g) =
      snd (normalizeAssistantDelta s (gw_lastSnapshot g))"
    and "gw_listening (gw_step c (WsFrame now (EventFrame (js ''agent'') p)) g)"
proof -
  have "ep_stream p = Some (js ''assistant'')" using assms(2) by (simp add: assistant_frame_def)
  then show "deltas_text (gw_events (gw_step c (WsFrame now (EventFrame (js ''agent'') p)) g)) =
      deltas_text (gw_events g) @ fst (normalizeAssistantDelta s (gw_lastSnapshot g))"
    "gw_lastSnapshot (gw_step c (WsFrame now (EventFrame (js ''agent'') p)) g) =
      snd (normalizeAssistantDelta s (gw_lastSnapshot g))"
    "gw_listening (gw_step c (WsFrame now (EventFrame (js ''agent'') p)) g)"
    using assms(1)
    by (auto simp: gw_frame_def gw_agent_frame_def assistant_no_artifact [OF assms(2)]
        gw_emit_def gw_event_def deltas_text_def Let_def split: prod.split)
qed

text \<open>
  while the gateway sends growing snapshots of the assistant's text, the deltas emitted
  spell exactly the text by which the last snapshot extends the one before the first.
\<close>

theorem deltas_spell_snapshot:
  assumes "gw_listening g" and "list_all2 assistant_frame ss ps" and "growing (gw_lastSnapshot g) ss"
  shows "\<exists>added. deltas_text (gw_events (gw_run c (map (\<lambda>p. WsFrame now (EventFrame (js ''agent'') p)) ps) g)) =
      deltas_text (gw_events g) @ added
    \<and> gw_lastSnapshot g @ added = last (gw_lastSnapshot g # ss)"
  using assms(2,1,3)
proof (induction ss ps arbitrary: g rule: list_all2_induct)
  case Nil
  then show ?case by (simp add: gw_run_def)
next
  case (Cons s ss p ps)
  let ?h = "gw_step c (WsFrame now (EventFrame (js ''agent'') p)) g"
  note h = gw_assistant_step [OF Cons.prems(1) Cons.hyps(1), of c now]
  obtain d where s: "s = gw_lastSnapshot g @ d" "s \<noteq> []" "growing s ss"
    using Cons.prems(2) by (auto simp: prefix_def)
  then have n: "normalizeAssistantDelta s (gw_lastSnapshot g) = (d, s)"
    by (simp add: normalizeAssistantDelta_append)
  from Cons.IH [OF h(3)] h(1,2) s(3) n obtain added where
    "deltas_text (gw_events (gw_run c (map (\<lambda>p. WsFrame now (EventFrame (js ''agent'') p)) ps) ?h)) =
       deltas_text (gw_events g) @ d @ added"
    "s @ added = last (s # ss)" by auto
  with s(1) show ?case by (auto simp: gw_run_def)
qed

section \<open>A run of the model\<close>

definition sample_gateway :: gw_config where
  "sample_gateway =
     \<lparr>gc_env = (\<lambda>_. None),
      gc_input = \<lparr>gi_gatewayUrl = js ''ws://gw'', gi_taskId = js ''t'', gi_sessionId = js ''S'',
        gi_message = js ''hi'', gi_files = None, gi_gatewayToken = None, gi_gatewayPassword = None,
        gi_taskTimeoutMs = None\<rparr>,
      gc_prepared = \<lparr>pi_message = js ''hi'', pi_attachments = []\<rparr>,
      gc_vurl = (\<lambda>_. True),
      gc_url = (\<lambda>_. Some \<lparr>gu_protocol = js ''ws:'', gu_authority = js ''gw'', gu_pathname = js ''/'',
                         gu_search = [], gu_hash = []\<rparr>)\<rparr>"

definition sample_success :: success_payload where
  "sample_success = \<lparr>sp_runId = Some (js ''r''), sp_status = None, sp_mainSessionKey = None\<rparr>"

definition sample_event_payload :: event_payload where
  "sample_event_payload =
     \<lparr>ep_runId = None, ep_sessionKey = None, ep_state = None, ep_errorMessage = None, ep_stream = None,
      ep_ts = None, ep_data = None, ep_message = None\<rparr>"

definition sample_snapshot :: "jstr \<Rightarrow> event_payload" where
  "sample_snapshot s = sample_event_payload
     \<lparr>ep_stream := Some (js ''assistant''), ep_data := Some [(js ''text'', JStr s)]\<rparr>"

definition sample_final :: event_payload where
  "sample_final = sample_event_payload\<lparr>ep_state := Some (js ''final'')\<rparr>"

definition sample_connect :: "gw_in list" where
  "sample_connect = [WsOpen, WsFrame [] (ChallengeFrame None), WsFrame [] (SuccessFrame (js ''connect-1'') sample_success)]"

definition sample_run :: "gw_in list" where
  "sample_run = sample_connect @ [WsFrame [] (SuccessFrame (js ''t'') sample_success),
     WsFrame [] (EventFrame (js ''agent'') (sample_snapshot (js ''ab''))),
     WsFrame [] (EventFrame (js ''chat'') sample_final)]"

definition sample_reply :: http_outcome where
  "sample_reply = HttpResponse True 200 (Inr (JObj [(js ''choices'', JArr [JObj [(js ''message'',
     JObj [(js ''content'', JStr (js ''yo''))])]])]))"

abbreviation sample_last :: task_event where
  "sample_last \<equiv> gw_event sample_gateway [] (js ''r'') CompletedEv"

lemma sample_run_events:
  "gw_events (gw_run sample_gateway sample_run (gw_initial sample_gateway)) =
     [gw_event sample_gateway [] (js ''r'') Accepted, gw_event sample_gateway [] (js ''r'') (Delta (js ''ab'')),
      sample_last]"
  by code_simp

lemma sample_connected:
  "gw_listening (gw_run sample_gateway sample_connect (gw_initial sample_gateway))"
  "\<not> gw_settled (gw_run sample_gateway sample_connect (gw_initial sample_gateway))"
  by code_simp+


theorem gateway_run_ends_once_witness:
  "gw_events (gw_run sample_gateway (sample_run @ [WsError [] (js ''late'')]) (gw_initial sample_gateway)) =
     gw_events (gw_run sample_gateway sample_run (gw_initial sample_gateway))"
  using gateway_run_ends_once [of sample_run "[WsError [] (js ''late'')]" sample_last sample_gateway]
  by (simp add: sample_run_events) (simp add: sample_run_def sample_connect_def)

theorem gateway_run_settles_witness:
  "gw_outcome (gw_run sample_gateway [ConnectTimeout [], HttpDone [] sample_reply]
      (gw_run sample_gateway sample_connect (gw_initial sample_gateway))) \<noteq> None"
  using gateway_run_settles [OF refl sample_connected, of "[]" sample_reply] by simp

theorem early_end_never_settles_witness:
  "gw_outcome (gw_run sample_gateway [WsFrame [] (EventFrame (js ''chat'') sample_final),
      WsClose [] 1006 [], ConnectTimeout [], HttpDone [] sample_reply]
      (gw_run sample_gateway sample_connect (gw_initial sample_gateway))) = None"
  by (rule early_end_never_settles [OF refl sample_connected])
    (simp add: ends_chat_def sample_final_def)

lemma sample_fallback:
  "\<exists>w. gw_fallback (gw_step sample_gateway (ConnectTimeout []) (gw_initial sample_gateway)) = FallbackRunning w"
  "\<not> gw_settled (gw_step sample_gateway (ConnectTimeout []) (gw_initial sample_gateway))"
  "\<exists>r. executeGatewayTaskViaHttp sample_gateway [] k sample_reply = Inr r"
proof -
  show "\<exists>w. gw_fallback (gw_step sample_gateway (ConnectTimeout []) (gw_initial sample_gateway)) = FallbackRunning w"
    "\<not> gw_settled (gw_step sample_gateway (ConnectTimeout []) (gw_initial sample_gateway))"
    by (simp_all add: gw_connect_timeout_def gw_initial_def failBeforeAccepted_def gw_cleanup_def)
  have "toHttpGatewayUrl sample_gateway = Inr (js ''http://gw/v1/chat/completions'')"
    "http_reply sample_gateway (Inr (JObj [(js ''choices'', JArr [JObj [(js ''message'',
       JObj [(js ''content'', JStr (js ''yo''))])]])])) = Inr (js ''yo'', js ''http-t'')"
    by code_simp+
  then show "\<exists>r. executeGatewayTaskViaHttp sample_gateway [] k sample_reply = Inr r"
    by (simp add: executeGatewayTaskViaHttp_def sample_reply_def) (simp add: sample_gateway_def)
qed

theorem cancel_during_fallback_witness:
  "\<exists>reply. map ev_detail (gw_events (gw_run sample_gateway [ConnectTimeout [], GwCancel [], HttpDone [] sample_reply]
      (gw_initial sample_gateway))) =
     [CancelledEv (js ''task cancelled by user''), Accepted, Delta reply, CompletedEv]"
proof -
  let ?g = "gw_step sample_gateway (ConnectTimeout []) (gw_initial sample_gateway)"
  obtain w where w: "gw_fallback ?g = FallbackRunning w" using sample_fallback(1) by blast
  obtain r es where r: "executeGatewayTaskViaHttp sample_gateway [] (gw_sessionKey ?g) sample_reply = Inr (r, es)"
    using sample_fallback(3) by (metis surj_pair)
  have "gw_events ?g = []"
    by (simp add: gw_connect_timeout_def gw_initial_def failBeforeAccepted_def gw_cleanup_def)
  with cancel_during_fallback [OF w sample_fallback(2) r, of "[]"] show ?thesis
    by (auto simp: gw_run_def)
qed

theorem deltas_spell_snapshot_witness:
  "\<exists>added. deltas_text (gw_events (gw_run sample_gateway
      (map (\<lambda>p. WsFrame [] (EventFrame (js ''agent'') p)) [sample_snapshot (js ''a''), sample_snapshot (js ''ab'')])
      (gw_initial sample_gateway))) = added \<and> added = js ''ab''"
proof -
  have l: "gw_listening (gw_initial sample_gateway)" "gw_lastSnapshot (gw_initial sample_gateway) = []"
    "gw_events (gw_initial sample_gateway) = []"
    by (simp_all add: gw_initial_def)
  have "list_all2 assistant_frame [js ''a'', js ''ab''] [sample_snapshot (js ''a''), sample_snapshot (js ''ab'')]"
    by (simp add: assistant_frame_def sample_snapshot_def sample_event_payload_def)
  from deltas_spell_snapshot [OF l(1) this, of sample_gateway "[]"] show ?thesis
    by (simp add: l deltas_text_def js_def)
qed

end
