(* ===== verification/PersistentRuns.thy ===== *)
theory PersistentRuns
  imports PersistentClient GatewayRuns
begin

text \<open>
  What the shared gateway connection guarantees its executions. The invariant \<open>pc_inv\<close> says
  for every execution which of its task object, its fallback run and its outcome exist in which
  phase, so that each execution settles at most once, and that every event an execution is
  given is a valid event of its own task.
\<close>

section \<open>The invariant\<close>

definition task_settled :: "active_task option \<Rightarrow> bool" where
  "task_settled ta \<longleftrightarrow> (case ta of None \<Rightarrow> True | Some a \<Rightarrow> at_settled a)"

fun exec_ok ::
  "pc_config \<Rightarrow> exec_phase option \<Rightarrow> active_task option \<Rightarrow> (gw_config \<times> gw) option \<Rightarrow> bool \<Rightarrow> bool" where
  "exec_ok c None ta ru oc \<longleftrightarrow> ta = None \<and> ru = None \<and> \<not> oc"
| "exec_ok c (Some (Preparing i)) ta ru oc \<longleftrightarrow> ta = None \<and> ru = None \<and> \<not> oc"
| "exec_ok c (Some (AwaitingConnection i p)) ta ru oc \<longleftrightarrow> ta = None \<and> ru = None \<and> \<not> oc"
| "exec_ok c (Some (AwaitingAccept i)) ta ru oc \<longleftrightarrow>
     (\<exists>a. ta = Some a \<and> \<not> at_settled a \<and> at_input a = i) \<and> ru = None \<and> \<not> oc"
| "exec_ok c (Some (FallbackPreparing i)) ta ru oc \<longleftrightarrow> task_settled ta \<and> ru = None \<and> \<not> oc"
| "exec_ok c (Some (FallbackStarted i)) ta ru oc \<longleftrightarrow>
     task_settled ta \<and> (\<exists>gc g. ru = Some (gc, g) \<and> gw_inv gc g \<and> gc_vurl gc = cf_vurl c
       \<and> gw_outcome g = None) \<and> \<not> oc"
| "exec_ok c (Some ExecSettled) ta ru oc \<longleftrightarrow>
     task_settled ta \<and> (\<forall>gc g. ru = Some (gc, g) \<longrightarrow> gw_inv gc g \<and> gc_vurl gc = cf_vurl c
       \<and> gw_outcome g \<noteq> None) \<and> oc"

definition has_outcome :: "pc \<Rightarrow> nat \<Rightarrow> bool" where
  "has_outcome s x \<longleftrightarrow> x \<in> fst ` set (pc_outcomes s)"

definition input_fits :: "gateway_input \<Rightarrow> task_event \<Rightarrow> bool" where
  "input_fits i e \<longleftrightarrow> ev_taskId (ev_base e) = gi_taskId i \<and> ev_sessionId (ev_base e) = gi_sessionId i"

definition own_event :: "pc_config \<Rightarrow> pc \<Rightarrow> nat \<Rightarrow> task_event \<Rightarrow> bool" where
  "own_event c s x e \<longleftrightarrow>
     detail_ok (cf_vurl c) (ev_detail e)
     \<and> ((\<exists>a. jm_get (pc_tasks s) x = Some a \<and> input_fits (at_input a) e)
        \<or> (\<exists>gc g. jm_get (pc_runs s) x = Some (gc, g) \<and> input_fits (gc_input gc) e))"

definition exec_at :: "pc_config \<Rightarrow> pc \<Rightarrow> nat \<Rightarrow> bool" where
  "exec_at c s x \<longleftrightarrow>
     exec_ok c (jm_get (pc_phase s) x) (jm_get (pc_tasks s) x) (jm_get (pc_runs s) x) (has_outcome s x)"

definition pc_rest :: "pc_config \<Rightarrow> pc \<Rightarrow> bool" where
  "pc_rest c s \<longleftrightarrow>
     distinct (map fst (pc_outcomes s))
     \<and> jm_ok (pc_activeByTask s)
     \<and> (\<forall>t x. jm_get (pc_activeByTask s) t = Some x \<longrightarrow>
          (\<exists>a. jm_get (pc_tasks s) x = Some a \<and> gi_taskId (at_input a) = t))
     \<and> (\<forall>(x, e) \<in> set (pc_events s). own_event c s x e)"

definition pc_inv :: "pc_config \<Rightarrow> pc \<Rightarrow> bool" where
  "pc_inv c s \<longleftrightarrow> (\<forall>x. exec_at c s x) \<and> pc_rest c s"

text \<open>The fields the invariant reads.\<close>

lemma pc_inv_cong:
  assumes "pc_phase s = pc_phase s'" "pc_tasks s = pc_tasks s'" "pc_runs s = pc_runs s'"
    "pc_outcomes s = pc_outcomes s'" "pc_activeByTask s = pc_activeByTask s'" "pc_events s = pc_events s'"
  shows "pc_inv c s = pc_inv c s'"
  using assms by (simp add: pc_inv_def pc_rest_def exec_at_def has_outcome_def own_event_def)

lemma pc_inv_fields [simp]:
  "pc_inv c (s\<lparr>pc_socket := v_socket\<rparr>) = pc_inv c s"
  "pc_inv c (s\<lparr>pc_ready := v_ready\<rparr>) = pc_inv c s"
  "pc_inv c (s\<lparr>pc_nextSocket := v_nextSocket\<rparr>) = pc_inv c s"
  "pc_inv c (s\<lparr>pc_waiting := v_waiting\<rparr>) = pc_inv c s"
  "pc_inv c (s\<lparr>pc_connectTimer := v_connectTimer\<rparr>) = pc_inv c s"
  "pc_inv c (s\<lparr>pc_heartbeat := v_heartbeat\<rparr>) = pc_inv c s"
  "pc_inv c (s\<lparr>pc_reconnectTimer := v_reconnectTimer\<rparr>) = pc_inv c s"
  "pc_inv c (s\<lparr>pc_connected := v_connected\<rparr>) = pc_inv c s"
  "pc_inv c (s\<lparr>pc_closed := v_closed\<rparr>) = pc_inv c s"
  "pc_inv c (s\<lparr>pc_lastPong := v_lastPong\<rparr>) = pc_inv c s"
  "pc_inv c (s\<lparr>pc_taskByRun := v_taskByRun\<rparr>) = pc_inv c s"
  "pc_inv c (s\<lparr>pc_fallbackByTask := v_fallbackByTask\<rparr>) = pc_inv c s"
  "pc_inv c (s\<lparr>pc_calls := v_calls\<rparr>) = pc_inv c s"
  "pc_inv c (s\<lparr>pc_uncaught := v_uncaught\<rparr>) = pc_inv c s"
  by (rule pc_inv_cong; simp)+

lemma pc_inv_new: "pc_inv c pc_new"
  by (simp add: pc_inv_def pc_rest_def exec_at_def pc_new_def has_outcome_def)

section \<open>Phase changes\<close>

text \<open>The phases in which the promise of an execution is still open.\<close>

lemma has_outcome_settle: "has_outcome (settle x r s) y \<longleftrightarrow> y = x \<or> has_outcome s y"
  by (auto simp: has_outcome_def settle_def set_phase_def)

lemma settle_fields [simp]:
  "pc_tasks (settle x r s) = pc_tasks s" "pc_runs (settle x r s) = pc_runs s"
  "pc_activeByTask (settle x r s) = pc_activeByTask s" "pc_events (settle x r s) = pc_events s"
  "pc_phase (settle x r s) = jm_set x ExecSettled (pc_phase s)"
  "pc_outcomes (settle x r s) = pc_outcomes s @ [(x, r)]"
  by (simp_all add: settle_def set_phase_def)

lemma set_phase_fields [simp]:
  "pc_tasks (set_phase x ph s) = pc_tasks s" "pc_runs (set_phase x ph s) = pc_runs s"
  "pc_activeByTask (set_phase x ph s) = pc_activeByTask s" "pc_events (set_phase x ph s) = pc_events s"
  "pc_phase (set_phase x ph s) = jm_set x ph (pc_phase s)"
  "pc_outcomes (set_phase x ph s) = pc_outcomes s"
  by (simp_all add: set_phase_def)

lemma has_outcome_cong: "pc_outcomes s = pc_outcomes s' \<Longrightarrow> has_outcome s x = has_outcome s' x"
  by (simp add: has_outcome_def)

text \<open>
  The invariant with one execution left out, for the steps that move that execution from one
  phase to the next through states that fit neither.
\<close>

definition pc_inv_but :: "pc_config \<Rightarrow> nat \<Rightarrow> pc \<Rightarrow> bool" where
  "pc_inv_but c x s \<longleftrightarrow> (\<forall>y. y \<noteq> x \<longrightarrow> exec_at c s y) \<and> pc_rest c s"

lemma pc_inv_iff_but: "pc_inv c s \<longleftrightarrow> pc_inv_but c x s \<and> exec_at c s x"
  unfolding pc_inv_def pc_inv_but_def by metis

lemma own_event_settle [simp]: "own_event c (settle x r s) = own_event c s"
  by (simp add: fun_eq_iff own_event_def)

lemma own_event_phase [simp]: "own_event c (set_phase x ph s) = own_event c s"
  by (simp add: fun_eq_iff own_event_def)

lemma pc_rest_phase [simp]: "pc_rest c (set_phase x ph s) = pc_rest c s"
  by (simp add: pc_rest_def)

lemma pc_rest_settle: "pc_rest c s \<Longrightarrow> \<not> has_outcome s x \<Longrightarrow> pc_rest c (settle x r s)"
  by (simp add: pc_rest_def has_outcome_def)

lemma pc_inv_but_settle:
  "pc_inv_but c x s \<Longrightarrow> \<not> has_outcome s x \<Longrightarrow> pc_inv_but c x (settle x r s)"
  by (simp add: pc_inv_but_def pc_rest_settle exec_at_def has_outcome_settle)

lemma has_outcome_phase [simp]: "has_outcome (set_phase x ph s) = has_outcome s"
  by (simp add: fun_eq_iff has_outcome_def)

lemma pc_inv_but_phase: "pc_inv_but c x s \<Longrightarrow> pc_inv_but c x (set_phase x ph s)"
  by (simp add: pc_inv_but_def exec_at_def)

lemma pc_inv_phase:
  assumes "pc_inv c s"
    "exec_ok c (Some ph) (jm_get (pc_tasks s) x) (jm_get (pc_runs s) x) (has_outcome s x)"
  shows "pc_inv c (set_phase x ph s)"
  using assms by (simp add: pc_inv_iff_but [of c _ x] pc_inv_but_phase exec_at_def)

lemma pc_inv_persistent_failed:
  assumes "pc_inv_but c x s" "task_settled (jm_get (pc_tasks s) x)" "jm_get (pc_runs s) x = None"
    "\<not> has_outcome s x"
  shows "pc_inv c (persistent_failed x i e s)"
  using assms pc_inv_but_settle [OF assms(1,4)] pc_inv_but_phase [OF assms(1)]
  unfolding persistent_failed_def pc_inv_iff_but [of c _ x]
  by (simp add: exec_at_def has_outcome_settle)

section \<open>Operations on tasks\<close>

lemma upd_active_fields [simp]:
  "pc_phase (upd_active x f s) = pc_phase s" "pc_runs (upd_active x f s) = pc_runs s"
  "pc_activeByTask (upd_active x f s) = pc_activeByTask s" "pc_events (upd_active x f s) = pc_events s"
  "pc_outcomes (upd_active x f s) = pc_outcomes s" "pc_closed (upd_active x f s) = pc_closed s"
  "pc_taskByRun (upd_active x f s) = pc_taskByRun s" "pc_connected (upd_active x f s) = pc_connected s"
  "has_outcome (upd_active x f s) = has_outcome s"
  by (auto simp: upd_active_def has_outcome_def fun_eq_iff split: option.split)

lemma upd_active_tasks [simp]:
  "jm_get (pc_tasks (upd_active x f s)) y =
     (if y = x then map_option f (jm_get (pc_tasks s) x) else jm_get (pc_tasks s) y)"
  by (auto simp: upd_active_def split: option.split)

definition keeps_input :: "(active_task \<Rightarrow> active_task) \<Rightarrow> bool" where
  "keeps_input f \<longleftrightarrow> (\<forall>a. at_input (f a) = at_input a)"

lemma keeps_input_simps [simp]:
  "keeps_input (\<lambda>a. a\<lparr>at_settled := b\<rparr>)" "keeps_input (\<lambda>a. a\<lparr>at_timer := b\<rparr>)"
  "keeps_input (\<lambda>a. a\<lparr>at_runId := r\<rparr>)" "keeps_input (\<lambda>a. a\<lparr>at_lastSnapshot := t\<rparr>)"
  by (simp_all add: keeps_input_def)

lemma own_event_upd [simp]:
  assumes "keeps_input f"
  shows "own_event c (upd_active x f s) = own_event c s"
  using assms by (auto simp: own_event_def keeps_input_def fun_eq_iff)

lemma task_id_upd:
  assumes "keeps_input f"
  shows "(\<exists>a. jm_get (pc_tasks (upd_active x f s)) y = Some a \<and> gi_taskId (at_input a) = t) \<longleftrightarrow>
    (\<exists>a. jm_get (pc_tasks s) y = Some a \<and> gi_taskId (at_input a) = t)"
  using assms by (cases "y = x") (auto simp: keeps_input_def)

lemma pc_rest_upd [simp]: "keeps_input f \<Longrightarrow> pc_rest c (upd_active x f s) = pc_rest c s"
  unfolding pc_rest_def by (simp only: task_id_upd own_event_upd upd_active_fields)

lemma exec_at_upd_other [simp]: "y \<noteq> x \<Longrightarrow> exec_at c (upd_active x f s) y = exec_at c s y"
  by (simp add: exec_at_def)

lemma pc_inv_but_upd: "pc_inv_but c x s \<Longrightarrow> keeps_input f \<Longrightarrow> pc_inv_but c x (upd_active x f s)"
  by (simp add: pc_inv_but_def)

text \<open>An update of a task that leaves its input and whether it is settled.\<close>

lemma pc_inv_upd:
  assumes "pc_inv c s" "\<And>a. at_input (f a) = at_input a" "\<And>a. at_settled (f a) = at_settled a"
  shows "pc_inv c (upd_active x f s)"
proof -
  have k: "keeps_input f" using assms(2) by (simp add: keeps_input_def)
  have "exec_at c s x" using assms(1) by (simp add: pc_inv_def)
  then have "exec_at c (upd_active x f s) x"
    using assms(2,3) unfolding exec_at_def
    by (cases "jm_get (pc_phase s) x" rule: option.exhaust)
      (simp, rename_tac ph, case_tac ph, auto simp: task_settled_def split: option.splits)
  with assms(1) k show ?thesis
    by (simp add: pc_inv_iff_but [of c _ x] pc_inv_but_upd)
qed

lemma pc_inv_emit:
  assumes "pc_inv c s" "detail_ok (cf_vurl c) d"
  shows "pc_inv c (pc_emit now x d s)"
proof (cases "jm_get (pc_tasks s) x")
  case None
  with assms show ?thesis by (simp add: pc_emit_def)
next
  case (Some a)
  have own: "own_event c (s\<lparr>pc_events := es\<rparr>) = own_event c s" for es
    by (simp add: own_event_def fun_eq_iff)
  have "own_event c s x (pc_event now a d)"
    using Some assms(2) by (simp add: own_event_def pc_event_def input_fits_def)
  with Some assms(1) show ?thesis
    by (auto simp: pc_emit_def pc_inv_def pc_rest_def own exec_at_def has_outcome_def)
qed

lemma pc_inv_drop_active:
  assumes "pc_inv c s"
  shows "pc_inv c (s\<lparr>pc_activeByTask := jm_delete t (pc_activeByTask s), pc_taskByRun := m\<rparr>)"
proof -
  have "own_event c (s\<lparr>pc_activeByTask := k, pc_taskByRun := m\<rparr>) = own_event c s" for k
    by (simp add: own_event_def fun_eq_iff)
  with assms show ?thesis
    by (auto simp: pc_inv_def pc_rest_def exec_at_def has_outcome_def split: if_splits)
qed

lemma pc_inv_removeTask: "pc_inv c s \<Longrightarrow> pc_inv c (removeTask x s)"
  unfolding removeTask_def
  by (cases "jm_get (pc_tasks s) x") (simp_all only: option.case, rule pc_inv_upd,
    rule pc_inv_drop_active, simp_all)

text \<open>A task is marked settled and its promise rejected or resolved: both or neither.\<close>

lemma exec_settled_task:
  assumes "exec_at c s x" "jm_get (pc_tasks s) x = Some a"
    and "\<forall>i. jm_get (pc_phase s) x \<noteq> Some (AwaitingAccept i)"
  shows "exec_at c (upd_active x (\<lambda>a. a\<lparr>at_settled := True\<rparr>) s) x"
proof (cases "jm_get (pc_phase s) x")
  case (Some ph)
  with assms show ?thesis by (cases ph) (auto simp: exec_at_def task_settled_def)
qed (use assms in \<open>simp add: exec_at_def\<close>)

lemma pc_inv_reject:
  assumes "pc_inv c s"
  shows "pc_inv c (active_reject x e (upd_active x (\<lambda>a. a\<lparr>at_settled := True\<rparr>) s))"
proof (cases "jm_get (pc_tasks s) x")
  case None
  then have "upd_active x (\<lambda>a. a\<lparr>at_settled := True\<rparr>) s = s" by (simp add: upd_active_def)
  moreover have "\<forall>i. jm_get (pc_phase s) x \<noteq> Some (AwaitingAccept i)"
    using assms None by (auto simp: pc_inv_iff_but [of c _ x] exec_at_def)
  ultimately show ?thesis using assms
    by (auto simp: active_reject_def split: option.split exec_phase.split)
next
  case (Some a)
  let ?s = "upd_active x (\<lambda>a. a\<lparr>at_settled := True\<rparr>) s"
  have but: "pc_inv_but c x ?s"
    using assms by (simp add: pc_inv_iff_but [of c _ x] pc_inv_but_upd)
  show ?thesis
  proof (cases "\<exists>i. jm_get (pc_phase s) x = Some (AwaitingAccept i)")
    case True
    then obtain i where i: "jm_get (pc_phase s) x = Some (AwaitingAccept i)" by blast
    with assms have "jm_get (pc_runs s) x = None" "\<not> has_outcome s x"
      by (auto simp: pc_inv_iff_but [of c _ x] exec_at_def)
    with i Some but show ?thesis
      by (simp add: active_reject_def pc_inv_persistent_failed task_settled_def)
  next
    case False
    then have "active_reject x e ?s = ?s"
      by (auto simp: active_reject_def split: option.split exec_phase.split)
    moreover have "exec_at c ?s x"
      using assms Some False by (intro exec_settled_task) (auto simp: pc_inv_def)
    ultimately show ?thesis using but by (simp add: pc_inv_iff_but [of c _ x])
  qed
qed

lemma pc_inv_resolve:
  assumes "pc_inv c s"
  shows "pc_inv c (active_resolve x r (upd_active x (\<lambda>a. a\<lparr>at_settled := True\<rparr>) s))"
proof (cases "\<exists>i. jm_get (pc_phase s) x = Some (AwaitingAccept i)")
  case True
  let ?s = "upd_active x (\<lambda>a. a\<lparr>at_settled := True\<rparr>) s"
  from True obtain i where i: "jm_get (pc_phase s) x = Some (AwaitingAccept i)" by blast
  with assms have x: "jm_get (pc_runs s) x = None" "\<not> has_outcome s x"
    "\<exists>a. jm_get (pc_tasks s) x = Some a"
    by (auto simp: pc_inv_iff_but [of c _ x] exec_at_def)
  have "pc_inv_but c x ?s"
    using assms by (simp add: pc_inv_iff_but [of c _ x] pc_inv_but_upd)
  with i x show ?thesis
    by (auto simp: active_resolve_def pc_inv_iff_but [of c _ x] pc_inv_but_settle exec_at_def
        has_outcome_settle task_settled_def)
next
  case False
  let ?s = "upd_active x (\<lambda>a. a\<lparr>at_settled := True\<rparr>) s"
  have eq: "active_resolve x r ?s = ?s" "active_reject x e ?s = ?s" for e
    using False
    by (auto simp: active_resolve_def active_reject_def split: option.split exec_phase.split)
  show ?thesis using pc_inv_reject [OF assms, of x undefined] by (simp add: eq)
qed

lemma pc_inv_emitFailure: "pc_inv c s \<Longrightarrow> pc_inv c (emitFailure now x e s)"
  unfolding emitFailure_def by (rule pc_inv_emit) simp_all

lemma pc_inv_lose: "pc_inv c s \<Longrightarrow> pc_inv c (lose_task now e x s)"
  unfolding lose_task_def
  by (auto simp: pc_inv_reject pc_inv_emitFailure split: option.split)

lemma pc_inv_failAll:
  assumes "pc_inv c s"
  shows "pc_inv c (failAll now e s)"
proof -
  have "pc_inv c (fold (\<lambda>x s. upd_active x (\<lambda>a. a\<lparr>at_timer := False\<rparr>) (lose_task now e x s)) xs s)" for xs
    using assms
    by (induction xs arbitrary: s) (simp_all add: pc_inv_upd pc_inv_lose)
  then have "pc_inv c (fold (\<lambda>x s. upd_active x (\<lambda>a. a\<lparr>at_timer := False\<rparr>) (lose_task now e x s))
      (jm_values (pc_activeByTask s)) s)" (is "pc_inv c ?s") .
  moreover have "own_event c (?s\<lparr>pc_activeByTask := [], pc_taskByRun := []\<rparr>) = own_event c ?s"
    by (simp add: own_event_def fun_eq_iff)
  ultimately show ?thesis
    unfolding failAll_def by (simp add: pc_inv_def pc_rest_def exec_at_def has_outcome_def)
qed

section \<open>Connecting and placing\<close>

lemma pc_inv_socket [simp]:
  "pc_inv c (socket_call k s) = pc_inv c s"
  "pc_inv c (end_socket n k s) = pc_inv c s"
  "pc_inv c (end_current k s) = pc_inv c s"
proof -
  have "pc_inv c (end_socket n k s) = pc_inv c s" for n s
    by (rule pc_inv_cong) (simp_all add: end_socket_def)
  then show "pc_inv c (end_socket n k s) = pc_inv c s" "pc_inv c (end_current k s) = pc_inv c s"
    by (auto simp: end_current_def split: option.split)
  show "pc_inv c (socket_call k s) = pc_inv c s"
    by (rule pc_inv_cong) (simp_all add: socket_call_def split: option.split)
qed

lemma pc_inv_ensure:
  "pc_inv c (fst (ensureConnected c s)) = pc_inv c s"
  "pc_phase (fst (ensureConnected c s)) = pc_phase s"
  by (rule pc_inv_cong; simp add: ensureConnected_def Let_def split: option.split)
    (simp add: ensureConnected_def Let_def split: option.split)

lemma exec_at_waiting:
  assumes "pc_inv c s" "jm_get (pc_phase s) x = Some (Preparing i) \<or> jm_get (pc_phase s) x = Some (AwaitingConnection i p)"
  shows "jm_get (pc_tasks s) x = None" "jm_get (pc_runs s) x = None" "\<not> has_outcome s x"
  using assms by (auto simp: pc_inv_iff_but [of c _ x] exec_at_def)

lemma pc_inv_failed_waiting:
  assumes "pc_inv c s" "jm_get (pc_phase s) x = Some (Preparing i) \<or> jm_get (pc_phase s) x = Some (AwaitingConnection i p)"
  shows "pc_inv c (persistent_failed x j e s)"
  using exec_at_waiting [OF assms] assms(1)
  by (intro pc_inv_persistent_failed) (simp_all add: pc_inv_iff_but [of c _ x] task_settled_def)

lemma pc_inv_active:
  "pc_inv c s \<Longrightarrow> jm_get (pc_activeByTask s) t = Some y \<Longrightarrow>
     \<exists>a. jm_get (pc_tasks s) y = Some a \<and> gi_taskId (at_input a) = t"
  unfolding pc_inv_def pc_rest_def by simp

lemma pc_inv_place:
  assumes "pc_inv c s" "jm_get (pc_phase s) x = Some (Preparing j) \<or> jm_get (pc_phase s) x = Some (AwaitingConnection j q)"
  shows "pc_inv c (place_task c x i p s)"
proof (cases "socket_open s")
  case False
  with pc_inv_failed_waiting [OF assms] show ?thesis by (simp add: place_task_def)
next
  case True
  note w = exec_at_waiting [OF assms]
  define a where "a = \<lparr>at_input = i, at_sessionKey = sessionKeyFor (gi_sessionId i) (agent_id (cf_env c)),
    at_runId = [], at_lastSnapshot = [], at_settled = False, at_timer = True\<rparr>"
  define s1 where "s1 = s\<lparr>pc_tasks := jm_set x a (pc_tasks s),
    pc_activeByTask := jm_set (gi_taskId i) x (pc_activeByTask s)\<rparr>"
  have a: "\<not> at_settled a" "at_input a = i" by (simp_all add: a_def)
  have own: "own_event c s y e \<Longrightarrow> own_event c s1 y e" for y e
    using w by (auto simp: own_event_def s1_def)
  have points: "\<exists>b. jm_get (pc_tasks s1) y = Some b \<and> gi_taskId (at_input b) = t"
    if "jm_get (pc_activeByTask s1) t = Some y" for t y
  proof (cases "t = gi_taskId i")
    case True
    with that a show ?thesis by (simp add: s1_def)
  next
    case False
    with that have "jm_get (pc_activeByTask s) t = Some y" by (simp add: s1_def)
    with pc_inv_active [OF assms(1)] obtain b
      where b: "jm_get (pc_tasks s) y = Some b" "gi_taskId (at_input b) = t" by blast
    with w(1) have "y \<noteq> x" by auto
    with b show ?thesis by (simp add: s1_def)
  qed
  have rest: "pc_rest c s" using assms(1) by (simp add: pc_inv_def)
  have "pc_rest c s1"
    unfolding pc_rest_def
  proof (intro conjI allI impI points)
    show "distinct (map fst (pc_outcomes s1))" "jm_ok (pc_activeByTask s1)"
      using rest by (simp_all add: pc_rest_def s1_def)
    have "\<forall>(x, e) \<in> set (pc_events s). own_event c s x e" using rest by (simp add: pc_rest_def)
    moreover have "pc_events s1 = pc_events s" by (simp add: s1_def)
    ultimately show "\<forall>(x, e) \<in> set (pc_events s1). own_event c s1 x e" using own by auto
  qed
  moreover have "exec_at c s1 y" if "y \<noteq> x" for y
    using assms(1) that by (simp add: pc_inv_def exec_at_def) (simp add: s1_def has_outcome_def)
  ultimately have "pc_inv_but c x s1" by (simp add: pc_inv_but_def)
  then have "pc_inv c (set_phase x (AwaitingAccept i) s1)"
    using w a by (simp add: pc_inv_iff_but [of c _ x] pc_inv_but_phase exec_at_def)
      (simp add: s1_def has_outcome_def)
  moreover have "set_phase x (AwaitingAccept i) (socket_call k s1) = socket_call k (set_phase x (AwaitingAccept i) s1)" for k
    by (simp add: set_phase_def socket_call_def split: option.split)
  ultimately show ?thesis
    using True by (simp add: place_task_def Let_def a_def [symmetric] s1_def [symmetric])
qed

lemma pc_inv_waiters:
  assumes "pc_inv c s"
    and "\<And>x i p s. pc_inv c s \<Longrightarrow> jm_get (pc_phase s) x = Some (AwaitingConnection i p) \<Longrightarrow> pc_inv c (f x i p s)"
  shows "pc_inv c (fold (\<lambda>x s. case jm_get (pc_phase s) x of
      Some (AwaitingConnection i p) \<Rightarrow> f x i p s | _ \<Rightarrow> s) xs s)"
  using assms(1)
  by (induction xs arbitrary: s) (auto intro!: assms(2) split: option.split exec_phase.split)

lemma pc_inv_rejectCurrent: "pc_inv c s \<Longrightarrow> pc_inv c (rejectCurrentConnection e s)"
  unfolding rejectCurrentConnection_def Let_def
  by (rule pc_inv_waiters)
    (auto intro: pc_inv_failed_waiting)

lemma pc_inv_resolve_connection: "pc_inv c s \<Longrightarrow> pc_inv c (resolve_connection c s)"
  unfolding resolve_connection_def Let_def
  by (rule pc_inv_waiters)
    (auto intro: pc_inv_place simp: startHeartbeat_def)

lemma pc_inv_disconnect: "pc_inv c s \<Longrightarrow> pc_inv c (handleDisconnect now e s)"
  by (simp add: handleDisconnect_def Let_def pc_inv_failAll pc_inv_rejectCurrent)

lemma pc_inv_executePersistent:
  assumes "pc_inv c s"
  shows "pc_inv c (executePersistent c x prep s)"
proof (cases "\<exists>i. jm_get (pc_phase s) x = Some (Preparing i)")
  case False
  then have "executePersistent c x prep s = s"
    by (auto simp: executePersistent_def split: option.split exec_phase.split)
  with assms show ?thesis by simp
next
  case True
  then obtain i where i: "jm_get (pc_phase s) x = Some (Preparing i)" by blast
  obtain s1 r where s1: "ensureConnected c s = (s1, r)" by (metis surj_pair)
  have inv1: "pc_inv c s1" and ph1: "jm_get (pc_phase s1) x = Some (Preparing i)"
    using pc_inv_ensure [of c s] s1 assms i by simp_all
  have wait: "pc_inv c (set_phase x (AwaitingConnection i p) (s1\<lparr>pc_waiting := w\<rparr>))" for p w
    using inv1 exec_at_waiting [OF inv1 disjI1 [OF ph1]]
    by (intro pc_inv_phase) (simp_all add: has_outcome_def)
  show ?thesis
    using i s1 wait pc_inv_place [OF inv1] ph1 pc_inv_failed_waiting [OF inv1] pc_inv_failed_waiting [OF assms]
    by (auto simp: executePersistent_def split: sum.split option.split)
qed

lemma pc_inv_execute:
  assumes "pc_inv c s" "jm_get (pc_phase s) x = None"
  shows "pc_inv c (execute c x i s)"
  using assms by (simp add: execute_def pc_inv_iff_but [of c _ x] pc_inv_but_phase exec_at_def)

lemma pc_inv_timeout: "pc_inv c s \<Longrightarrow> pc_inv c (task_timeout now x s)"
  unfolding task_timeout_def Let_def
  by (auto intro!: pc_inv_removeTask pc_inv_lose pc_inv_upd split: option.split)

section \<open>Frames\<close>

lemma pc_inv_response_ok:
  assumes "pc_inv c s"
  shows "pc_inv c (on_response_ok now x p s)"
proof (cases "jm_get (pc_tasks s) x")
  case None
  with assms show ?thesis by (simp add: on_response_ok_def)
next
  case (Some a)
  have "pc_inv c (upd_active x (\<lambda>a. a\<lparr>at_runId := r\<rparr>) s)" for r
    by (rule pc_inv_upd [OF assms]) simp_all
  then have "pc_inv c (pc_emit now x Accepted
      ((upd_active x (\<lambda>a. a\<lparr>at_runId := r\<rparr>) s)\<lparr>pc_taskByRun := m\<rparr>))" for r m
    by (intro pc_inv_emit) simp_all
  from pc_inv_resolve [OF this] Some show ?thesis
    by (simp add: on_response_ok_def Let_def)
qed

lemma pc_inv_response_error: "pc_inv c s \<Longrightarrow> pc_inv c (on_response_error x code msg s)"
  unfolding on_response_error_def by (intro pc_inv_removeTask pc_inv_reject)

lemma pc_inv_assistant: "pc_inv c s \<Longrightarrow> pc_inv c (on_assistant now x p s)"
  unfolding on_assistant_def Let_def
  by (auto intro!: pc_inv_emit pc_inv_upd split: option.split prod.split)

lemma pc_inv_chat: "pc_inv c s \<Longrightarrow> pc_inv c (on_chat_state now x p s)"
  unfolding on_chat_state_def
  by (auto intro!: pc_inv_removeTask pc_inv_emit pc_inv_emitFailure)

lemma pc_inv_task_event:
  assumes "pc_inv c s"
  shows "pc_inv c (on_task_event c now ev p s)"
proof (cases "findActive (ep_runId p) (ep_sessionKey p) s")
  case None
  with assms show ?thesis by (simp add: on_task_event_def)
next
  case (Some x)
  define r where "r = extractArtifactResult (cf_vurl c) [map_option JObj (ep_data p), ep_message p]"
  define s1 where "s1 = (case r of Some a \<Rightarrow> pc_emit now x (ResultCreated (ArtifactResult a)) s | None \<Rightarrow> s)"
  have "pc_inv c s1"
    using assms unfolding s1_def r_def
    by (auto intro!: pc_inv_emit dest: extractArtifactResult_ok split: option.split)
  with Some assms show ?thesis
    unfolding on_task_event_def
    by (simp add: Let_def r_def [symmetric] s1_def [symmetric] pc_inv_assistant pc_inv_chat pc_inv_emit)
qed

lemma pc_inv_message: "pc_inv c s \<Longrightarrow> pc_inv c (handleMessage c now raw s)"
  unfolding handleMessage_def
  by (auto simp: pc_inv_disconnect pc_inv_rejectCurrent pc_inv_resolve_connection pc_inv_response_ok
      pc_inv_response_error pc_inv_task_event split: option.split gateway_frame.split)

section \<open>The fallback\<close>

lemma fallback_event_fields [simp]:
  "pc_phase (fallback_event x t e s) = pc_phase s" "pc_tasks (fallback_event x t e s) = pc_tasks s"
  "pc_runs (fallback_event x t e s) = pc_runs s" "pc_outcomes (fallback_event x t e s) = pc_outcomes s"
  "pc_activeByTask (fallback_event x t e s) = pc_activeByTask s"
  "pc_events (fallback_event x t e s) = pc_events s @ [(x, e)]"
  by (auto simp: fallback_event_def Let_def split: option.split)

lemma fallback_events_fields [simp]:
  "pc_phase (fold (fallback_event x t) es s) = pc_phase s"
  "pc_tasks (fold (fallback_event x t) es s) = pc_tasks s"
  "pc_runs (fold (fallback_event x t) es s) = pc_runs s"
  "pc_outcomes (fold (fallback_event x t) es s) = pc_outcomes s"
  "pc_activeByTask (fold (fallback_event x t) es s) = pc_activeByTask s"
  "pc_events (fold (fallback_event x t) es s) = pc_events s @ map (Pair x) es"
  by (induction es arbitrary: s) simp_all

lemma pc_inv_settle:
  assumes "pc_inv_but c x s" "task_settled (jm_get (pc_tasks s) x)" "\<not> has_outcome s x"
    "\<forall>gc g. jm_get (pc_runs s) x = Some (gc, g) \<longrightarrow> gw_inv gc g \<and> gc_vurl gc = cf_vurl c \<and> gw_outcome g \<noteq> None"
  shows "pc_inv c (settle x r s)"
  using assms by (simp add: pc_inv_iff_but [of c _ x] pc_inv_but_settle exec_at_def has_outcome_settle)

lemma pc_inv_but_fields:
  assumes "pc_phase s = pc_phase s'" "pc_tasks s = pc_tasks s'" "pc_runs s = pc_runs s'"
    "pc_outcomes s = pc_outcomes s'" "pc_activeByTask s = pc_activeByTask s'" "pc_events s = pc_events s'"
  shows "pc_inv_but c x s = pc_inv_but c x s'"
  using assms by (simp add: pc_inv_but_def pc_rest_def exec_at_def has_outcome_def own_event_def)

lemma pc_inv_fallback_settled:
  assumes "pc_inv_but c x s" "task_settled (jm_get (pc_tasks s) x)" "\<not> has_outcome s x"
    "\<forall>gc g. jm_get (pc_runs s) x = Some (gc, g) \<longrightarrow> gw_inv gc g \<and> gc_vurl gc = cf_vurl c \<and> gw_outcome g \<noteq> None"
  shows "pc_inv c (fallback_settled x t r s)"
proof -
  have "pc_inv_but c x (s\<lparr>pc_fallbackByTask := m\<rparr>)" for m
    using assms(1) by (subst pc_inv_but_fields [where s' = s]) simp_all
  then have "pc_inv c (settle x r' (s\<lparr>pc_fallbackByTask := m\<rparr>))" for m r'
    using assms(2-4) by (intro pc_inv_settle) (simp_all add: has_outcome_def)
  with pc_inv_settle [OF assms] show ?thesis
    by (simp add: fallback_settled_def split: sum.split)
qed

lemma pc_inv_fallback_prepared:
  assumes "pc_inv c s"
  shows "pc_inv c (fallback_prepared c x prep s)"
proof (cases "\<exists>i. jm_get (pc_phase s) x = Some (FallbackPreparing i)")
  case False
  then have "fallback_prepared c x prep s = s"
    by (auto simp: fallback_prepared_def split: option.split exec_phase.split)
  with assms show ?thesis by simp
next
  case True
  then obtain i where i: "jm_get (pc_phase s) x = Some (FallbackPreparing i)" by blast
  with assms have x: "pc_inv_but c x s" "task_settled (jm_get (pc_tasks s) x)" "jm_get (pc_runs s) x = None"
    "\<not> has_outcome s x"
    by (auto simp: pc_inv_iff_but [of c _ x] exec_at_def)
  have settled: "pc_inv c (fallback_settled x t r s)" for t r
    using x by (intro pc_inv_fallback_settled) simp_all
  define gc where "gc p = \<lparr>gc_env = cf_env c, gc_input = i, gc_prepared = p, gc_vurl = cf_vurl c,
    gc_url = cf_url c\<rparr>" for p
  have start: "pc_inv c (set_phase x (FallbackStarted i)
      (s\<lparr>pc_runs := jm_set x (gc p, gw_initial (gc p)) (pc_runs s), pc_fallbackByTask := m\<rparr>))" for p m
  proof -
    let ?s = "s\<lparr>pc_runs := jm_set x (gc p, gw_initial (gc p)) (pc_runs s), pc_fallbackByTask := m\<rparr>"
    have "own_event c s y e \<Longrightarrow> own_event c ?s y e" for y e
      using x(3) by (auto simp: own_event_def)
    then have "pc_inv_but c x ?s"
      using x(1) by (auto simp: pc_inv_but_def pc_rest_def exec_at_def has_outcome_def)
    then show ?thesis
      using x gw_inv_initial [of "gc p"]
      by (simp add: pc_inv_iff_but [of c _ x] pc_inv_but_phase exec_at_def has_outcome_def)
        (simp add: gc_def gw_initial_def)
  qed
  show ?thesis
    using i settled start
    by (auto simp: fallback_prepared_def gc_def Let_def split: sum.split option.split)
qed

lemma gw_step_events_grow: "prefix (gw_events g) (gw_events (gw_step c i g))"
proof -
  have emit: "prefix (gw_events g) (gw_events (gw_emit c n r d g))" for g n r d
    by (simp add: gw_emit_def)
  have clean: "gw_events (gw_cleanup g) = gw_events g" for g by (simp add: gw_cleanup_def)
  have fail: "prefix (gw_events g) (gw_events (failAfterAccepted c n e g))"
    "prefix (gw_events g) (gw_events (failBeforeAccepted c n e g))"
    "prefix (gw_events g) (gw_events (rejectExecution e g))" for g n e
    by (simp_all add: gw_control_defs)
  have chat: "prefix (gw_events g) (gw_events (gw_chat_frame c n p g))" for g n p
    by (auto simp: gw_chat_frame_def gw_control_defs Let_def split: option.split)
  have agent: "prefix (gw_events g) (gw_events (gw_agent_frame c n p g))" for g n p
    by (auto simp: gw_agent_frame_def gw_emit_def Let_def split: option.split prod.split)
  have frame: "prefix (gw_events g) (gw_events (gw_frame c n f g))" for n f
    by (auto simp: gw_frame_def gw_connected_def gw_accepted_def gw_send_def Let_def fail chat agent
        resolveAccepted_def gw_emit_def split: gateway_frame.split)
  have ready: "gw_events (g\<lparr>gw_ready := r\<rparr>) = gw_events g" "gw_events (g\<lparr>gw_connectTimer := b\<rparr>) = gw_events g"
    for g r b by simp_all
  show ?thesis
  proof (cases i)
    case (WsClose n code reason)
    then show ?thesis
      using fail [of "g\<lparr>gw_ready := Closed\<rparr>"] by (auto simp: gw_ws_close_def Let_def)
  next
    case (ConnectTimeout n)
    then show ?thesis
      using fail [of "g\<lparr>gw_connectTimer := False\<rparr>"] by (auto simp: gw_connect_timeout_def)
  qed (auto simp: frame gw_ws_error_def fail Let_def gw_cancel_def gw_emit_def gw_send_def clean
      gw_http_done_def rejectExecution_def split: fallback_state.split sum.split)
qed

lemma gw_step_outcome_kept: "gw_inv c g \<Longrightarrow> gw_outcome g \<noteq> None \<Longrightarrow> gw_outcome (gw_step c i g) = gw_outcome g"
proof -
  assume inv: "gw_inv c g" and "gw_outcome g \<noteq> None"
  then have st: "gw_settled g" by (simp add: gw_inv_def)
  have same: "gw_outcome (failAfterAccepted c n e h) = gw_outcome h" for n e h
    by (simp add: gw_control_defs)
  have chat: "gw_outcome (gw_chat_frame c n p h) = gw_outcome h" for n p h
    by (auto simp: gw_chat_frame_def gw_control_defs Let_def split: option.split)
  have agent: "gw_outcome (gw_agent_frame c n p h) = gw_outcome h" for n p h
    by (auto simp: gw_agent_frame_def gw_emit_def Let_def split: option.split prod.split)
  show ?thesis
    using st inv
    by (cases i) (auto simp: gw_frame_def gw_connected_def gw_accepted_def gw_send_def gw_emit_def Let_def
        resolveAccepted_def rejectExecution_def failBeforeAccepted_def same chat agent gw_socket_defs
        gw_cancel_def gw_cleanup_def gw_http_done_def gw_inv_def split: gateway_frame.split fallback_state.split sum.split)
qed

lemma pc_inv_fallback_step:
  assumes "pc_inv c s"
  shows "pc_inv c (fallback_step x i s)"
proof (cases "jm_get (pc_runs s) x")
  case None
  with assms show ?thesis by (simp add: fallback_step_def)
next
  case (Some r)
  then obtain gc g where run: "jm_get (pc_runs s) x = Some (gc, g)" by (cases r) simp
  let ?g = "gw_step gc i g" and ?t = "gi_taskId (gc_input gc)"
  let ?s = "fold (fallback_event x ?t) (drop (length (gw_events g)) (gw_events ?g))
    (s\<lparr>pc_runs := jm_set x (gc, ?g) (pc_runs s)\<rparr>)"
  from assms have ex: "exec_at c s x" by (simp add: pc_inv_def)
  have facts: "task_settled (jm_get (pc_tasks s) x) \<and> gw_inv gc g \<and> gc_vurl gc = cf_vurl c
      \<and> (if gw_outcome g = None then (\<exists>j. jm_get (pc_phase s) x = Some (FallbackStarted j)) \<and> \<not> has_outcome s x
         else jm_get (pc_phase s) x = Some ExecSettled \<and> has_outcome s x)"
  proof (cases "jm_get (pc_phase s) x")
    case (Some ph)
    with ex run show ?thesis by (cases ph) (auto simp: exec_at_def)
  qed (use ex run in \<open>simp add: exec_at_def\<close>)
  then have inv': "gw_inv gc ?g" by (simp add: gw_inv_step)
  have own1: "own_event c s y e \<Longrightarrow> own_event c ?s y e" for y e
    using run by (auto simp: own_event_def)
  have own2: "own_event c ?s x e" if "e \<in> set (drop (length (gw_events g)) (gw_events ?g))" for e
  proof -
    have "event_fits gc e" using inv' that by (auto simp: gw_inv_def dest: in_set_dropD)
    then show ?thesis using facts by (auto simp: own_event_def event_fits_def input_fits_def)
  qed
  have rest: "pc_rest c s" using assms by (simp add: pc_inv_def)
  then have "\<forall>(y, e) \<in> set (pc_events s). own_event c s y e" by (simp add: pc_rest_def)
  with own1 own2 have "\<forall>(y, e) \<in> set (pc_events ?s). own_event c ?s y e" by auto
  with rest have "pc_rest c ?s" by (simp add: pc_rest_def)
  moreover have "exec_at c ?s y" if "y \<noteq> x" for y
    using assms that by (simp add: pc_inv_def exec_at_def has_outcome_def)
  ultimately have but: "pc_inv_but c x ?s" by (simp add: pc_inv_but_def)
  have ho: "has_outcome ?s x = has_outcome s x" by (simp add: has_outcome_def)
  consider (new) r where "gw_outcome g = None" "gw_outcome ?g = Some r"
    | (pending) "gw_outcome g = None" "gw_outcome ?g = None"
    | (old) "gw_outcome g \<noteq> None" "gw_outcome ?g \<noteq> None"
    using gw_step_outcome_kept [of gc g i] facts by (cases "gw_outcome g"; cases "gw_outcome ?g") auto
  then show ?thesis
  proof cases
    case new
    have "pc_inv c (fallback_settled x ?t r ?s)"
      using but facts new inv' ho by (intro pc_inv_fallback_settled) auto
    with new run show ?thesis by (simp add: fallback_step_def Let_def)
  next
    case pending
    have "exec_at c ?s x" using facts pending inv' ho by (auto simp: exec_at_def)
    with but pending run show ?thesis by (simp add: fallback_step_def Let_def pc_inv_iff_but [of c _ x])
  next
    case old
    then obtain r0 where r0: "gw_outcome g = Some r0" by blast
    have "exec_at c ?s x" using facts old inv' ho by (auto simp: exec_at_def)
    with but r0 run show ?thesis by (simp add: fallback_step_def Let_def pc_inv_iff_but [of c _ x])
  qed
qed

section \<open>The machine\<close>

lemma pc_inv_cancel: "pc_inv c s \<Longrightarrow> pc_inv c (fst (cancel now t s))"
  unfolding cancel_def Let_def
  by (auto intro!: pc_inv_removeTask pc_inv_reject pc_inv_emit pc_inv_fallback_step
      split: option.split)

lemma pc_inv_close: 
  assumes "pc_inv c s"
  shows "pc_inv c (close_client now s)"
proof -
  have closing: "pc_inv c (fold (\<lambda>f. fallback_step (fb_exec f) GwClose) fs s)" if "pc_inv c s" for fs s
    using that by (induction fs arbitrary: s) (simp_all add: pc_inv_fallback_step)
  show ?thesis
    unfolding close_client_def Let_def
    by (auto simp: assms pc_inv_failAll closing split: option.split ready_state.split)
qed

lemma pc_inv_step: "pc_inv c s \<Longrightarrow> pc_inv c (pc_step c i s)"
proof (cases i)
  case PcReconnect
  assume inv: "pc_inv c s"
  obtain s1 r where "ensureConnected c (s\<lparr>pc_reconnectTimer := False\<rparr>) = (s1, r)" by (metis surj_pair)
  moreover from this have "pc_inv c s1"
    using pc_inv_ensure(1) [of c "s\<lparr>pc_reconnectTimer := False\<rparr>"] inv by simp
  ultimately show ?thesis using PcReconnect inv
    by (simp add: reconnect_def split: option.split)
qed (simp_all add: pc_inv_execute pc_inv_executePersistent pc_inv_fallback_prepared pc_inv_fallback_step
    pc_inv_message pc_inv_rejectCurrent pc_inv_disconnect pc_inv_timeout pc_inv_cancel pc_inv_close
    socket_error_def socket_closed_def connect_timeout_def heartbeat_tick_def Let_def split: option.split)

interpretation pc_machine: machine "pc_step c" "pc_inv c" for c
  by unfold_locales (rule pc_inv_step)

lemma pc_inv_run: "pc_inv c (pc_run c is pc_new)"
  unfolding pc_run_def by (rule pc_machine.inv_run [OF pc_inv_new])

section \<open>Every execution keeps its own input\<close>

text \<open>The inputs the client holds for an execution: in its phase, its task object, its fallback run.\<close>

fun phase_input :: "exec_phase \<Rightarrow> gateway_input option" where
  "phase_input (Preparing i) = Some i"
| "phase_input (AwaitingConnection i p) = Some i"
| "phase_input (AwaitingAccept i) = Some i"
| "phase_input (FallbackPreparing i) = Some i"
| "phase_input (FallbackStarted i) = Some i"
| "phase_input ExecSettled = None"

definition held :: "pc \<Rightarrow> nat \<Rightarrow> gateway_input \<Rightarrow> bool" where
  "held s x i \<longleftrightarrow>
     Option.bind (jm_get (pc_phase s) x) phase_input = Some i
     \<or> (\<exists>a. jm_get (pc_tasks s) x = Some a \<and> at_input a = i)
     \<or> (\<exists>gc g. jm_get (pc_runs s) x = Some (gc, g) \<and> gc_input gc = i)"

text \<open>A step that brings no new input and forgets no execution.\<close>

definition carries :: "pc \<Rightarrow> pc \<Rightarrow> bool" where
  "carries s s' \<longleftrightarrow> (\<forall>x i. held s' x i \<longrightarrow> held s x i)
     \<and> (\<forall>x. jm_get (pc_phase s) x \<noteq> None \<longrightarrow> jm_get (pc_phase s') x \<noteq> None)"

lemma carries_refl [simp]: "carries s s"
  by (simp add: carries_def)

lemma carries_trans [trans]: "carries s s' \<Longrightarrow> carries s' s'' \<Longrightarrow> carries s s''"
  unfolding carries_def by blast

lemma carries_same:
  "pc_phase s' = pc_phase s \<Longrightarrow> pc_tasks s' = pc_tasks s \<Longrightarrow> pc_runs s' = pc_runs s \<Longrightarrow> carries s s'"
  by (simp add: carries_def held_def)

lemma carries_from:
  "pc_phase s' = pc_phase s \<Longrightarrow> pc_tasks s' = pc_tasks s \<Longrightarrow> pc_runs s' = pc_runs s \<Longrightarrow>
     carries s' t \<longleftrightarrow> carries s t"
  by (simp add: carries_def held_def)

lemma carries_phase:
  "(\<forall>i. phase_input ph = Some i \<longrightarrow> held s x i) \<Longrightarrow> carries s (set_phase x ph s)"
  by (auto simp: carries_def held_def)

lemma carries_settle: "carries s (settle x r s)"
  by (auto simp: carries_def held_def)

lemma carries_failed: "held s x i \<Longrightarrow> carries s (persistent_failed x i e s)"
  by (simp add: persistent_failed_def carries_settle carries_phase)

lemma held_phase: "jm_get (pc_phase s) x = Some ph \<Longrightarrow> phase_input ph = Some i \<Longrightarrow> held s x i"
  by (simp add: held_def)

lemma carries_reject: "carries s (active_reject x e s)"
  unfolding active_reject_def
  by (auto intro!: carries_failed held_phase split: option.split exec_phase.split)

lemma carries_resolve: "carries s (active_resolve x r s)"
  by (auto simp: active_resolve_def carries_settle split: option.split exec_phase.split)

lemma carries_upd: "keeps_input f \<Longrightarrow> carries s (upd_active x f s)"
  by (auto simp: carries_def held_def keeps_input_def split: if_splits)

lemma carries_emit: "carries s (pc_emit now x d s)"
  by (rule carries_same) (simp_all add: pc_emit_def split: option.split)

lemma carries_sockets:
  "carries s (socket_call k s)" "carries s (end_current k s)" "carries s (end_socket n k s)"
  by (auto intro!: carries_same simp: socket_call_def end_current_def end_socket_def split: option.split)

lemma carries_remove: "carries s (removeTask x s)"
proof -
  have "carries s (upd_active x (\<lambda>a. a\<lparr>at_timer := False\<rparr>) (s\<lparr>pc_activeByTask := m, pc_taskByRun := k\<rparr>))" for m k
    by (rule carries_trans [OF carries_same carries_upd]) simp_all
  then show ?thesis by (simp add: removeTask_def split: option.split)
qed

lemma carries_lose: "carries s (lose_task now e x s)"
proof -
  have "carries s (active_reject x e (upd_active x (\<lambda>a. a\<lparr>at_settled := True\<rparr>) s))"
    by (rule carries_trans [OF carries_upd carries_reject]) simp
  then show ?thesis by (simp add: lose_task_def emitFailure_def carries_emit split: option.split)
qed

lemma carries_fold:
  assumes "\<And>y s. carries s (f y s)"
  shows "carries s (fold f ys s)"
  by (induction ys arbitrary: s) (auto intro: carries_trans [OF assms])

lemma carries_failAll: "carries s (failAll now e s)"
proof -
  have "carries s (upd_active y (\<lambda>a. a\<lparr>at_timer := False\<rparr>) (lose_task now e y s))" for y s
    by (rule carries_trans [OF carries_lose carries_upd]) simp
  then have "carries s (fold (\<lambda>x s. upd_active x (\<lambda>a. a\<lparr>at_timer := False\<rparr>) (lose_task now e x s))
      (jm_values (pc_activeByTask s)) s)" by (rule carries_fold)
  then show ?thesis unfolding failAll_def by (rule carries_trans) (rule carries_same; simp)
qed

lemma carries_waiters:
  assumes "\<And>y i p s. held s y i \<Longrightarrow> carries s (f y i p s)"
  shows "carries s (fold (\<lambda>y s. case jm_get (pc_phase s) y of
      Some (AwaitingConnection i p) \<Rightarrow> f y i p s | _ \<Rightarrow> s) ys s)"
  by (rule carries_fold) (auto intro!: assms held_phase split: option.split exec_phase.split)

lemma carries_rejectCurrent: "carries s (rejectCurrentConnection e s)"
  unfolding rejectCurrentConnection_def Let_def
  by (rule carries_trans [OF carries_same carries_waiters]) (simp_all add: carries_failed)

lemma carries_disconnect: "carries s (handleDisconnect now e s)"
proof -
  define s1 where "s1 = rejectCurrentConnection e (s\<lparr>pc_connected := False, pc_heartbeat := False\<rparr>)"
  have "carries s s1"
    unfolding s1_def by (rule carries_trans [OF carries_same carries_rejectCurrent]) simp_all
  then have "carries s (if pc_connected s then failAll now e s1 else s1)"
    using carries_trans [OF _ carries_failAll] by simp
  then show ?thesis
    unfolding handleDisconnect_def Let_def s1_def [symmetric]
    by (auto intro: carries_trans [OF _ carries_same])
qed

lemma carries_place: "held s x i \<Longrightarrow> carries s (place_task c x i p s)"
  by (auto simp: place_task_def Let_def carries_failed)
    (auto simp: carries_def held_def socket_call_def split: option.splits if_splits)

lemma carries_resolve_connection: "carries s (resolve_connection c s)"
  unfolding resolve_connection_def Let_def
  by (rule carries_trans [OF carries_same carries_waiters]) (simp_all add: startHeartbeat_def carries_place)

lemma carries_ensure: "carries s (fst (ensureConnected c s))"
  by (rule carries_same) (simp_all add: ensureConnected_def Let_def split: option.split)

lemma carries_executePersistent: "carries s (executePersistent c x prep s)"
proof (cases "\<exists>i. jm_get (pc_phase s) x = Some (Preparing i)")
  case True
  then obtain i where i: "jm_get (pc_phase s) x = Some (Preparing i)" by blast
  obtain s1 r where s1: "ensureConnected c s = (s1, r)" by (metis surj_pair)
  have c: "carries s s1" using carries_ensure [of s c] s1 by simp
  have h: "held s x i" "held s1 x i"
    using i pc_inv_ensure(2) [of c s] s1 by (auto intro: held_phase)
  have "carries s1 (set_phase x (AwaitingConnection i p) (s1\<lparr>pc_waiting := w\<rparr>))" for p w
    by (rule carries_trans [OF carries_same carries_phase]) (use h in \<open>simp_all add: held_def\<close>)
  then show ?thesis
    using i s1 h c carries_trans [OF c carries_place [OF h(2)]] carries_trans [OF c carries_failed [OF h(2)]]
    by (auto simp: executePersistent_def carries_failed intro: carries_trans [OF c] split: sum.split option.split)
next
  case False
  then show ?thesis by (auto simp: executePersistent_def split: option.split exec_phase.split)
qed

lemma carries_timeout: "carries s (task_timeout now x s)"
proof -
  have "carries s (removeTask y (lose_task now e y (upd_active x (\<lambda>a. a\<lparr>at_timer := False\<rparr>) s)))" for y e
    by (rule carries_trans [OF carries_trans [OF carries_upd carries_lose] carries_remove]) simp
  then show ?thesis by (simp add: task_timeout_def Let_def carries_upd split: option.split)
qed

lemma carries_fallback_settled: "carries s (fallback_settled x t r s)"
  by (auto simp: fallback_settled_def carries_settle split: sum.split
      intro: carries_trans [OF carries_same carries_settle])

lemma carries_fallback_step: "carries s (fallback_step x i s)"
proof (cases "jm_get (pc_runs s) x")
  case (Some r)
  then obtain gc g where run: "jm_get (pc_runs s) x = Some (gc, g)" by (cases r) simp
  have "carries s (s\<lparr>pc_runs := jm_set x (gc, g') (pc_runs s)\<rparr>)" for g'
    using run by (auto simp: carries_def held_def)
  moreover have "carries t (fold (fallback_event x k) es t)" for t k es
    by (rule carries_fold, rule carries_same) simp_all
  ultimately have "carries s (fold (fallback_event x k) es (s\<lparr>pc_runs := jm_set x (gc, g') (pc_runs s)\<rparr>))" for k es g'
    by (rule carries_trans)
  then show ?thesis
    by (auto simp: fallback_step_def run Let_def intro: carries_trans [OF _ carries_fallback_settled] split: option.split)
qed (simp add: fallback_step_def)

lemma carries_fallback_prepared: "carries s (fallback_prepared c x prep s)"
  unfolding fallback_prepared_def Let_def
  by (auto simp: carries_fallback_settled split: option.split exec_phase.split sum.split)
    (auto simp: carries_def held_def)

lemma carries_message: "carries s (handleMessage c now raw s)"
proof -
  have "carries s (active_resolve x r (upd_active x (\<lambda>a. a\<lparr>at_settled := True\<rparr>)
      (pc_emit now x d ((upd_active x (\<lambda>a. a\<lparr>at_runId := k\<rparr>) s)\<lparr>pc_taskByRun := m\<rparr>))))" for x r d k m
    by (rule carries_trans [OF carries_trans [OF carries_trans [OF carries_trans [OF carries_upd carries_same]
          carries_emit] carries_upd] carries_resolve]) simp_all
  then have ok: "carries s (on_response_ok now x p s)" for x p
    by (simp add: on_response_ok_def Let_def split: option.split)
  have err: "carries s (on_response_error x code msg s)" for x code msg
    unfolding on_response_error_def
    by (rule carries_trans [OF carries_trans [OF carries_upd carries_reject] carries_remove]) simp
  have assistant: "carries t (on_assistant now x p t)" for t x p
    by (auto simp: on_assistant_def Let_def intro: carries_upd carries_trans [OF carries_upd carries_emit]
        split: option.split prod.split)
  have chat: "carries t (on_chat_state now x p t)" for t x p
    by (auto simp: on_chat_state_def emitFailure_def intro: carries_trans [OF carries_emit carries_remove])
  have ev: "carries s (on_task_event c now ev p s)" for ev p
    by (auto simp: on_task_event_def Let_def assistant chat carries_emit
        intro: carries_trans [OF carries_emit assistant] carries_trans [OF carries_emit chat] split: option.split)
  show ?thesis
    unfolding handleMessage_def
    by (auto simp: ok err ev carries_sockets carries_resolve_connection
        intro: carries_trans [OF carries_disconnect carries_sockets(2)]
          carries_trans [OF carries_rejectCurrent carries_sockets(2)] split: option.split gateway_frame.split)
qed

lemma carries_cancel: "carries s (fst (cancel now t s))"
proof -
  have "carries s ((fallback_step y i s)\<lparr>pc_fallbackByTask := m\<rparr>)" for y i m
    by (rule carries_trans [OF carries_fallback_step carries_same]) simp_all
  moreover have sent: "carries s (pc_emit now y d (socket_call k s))" for y d k
    by (rule carries_trans [OF carries_sockets(1) carries_emit])
  moreover have "carries s (active_reject y e (upd_active y (\<lambda>a. a\<lparr>at_settled := True\<rparr>)
      (pc_emit now y d (socket_call k s))))" for y e d k
    by (rule carries_trans [OF carries_trans [OF sent carries_upd] carries_reject]) simp
  ultimately show ?thesis
    by (auto simp: cancel_def Let_def intro: carries_trans [OF _ carries_remove] split: option.split)
qed

lemma carries_close: "carries s (close_client now s)"
proof -
  have "carries s (failAll now e (s\<lparr>pc_closed := True, pc_connected := False, pc_connectTimer := None,
      pc_heartbeat := False, pc_reconnectTimer := False\<rparr>))" (is "carries s ?s2") for e
    by (rule carries_trans [OF carries_same carries_failAll]) simp_all
  moreover have "carries t ((fold (\<lambda>f. fallback_step (fb_exec f) GwClose) fs t)\<lparr>pc_fallbackByTask := []\<rparr>)" for t fs
    by (rule carries_trans [OF carries_fold carries_same]) (simp_all add: carries_fallback_step)
  moreover have "carries t ((case Option.bind (pc_socket t) (jm_get (pc_ready t)) of
      None \<Rightarrow> t | Some Closed \<Rightarrow> t | Some _ \<Rightarrow> end_current CloseCall t)\<lparr>pc_socket := None\<rparr>)" for t
    by (rule carries_trans [OF _ carries_same]) (auto simp: carries_sockets split: option.split ready_state.split)
  ultimately show ?thesis
    unfolding close_client_def Let_def by (blast intro: carries_trans)
qed

text \<open>The input of an execution with the client's own options, and where it comes from.\<close>

definition with_options :: "pc_config \<Rightarrow> gateway_input \<Rightarrow> gateway_input" where
  "with_options c i = i\<lparr>gi_gatewayUrl := cf_gatewayUrl c, gi_gatewayToken := cf_gatewayToken c,
     gi_gatewayPassword := cf_gatewayPassword c, gi_taskTimeoutMs := cf_taskTimeoutMs c\<rparr>"

fun given_input :: "pc_in list \<Rightarrow> nat \<Rightarrow> gateway_input option" where
  "given_input [] x = None"
| "given_input (i # is) x =
     (case i of PcExecute y j \<Rightarrow> if y = x then Some j else given_input is x | _ \<Rightarrow> given_input is x)"

lemma given_input_snoc:
  "given_input (is @ [i]) x = (case given_input is x of Some j \<Rightarrow> Some j
     | None \<Rightarrow> (case i of PcExecute y j \<Rightarrow> if y = x then Some j else None | _ \<Rightarrow> None))"
  by (induction "is") (auto split: pc_in.split)

lemma carries_step: "(\<forall>x j. i \<noteq> PcExecute x j) \<Longrightarrow> carries s (pc_step c i s)"
proof (cases i)
  case (SockClose now n code reason)
  have "carries s (handleDisconnect now e (s\<lparr>pc_ready := m\<rparr>))" for e m
    by (rule carries_trans [OF carries_same carries_disconnect]) simp_all
  with SockClose show ?thesis by (simp add: socket_closed_def Let_def)
next
  case PcReconnect
  obtain s1 r where s1: "ensureConnected c (s\<lparr>pc_reconnectTimer := False\<rparr>) = (s1, r)" by (metis surj_pair)
  have "carries s s1"
    using carries_ensure [of "s\<lparr>pc_reconnectTimer := False\<rparr>" c] s1
    by (simp add: carries_from [of "s\<lparr>pc_reconnectTimer := False\<rparr>" s])
  then show ?thesis
    using PcReconnect s1 by (auto simp: reconnect_def intro: carries_trans [OF _ carries_same] split: option.split)
next
  case PcHeartbeat
  then show ?thesis
    by (auto simp: heartbeat_tick_def carries_sockets intro: carries_trans [OF carries_same carries_sockets(1)])
next
  case PcConnectTimeout
  then show ?thesis
    by (auto simp: connect_timeout_def intro: carries_trans [OF carries_rejectCurrent carries_sockets(3)] split: option.split)
qed (auto simp: carries_executePersistent carries_fallback_prepared carries_fallback_step carries_message
    socket_error_def carries_rejectCurrent carries_timeout carries_cancel carries_close intro: carries_same)

lemma execute_new:
  assumes "jm_get (pc_phase s) y = None"
  shows "jm_get (pc_phase (pc_step c (PcExecute y k) s)) x =
      (if x = y then Some (Preparing (with_options c k)) else jm_get (pc_phase s) x)"
    "held (pc_step c (PcExecute y k) s) x j \<Longrightarrow> held s x j \<or> x = y \<and> j = with_options c k"
  using assms by (auto simp: execute_def held_def with_options_def split: if_splits)

lemma execute_again: "jm_get (pc_phase s) y = Some ph \<Longrightarrow> pc_step c (PcExecute y k) s = s"
  by simp

lemma held_run:
  "(held (pc_run c is pc_new) x j \<longrightarrow> (\<exists>i. given_input is x = Some i \<and> j = with_options c i))
   \<and> (given_input is x \<noteq> None \<longrightarrow> jm_get (pc_phase (pc_run c is pc_new)) x \<noteq> None)"
proof (induction "is" arbitrary: x j rule: rev_induct)
  case Nil
  show ?case by (simp add: pc_run_def pc_new_def held_def)
next
  case (snoc i "is")
  define s where "s = pc_run c is pc_new"
  have IH: "held s x j \<longrightarrow> (\<exists>i. given_input is x = Some i \<and> j = with_options c i)"
    "jm_get (pc_phase s) x = None \<Longrightarrow> given_input is x = None" for x j
    using snoc.IH [of x j] by (auto simp: s_def)
  have run: "pc_run c (is @ [i]) pc_new = pc_step c i s" by (simp add: pc_run_def s_def)
  show ?case
  proof (cases "\<exists>y k. i = PcExecute y k")
    case True
    then obtain y k where i: "i = PcExecute y k" by blast
    show ?thesis
    proof (cases "jm_get (pc_phase s) y")
      case None
      have "given_input (is @ [i]) x = (if x = y then Some k else given_input is x)"
        using IH(2) [of y] None by (auto simp: given_input_snoc i split: option.split)
      with execute_new(1) [OF None, where c = c and k = k and x = x] execute_new(2) [OF None, of c k x j]
        IH(1) [of x j] IH(2) [of x]
      show ?thesis unfolding run unfolding i using None IH(2) [of y]
        by (cases "x = y"; cases "jm_get (pc_phase s) x") (auto simp del: pc_step.simps)
    next
      case (Some ph)
      then have "pc_step c i s = s" unfolding i by (rule execute_again)
      then show ?thesis unfolding run unfolding given_input_snoc i using IH(1) [of x j] IH(2) [of x] Some
        by (cases "jm_get (pc_phase s) x") (auto split: option.split)
    qed
  next
    case False
    then have c: "carries s (pc_step c i s)" by (intro carries_step) auto
    have "given_input (is @ [i]) x = given_input is x"
      using False by (auto simp: given_input_snoc split: option.split pc_in.split)
    then show ?thesis using IH(1) [of x j] IH(2) [of x] c unfolding run carries_def
      by (cases "jm_get (pc_phase s) x") auto
  qed
qed


section \<open>Losing the connection\<close>

lemma persistent_failed_other [simp]:
  "pc_tasks (persistent_failed x i e s) = pc_tasks s" "pc_events (persistent_failed x i e s) = pc_events s"
  "pc_activeByTask (persistent_failed x i e s) = pc_activeByTask s"
  "pc_taskByRun (persistent_failed x i e s) = pc_taskByRun s"
  "pc_closed (persistent_failed x i e s) = pc_closed s"
  "pc_connected (persistent_failed x i e s) = pc_connected s"
  "jm_get (pc_phase (persistent_failed x i e s)) y =
     (if y = x then Some (if pc_closed s then ExecSettled else FallbackPreparing i) else jm_get (pc_phase s) y)"
  by (simp_all add: persistent_failed_def settle_def set_phase_def)

lemma active_reject_other [simp]:
  "pc_tasks (active_reject x e s) = pc_tasks s" "pc_events (active_reject x e s) = pc_events s"
  "pc_activeByTask (active_reject x e s) = pc_activeByTask s"
  "pc_taskByRun (active_reject x e s) = pc_taskByRun s"
  "pc_closed (active_reject x e s) = pc_closed s"
  "pc_connected (active_reject x e s) = pc_connected s"
  "y \<noteq> x \<Longrightarrow> jm_get (pc_phase (active_reject x e s)) y = jm_get (pc_phase s) y"
  by (simp_all add: active_reject_def split: option.split exec_phase.split)

lemma pc_emit_other [simp]:
  "pc_tasks (pc_emit now x d s) = pc_tasks s" "pc_phase (pc_emit now x d s) = pc_phase s"
  "pc_activeByTask (pc_emit now x d s) = pc_activeByTask s"
  "pc_taskByRun (pc_emit now x d s) = pc_taskByRun s"
  "pc_closed (pc_emit now x d s) = pc_closed s" "pc_connected (pc_emit now x d s) = pc_connected s"
  by (simp_all add: pc_emit_def split: option.split)

definition lose_one :: "jstr \<Rightarrow> exn \<Rightarrow> nat \<Rightarrow> pc \<Rightarrow> pc" where
  "lose_one now e x s = upd_active x (\<lambda>a. a\<lparr>at_timer := False\<rparr>) (lose_task now e x s)"

lemma lose_one_other:
  "y \<noteq> x \<Longrightarrow> jm_get (pc_tasks (lose_one now e x s)) y = jm_get (pc_tasks s) y"
  "y \<noteq> x \<Longrightarrow> jm_get (pc_phase (lose_one now e x s)) y = jm_get (pc_phase s) y"
  "pc_closed (lose_one now e x s) = pc_closed s" "pc_connected (lose_one now e x s) = pc_connected s"
  "prefix (pc_events s) (pc_events (lose_one now e x s))"
  by (auto simp: lose_one_def lose_task_def emitFailure_def pc_emit_def split: option.split)

lemma lose_all_other:
  "y \<notin> set xs \<Longrightarrow> jm_get (pc_tasks (fold (lose_one now e) xs s)) y = jm_get (pc_tasks s) y"
  "y \<notin> set xs \<Longrightarrow> jm_get (pc_phase (fold (lose_one now e) xs s)) y = jm_get (pc_phase s) y"
  "pc_closed (fold (lose_one now e) xs s) = pc_closed s"
  "pc_connected (fold (lose_one now e) xs s) = pc_connected s"
  "prefix (pc_events s) (pc_events (fold (lose_one now e) xs s))"
proof (induction xs arbitrary: s)
  case (Cons x xs)
  { case 1 then show ?case using Cons.IH(1) by (simp add: lose_one_other) }
  { case 2 then show ?case using Cons.IH(2) by (simp add: lose_one_other) }
  { case 3 show ?case using Cons.IH(3) by (simp add: lose_one_other) }
  { case 4 show ?case using Cons.IH(4) by (simp add: lose_one_other) }
  { case 5 show ?case using Cons.IH(5) lose_one_other(5) prefix_order.trans by fastforce }
qed simp_all

text \<open>What becomes of a task that is lost.\<close>

definition task_lost :: "jstr \<Rightarrow> exn \<Rightarrow> nat \<Rightarrow> active_task \<Rightarrow> pc \<Rightarrow> pc \<Rightarrow> bool" where
  "task_lost now e x a s s' \<longleftrightarrow>
     (if at_settled a
      then (x, pc_event now a (FailedEv (error_code_or e) (exn_message e)))
             \<in> set (drop (length (pc_events s)) (pc_events s'))
      else jm_get (pc_phase s') x =
             Some (if pc_closed s then ExecSettled else FallbackPreparing (at_input a)))"

lemma lose_all_lost:
  assumes "distinct xs" "x \<in> set xs" "jm_get (pc_tasks s) x = Some a"
    and "\<not> at_settled a \<longrightarrow> jm_get (pc_phase s) x = Some (AwaitingAccept (at_input a))"
  shows "task_lost now e x a s (fold (lose_one now e) xs s)"
  using assms
proof (induction xs arbitrary: s)
  case Nil
  then show ?case by simp
next
  case (Cons y ys)
  let ?s = "lose_one now e y s"
  have pre: "prefix (pc_events s) (pc_events ?s)" "prefix (pc_events ?s) (pc_events (fold (lose_one now e) ys ?s))"
    by (rule lose_one_other, rule lose_all_other)
  show ?case
  proof (cases "x = y")
    case True
    with Cons.prems have "x \<notin> set ys" by simp
    then have keep: "jm_get (pc_phase (fold (lose_one now e) ys ?s)) x = jm_get (pc_phase ?s) x"
      by (rule lose_all_other)
    show ?thesis
    proof (cases "at_settled a")
      case settled: True
      have "pc_events ?s = pc_events s @ [(x, pc_event now a (FailedEv (error_code_or e) (exn_message e)))]"
        using True settled Cons.prems(3) by (simp add: lose_one_def lose_task_def emitFailure_def pc_emit_def)
      with pre(2) settled show ?thesis by (auto simp: task_lost_def prefix_def)
    next
      case False
      with True Cons.prems(3,4) have "jm_get (pc_phase ?s) x =
          Some (if pc_closed s then ExecSettled else FallbackPreparing (at_input a))"
        by (simp add: lose_one_def lose_task_def active_reject_def)
      with False keep True show ?thesis by (simp add: task_lost_def)
    qed
  next
    case False
    with Cons.prems have "task_lost now e x a ?s (fold (lose_one now e) ys ?s)"
      by (intro Cons.IH) (simp_all add: lose_one_other)
    with pre show ?thesis
      by (auto simp: task_lost_def lose_one_other prefix_def split: if_splits)
  qed
qed

lemma failAll_alt:
  "failAll now e s =
     (fold (lose_one now e) (jm_values (pc_activeByTask s)) s)\<lparr>pc_activeByTask := [], pc_taskByRun := []\<rparr>"
  unfolding failAll_def lose_one_def ..

lemma active_distinct:
  assumes "pc_inv c s"
  shows "distinct (jm_values (pc_activeByTask s))"
proof -
  have ok: "jm_ok (pc_activeByTask s)" using assms by (simp add: pc_inv_def pc_rest_def)
  have "inj_on snd (set (pc_activeByTask s))"
  proof (rule inj_onI)
    fix p q assume pq: "p \<in> set (pc_activeByTask s)" "q \<in> set (pc_activeByTask s)" "snd p = snd q"
    have "jm_get (pc_activeByTask s) (fst p) = Some (snd p)" "jm_get (pc_activeByTask s) (fst q) = Some (snd q)"
      using pq(1,2) by (auto intro: jm_mem_get [OF ok])
    with pq(3) pc_inv_active [OF assms] have "fst p = fst q" by (metis option.inject)
    with pq(3) show "p = q" by (simp add: prod_eq_iff)
  qed
  moreover have "distinct (pc_activeByTask s)" using ok by (simp add: jm_ok_def distinct_map)
  ultimately show ?thesis by (simp add: jm_values_def distinct_map)
qed

lemma rejectCurrent_other:
  "pc_tasks (rejectCurrentConnection e s) = pc_tasks s" "pc_events (rejectCurrentConnection e s) = pc_events s"
  "pc_activeByTask (rejectCurrentConnection e s) = pc_activeByTask s"
  "pc_closed (rejectCurrentConnection e s) = pc_closed s"
  "pc_connected (rejectCurrentConnection e s) = pc_connected s"
  "jm_get (pc_phase s) x = Some (AwaitingAccept i) \<Longrightarrow>
     jm_get (pc_phase (rejectCurrentConnection e s)) x = Some (AwaitingAccept i)"
proof -
  let ?f = "\<lambda>x s. case jm_get (pc_phase s) x of
      Some (AwaitingConnection i p) \<Rightarrow> persistent_failed x i e s | _ \<Rightarrow> s"
  have f: "pc_tasks (?f y s) = pc_tasks s" "pc_events (?f y s) = pc_events s"
    "pc_activeByTask (?f y s) = pc_activeByTask s" "pc_closed (?f y s) = pc_closed s"
    "pc_connected (?f y s) = pc_connected s"
    "jm_get (pc_phase s) x = Some (AwaitingAccept i) \<Longrightarrow> jm_get (pc_phase (?f y s)) x = Some (AwaitingAccept i)"
    for y s by (auto split: option.split exec_phase.split)
  have "pc_tasks (fold ?f xs s) = pc_tasks s \<and> pc_events (fold ?f xs s) = pc_events s
      \<and> pc_activeByTask (fold ?f xs s) = pc_activeByTask s \<and> pc_closed (fold ?f xs s) = pc_closed s
      \<and> pc_connected (fold ?f xs s) = pc_connected s
      \<and> (jm_get (pc_phase s) x = Some (AwaitingAccept i) \<longrightarrow>
           jm_get (pc_phase (fold ?f xs s)) x = Some (AwaitingAccept i))" for xs s
  proof (induction xs arbitrary: s)
    case (Cons y ys)
    from Cons.IH [of "?f y s"] f [where y = y and s = s] show ?case by auto
  qed simp
  then show "pc_tasks (rejectCurrentConnection e s) = pc_tasks s"
    "pc_events (rejectCurrentConnection e s) = pc_events s"
    "pc_activeByTask (rejectCurrentConnection e s) = pc_activeByTask s"
    "pc_closed (rejectCurrentConnection e s) = pc_closed s"
    "pc_connected (rejectCurrentConnection e s) = pc_connected s"
    "jm_get (pc_phase s) x = Some (AwaitingAccept i) \<Longrightarrow>
       jm_get (pc_phase (rejectCurrentConnection e s)) x = Some (AwaitingAccept i)"
    by (simp_all add: rejectCurrentConnection_def Let_def)
qed

lemma unsettled_awaits:
  assumes "pc_inv c s" "jm_get (pc_tasks s) x = Some a" "\<not> at_settled a"
  shows "jm_get (pc_phase s) x = Some (AwaitingAccept (at_input a))"
proof -
  have "exec_at c s x" using assms(1) by (simp add: pc_inv_def)
  with assms(2,3) show ?thesis
    by (cases "jm_get (pc_phase s) x" rule: option.exhaust)
      (simp add: exec_at_def, rename_tac ph, case_tac ph, auto simp: exec_at_def task_settled_def)
qed

text \<open>
  C23: when the connection breaks, no task is left behind: a task that was not accepted yet
  goes to the fallback (or is rejected, when the client is closing), an accepted one gets a failure event; no
  task stays active, and unless the client is closed a reconnection is scheduled.
\<close>

theorem disconnect_strands_none:
  assumes "s = pc_run c is pc_new" and "pc_connected s" and "s' = handleDisconnect now e s"
  shows "pc_activeByTask s' = [] \<and> pc_taskByRun s' = [] \<and> \<not> pc_connected s'
    \<and> (pc_closed s' \<or> pc_reconnectTimer s')
    \<and> (\<forall>t x a. jm_get (pc_activeByTask s) t = Some x \<longrightarrow> jm_get (pc_tasks s) x = Some a \<longrightarrow> task_lost now e x a s s')"
proof -
  have inv: "pc_inv c s" using pc_inv_run assms(1) by simp
  define s1 where "s1 = rejectCurrentConnection e (s\<lparr>pc_connected := False, pc_heartbeat := False\<rparr>)"
  note s1 = rejectCurrent_other [where e = e and s = "s\<lparr>pc_connected := False, pc_heartbeat := False\<rparr>", folded s1_def]
  define s2 where "s2 = failAll now e s1"
  have s': "s' = (if \<not> pc_closed s2 \<and> \<not> pc_reconnectTimer s2 then s2\<lparr>pc_reconnectTimer := True\<rparr> else s2)"
    using assms(2,3) by (simp add: handleDisconnect_def Let_def s1_def s2_def)
  have inv1: "pc_inv c s1" using inv by (simp add: s1_def pc_inv_rejectCurrent)
  have s2: "pc_activeByTask s2 = []" "pc_taskByRun s2 = []" "\<not> pc_connected s2"
    by (simp_all add: s2_def failAll_alt lose_all_other s1)
  have "task_lost now e x a s s'"
    if "jm_get (pc_activeByTask s) t = Some x" "jm_get (pc_tasks s) x = Some a" for t x a
  proof -
    have "x \<in> set (jm_values (pc_activeByTask s1))"
      using that(1) jm_get_mem [of "pc_activeByTask s" t x] by (force simp: s1 jm_values_def)
    moreover have "\<not> at_settled a \<longrightarrow> jm_get (pc_phase s1) x = Some (AwaitingAccept (at_input a))"
      using unsettled_awaits [OF inv that(2)] s1(6) by simp
    ultimately have "task_lost now e x a s1 (fold (lose_one now e) (jm_values (pc_activeByTask s1)) s1)"
      using active_distinct [OF inv1] that(2) by (intro lose_all_lost) (simp_all add: s1)
    then show ?thesis
      by (cases "at_settled a") (simp_all add: task_lost_def s' s2_def failAll_alt s1)
  qed
  with s2 show ?thesis by (simp add: s')
qed

end
