(* ===== verification/PersistentFaults.thy ===== *)
theory PersistentFaults
  imports PersistentRuns
begin

text \<open>
  How the shared connection routes frames to executions, and three behaviours of it that its
  callers have to live with: an execution whose task is executed again never settles, a task
  cancelled before it was accepted is run again by the fallback, and an error that answers an
  accepted task drops it without a terminal event.
\<close>

section \<open>Routing\<close>

definition same_task :: "active_task \<Rightarrow> nat \<Rightarrow> pc \<Rightarrow> bool" where
  "same_task a x s \<longleftrightarrow>
     (\<exists>b. jm_get (pc_tasks s) x = Some b \<and> at_input b = at_input a \<and> at_runId b = at_runId a)"

text \<open>
  What a step may change when it concerns one execution: events of that execution, its own task
  object, and the entries of the two maps under its task id and its run id.
\<close>

definition only_for :: "nat \<Rightarrow> active_task \<Rightarrow> pc \<Rightarrow> pc \<Rightarrow> bool" where
  "only_for x a s s' \<longleftrightarrow>
     (\<exists>es. pc_events s' = pc_events s @ map (Pair x) es)
     \<and> (\<forall>y. y \<noteq> x \<longrightarrow> jm_get (pc_tasks s') y = jm_get (pc_tasks s) y)
     \<and> (\<forall>t. t \<noteq> gi_taskId (at_input a) \<longrightarrow> jm_get (pc_activeByTask s') t = jm_get (pc_activeByTask s) t)
     \<and> (\<forall>r. r \<noteq> at_runId a \<longrightarrow> jm_get (pc_taskByRun s') r = jm_get (pc_taskByRun s) r)
     \<and> pc_phase s' = pc_phase s \<and> pc_outcomes s' = pc_outcomes s \<and> pc_runs s' = pc_runs s
     \<and> pc_fallbackByTask s' = pc_fallbackByTask s \<and> pc_calls s' = pc_calls s
     \<and> pc_connected s' = pc_connected s \<and> pc_waiting s' = pc_waiting s \<and> pc_closed s' = pc_closed s"

definition routes :: "nat \<Rightarrow> active_task \<Rightarrow> pc \<Rightarrow> pc \<Rightarrow> bool" where
  "routes x a s s' \<longleftrightarrow> (same_task a x s \<longrightarrow> same_task a x s' \<and> only_for x a s s')"

lemma routes_refl: "routes x a s s"
  unfolding routes_def only_for_def by (intro impI conjI exI [of _ "[]"]) simp_all

lemma routes_trans: "routes x a s s' \<Longrightarrow> routes x a s' s'' \<Longrightarrow> routes x a s s''"
  unfolding routes_def only_for_def by (metis append.assoc map_append)

lemma routes_emit: "routes x a s (pc_emit now x d s)"
proof (cases "jm_get (pc_tasks s) x")
  case (Some b)
  then show ?thesis
    by (auto simp: routes_def only_for_def same_task_def pc_emit_def intro!: exI [of _ "[pc_event now b d]"])
qed (simp add: pc_emit_def routes_refl)

lemma routes_upd:
  assumes "\<And>b. at_input (f b) = at_input b" "\<And>b. at_runId (f b) = at_runId b"
  shows "routes x a s (upd_active x f s)"
  unfolding routes_def only_for_def same_task_def
  by (intro impI conjI exI [of _ "[]"])
    (use assms in \<open>auto simp: upd_active_def split: option.split\<close>)

lemma routes_remove: "routes x a s (removeTask x s)"
proof (cases "jm_get (pc_tasks s) x")
  case (Some b)
  have "routes x a s (s\<lparr>pc_activeByTask := jm_delete (gi_taskId (at_input b)) (pc_activeByTask s),
      pc_taskByRun := (if at_runId b \<noteq> [] then jm_delete (at_runId b) (pc_taskByRun s) else pc_taskByRun s)\<rparr>)"
    unfolding routes_def only_for_def same_task_def
    by (intro impI conjI exI [of _ "[]"]) (use Some in auto)
  then have "routes x a s (upd_active x (\<lambda>a. a\<lparr>at_timer := False\<rparr>)
      (s\<lparr>pc_activeByTask := jm_delete (gi_taskId (at_input b)) (pc_activeByTask s),
      pc_taskByRun := (if at_runId b \<noteq> [] then jm_delete (at_runId b) (pc_taskByRun s) else pc_taskByRun s)\<rparr>))"
    by (rule routes_trans) (rule routes_upd; simp)
  with Some show ?thesis by (simp add: removeTask_def)
qed (simp add: removeTask_def routes_refl)

lemma routes_assistant: "routes x a s (on_assistant now x p s)"
proof (cases "jm_get (pc_tasks s) x")
  case (Some b)
  obtain d snap where n: "normalizeAssistantDelta (snapshot_text p) (at_lastSnapshot b) = (d, snap)"
    by (metis surj_pair)
  have u: "routes x a s (upd_active x (\<lambda>a. a\<lparr>at_lastSnapshot := snap\<rparr>) s)" by (rule routes_upd) simp_all
  have "routes x a s (pc_emit now x (Delta d) (upd_active x (\<lambda>a. a\<lparr>at_lastSnapshot := snap\<rparr>) s))"
    by (rule routes_trans [OF u routes_emit])
  with Some n u show ?thesis by (simp add: on_assistant_def Let_def)
qed (simp add: on_assistant_def routes_refl)

lemma routes_chat: "routes x a s (on_chat_state now x p s)"
  unfolding on_chat_state_def emitFailure_def
  by (auto intro: routes_trans [OF routes_emit routes_remove] routes_refl)

lemma findActive_run: "r \<noteq> [] \<Longrightarrow> jm_get (pc_taskByRun s) r = Some x \<Longrightarrow> findActive (Some r) k s = Some x"
  by (simp add: findActive_def truthy_def)

lemma remove_clears:
  "same_task a x s \<Longrightarrow> jm_get (pc_activeByTask (removeTask x s)) (gi_taskId (at_input a)) = None"
  by (auto simp: same_task_def removeTask_def)

lemma chat_end_clears:
  assumes "same_task a x s" "ep_state p \<in> {Some (js ''error''), Some (js ''aborted''), Some (js ''final'')}"
  shows "jm_get (pc_activeByTask (on_chat_state now x p s)) (gi_taskId (at_input a)) = None"
proof -
  have "same_task a x (pc_emit now x d s)" for d
    using routes_emit [of x a s now d] assms(1) by (simp add: routes_def)
  from remove_clears [OF this] assms(2) show ?thesis
    by (auto simp: on_chat_state_def emitFailure_def)
qed


section \<open>An execution that is superseded\<close>

definition spares :: "nat \<Rightarrow> pc \<Rightarrow> pc \<Rightarrow> bool" where
  "spares x s s' \<longleftrightarrow>
     jm_get (pc_phase s') x = jm_get (pc_phase s) x
     \<and> (\<forall>t. jm_get (pc_activeByTask s') t = Some x \<longrightarrow> jm_get (pc_activeByTask s) t = Some x)"

definition inactive :: "nat \<Rightarrow> pc \<Rightarrow> bool" where
  "inactive x s \<longleftrightarrow> (\<exists>i. jm_get (pc_phase s) x = Some (AwaitingAccept i))
     \<and> (\<forall>t. jm_get (pc_activeByTask s) t \<noteq> Some x)"

lemma spares_refl [simp]: "spares x s s"
  by (simp add: spares_def)

lemma spares_trans: "spares x s s' \<Longrightarrow> spares x s' s'' \<Longrightarrow> spares x s s''"
  by (simp add: spares_def)

lemma spares_inactive: "spares x s s' \<Longrightarrow> inactive x s \<Longrightarrow> inactive x s'"
  by (auto simp: spares_def inactive_def)

lemma spares_same:
  "pc_phase s' = pc_phase s \<Longrightarrow> pc_activeByTask s' = pc_activeByTask s \<Longrightarrow> spares x s s'"
  by (simp add: spares_def)

lemma spares_ops [simp]:
  "spares x s (pc_emit now y d s)" "spares x s (upd_active y f s)" "spares x s (removeTask y s)"
  "y \<noteq> x \<Longrightarrow> spares x s (persistent_failed y i e s)"
  "y \<noteq> x \<Longrightarrow> spares x s (set_phase y ph s)" "y \<noteq> x \<Longrightarrow> spares x s (settle y r s)"
  "spares x s (socket_call k s)" "spares x s (end_current k s)" "spares x s (end_socket n k s)"
  by (auto simp: spares_def removeTask_def socket_call_def end_current_def end_socket_def
      split: option.split if_splits)

lemma spares_reject: "y \<noteq> x \<Longrightarrow> spares x s (active_reject y e s)"
  by (simp add: spares_def)

lemma spares_resolve: "y \<noteq> x \<Longrightarrow> spares x s (active_resolve y r s)"
  by (auto simp: active_resolve_def spares_def split: option.split exec_phase.split)

lemma spares_lose:
  assumes "y \<noteq> x"
  shows "spares x s (lose_task now e y s)"
proof -
  have "spares x s (active_reject y e (upd_active y f s))" for f
    by (rule spares_trans [OF _ spares_reject [OF assms]]) simp
  then show ?thesis
    unfolding lose_task_def emitFailure_def by (auto split: option.split)
qed

lemma spares_fold:
  assumes "\<And>y s. y \<in> set ys \<Longrightarrow> spares x s (f y s)"
  shows "spares x s (fold f ys s)"
  using assms
proof (induction ys arbitrary: s)
  case (Cons y ys)
  have "spares x s (f y s)" by (rule Cons.prems) simp
  moreover have "spares x (f y s) (fold f ys (f y s))" by (rule Cons.IH) (simp add: Cons.prems)
  ultimately show ?case by (simp add: spares_trans)
qed simp

lemma inactive_values:
  assumes "pc_inv c s" "inactive x s"
  shows "x \<notin> set (jm_values (pc_activeByTask s))"
proof -
  have "jm_ok (pc_activeByTask s)" using assms(1) by (simp add: pc_inv_def pc_rest_def)
  with assms(2) show ?thesis by (auto simp: jm_values_mem inactive_def)
qed

lemma spares_failAll:
  assumes "pc_inv c s" "inactive x s"
  shows "spares x s (failAll now e s)"
proof -
  have "spares x s (fold (lose_one now e) (jm_values (pc_activeByTask s)) s)"
  proof (rule spares_fold)
    fix y s' assume "y \<in> set (jm_values (pc_activeByTask s))"
    with inactive_values [OF assms] have "y \<noteq> x" by auto
    then have "spares x s' (lose_task now e y s')" by (rule spares_lose)
    then show "spares x s' (lose_one now e y s')"
      unfolding lose_one_def by (rule spares_trans) simp
  qed
  then show ?thesis by (simp add: failAll_alt spares_def)
qed

lemma spares_waiters:
  assumes "\<And>y i p s. y \<noteq> x \<Longrightarrow> spares x s (f y i p s)" and "\<exists>i. jm_get (pc_phase s) x = Some (AwaitingAccept i)"
  shows "spares x s (fold (\<lambda>y s. case jm_get (pc_phase s) y of
      Some (AwaitingConnection i p) \<Rightarrow> f y i p s | _ \<Rightarrow> s) ys s)"
  using assms(2)
proof (induction ys arbitrary: s)
  case (Cons y ys)
  let ?s = "case jm_get (pc_phase s) y of Some (AwaitingConnection i p) \<Rightarrow> f y i p s | _ \<Rightarrow> s"
  have "spares x s ?s"
    using assms(1) [of y s] Cons.prems by (cases "y = x") (auto split: option.split exec_phase.split)
  moreover from this have "\<exists>i. jm_get (pc_phase ?s) x = Some (AwaitingAccept i)"
    using Cons.prems by (simp add: spares_def)
  ultimately show ?case using Cons.IH [of ?s] by (simp add: spares_trans)
qed simp

lemma spares_place: "y \<noteq> x \<Longrightarrow> spares x s (place_task c y i p s)"
  by (auto simp: place_task_def Let_def spares_def socket_call_def split: option.split if_splits)

lemma spares_rejectCurrent: "\<exists>i. jm_get (pc_phase s) x = Some (AwaitingAccept i) \<Longrightarrow> spares x s (rejectCurrentConnection e s)"
  unfolding rejectCurrentConnection_def Let_def
  by (rule spares_trans [OF spares_same spares_waiters]) simp_all

lemma spares_resolve_connection: "\<exists>i. jm_get (pc_phase s) x = Some (AwaitingAccept i) \<Longrightarrow> spares x s (resolve_connection c s)"
  unfolding resolve_connection_def Let_def
  by (rule spares_trans [OF spares_same spares_waiters]) (simp_all add: startHeartbeat_def spares_place)

lemma spares_disconnect:
  assumes "pc_inv c s" "inactive x s"
  shows "spares x s (handleDisconnect now e s)"
proof -
  define s0 where "s0 = s\<lparr>pc_connected := False, pc_heartbeat := False\<rparr>"
  define s1 where "s1 = rejectCurrentConnection e s0"
  have s0: "spares x s s0" "pc_inv c s0" using assms(1) by (simp_all add: s0_def spares_same)
  then have in0: "inactive x s0" using assms(2) spares_inactive by blast
  then have s1: "spares x s0 s1" unfolding s1_def by (intro spares_rejectCurrent) (simp add: inactive_def)
  have "pc_inv c s1" using s0(2) by (simp add: s1_def pc_inv_rejectCurrent)
  then have "spares x s1 (failAll now e s1)"
    using spares_inactive [OF s1 in0] by (rule spares_failAll)
  then have "spares x s (if pc_connected s then failAll now e s1 else s1)"
    using spares_trans [OF s0(1) s1] spares_trans by auto
  then have "spares x s (handleDisconnect now e s) = spares x s (if pc_connected s then failAll now e s1 else s1)"
    by (simp add: handleDisconnect_def Let_def s0_def [symmetric] s1_def [symmetric] spares_def)
  with \<open>spares x s (if pc_connected s then failAll now e s1 else s1)\<close> show ?thesis by simp
qed

lemma spares_execute:
  assumes "pc_inv c s" "\<exists>i. jm_get (pc_phase s) x = Some (AwaitingAccept i)"
  shows "spares x s (executePersistent c y prep s)"
proof (cases "\<exists>i. jm_get (pc_phase s) y = Some (Preparing i)")
  case True
  then have yx: "y \<noteq> x" using assms(2) by auto
  obtain s1 r where s1: "ensureConnected c s = (s1, r)" by (metis surj_pair)
  have "pc_activeByTask (fst (ensureConnected c s)) = pc_activeByTask s"
    by (simp add: ensureConnected_def Let_def split: option.split)
  then have sp: "spares x s s1"
    using pc_inv_ensure(2) [of c s] s1 by (simp add: spares_same)
  have "spares x s1 (set_phase y ph (s1\<lparr>pc_waiting := w\<rparr>))" for ph w
    by (rule spares_trans [OF spares_same spares_ops(5)]) (simp_all add: yx)
  with sp have "spares x s (set_phase y ph (s1\<lparr>pc_waiting := w\<rparr>))" for ph w
    by (rule spares_trans)
  moreover have "spares x s (place_task c y i p s1)" "spares x s (persistent_failed y i e s1)" for i p e
    using yx by (auto intro: spares_trans [OF sp] simp: spares_place)
  moreover have "spares x s (persistent_failed y i e s)" for i e
    using yx by simp
  ultimately show ?thesis
    using True s1 by (auto simp: executePersistent_def split: sum.split option.split)
next
  case False
  then show ?thesis by (auto simp: executePersistent_def split: option.split exec_phase.split)
qed

lemma no_run_while_awaiting:
  assumes "pc_inv c s" "jm_get (pc_phase s) x = Some (AwaitingAccept i)"
  shows "jm_get (pc_runs s) x = None" "\<not> has_outcome s x"
proof -
  have "exec_at c s x" using assms(1) by (simp add: pc_inv_def)
  with assms(2) show "jm_get (pc_runs s) x = None" "\<not> has_outcome s x" by (simp_all add: exec_at_def)
qed

lemma spares_fallback_settled: "y \<noteq> x \<Longrightarrow> spares x s (fallback_settled y t r s)"
  by (auto simp: fallback_settled_def spares_def split: sum.split)

lemma spares_fallback_step:
  assumes "pc_inv c s" "\<exists>i. jm_get (pc_phase s) x = Some (AwaitingAccept i)"
  shows "spares x s (fallback_step y i s)"
proof (cases "jm_get (pc_runs s) y")
  case (Some r)
  then obtain gc g where run: "jm_get (pc_runs s) y = Some (gc, g)" by (cases r) simp
  with assms no_run_while_awaiting have yx: "y \<noteq> x" by fastforce
  have "spares x s (fold (fallback_event y t) es (s\<lparr>pc_runs := m\<rparr>))" for t es m
    by (rule spares_same) simp_all
  moreover from this have "spares x s (fallback_settled y t' r (fold (fallback_event y t) es (s\<lparr>pc_runs := m\<rparr>)))"
    for t t' es m r by (rule spares_trans [OF _ spares_fallback_settled [OF yx]])
  ultimately show ?thesis
    by (simp add: fallback_step_def run Let_def split: option.split)
qed (simp add: fallback_step_def)

lemma spares_fallback_prepared:
  assumes "\<exists>i. jm_get (pc_phase s) x = Some (AwaitingAccept i)"
  shows "spares x s (fallback_prepared c y prep s)"
proof (cases "\<exists>i. jm_get (pc_phase s) y = Some (FallbackPreparing i)")
  case True
  then have yx: "y \<noteq> x" using assms by auto
  have "spares x s (set_phase y ph (s\<lparr>pc_runs := m, pc_fallbackByTask := k\<rparr>))" for ph m k
    using yx by (simp add: spares_def)
  with True spares_fallback_settled [OF yx] show ?thesis
    by (auto simp: fallback_prepared_def Let_def split: sum.split option.split)
next
  case False
  then show ?thesis by (auto simp: fallback_prepared_def split: option.split exec_phase.split)
qed

lemma spares_close:
  assumes "pc_inv c s" "inactive x s"
  shows "spares x s (close_client now s)"
proof -
  define s1 where "s1 = s\<lparr>pc_closed := True, pc_connected := False, pc_connectTimer := None,
    pc_heartbeat := False, pc_reconnectTimer := False\<rparr>"
  define s2 where "s2 = failAll now (pc_error ''GATEWAY_SHUTDOWN'' ''gateway client is shutting down'') s1"
  have s1: "spares x s s1" "pc_inv c s1" using assms(1) by (simp_all add: s1_def spares_same)
  then have s2: "spares x s1 s2" "pc_inv c s2"
    using assms(2) spares_inactive by (auto simp: s2_def pc_inv_failAll intro: spares_failAll)
  have in2: "inactive x s2" using assms(2) s1(1) s2(1) spares_inactive by blast
  have fb: "spares x t (fold (\<lambda>f. fallback_step (fb_exec f) GwClose) fs t)"
    if "pc_inv c t" "inactive x t" for fs t
    using that
  proof (induction fs arbitrary: t)
    case (Cons f fs)
    have "spares x t (fallback_step (fb_exec f) GwClose t)"
      using Cons.prems by (intro spares_fallback_step) (auto simp: inactive_def)
    moreover from this Cons.prems have "inactive x (fallback_step (fb_exec f) GwClose t)"
      "pc_inv c (fallback_step (fb_exec f) GwClose t)"
      by (auto intro: spares_inactive pc_inv_fallback_step)
    ultimately show ?case using Cons.IH by (auto intro: spares_trans)
  qed simp
  define s3 where "s3 = (fold (\<lambda>f. fallback_step (fb_exec f) GwClose) (jm_values (pc_fallbackByTask s2)) s2)
    \<lparr>pc_fallbackByTask := []\<rparr>"
  have s3: "spares x s2 s3" using fb [OF s2(2) in2] by (simp add: s3_def spares_def)
  have "spares x s3 (case Option.bind (pc_socket s3) (jm_get (pc_ready s3)) of
      None \<Rightarrow> s3 | Some Closed \<Rightarrow> s3 | Some _ \<Rightarrow> end_current CloseCall s3)" (is "spares x s3 ?s4")
    by (auto split: option.split ready_state.split)
  moreover have "close_client now s = ?s4\<lparr>pc_socket := None\<rparr>"
    unfolding close_client_def Let_def s1_def [symmetric] s2_def [symmetric] s3_def [symmetric] ..
  moreover have "spares x ?s4 (?s4\<lparr>pc_socket := None\<rparr>)" by (rule spares_same) simp_all
  ultimately show ?thesis using s1(1) s2(1) s3 spares_trans by metis
qed

lemma spares_timeout:
  assumes "inactive x s"
  shows "spares x s (task_timeout now y s)"
proof (cases "jm_get (pc_tasks s) y")
  case (Some a)
  have "spares x s (removeTask z (lose_task now e z (upd_active y f s)))"
    if "jm_get (pc_activeByTask s) t = Some z" for z e t f
  proof -
    have "z \<noteq> x" using assms that by (auto simp: inactive_def)
    then show ?thesis
      by (intro spares_trans [OF spares_trans [OF spares_ops(2) spares_lose] spares_ops(3)])
  qed
  with Some show ?thesis by (auto simp: task_timeout_def Let_def split: option.split)
qed (simp add: task_timeout_def)

lemma spares_cancel:
  assumes "pc_inv c s" "inactive x s"
  shows "spares x s (fst (cancel now t s))"
proof (cases "jm_get (pc_activeByTask s) t")
  case None
  have "spares x s (fallback_step y i s)" for y i
    using assms by (intro spares_fallback_step) (auto simp: inactive_def)
  then have "spares x s ((fallback_step y i s)\<lparr>pc_fallbackByTask := m\<rparr>)" for y i m
    by (simp add: spares_def)
  with None show ?thesis by (simp add: cancel_def Let_def split: option.split)
next
  case (Some y)
  then have yx: "y \<noteq> x" using assms(2) by (auto simp: inactive_def)
  have "spares x s (pc_emit now y d (socket_call k s))" for d k
    by (rule spares_trans [OF spares_ops(7) spares_ops(1)])
  then have "spares x s (active_reject y e (upd_active y f (pc_emit now y d (socket_call k s))))" for e f d k
    by (rule spares_trans [OF spares_trans [OF _ spares_ops(2)] spares_reject [OF yx]])
  then show ?thesis
    using Some \<open>\<And>k d. spares x s (pc_emit now y d (socket_call k s))\<close>
    by (auto simp: cancel_def Let_def intro: spares_trans [OF _ spares_ops(3)] split: option.split)
qed

lemma spares_message:
  assumes "pc_inv c s" "inactive x s"
  shows "spares x s (handleMessage c now raw s)"
proof -
  have aw: "\<exists>i. jm_get (pc_phase s) x = Some (AwaitingAccept i)" using assms(2) by (simp add: inactive_def)
  have ok: "spares x s (on_response_ok now y p s)" "spares x s (on_response_error y code msg s)"
    if "jm_get (pc_activeByTask s) t = Some y" for t y p code msg
  proof -
    have yx: "y \<noteq> x" using assms(2) that by (auto simp: inactive_def)
    have "spares x s (active_resolve y r (upd_active y g
        (pc_emit now y Accepted ((upd_active y f s)\<lparr>pc_taskByRun := m\<rparr>))))" for r f g m
      by (rule spares_trans [OF _ spares_resolve [OF yx]]) (simp add: spares_def)
    then show "spares x s (on_response_ok now y p s)"
      by (simp add: on_response_ok_def Let_def split: option.split)
    have "spares x s (active_reject y e (upd_active y f s))" for e f
      by (rule spares_trans [OF spares_ops(2) spares_reject [OF yx]])
    then show "spares x s (on_response_error y code msg s)"
      unfolding on_response_error_def by (rule spares_trans [OF _ spares_ops(3)])
  qed
  have chat: "spares x t (on_chat_state now y p t)" "spares x t (on_assistant now y p t)" for t y p
    by (auto simp: on_chat_state_def emitFailure_def on_assistant_def Let_def
        intro: spares_trans [OF spares_ops(1) spares_ops(3)] spares_trans [OF spares_ops(2) spares_ops(1)]
        split: option.split prod.split)
  have "spares x s (on_task_event c now ev p s)" for ev p
    by (auto simp: on_task_event_def Let_def chat intro: spares_trans [OF spares_ops(1) chat(1)]
        spares_trans [OF spares_ops(1) chat(2)] spares_trans [OF spares_ops(1) spares_ops(1)] split: option.split)
  with ok show ?thesis
    unfolding handleMessage_def
    by (auto simp: spares_resolve_connection [OF aw]
        intro: spares_trans [OF spares_disconnect [OF assms] spares_ops(8)]
          spares_trans [OF spares_rejectCurrent [OF aw] spares_ops(8)]
        split: option.split gateway_frame.split)
qed

lemma spares_step:
  assumes "pc_inv c s" "inactive x s"
  shows "spares x s (pc_step c i s)"
proof -
  have aw: "\<exists>i. jm_get (pc_phase s) x = Some (AwaitingAccept i)" using assms(2) by (simp add: inactive_def)
  show ?thesis
  proof (cases i)
    case (PcExecute y j)
    with aw show ?thesis by (cases "y = x") (auto simp: execute_def)
  next
    case (SockClose now n code reason)
    have "spares x (s\<lparr>pc_ready := m\<rparr>) (handleDisconnect now e (s\<lparr>pc_ready := m\<rparr>))" for m e
      using assms by (intro spares_disconnect) (simp_all add: inactive_def)
    then show ?thesis using SockClose by (simp add: socket_closed_def Let_def spares_def)
  next
    case PcReconnect
    have "spares x s (fst (ensureConnected c (s\<lparr>pc_reconnectTimer := False\<rparr>)))"
      by (simp add: spares_def ensureConnected_def Let_def split: option.split)
    then show ?thesis using PcReconnect
      by (auto simp: reconnect_def spares_def split: prod.split option.split)
  next
    case PcConnectTimeout
    then show ?thesis
      by (auto simp: connect_timeout_def intro: spares_trans [OF spares_rejectCurrent [OF aw] spares_ops(9)]
          split: option.split)
  next
    case PcHeartbeat
    then show ?thesis by (simp add: heartbeat_tick_def) (simp add: spares_def socket_call_def split: option.split)
  qed (use assms in \<open>simp_all add: spares_execute [OF assms(1) aw] spares_fallback_prepared [OF aw]
      spares_fallback_step [OF assms(1) aw] spares_message spares_rejectCurrent [OF aw] socket_error_def
      spares_timeout spares_cancel spares_close\<close>, simp_all add: spares_same)
qed

lemma inactive_never_settles:
  assumes "pc_inv c s" "inactive x s"
  shows "\<not> has_outcome (pc_run c is s) x"
  using assms
proof (induction "is" arbitrary: s)
  case Nil
  then show ?case using no_run_while_awaiting(2) by (auto simp: pc_run_def inactive_def)
next
  case (Cons i "is")
  have "\<not> has_outcome (pc_run c is (pc_step c i s)) x"
    using Cons.prems spares_step spares_inactive pc_inv_step by (intro Cons.IH) blast+
  then show ?case by (simp add: pc_run_def)
qed

text \<open>
  if a task is executed again while its first execution still waits to be accepted, the
  second takes its place, and the first never settles: no answer, timer, disconnection or
  shutdown reaches it any more.
\<close>

theorem superseded_execution_hangs:
  assumes "s = pc_run c is pc_new" and "pc_connected s" and "socket_open s" and "pc_waiting s = None"
    and "jm_get (pc_phase s) x = Some (AwaitingAccept i)"
    and "jm_get (pc_phase s) y = Some (Preparing k)" and "gi_taskId k = gi_taskId i"
  shows "x \<notin> fst ` set (pc_outcomes (pc_run c (PcPrepared y (Inr p) # later) s))"
proof -
  have inv: "pc_inv c s" using pc_inv_run assms(1) by simp
  have yx: "y \<noteq> x" using assms(5,6) by auto
  let ?s = "pc_step c (PcPrepared y (Inr p)) s"
  have s1: "?s = place_task c y k p s"
    using assms(2,3,4,6) by (simp add: executePersistent_def ensureConnected_def)
  have "exec_at c s x" using inv by (simp add: pc_inv_def)
  then obtain a where a: "jm_get (pc_tasks s) x = Some a" "at_input a = i"
    using assms(5) by (auto simp: exec_at_def)
  have only: "t = gi_taskId i" if "jm_get (pc_activeByTask s) t = Some x" for t
    using pc_inv_active [OF inv that] a by auto
  have "spares x s ?s" unfolding s1 using yx by (rule spares_place)
  moreover have "jm_get (pc_activeByTask ?s) (gi_taskId i) = Some y"
    unfolding s1 using assms(3,7) by (simp add: place_task_def Let_def socket_call_def split: option.split)
  ultimately have "inactive x ?s"
    using only assms(5) yx unfolding spares_def inactive_def by (metis option.inject)
  then have "\<not> has_outcome (pc_run c later ?s) x"
    using pc_inv_step [OF inv] by (rule inactive_never_settles [rotated])
  then show ?thesis by (simp add: pc_run_def has_outcome_def)
qed

section \<open>Cancelling before acceptance\<close>

lemma fallback_step_events:
  assumes "jm_get (pc_runs s) x = Some (gc, g)"
  shows "pc_events (fallback_step x i s) =
    pc_events s @ map (Pair x) (drop (length (gw_events g)) (gw_events (gw_step gc i g)))"
proof -
  have "pc_events (fallback_settled x u o' h) = pc_events h" for u o' h
    by (simp add: fallback_settled_def split: sum.split)
  with assms show ?thesis by (simp add: fallback_step_def Let_def split: option.split)
qed

text \<open>
  cancelling a task that was not accepted yet reports success and emits the
  cancellation, but the rejection makes the client run the task again: once the fallback's
  gateway connection accepts it, the events go on after the cancellation.
\<close>

theorem cancel_before_accept_reruns:
  assumes "s = pc_run c is pc_new" and "jm_get (pc_activeByTask s) t = Some x"
    and "jm_get (pc_tasks s) x = Some a" and "\<not> at_settled a"
    and "socket_open s" and "\<not> pc_closed s" and "cf_wsError c = None" and "t \<noteq> js ''connect-1''"
  shows "(\<exists>r. snd (cancel now t s) = Inr (Some r))
    \<and> map (\<lambda>(y, e). (y, ev_detail e)) (pc_events (pc_run c
         [PcCancel now t, PcFallbackPrepared x (Inr p), PcFallback x (WsFrame now2 (SuccessFrame t sp))] s)) =
      map (\<lambda>(y, e). (y, ev_detail e)) (pc_events s)
        @ [(x, CancelledEv (js ''task cancelled by user'')), (x, Accepted)]"
proof -
  have inv: "pc_inv c s" using pc_inv_run assms(1) by simp
  let ?i = "at_input a"
  have ph: "jm_get (pc_phase s) x = Some (AwaitingAccept ?i)" by (rule unsettled_awaits [OF inv assms(3,4)])
  have t: "gi_taskId ?i = t" using pc_inv_active [OF inv assms(2)] assms(3) by auto
  have r: "\<exists>r. snd (cancel now t s) = Inr (Some r)"
    using assms(2,3,5) by (simp add: cancel_def Let_def)
  let ?s1 = "pc_step c (PcCancel now t) s"
  have calls: "pc_events (socket_call k s) = pc_events s" "pc_tasks (socket_call k s) = pc_tasks s"
    "pc_phase (socket_call k s) = pc_phase s" "pc_closed (socket_call k s) = pc_closed s" for k
    by (simp_all add: socket_call_def split: option.split)
  have rem: "pc_events (removeTask x h) = pc_events h" "pc_phase (removeTask x h) = pc_phase h" for h
    by (simp_all add: removeTask_def split: option.split)
  have s1: "pc_events ?s1 = pc_events s @ [(x, pc_event now a (CancelledEv (js ''task cancelled by user'')))]"
    "jm_get (pc_phase ?s1) x = Some (FallbackPreparing ?i)"
    using assms(2-6) ph
    by (simp_all add: cancel_def Let_def rem calls active_reject_def pc_emit_def)
  let ?s2 = "pc_step c (PcFallbackPrepared x (Inr p)) ?s1"
  obtain gc where gc: "jm_get (pc_runs ?s2) x = Some (gc, gw_initial gc)" "gc_input gc = ?i"
    "pc_events ?s2 = pc_events ?s1"
    using s1(2) assms(7) by (simp add: fallback_prepared_def Let_def)
  let ?g = "gw_step gc (WsFrame now2 (SuccessFrame t sp)) (gw_initial gc)"
  obtain e where "gw_events ?g = [e]" "ev_detail e = Accepted"
    using assms(8) t gc(2)
    by (simp add: gw_initial_def gw_frame_def gw_accepted_def resolveAccepted_def gw_emit_def Let_def gw_event_def)
  moreover have "gw_events (gw_initial gc) = []" by (simp add: gw_initial_def)
  ultimately have "pc_events (pc_step c (PcFallback x (WsFrame now2 (SuccessFrame t sp))) ?s2) =
      pc_events ?s2 @ [(x, e)]"
    using fallback_step_events [OF gc(1)] by (simp del: gw_step.simps)
  with s1(1) gc(3) \<open>ev_detail e = Accepted\<close> r show ?thesis
    by (simp add: pc_run_def pc_event_def)
qed

section \<open>The events of the connection only grow\<close>

definition grows :: "pc \<Rightarrow> pc \<Rightarrow> bool" where
  "grows s s' \<longleftrightarrow> prefix (pc_events s) (pc_events s')"

lemma grows_refl [simp]: "grows s s"
  by (simp add: grows_def)

lemma grows_trans: "grows s s' \<Longrightarrow> grows s' s'' \<Longrightarrow> grows s s''"
  unfolding grows_def by (rule prefix_order.trans)

lemma grows_same: "pc_events s' = pc_events s \<Longrightarrow> grows s s'"
  by (simp add: grows_def)

lemma grows_fold: "(\<And>y s. grows s (f y s)) \<Longrightarrow> grows s (fold f ys s)"
  by (induction ys arbitrary: s) (auto intro: grows_trans)

lemma grows_ops:
  "grows s (pc_emit now x d s)" "grows s (upd_active x f s)" "grows s (removeTask x s)"
  "grows s (persistent_failed x i e s)" "grows s (active_reject x e s)" "grows s (active_resolve x r s)"
  "grows s (set_phase x ph s)" "grows s (settle x q s)"
  "grows s (socket_call k s)" "grows s (end_current k s)" "grows s (end_socket n k s)"
  "grows s (emitFailure now x e s)" "grows s (fst (ensureConnected c s))"
  "grows s (fallback_settled x t q s)" "grows s (fallback_event x t v s)"
  by (simp_all add: grows_def pc_emit_def emitFailure_def removeTask_def active_resolve_def socket_call_def
      end_current_def end_socket_def ensureConnected_def fallback_settled_def Let_def
      split: option.split exec_phase.split sum.split)

lemma grows_lose: "grows s (lose_task now e x s)"
  unfolding lose_task_def
  by (auto intro: grows_trans [OF grows_ops(2) grows_ops(5)] grows_ops split: option.split)

lemma grows_failAll: "grows s (failAll now e s)"
proof -
  have "grows s (fold (lose_one now e) (jm_values (pc_activeByTask s)) s)"
    unfolding lose_one_def by (rule grows_fold) (rule grows_trans [OF grows_lose grows_ops(2)])
  then show ?thesis by (simp add: failAll_alt grows_def)
qed

lemma grows_place: "grows s (place_task c x i p s)"
  by (simp add: grows_def place_task_def Let_def socket_call_def split: option.split)

lemma grows_rejectCurrent: "grows s (rejectCurrentConnection e s)"
  by (simp add: grows_def rejectCurrent_other)

lemma grows_resolve_connection: "grows s (resolve_connection c s)"
  unfolding resolve_connection_def Let_def startHeartbeat_def
  by (rule grows_trans [OF grows_same grows_fold])
    (auto intro: grows_place split: option.split exec_phase.split)

lemma grows_disconnect: "grows s (handleDisconnect now e s)"
proof -
  let ?s = "rejectCurrentConnection e (s\<lparr>pc_connected := False, pc_heartbeat := False\<rparr>)"
  have "grows s ?s" by (rule grows_trans [OF grows_same grows_rejectCurrent]) simp
  moreover have "grows ?s (failAll now e ?s)" by (rule grows_failAll)
  ultimately have "grows s (if pc_connected s then failAll now e ?s else ?s)"
    by (auto intro: grows_trans)
  then show ?thesis by (simp add: handleDisconnect_def Let_def grows_def)
qed

lemma grows_fallback_step: "grows s (fallback_step x i s)"
proof (cases "jm_get (pc_runs s) x")
  case (Some r)
  then show ?thesis using fallback_step_events by (cases r) (simp add: grows_def)
qed (simp add: fallback_step_def)

lemma grows_message: "grows s (handleMessage c now raw s)"
proof -
  have "grows s (on_response_ok now x p s)" for x p
  proof -
    have "grows s (pc_emit now x Accepted ((upd_active x f s)\<lparr>pc_taskByRun := m\<rparr>))" for f m
      by (rule grows_trans [OF grows_same grows_ops(1)]) simp
    then have "grows s (active_resolve x r (upd_active x g
        (pc_emit now x Accepted ((upd_active x f s)\<lparr>pc_taskByRun := m\<rparr>))))" for r g f m
      by (rule grows_trans [OF grows_trans [OF _ grows_ops(2)] grows_ops(6)])
    then show ?thesis by (simp add: on_response_ok_def Let_def split: option.split)
  qed
  moreover have "grows s (on_response_error x code msg s)" for x code msg
    unfolding on_response_error_def
    by (rule grows_trans [OF grows_trans [OF grows_ops(2) grows_ops(5)] grows_ops(3)])
  moreover have "grows s (on_task_event c now ev p s)" for ev p
  proof -
    have "grows t (on_chat_state now x p t)" "grows t (on_assistant now x p t)" for t x
      by (auto simp: on_chat_state_def on_assistant_def Let_def
          intro: grows_trans [OF grows_ops(1) grows_ops(3)] grows_trans [OF grows_ops(12) grows_ops(3)]
            grows_trans [OF grows_ops(2) grows_ops(1)] grows_ops split: option.split prod.split)
    moreover from this have "grows t (on_chat_state now x p (pc_emit now y d t))"
      "grows t (on_assistant now x p (pc_emit now y d t))" for t x y d
      by (blast intro: grows_trans [OF grows_ops(1)])+
    ultimately show ?thesis
      by (simp add: on_task_event_def Let_def grows_ops split: option.split)
  qed
  ultimately show ?thesis
    unfolding handleMessage_def
    by (auto simp: grows_resolve_connection grows_ops
        intro: grows_trans [OF grows_disconnect grows_ops(10)] grows_trans [OF grows_rejectCurrent grows_ops(10)]
        split: option.split gateway_frame.split)
qed

lemma grows_execute: "grows s (executePersistent c x prep s)"
proof -
  obtain s1 r where s1: "ensureConnected c s = (s1, r)" by (metis surj_pair)
  then have g1: "grows s s1" using grows_ops(13) [of s c] by simp
  have "grows s (place_task c x i p s1)" "grows s (persistent_failed x i e s1)" for i p e
    by (rule grows_trans [OF g1], rule grows_place, rule grows_trans [OF g1], rule grows_ops)
  moreover have "grows s (set_phase x ph (s1\<lparr>pc_waiting := w\<rparr>))" for ph w
    by (rule grows_trans [OF g1 grows_trans [OF grows_same grows_ops(7)]]) simp
  ultimately show ?thesis
    by (auto simp: executePersistent_def s1 grows_ops split: option.split exec_phase.split sum.split)
qed

lemma grows_close: "grows s (close_client now s)"
proof -
  define s1 where "s1 = s\<lparr>pc_closed := True, pc_connected := False, pc_connectTimer := None,
    pc_heartbeat := False, pc_reconnectTimer := False\<rparr>"
  define s2 where "s2 = failAll now (pc_error ''GATEWAY_SHUTDOWN'' ''gateway client is shutting down'') s1"
  define s3 where "s3 = fold (\<lambda>f. fallback_step (fb_exec f) GwClose) (jm_values (pc_fallbackByTask s2)) s2"
  have "grows s s1" "grows s1 s2" "grows s2 s3"
    unfolding s1_def s2_def s3_def by (rule grows_same, simp, rule grows_failAll, rule grows_fold, rule grows_fallback_step)
  then have "grows s s3" by (blast intro: grows_trans)
  moreover have "pc_events (close_client now s) = pc_events s3"
    unfolding close_client_def Let_def s1_def [symmetric] s2_def [symmetric] s3_def [symmetric]
    by (simp add: end_current_def end_socket_def split: option.split ready_state.split)
  ultimately show ?thesis by (simp add: grows_def)
qed

lemma grows_cancel: "grows s (fst (cancel now t s))"
proof -
  have "grows s (pc_emit now x d (socket_call k s))" for x d k
    by (rule grows_trans [OF grows_ops(9) grows_ops(1)])
  moreover from this have "grows s (active_reject x e (upd_active x f (pc_emit now x d (socket_call k s))))" for x d k e f
    by (rule grows_trans [OF grows_trans [OF _ grows_ops(2)] grows_ops(5)])
  ultimately have "grows s (removeTask x (pc_emit now x d (socket_call k s)))"
    "grows s (removeTask x (active_reject x e (upd_active x f (pc_emit now x d (socket_call k s)))))" for x d k e f
    by (blast intro: grows_trans [OF _ grows_ops(3)])+
  moreover have "grows s ((fallback_step x i s)\<lparr>pc_fallbackByTask := m\<rparr>)" for x i m
    using grows_fallback_step by (simp add: grows_def)
  ultimately show ?thesis by (simp add: cancel_def Let_def split: option.split)
qed

lemma grows_step: "grows s (pc_step c i s)"
proof (cases i)
  case (PcFallbackPrepared x prep)
  have "grows s (fallback_prepared c x prep s)"
    by (auto simp: fallback_prepared_def Let_def grows_ops grows_def fallback_settled_def
        split: option.split exec_phase.split sum.split)
  with PcFallbackPrepared show ?thesis by simp
next
  case (PcTaskTimeout now x)
  have "grows s (removeTask y (lose_task now e y (upd_active x f s)))" for y e f
    by (rule grows_trans [OF grows_trans [OF grows_ops(2) grows_lose] grows_ops(3)])
  with PcTaskTimeout show ?thesis
    by (auto simp: task_timeout_def Let_def grows_ops split: option.split)
next
  case PcReconnect
  have "grows s (fst (ensureConnected c (s\<lparr>pc_reconnectTimer := False\<rparr>)))"
    by (rule grows_trans [OF grows_same grows_ops(13)]) simp
  then show ?thesis using PcReconnect
    by (auto simp: reconnect_def grows_def split: prod.split option.split)
next
  case (SockClose now n code reason)
  have "grows s (handleDisconnect now e (s\<lparr>pc_ready := m\<rparr>))" for e m
    by (rule grows_trans [OF grows_same grows_disconnect]) simp
  with SockClose show ?thesis by (simp add: socket_closed_def Let_def)
next
  case PcConnectTimeout
  then show ?thesis
    by (auto simp: connect_timeout_def intro: grows_trans [OF grows_rejectCurrent grows_ops(11)] split: option.split)
next
  case PcHeartbeat
  then show ?thesis
    by (simp add: heartbeat_tick_def grows_ops) (simp add: grows_def socket_call_def split: option.split)
qed (simp_all add: execute_def grows_ops grows_execute grows_fallback_step grows_message grows_cancel
    grows_close socket_error_def grows_rejectCurrent, simp_all add: grows_def)

section \<open>Runs of the model\<close>

definition sample_client :: pc_config where
  "sample_client =
     \<lparr>cf_env = (\<lambda>_. None), cf_gatewayUrl = js ''ws://gw'', cf_gatewayToken = None, cf_gatewayPassword = None,
      cf_taskTimeoutMs = None, cf_wsError = None, cf_vurl = (\<lambda>_. True), cf_url = (\<lambda>_. None)\<rparr>"

definition sample_message :: prepared_input where
  "sample_message = \<lparr>pi_message = js ''hi'', pi_attachments = []\<rparr>"

definition sample_task_input :: gateway_input where
  "sample_task_input =
     \<lparr>gi_gatewayUrl = js ''ws://gw'', gi_taskId = js ''t'', gi_sessionId = js ''s'', gi_message = js ''hi'',
      gi_files = None, gi_gatewayToken = None, gi_gatewayPassword = None, gi_taskTimeoutMs = None\<rparr>"

definition sample_start :: "pc_in list" where
  "sample_start = [PcExecute 0 sample_task_input, PcPrepared 0 (Inr sample_message), SockOpen 0,
     SockFrame [] (Some (SuccessFrame (js ''persistent-connect'') sample_success)),
     PcExecute 1 sample_task_input]"

definition sample_accept :: "pc_in list" where
  "sample_accept = sample_start @ [SockFrame [] (Some (SuccessFrame (js ''t'') sample_success))]"

abbreviation sample_client_state :: pc where
  "sample_client_state \<equiv> pc_run sample_client sample_start pc_new"

abbreviation sample_accepted_state :: pc where
  "sample_accepted_state \<equiv> pc_run sample_client sample_accept pc_new"

definition sample_active :: active_task where
  "sample_active =
     \<lparr>at_input = sample_task_input, at_sessionKey = js ''agent:main:session:s'', at_runId = [],
      at_lastSnapshot = [], at_settled = False, at_timer = True\<rparr>"

lemma sample_client_facts:
  "pc_connected sample_client_state" "socket_open sample_client_state"
  "pc_waiting sample_client_state = None" "\<not> pc_closed sample_client_state"
  "jm_get (pc_phase sample_client_state) 0 = Some (AwaitingAccept sample_task_input)"
  "jm_get (pc_phase sample_client_state) 1 = Some (Preparing sample_task_input)"
  "jm_get (pc_activeByTask sample_client_state) (js ''t'') = Some 0"
  "jm_get (pc_tasks sample_client_state) 0 = Some sample_active"
  by code_simp+

lemma sample_accepted_facts:
  "pc_connected sample_accepted_state"
  "jm_get (pc_taskByRun sample_accepted_state) (js ''r'') = Some 0"
  "pc_events sample_accepted_state =
     [(0, pc_event [] (sample_active\<lparr>at_runId := js ''r''\<rparr>) Accepted)]"
  "\<exists>b. jm_get (pc_tasks sample_accepted_state) 0 = Some b \<and> at_input b = sample_task_input"
proof -
  show "pc_connected sample_accepted_state"
    "jm_get (pc_taskByRun sample_accepted_state) (js ''r'') = Some 0"
    "pc_events sample_accepted_state =
       [(0, pc_event [] (sample_active\<lparr>at_runId := js ''r''\<rparr>) Accepted)]"
    by code_simp+
  have "map_option at_input (jm_get (pc_tasks sample_accepted_state) 0) = Some sample_task_input" by code_simp
  then show "\<exists>b. jm_get (pc_tasks sample_accepted_state) 0 = Some b \<and> at_input b = sample_task_input" by auto
qed


theorem disconnect_strands_none_witness:
  "pc_activeByTask (handleDisconnect [] (pc_error ''X'' ''y'') sample_client_state) = []
   \<and> task_lost [] (pc_error ''X'' ''y'') 0 sample_active sample_client_state (handleDisconnect [] (pc_error ''X'' ''y'') sample_client_state)"
  using disconnect_strands_none [OF refl sample_client_facts(1) refl, of "[]" "pc_error ''X'' ''y''"] sample_client_facts(7,8)
  by blast


theorem superseded_execution_hangs_witness:
  "0 \<notin> fst ` set (pc_outcomes (pc_run sample_client
     [PcPrepared 1 (Inr sample_message), PcTaskTimeout [] 0, PcClose []] sample_client_state))"
  by (rule superseded_execution_hangs [OF refl sample_client_facts(1,2,3,5,6) refl])

theorem cancel_before_accept_reruns_witness:
  "map (\<lambda>(y, e). (y, ev_detail e)) (pc_events (pc_run sample_client
      [PcCancel [] (js ''t''), PcFallbackPrepared 0 (Inr sample_message),
       PcFallback 0 (WsFrame [] (SuccessFrame (js ''t'') sample_success))] sample_client_state)) =
    map (\<lambda>(y, e). (y, ev_detail e)) (pc_events sample_client_state)
      @ [(0, CancelledEv (js ''task cancelled by user'')), (0, Accepted)]"
proof -
  have "\<not> at_settled sample_active" "cf_wsError sample_client = None" "js ''t'' \<noteq> js ''connect-1''"
    by (simp_all add: sample_active_def sample_client_def)
  from cancel_before_accept_reruns [OF refl sample_client_facts(7,8) this(1) sample_client_facts(2,4) this(2,3)]
  show ?thesis by blast
qed

end
