(* ===== verification/AdapterServer.thy ===== *)
theory AdapterServer
  imports EventBroker PersistentFaults Sse
begin

text \<open>
  \<^verbatim>\<open>apps/openclaw-adapter/src/server.ts\<close>: the adapter's HTTP server, which puts the shared
  gateway connection and the event broker together. The routes are \<open>ad_request\<close>; what happens
  at the gateway reaches the server as an input of the connection (\<open>AdClient\<close>), whose new
  events are published and delivered to the open streams and whose new outcomes answer the
  execute requests. Platform functions (JSON and URL parsers, percent decoding) are the record \<open>adapter_lib\<close>.
\<close>

section \<open>State\<close>

record adapter_lib =
  al_json :: "octets \<Rightarrow> json option"
  al_origin :: "jstr \<Rightarrow> jstr option"
  al_decode :: "jstr \<Rightarrow> jstr option"

record adapter_options =
  ao_internalToken :: "jstr option"
  ao_allowedContentOrigin :: "jstr option"
  ao_client :: pc_config

record adapter_request =
  hq_method :: jstr
  hq_pathname :: jstr
  hq_authorization :: "jstr option"
  hq_lastEventId :: "jstr option"
  hq_body :: "octets list"

datatype adapter_reply = JsonReply nat json | MetricsReply

text \<open>An event stream: its task, the frames written, whether it was ended, whether it is counted out.\<close>

record sse_stream =
  ss_taskId :: jstr
  ss_frames :: "broker_event list"
  ss_ended :: bool
  ss_closed :: bool

record adapter =
  ad_broker :: broker
  ad_client :: pc
  ad_execs :: "(nat, jstr) jmap"
  ad_streams :: "(nat, sse_stream) jmap"
  ad_replies :: "(nat \<times> adapter_reply) list"
  ad_accepted :: nat
  ad_failed :: nat
  ad_openStreams :: int
  ad_uncaught :: bool

definition createAdapterServer :: adapter where
  "createAdapterServer =
     \<lparr>ad_broker = br_new 300000 1000, ad_client = pc_new, ad_execs = [], ad_streams = [], ad_replies = [],
      ad_accepted = 0, ad_failed = 0, ad_openStreams = 0, ad_uncaught = False\<rparr>"

definition writeJson :: "nat \<Rightarrow> nat \<Rightarrow> json \<Rightarrow> adapter \<Rightarrow> adapter" where
  "writeJson k status payload s = s\<lparr>ad_replies := ad_replies s @ [(k, JsonReply status payload)]\<rparr>"

section \<open>Reading and checking a request\<close>

text \<open>The body is refused as soon as it exceeds 1 MiB.\<close>

fun read_chunks :: "nat \<Rightarrow> octets list \<Rightarrow> exn + octets" where
  "read_chunks n [] = Inr []"
| "read_chunks n (ch # chs) =
     (if n + length ch > 1024 * 1024
      then Inl (JsError (Some (js ''PAYLOAD_TOO_LARGE'')) (js ''request body exceeds 1 MiB''))
      else map_sum id (\<lambda>r. ch @ r) (read_chunks (n + length ch) chs))"

definition readJsonBody :: "adapter_lib \<Rightarrow> octets list \<Rightarrow> exn + json" where
  "readJsonBody lib chunks =
     (case read_chunks 0 chunks of
        Inl e \<Rightarrow> Inl e
      | Inr body \<Rightarrow>
          (case al_json lib body of
             None \<Rightarrow> Inl (JsError None (js ''Unexpected token in JSON''))
           | Some v \<Rightarrow> Inr v))"

definition invalid_input :: "string \<Rightarrow> exn" where
  "invalid_input m = JsError (Some (js ''INVALID_INPUT'')) (js m)"

text \<open>JavaScript's truth of a member that may be missing.\<close>

definition json_truthy :: "json option \<Rightarrow> bool" where
  "json_truthy v =
     (case v of
        None \<Rightarrow> False | Some JNull \<Rightarrow> False | Some (JBool b) \<Rightarrow> b | Some (JInt i) \<Rightarrow> i \<noteq> 0
      | Some (JStr s) \<Rightarrow> s \<noteq> [] | Some _ \<Rightarrow> True)"

definition is_string :: "json option \<Rightarrow> bool" where
  "is_string v = (case v of Some (JStr _) \<Rightarrow> True | _ \<Rightarrow> False)"

definition valid_size :: "json option \<Rightarrow> bool" where
  "valid_size v = (case v of Some (JInt i) \<Rightarrow> 1 \<le> i \<and> i \<le> 25 * 1024 * 1024 | _ \<Rightarrow> False)"

text \<open>One file of the payload; reading a member of \<^verbatim>\<open>null\<close> throws.\<close>

definition check_file :: "adapter_lib \<Rightarrow> jstr option \<Rightarrow> json \<Rightarrow> exn option" where
  "check_file lib allowed f =
     (if f = JNull then Some (JsError None (js ''Cannot read properties of null (reading fileId)''))
      else if \<not> is_string (jprop f (js ''fileId'')) \<or> \<not> is_string (jprop f (js ''filename''))
           \<or> \<not> is_string (jprop f (js ''mimeType'')) \<or> \<not> valid_size (jprop f (js ''sizeBytes''))
           \<or> \<not> is_string (jprop f (js ''storageKey''))
      then Some (invalid_input ''invalid task file metadata'')
      else if json_truthy (jprop f (js ''contentUrl'')) then
        (case al_origin lib (js_string (the (jprop f (js ''contentUrl'')))) of
           None \<Rightarrow> Some (invalid_input ''invalid task file URL'')
         | Some origin \<Rightarrow>
             if \<not> truthy allowed then None
             else case al_origin lib (the allowed) of
                    None \<Rightarrow> Some (JsError (Some (js ''ERR_INVALID_URL'')) (js ''Invalid URL''))
                  | Some o' \<Rightarrow>
                      if origin \<noteq> o'
                      then Some (JsError (Some (js ''INVALID_FILE_ORIGIN''))
                             (js ''task file URL is outside object storage''))
                      else None)
      else None)"

fun check_files :: "adapter_lib \<Rightarrow> jstr option \<Rightarrow> json list \<Rightarrow> exn option" where
  "check_files lib allowed [] = None"
| "check_files lib allowed (f # fs) =
     (case check_file lib allowed f of Some e \<Rightarrow> Some e | None \<Rightarrow> check_files lib allowed fs)"

text \<open>\<^verbatim>\<open>payload.files ?? []\<close>, where it is an array.\<close>

definition payload_files :: "json \<Rightarrow> json list option" where
  "payload_files v =
     (case jprop v (js ''files'') of
        None \<Rightarrow> Some [] | Some JNull \<Rightarrow> Some [] | Some (JArr fs) \<Rightarrow> Some fs | Some _ \<Rightarrow> None)"

definition non_empty_text :: "jstr option \<Rightarrow> bool" where
  "non_empty_text v \<longleftrightarrow> v \<noteq> None \<and> v \<noteq> Some []"

definition validateExecutePayload :: "adapter_lib \<Rightarrow> jstr option \<Rightarrow> json \<Rightarrow> exn option" where
  "validateExecutePayload lib allowed v =
     (if \<not> non_empty_text (prop_str v (js ''taskId'')) \<or> \<not> non_empty_text (prop_str v (js ''sessionId''))
         \<or> prop_str v (js ''message'') = None \<or> length (the (prop_str v (js ''message''))) > 30000
         \<or> payload_files v = None \<or> length (the (payload_files v)) > 10
      then Some (invalid_input ''invalid task execution payload'')
      else check_files lib allowed (the (payload_files v)))"

text \<open>The input of the execution; the connection's options are filled in by the client.\<close>

definition file_of_json :: "json \<Rightarrow> gateway_file" where
  "file_of_json f =
     \<lparr>gf_fileId = the (prop_str f (js ''fileId'')), gf_filename = the (prop_str f (js ''filename'')),
      gf_mimeType = the (prop_str f (js ''mimeType'')),
      gf_sizeBytes = (case jprop f (js ''sizeBytes'') of Some (JInt i) \<Rightarrow> nat i | _ \<Rightarrow> 0),
      gf_storageKey = the (prop_str f (js ''storageKey'')),
      gf_contentUrl = (if json_truthy (jprop f (js ''contentUrl''))
                       then map_option js_string (jprop f (js ''contentUrl'')) else None),
      gf_contentPath = prop_str f (js ''contentPath'')\<rparr>"

definition execute_input :: "json \<Rightarrow> gateway_input" where
  "execute_input v =
     \<lparr>gi_gatewayUrl = [], gi_taskId = the (prop_str v (js ''taskId'')),
      gi_sessionId = the (prop_str v (js ''sessionId'')), gi_message = the (prop_str v (js ''message'')),
      gi_files = map_option (map file_of_json) (payload_files v),
      gi_gatewayToken = None, gi_gatewayPassword = None, gi_taskTimeoutMs = None\<rparr>"

section \<open>Publishing to the streams\<close>

definition closeStream :: "nat \<Rightarrow> adapter \<Rightarrow> adapter" where
  "closeStream k s =
     (case jm_get (ad_streams s) k of
        None \<Rightarrow> s
      | Some st \<Rightarrow>
          if ss_closed st then s
          else s\<lparr>ad_streams := jm_set k (st\<lparr>ss_closed := True\<rparr>) (ad_streams s),
                 ad_openStreams := ad_openStreams s - 1\<rparr>)"

definition upd_stream :: "nat \<Rightarrow> (sse_stream \<Rightarrow> sse_stream) \<Rightarrow> adapter \<Rightarrow> adapter" where
  "upd_stream k f s =
     (case jm_get (ad_streams s) k of
        None \<Rightarrow> s
      | Some st \<Rightarrow> s\<lparr>ad_streams := jm_set k (f st) (ad_streams s)\<rparr>)"

text \<open>The listener of a stream.\<close>

definition deliver :: "jstr \<Rightarrow> broker_event \<Rightarrow> nat \<Rightarrow> adapter \<Rightarrow> adapter" where
  "deliver t item k s =
     (let s1 = upd_stream k (\<lambda>st. st\<lparr>ss_frames := ss_frames st @ [item]\<rparr>) s
      in if br_isTerminalEvent (be_event item)
         then upd_stream k (\<lambda>st. st\<lparr>ss_ended := True\<rparr>)
                (closeStream k (s1\<lparr>ad_broker := br_unsubscribe t k (ad_broker s1)\<rparr>))
         else s1)"

definition ad_publish :: "nat \<Rightarrow> jstr \<Rightarrow> task_event \<Rightarrow> adapter \<Rightarrow> adapter" where
  "ad_publish now t e s =
     (case br_publish now t e (ad_broker s) of
        (b, item, called) \<Rightarrow> fold (deliver t item) called (s\<lparr>ad_broker := b\<rparr>))"

definition ad_open_stream :: "nat \<Rightarrow> jstr \<Rightarrow> jstr option \<Rightarrow> adapter \<Rightarrow> adapter" where
  "ad_open_stream k t lastEventId s =
     (let replayAfter = positive_or 0 (case lastEventId of None \<Rightarrow> NumInt 0 | Some h \<Rightarrow> js_number h);
          replay = br_replay t replayAfter (ad_broker s);
          s1 = s\<lparr>ad_streams := jm_set k \<lparr>ss_taskId = t, ss_frames = replay, ss_ended = False, ss_closed = False\<rparr>
                                 (ad_streams s),
                 ad_openStreams := ad_openStreams s + 1\<rparr>
      in if replay \<noteq> [] \<and> br_isTerminalEvent (be_event (last replay))
         then upd_stream k (\<lambda>st. st\<lparr>ss_ended := True\<rparr>) (closeStream k s1)
         else s1\<lparr>ad_broker := br_subscribe t k (ad_broker s1)\<rparr>)"

text \<open>The request of a stream is closed by its client.\<close>

definition ad_stream_closed :: "nat \<Rightarrow> adapter \<Rightarrow> adapter" where
  "ad_stream_closed k s =
     (case jm_get (ad_streams s) k of
        None \<Rightarrow> s
      | Some st \<Rightarrow> closeStream k (s\<lparr>ad_broker := br_unsubscribe (ss_taskId st) k (ad_broker s)\<rparr>))"

section \<open>Answers\<close>

definition execute_status :: "exn \<Rightarrow> nat" where
  "execute_status e =
     (if exn_code e = Some (js ''PAYLOAD_TOO_LARGE'') then 413
      else if exn_code e = Some (js ''INVALID_INPUT'') \<or> exn_code e = Some (js ''INVALID_FILE_ORIGIN'') then 400
      else 502)"

definition error_json :: "exn \<Rightarrow> json" where
  "error_json e = JObj [(js ''code'', JStr (case exn_code e of Some c \<Rightarrow> c | None \<Rightarrow> js ''GATEWAY_UNAVAILABLE'')),
                        (js ''message'', JStr (exn_message e))]"

definition execute_failed :: "nat \<Rightarrow> exn \<Rightarrow> adapter \<Rightarrow> adapter" where
  "execute_failed k e s =
     (writeJson k (execute_status e) (error_json e) s)\<lparr>ad_failed := ad_failed s + 1\<rparr>"

definition execute_accepted :: "nat \<Rightarrow> jstr \<Rightarrow> accepted_run \<Rightarrow> adapter \<Rightarrow> adapter" where
  "execute_accepted k taskId r s =
     (writeJson k 202 (JObj
        [(js ''taskId'', JStr (ac_taskId r)), (js ''sessionId'', JStr (ac_sessionId r)),
         (js ''runId'', JStr (ac_runId r)), (js ''sessionKey'', JStr (ac_sessionKey r)),
         (js ''streamUrl'', JStr (js ''/gateway/tasks/'' @ taskId @ js ''/events''))]) s)
      \<lparr>ad_accepted := ad_accepted s + 1\<rparr>"

text \<open>The end of an execution, and the events of the connection reaching the broker.\<close>

definition answer :: "nat \<times> (exn + accepted_run) \<Rightarrow> adapter \<Rightarrow> adapter" where
  "answer o' s =
     (case jm_get (ad_execs s) (fst o') of
        None \<Rightarrow> s
      | Some taskId \<Rightarrow>
          (case snd o' of
             Inl e \<Rightarrow> execute_failed (fst o') e s
           | Inr r \<Rightarrow> execute_accepted (fst o') taskId r s))"

definition on_event :: "nat \<Rightarrow> nat \<times> task_event \<Rightarrow> adapter \<Rightarrow> adapter" where
  "on_event now xe s =
     (case jm_get (ad_execs s) (fst xe) of
        None \<Rightarrow> s
      | Some taskId \<Rightarrow> ad_publish now taskId (snd xe) s)"

definition client_changed :: "nat \<Rightarrow> pc \<Rightarrow> adapter \<Rightarrow> adapter" where
  "client_changed now p s =
     (let old = ad_client s
      in fold answer (drop (length (pc_outcomes old)) (pc_outcomes p))
           (fold (on_event now) (drop (length (pc_events old)) (pc_events p)) (s\<lparr>ad_client := p\<rparr>)))"

section \<open>Routes\<close>

text \<open>The task of \<^verbatim>\<open>/gateway/tasks/<id><ending>\<close>, as the regular expressions match it.\<close>

definition task_path :: "string \<Rightarrow> jstr \<Rightarrow> jstr option" where
  "task_path ending p =
     (let r = drop (length ''/gateway/tasks/'') p; t = takeWhile (\<lambda>ch. ch \<noteq> 47) r
      in if js_starts_with p (js ''/gateway/tasks/'') \<and> t \<noteq> [] \<and> drop (length t) r = js ending
         then Some t else None)"

definition unauthorized :: "adapter_options \<Rightarrow> adapter_request \<Rightarrow> bool" where
  "unauthorized opts q \<longleftrightarrow>
     truthy (ao_internalToken opts) \<and> js_starts_with (hq_pathname q) (js ''/gateway/tasks/'')
     \<and> hq_authorization q \<noteq> Some (js ''Bearer '' @ the (ao_internalToken opts))"

definition ad_execute :: "adapter_lib \<Rightarrow> adapter_options \<Rightarrow> nat \<Rightarrow> adapter_request \<Rightarrow> adapter \<Rightarrow> adapter" where
  "ad_execute lib opts k q s =
     (case readJsonBody lib (hq_body q) of
        Inl e \<Rightarrow> execute_failed k e s
      | Inr payload \<Rightarrow>
          (case validateExecutePayload lib (ao_allowedContentOrigin opts) payload of
             Some e \<Rightarrow> execute_failed k e s
           | None \<Rightarrow>
               s\<lparr>ad_execs := jm_set k (gi_taskId (execute_input payload)) (ad_execs s),
                 ad_client := pc_step (ao_client opts) (PcExecute k (execute_input payload)) (ad_client s)\<rparr>))"

definition ad_cancel :: "nat \<Rightarrow> jstr \<Rightarrow> nat \<Rightarrow> jstr \<Rightarrow> adapter \<Rightarrow> adapter" where
  "ad_cancel now stamp k taskId s =
     (case cancel stamp taskId (ad_client s) of
        (p, r) \<Rightarrow>
          let s1 = client_changed now p s
          in case r of
               Inr None \<Rightarrow> writeJson k 404 (JObj [(js ''code'', JStr (js ''TASK_NOT_ACTIVE'')),
                                               (js ''message'', JStr (js ''task is not active''))]) s1
             | Inr (Some c) \<Rightarrow> writeJson k 202 (JObj [(js ''taskId'', JStr (cr_taskId c)),
                 (js ''sessionId'', JStr (cr_sessionId c)), (js ''runId'', JStr (cr_runId c))]) s1
             | Inl e \<Rightarrow> writeJson k 502 (error_json e) s1)"

text \<open>A path that does not decode throws out of the request handler.\<close>

definition ad_request ::
  "adapter_lib \<Rightarrow> adapter_options \<Rightarrow> nat \<Rightarrow> jstr \<Rightarrow> nat \<Rightarrow> adapter_request \<Rightarrow> adapter \<Rightarrow> adapter" where
  "ad_request lib opts now stamp k q s =
     (if hq_method q = js ''GET'' \<and> hq_pathname q = js ''/health/live''
      then writeJson k 200 (JObj [(js ''status'', JStr (js ''ok'')),
                                  (js ''service'', JStr (js ''openclaw-adapter''))]) s
      else if hq_method q = js ''GET'' \<and> hq_pathname q = js ''/metrics''
      then s\<lparr>ad_replies := ad_replies s @ [(k, MetricsReply)]\<rparr>
      else if unauthorized opts q
      then writeJson k 401 (JObj [(js ''code'', JStr (js ''UNAUTHORIZED'')),
                                  (js ''message'', JStr (js ''unauthorized''))]) s
      else if hq_method q = js ''POST'' \<and> hq_pathname q = js ''/gateway/tasks/execute''
      then ad_execute lib opts k q s
      else if hq_method q = js ''POST'' \<and> task_path ''/cancel'' (hq_pathname q) \<noteq> None
      then (case al_decode lib (the (task_path ''/cancel'' (hq_pathname q))) of
              None \<Rightarrow> s\<lparr>ad_uncaught := True\<rparr>
            | Some t \<Rightarrow> ad_cancel now stamp k t s)
      else if hq_method q = js ''GET'' \<and> task_path ''/events'' (hq_pathname q) \<noteq> None
      then (case al_decode lib (the (task_path ''/events'' (hq_pathname q))) of
              None \<Rightarrow> s\<lparr>ad_uncaught := True\<rparr>
            | Some t \<Rightarrow> ad_open_stream k t (hq_lastEventId q) s)
      else writeJson k 404 (JObj [(js ''message'', JStr (js ''not found''))]) s)"

section \<open>The server as a machine\<close>

datatype ad_in =
    AdRequest nat jstr nat adapter_request
  | AdClient nat pc_in
  | AdStreamClosed nat
  | AdTimers nat
  | AdClose nat jstr
  | AdBrokerClose

text \<open>Executions begin and end only through requests and shutdown.\<close>

fun is_api_input :: "pc_in \<Rightarrow> bool" where
  "is_api_input (PcExecute _ _) = True"
| "is_api_input (PcCancel _ _) = True"
| "is_api_input (PcClose _) = True"
| "is_api_input _ = False"

fun ad_step :: "adapter_lib \<Rightarrow> adapter_options \<Rightarrow> ad_in \<Rightarrow> adapter \<Rightarrow> adapter" where
  "ad_step lib opts (AdRequest now stamp k q) s =
     (if jm_get (ad_execs s) k = None \<and> jm_get (ad_streams s) k = None
      then ad_request lib opts now stamp k q s else s)"
| "ad_step lib opts (AdClient now i) s =
     (if is_api_input i then s else client_changed now (pc_step (ao_client opts) i (ad_client s)) s)"
| "ad_step lib opts (AdStreamClosed k) s = ad_stream_closed k s"
| "ad_step lib opts (AdTimers now) s = s\<lparr>ad_broker := br_fire_timers now (ad_broker s)\<rparr>"
| "ad_step lib opts (AdClose now stamp) s = client_changed now (close_client stamp (ad_client s)) s"
| "ad_step lib opts AdBrokerClose s = s\<lparr>ad_broker := br_close (ad_broker s)\<rparr>"

definition ad_run :: "adapter_lib \<Rightarrow> adapter_options \<Rightarrow> ad_in list \<Rightarrow> adapter \<Rightarrow> adapter" where
  "ad_run lib opts is s = fold (ad_step lib opts) is s"

end
