(* ===== verification/AdapterRuns.thy ===== *)
theory AdapterRuns
  imports AdapterServer
begin

text \<open>
  What the adapter's server guarantees: which payloads it executes, that a stream shows its
  reader the replayed events and then every event of the task up to its end, and that the
  events come from the gateway connection. The invariant \<open>ad_inv\<close> ties the broker's listeners to the open streams.
\<close>

section \<open>Delivering to streams\<close>

lemma br_unsubscribe_none: "jm_get (br_listeners b) t = None \<Longrightarrow> br_unsubscribe t l b = b"
  by (simp add: br_unsubscribe_def)

lemma upd_stream_fields [simp]:
  "ad_broker (upd_stream k f s) = ad_broker s" "ad_client (upd_stream k f s) = ad_client s"
  "ad_execs (upd_stream k f s) = ad_execs s"
  "jm_get (ad_streams (upd_stream k f s)) l =
     (if l = k then map_option f (jm_get (ad_streams s) k) else jm_get (ad_streams s) l)"
  by (auto simp: upd_stream_def split: option.split)

lemma closeStream_fields [simp]:
  "ad_broker (closeStream k s) = ad_broker s" "ad_client (closeStream k s) = ad_client s"
  "ad_execs (closeStream k s) = ad_execs s"
  "jm_get (ad_streams (closeStream k s)) l =
     (if l = k then map_option (\<lambda>st. st\<lparr>ss_closed := True\<rparr>) (jm_get (ad_streams s) k)
      else jm_get (ad_streams s) l)"
  by (auto simp: closeStream_def split: option.split)

lemma deliver_fields [simp]:
  "ad_client (deliver t item l s) = ad_client s" "ad_execs (deliver t item l s) = ad_execs s"
  by (simp_all add: deliver_def Let_def)

definition delivered :: "broker_event \<Rightarrow> sse_stream \<Rightarrow> sse_stream" where
  "delivered item st = st\<lparr>ss_frames := ss_frames st @ [item],
     ss_ended := (ss_ended st \<or> terminal_detail (ev_detail (be_event item))),
     ss_closed := (ss_closed st \<or> terminal_detail (ev_detail (be_event item)))\<rparr>"

lemma deliver_stream [simp]:
  "jm_get (ad_streams (deliver t item l s)) k =
     (if k = l then map_option (delivered item) (jm_get (ad_streams s) k) else jm_get (ad_streams s) k)"
  by (cases "jm_get (ad_streams s) k") (auto simp: deliver_def Let_def delivered_def)

lemma deliver_all_streams:
  "k \<notin> set ls \<Longrightarrow> jm_get (ad_streams (fold (deliver t item) ls s)) k = jm_get (ad_streams s) k"
  by (induction ls arbitrary: s) simp_all

lemma deliver_all_fields [simp]:
  "ad_client (fold (deliver t item) ls s) = ad_client s"
  "ad_execs (fold (deliver t item) ls s) = ad_execs s"
  by (induction ls arbitrary: s) simp_all

lemma deliver_all_dom:
  "(jm_get (ad_streams (fold (deliver t item) ls s)) k = None) = (jm_get (ad_streams s) k = None)"
  by (induction ls arbitrary: s) simp_all

lemma deliver_all_task:
  "map_option ss_taskId (jm_get (ad_streams (fold (deliver t item) ls s)) k) =
     map_option ss_taskId (jm_get (ad_streams s) k)"
proof (induction ls arbitrary: s)
  case (Cons l ls)
  then show ?case by (cases "jm_get (ad_streams s) k") (auto simp: delivered_def)
qed simp

text \<open>A listener that is called once gets the item once.\<close>

lemma deliver_all_once:
  assumes "filter (\<lambda>l. l = k) ls = [k]"
  shows "jm_get (ad_streams (fold (deliver t item) ls s)) k = map_option (delivered item) (jm_get (ad_streams s) k)"
proof -
  have "k \<in> set (filter (\<lambda>l. l = k) ls)" using assms by simp
  then obtain xs ys where ls: "ls = xs @ k # ys" "k \<notin> set xs" using split_list_first by fastforce
  have "filter (\<lambda>l. l = k) xs = []" using ls(2) by (auto simp: filter_empty_conv)
  with assms ls(1) have "filter (\<lambda>l. l = k) ys = []" by simp
  then have "k \<notin> set ys" by (metis (mono_tags, lifting) filter_empty_conv)
  with ls show ?thesis by (simp add: deliver_all_streams)
qed

lemma deliver_all_broker:
  assumes "terminal_detail (ev_detail (be_event item)) \<longrightarrow> jm_get (br_listeners (ad_broker s)) t = None"
  shows "ad_broker (fold (deliver t item) ls s) = ad_broker s"
  using assms
proof (induction ls arbitrary: s)
  case (Cons l ls)
  have "ad_broker (deliver t item l s) = ad_broker s"
    using Cons.prems by (simp add: deliver_def Let_def br_unsubscribe_none)
  then show ?case using Cons.IH [of "deliver t item l s"] Cons.prems by simp
qed simp

lemma br_publish_terminal: "terminal_detail (ev_detail e) \<Longrightarrow> jm_get (br_listeners (fst (br_publish now t e b))) t = None"
  by (simp add: br_op_defs)

lemma br_publish_item [simp]: "fst (snd (br_publish now t e b)) = \<lparr>be_id = br_next_id b t, be_event = e\<rparr>"
  by (simp add: br_op_defs)

lemma br_publish_called [simp]: "snd (snd (br_publish now t e b)) = br_listeners_of b t"
  by (simp add: br_op_defs br_lookup_defs)

lemma br_publish_listeners:
  "br_listeners_of (fst (br_publish now t e b)) t' =
     (if t' = t \<and> terminal_detail (ev_detail e) then [] else br_listeners_of b t')"
  by (simp add: br_op_defs br_lookup_defs)

lemma ad_publish_alt:
  "ad_publish now t e s =
     fold (deliver t \<lparr>be_id = br_next_id (ad_broker s) t, be_event = e\<rparr>) (br_listeners_of (ad_broker s) t)
       (s\<lparr>ad_broker := fst (br_publish now t e (ad_broker s))\<rparr>)"
  using br_publish_item [of now t e "ad_broker s"] br_publish_called [of now t e "ad_broker s"]
  by (cases "br_publish now t e (ad_broker s)") (simp add: ad_publish_def)

lemma ad_publish_broker [simp]: "ad_broker (ad_publish now t e s) = fst (br_publish now t e (ad_broker s))"
  unfolding ad_publish_alt by (subst deliver_all_broker) (simp_all add: br_publish_terminal)

lemma ad_publish_fields [simp]:
  "ad_client (ad_publish now t e s) = ad_client s" "ad_execs (ad_publish now t e s) = ad_execs s"
  by (simp_all add: ad_publish_alt)

section \<open>The invariant\<close>

definition stream_task :: "adapter \<Rightarrow> nat \<Rightarrow> jstr option" where
  "stream_task s l = map_option ss_taskId (jm_get (ad_streams s) l)"

definition ad_inv :: "adapter \<Rightarrow> bool" where
  "ad_inv s \<longleftrightarrow> broker_ok (ad_broker s)
     \<and> (\<forall>t. \<forall>l \<in> set (br_listeners_of (ad_broker s) t). stream_task s l = Some t)"

lemma ad_invI:
  assumes "broker_ok (ad_broker s)"
    and "\<And>t l. l \<in> set (br_listeners_of (ad_broker s) t) \<Longrightarrow> stream_task s l = Some t"
  shows "ad_inv s"
  using assms by (simp add: ad_inv_def)

lemma ad_invD:
  assumes "ad_inv s"
  shows "broker_ok (ad_broker s)"
    "l \<in> set (br_listeners_of (ad_broker s) t) \<Longrightarrow> stream_task s l = Some t"
  using assms by (simp_all add: ad_inv_def)

lemma ad_inv_cong:
  "ad_broker s = ad_broker s' \<Longrightarrow> ad_streams s = ad_streams s' \<Longrightarrow> ad_inv s = ad_inv s'"
  by (simp add: ad_inv_def stream_task_def)

lemma ad_inv_fields [simp]:
  "ad_inv (s\<lparr>ad_client := p\<rparr>) = ad_inv s" "ad_inv (s\<lparr>ad_execs := m\<rparr>) = ad_inv s"
  "ad_inv (s\<lparr>ad_replies := r\<rparr>) = ad_inv s" "ad_inv (s\<lparr>ad_uncaught := b\<rparr>) = ad_inv s"
  "ad_inv (s\<lparr>ad_accepted := n\<rparr>) = ad_inv s" "ad_inv (s\<lparr>ad_failed := n\<rparr>) = ad_inv s"
  by (rule ad_inv_cong; simp)+

lemma ad_inv_new: "ad_inv createAdapterServer"
  by (rule ad_invI) (simp_all add: createAdapterServer_def broker_ok_new,
    simp add: br_new_def br_lookup_defs)

lemma stream_task_simps [simp]:
  "stream_task (closeStream k s) l = stream_task s l"
  "stream_task (s\<lparr>ad_broker := b\<rparr>) l = stream_task s l"
  "stream_task (fold (deliver t item) ls s) l = stream_task s l"
  "stream_task (ad_publish now t e s) l = stream_task s l"
proof -
  show "stream_task (closeStream k s) l = stream_task s l"
    unfolding stream_task_def by (cases "l = k"; cases "jm_get (ad_streams s) k") simp_all
  show "stream_task (s\<lparr>ad_broker := b\<rparr>) l = stream_task s l" for s b by (simp add: stream_task_def)
  then show "stream_task (ad_publish now t e s) l = stream_task s l"
    "stream_task (fold (deliver t item) ls s) l = stream_task s l"
    using deliver_all_task by (simp_all add: stream_task_def ad_publish_alt)
qed

lemma stream_task_upd [simp]:
  assumes "\<And>st. ss_taskId (f st) = ss_taskId st"
  shows "stream_task (upd_stream k f s) l = stream_task s l"
  unfolding stream_task_def using assms by (cases "l = k"; cases "jm_get (ad_streams s) k") simp_all

lemma ad_inv_publish: "ad_inv s \<Longrightarrow> ad_inv (ad_publish now t e s)"
  by (rule ad_invI) (auto simp: broker_ok_publish br_publish_listeners dest: ad_invD split: if_splits)

lemma br_unsubscribe_listeners:
  "set (br_listeners_of (br_unsubscribe t k b) t') \<subseteq> set (br_listeners_of b t')"
  by (cases "jm_get (br_listeners b) t")
    (auto simp: br_unsubscribe_def br_listeners_of_def Let_def split: option.splits if_splits)

lemma br_subscribe_listeners:
  "br_listeners_of (br_subscribe t k b) t' =
     (if t' = t then (if k \<in> set (br_listeners_of b t) then br_listeners_of b t else br_listeners_of b t @ [k])
      else br_listeners_of b t')"
  by (cases "jm_get (br_listeners b) t") (simp_all add: br_subscribe_def br_listeners_of_def Let_def)

lemma ad_inv_closeStream: "ad_inv s \<Longrightarrow> ad_inv (closeStream k s)"
  by (rule ad_invI) (auto dest: ad_invD)

lemma ad_inv_upd: "ad_inv s \<Longrightarrow> (\<And>st. ss_taskId (f st) = ss_taskId st) \<Longrightarrow> ad_inv (upd_stream k f s)"
  by (rule ad_invI) (auto dest: ad_invD)

lemma ad_inv_unsubscribe: "ad_inv s \<Longrightarrow> ad_inv (s\<lparr>ad_broker := br_unsubscribe t k (ad_broker s)\<rparr>)"
  using br_unsubscribe_listeners by (intro ad_invI) (fastforce simp: broker_ok_listeners dest: ad_invD)+

lemma ad_inv_closed: "ad_inv s \<Longrightarrow> ad_inv (ad_stream_closed k s)"
  by (auto simp: ad_stream_closed_def intro: ad_inv_closeStream ad_inv_unsubscribe split: option.split)

lemma ad_inv_open:
  assumes "ad_inv s" "jm_get (ad_streams s) k = None"
  shows "ad_inv (ad_open_stream k t h s)"
proof -
  define r where "r = br_replay t (positive_or 0 (case h of None \<Rightarrow> NumInt 0 | Some h \<Rightarrow> js_number h)) (ad_broker s)"
  define s1 where "s1 = s\<lparr>ad_streams := jm_set k \<lparr>ss_taskId = t, ss_frames = r, ss_ended = False, ss_closed = False\<rparr>
    (ad_streams s), ad_openStreams := ad_openStreams s + 1\<rparr>"
  have b: "ad_broker s1 = ad_broker s" by (simp add: s1_def)
  have old: "stream_task s1 l = Some t'" if "l \<in> set (br_listeners_of (ad_broker s) t')" for l t'
  proof -
    have "stream_task s l = Some t'" using that assms(1) by (rule ad_invD(2) [rotated])
    moreover from this have "l \<noteq> k" using assms(2) by (auto simp: stream_task_def)
    ultimately show ?thesis by (simp add: stream_task_def s1_def)
  qed
  have "stream_task s1 k = Some t" by (simp add: stream_task_def s1_def)
  with old have "ad_inv s1" "ad_inv (s1\<lparr>ad_broker := br_subscribe t k (ad_broker s1)\<rparr>)"
    using ad_invD(1) [OF assms(1)]
    by (auto intro!: ad_invI simp: b broker_ok_listeners br_subscribe_listeners split: if_splits)
  then show ?thesis
    unfolding ad_open_stream_def Let_def r_def [symmetric] s1_def [symmetric]
    by (auto intro!: ad_inv_upd ad_inv_closeStream)
qed

lemma ad_inv_fire: 
  assumes "ad_inv s" 
  shows "ad_inv (s\<lparr>ad_broker := br_fire_timers now (ad_broker s)\<rparr>)"
proof (rule ad_invI)
  have "set (br_listeners_of (fold br_cleanup ts b) t') \<subseteq> set (br_listeners_of b t')" for ts b t'
  proof (induction ts arbitrary: b)
    case (Cons u ts)
    have "set (br_listeners_of (br_cleanup u b) t') \<subseteq> set (br_listeners_of b t')"
      by (simp add: br_cleanup_def br_listeners_of_def)
    with Cons.IH [of "br_cleanup u b"] show ?case by simp
  qed simp
  then have sub: "set (br_listeners_of (br_fire_timers now b) t') \<subseteq> set (br_listeners_of b t')" for b t'
    by (simp add: br_fire_timers_def)
  show "broker_ok (ad_broker (s\<lparr>ad_broker := br_fire_timers now (ad_broker s)\<rparr>))"
    using ad_invD(1) [OF assms] by (simp add: broker_ok_fire)
  show "stream_task (s\<lparr>ad_broker := br_fire_timers now (ad_broker s)\<rparr>) l = Some t"
    if "l \<in> set (br_listeners_of (ad_broker (s\<lparr>ad_broker := br_fire_timers now (ad_broker s)\<rparr>)) t)" for l t
    using that sub [of "ad_broker s" t] ad_invD(2) [OF assms, of l t] by auto
qed

lemma ad_inv_answers: "ad_inv (fold answer os s) = ad_inv s"
proof (induction os arbitrary: s)
  case (Cons o' os)
  have "ad_inv (answer o' s) = ad_inv s"
    by (simp add: answer_def execute_failed_def execute_accepted_def writeJson_def split: option.split sum.split)
  with Cons show ?case by simp
qed simp

lemma ad_inv_events: "ad_inv s \<Longrightarrow> ad_inv (fold (on_event now) es s)"
proof (induction es arbitrary: s)
  case (Cons e es)
  then have "ad_inv (on_event now e s)" by (simp add: on_event_def ad_inv_publish split: option.split)
  with Cons.IH show ?case by simp
qed simp

lemma ad_inv_client: "ad_inv s \<Longrightarrow> ad_inv (client_changed now p s)"
  by (simp add: client_changed_def Let_def ad_inv_answers ad_inv_events)

lemma ad_inv_json: "ad_inv (writeJson k n v s) = ad_inv s"
  by (simp add: writeJson_def)

lemma ad_inv_step: "ad_inv s \<Longrightarrow> ad_inv (ad_step lib opts i s)"
proof (cases i)
  case (AdRequest now stamp k q)
  assume inv: "ad_inv s"
  then have "ad_inv (ad_cancel now stamp k t s)" for t
    by (auto simp: ad_cancel_def Let_def ad_inv_json ad_inv_client split: prod.split sum.split option.split)
  moreover have "ad_inv (ad_execute lib opts k q s)"
    using inv by (simp add: ad_execute_def execute_failed_def ad_inv_json split: sum.split option.split)
  ultimately show ?thesis
    using AdRequest inv
    by (simp add: ad_request_def ad_inv_json ad_inv_open split: option.split)
next
  case AdBrokerClose
  assume "ad_inv s"
  with AdBrokerClose show ?thesis
    using broker_ok_close [of "ad_broker s"]
    by (intro ad_invI) (simp_all add: br_close_def br_listeners_of_def)
qed (simp_all add: ad_inv_client ad_inv_closed ad_inv_fire)

interpretation ad_machine: machine "ad_step lib opts" ad_inv for lib opts
  by unfold_locales (rule ad_inv_step)

lemma ad_inv_run: "ad_inv (ad_run lib opts is createAdapterServer)"
  unfolding ad_run_def by (rule ad_machine.inv_run [OF ad_inv_new])

section \<open>What a stream shows\<close>

definition attached :: "adapter \<Rightarrow> nat \<Rightarrow> jstr \<Rightarrow> bool" where
  "attached s k t \<longleftrightarrow>
     filter (\<lambda>l. l = k) (br_listeners_of (ad_broker s) t) = [k]
     \<and> (\<forall>t'. t' \<noteq> t \<longrightarrow> k \<notin> set (br_listeners_of (ad_broker s) t'))"

definition detached :: "adapter \<Rightarrow> nat \<Rightarrow> bool" where
  "detached s k \<longleftrightarrow> (\<forall>t. k \<notin> set (br_listeners_of (ad_broker s) t))"

lemma publish_other:
  assumes "k \<notin> set (br_listeners_of (ad_broker s) t')"
  shows "jm_get (ad_streams (ad_publish now t' e s)) k = jm_get (ad_streams s) k"
  using assms by (simp add: ad_publish_alt deliver_all_streams)

lemma publish_attached:
  assumes "attached s k t"
  shows "jm_get (ad_streams (ad_publish now t e s)) k =
      map_option (delivered \<lparr>be_id = br_next_id (ad_broker s) t, be_event = e\<rparr>) (jm_get (ad_streams s) k)"
    and "terminal_detail (ev_detail e) \<Longrightarrow> detached (ad_publish now t e s) k"
    and "\<not> terminal_detail (ev_detail e) \<Longrightarrow> attached (ad_publish now t e s) k t"
    and "t' \<noteq> t \<Longrightarrow> attached (ad_publish now t' e s) k t"
  using assms
  by (auto simp: attached_def detached_def ad_publish_alt deliver_all_once deliver_all_broker
      br_publish_terminal br_publish_listeners split: if_splits)

text \<open>The events up to the first terminal one.\<close>

fun upto_terminal :: "task_event list \<Rightarrow> task_event list" where
  "upto_terminal [] = []"
| "upto_terminal (e # es) = (if terminal_detail (ev_detail e) then [e] else e # upto_terminal es)"

text \<open>What a reader may rely on in the frames of a stream: ids strictly increase.\<close>

definition frames_ok :: "adapter \<Rightarrow> jstr \<Rightarrow> sse_stream \<Rightarrow> bool" where
  "frames_ok s t st \<longleftrightarrow>
     sorted_wrt (\<lambda>a b. be_id a < be_id b) (ss_frames st)
     \<and> (\<not> ss_ended st \<longrightarrow> (\<forall>f \<in> set (ss_frames st). be_id f < br_next_id (ad_broker s) t))"

definition events_for :: "adapter \<Rightarrow> jstr \<Rightarrow> (nat \<times> task_event) list \<Rightarrow> task_event list" where
  "events_for s t xes = map snd (filter (\<lambda>(x, e). jm_get (ad_execs s) x = Some t) xes)"

lemma events_for_simps [simp]:
  "events_for s t [] = []"
  "events_for s t ((x, e) # xes) =
     (if jm_get (ad_execs s) x = Some t then [e] else []) @ events_for s t xes"
  by (simp_all add: events_for_def)

lemma events_for_publish [simp]: "events_for (ad_publish now t' e s) t xes = events_for s t xes"
  by (simp add: events_for_def)

lemma events_for_append: "events_for s t (xs @ ys) = events_for s t xs @ events_for s t ys"
  by (simp add: events_for_def)

lemma on_event_execs [simp]: "ad_execs (fold (on_event now) xes s) = ad_execs s"
proof (induction xes arbitrary: s)
  case (Cons xe xes)
  have "ad_execs (on_event now xe s) = ad_execs s" by (simp add: on_event_def split: option.split)
  with Cons show ?case by simp
qed simp

lemma detached_events:
  assumes "detached s k"
  shows "jm_get (ad_streams (fold (on_event now) xes s)) k = jm_get (ad_streams s) k
    \<and> detached (fold (on_event now) xes s) k"
  using assms
proof (induction xes arbitrary: s)
  case (Cons xe xes)
  have "detached (on_event now xe s) k \<and> jm_get (ad_streams (on_event now xe s)) k = jm_get (ad_streams s) k"
    using Cons.prems
    by (auto simp: on_event_def detached_def publish_other br_publish_listeners split: option.split if_splits)
  with Cons.IH [of "on_event now xe s"] show ?case by simp
qed simp

text \<open>A stream that is attached, and one that has ended.\<close>

definition streaming :: "adapter \<Rightarrow> nat \<Rightarrow> jstr \<Rightarrow> sse_stream \<Rightarrow> bool" where
  "streaming s k t st \<longleftrightarrow> jm_get (ad_streams s) k = Some st \<and> frames_ok s t st
     \<and> (if ss_ended st then detached s k else attached s k t)"

lemma streaming_events:
  assumes "streaming s k t st"
  shows "\<exists>st'. streaming (fold (on_event now) xes s) k t st'
    \<and> map be_event (ss_frames st') = map be_event (ss_frames st)
        @ (if ss_ended st then [] else upto_terminal (events_for s t xes))
    \<and> (ss_ended st' \<longleftrightarrow> ss_ended st \<or> (\<exists>e \<in> set (events_for s t xes). terminal_detail (ev_detail e)))"
  using assms
proof (induction xes arbitrary: s st)
  case Nil
  then show ?case by (intro exI [of _ st]) simp
next
  case (Cons xe xes)
  obtain x e where xe: "xe = (x, e)" by (cases xe)
  show ?case
  proof (cases "ss_ended st")
    case True
    with Cons.prems have d: "detached s k" "jm_get (ad_streams s) k = Some st" "frames_ok s t st"
      by (simp_all add: streaming_def)
    with True have "streaming (fold (on_event now) (xe # xes) s) k t st"
      using detached_events [OF d(1), of now "xe # xes"]
      by (auto simp: streaming_def frames_ok_def simp del: fold_simps)
    with True show ?thesis by (intro exI [of _ st]) simp
  next
    case False
    with Cons.prems have at: "attached s k t" "jm_get (ad_streams s) k = Some st" "frames_ok s t st"
      by (simp_all add: streaming_def)
    consider (none) "jm_get (ad_execs s) x = None"
      | (other) t' where "jm_get (ad_execs s) x = Some t'" "t' \<noteq> t"
      | (own) "jm_get (ad_execs s) x = Some t" by (cases "jm_get (ad_execs s) x") auto
    then show ?thesis
    proof cases
      case none
      then have "on_event now xe s = s" by (simp add: on_event_def xe)
      with Cons.IH [OF Cons.prems] none xe False show ?thesis by simp
    next
      case other
      let ?s = "ad_publish now t' e s"
      have "k \<notin> set (br_listeners_of (ad_broker s) t')" using at(1) other by (simp add: attached_def)
      then have "streaming ?s k t st"
        using publish_other publish_attached(4) [OF at(1) other(2)] at False other
        by (simp add: streaming_def frames_ok_def br_publish_next)
      moreover have "on_event now xe s = ?s" using other by (simp add: on_event_def xe)
      ultimately show ?thesis using Cons.IH [of ?s st] other xe False by simp
    next
      case own
      let ?s = "ad_publish now t e s"
      let ?item = "\<lparr>be_id = br_next_id (ad_broker s) t, be_event = e\<rparr>"
      have st: "jm_get (ad_streams ?s) k = Some (delivered ?item st)"
        using publish_attached(1) [OF at(1)] at(2) by simp
      have fr: "frames_ok ?s t (delivered ?item st)"
        using at(3) False
        by (auto simp: frames_ok_def delivered_def sorted_wrt_append br_publish_next)
      have "streaming ?s k t (delivered ?item st)"
        using st fr publish_attached(2,3) [OF at(1)] False
        by (simp add: streaming_def) (simp add: delivered_def)
      moreover have "on_event now xe s = ?s" using own by (simp add: on_event_def xe)
      ultimately show ?thesis
        using Cons.IH [of ?s "delivered ?item st"] own xe False by (auto simp: delivered_def)
    qed
  qed
qed

lemma answers_fields [simp]:
  "ad_broker (fold answer os s) = ad_broker s" "ad_streams (fold answer os s) = ad_streams s"
  "ad_client (fold answer os s) = ad_client s" "ad_execs (fold answer os s) = ad_execs s"
proof -
  have one: "ad_broker (answer o' s) = ad_broker s" "ad_streams (answer o' s) = ad_streams s"
    "ad_client (answer o' s) = ad_client s" "ad_execs (answer o' s) = ad_execs s" for o' s
    by (simp_all add: answer_def execute_failed_def execute_accepted_def writeJson_def
        split: option.split sum.split)
  show "ad_broker (fold answer os s) = ad_broker s" "ad_streams (fold answer os s) = ad_streams s"
    "ad_client (fold answer os s) = ad_client s" "ad_execs (fold answer os s) = ad_execs s"
    by (induction os arbitrary: s) (simp_all add: one)
qed

lemma on_event_client [simp]: "ad_client (fold (on_event now) xes s) = ad_client s"
proof (induction xes arbitrary: s)
  case (Cons xe xes)
  have "ad_client (on_event now xe s) = ad_client s" by (simp add: on_event_def split: option.split)
  with Cons show ?case by simp
qed simp

lemma streaming_cong:
  "ad_broker s = ad_broker s' \<Longrightarrow> ad_streams s = ad_streams s' \<Longrightarrow> streaming s k t st = streaming s' k t st"
  by (simp add: streaming_def frames_ok_def attached_def detached_def)

lemma streaming_client:
  assumes "streaming s k t st"
  shows "\<exists>st'. streaming (client_changed now p s) k t st'
    \<and> map be_event (ss_frames st') = map be_event (ss_frames st)
        @ (if ss_ended st then [] else upto_terminal
            (events_for s t (drop (length (pc_events (ad_client s))) (pc_events p))))
    \<and> (ss_ended st' \<longleftrightarrow> ss_ended st \<or> (\<exists>e \<in> set (events_for s t
          (drop (length (pc_events (ad_client s))) (pc_events p))). terminal_detail (ev_detail e)))"
proof -
  have "streaming (s\<lparr>ad_client := p\<rparr>) k t st"
    using assms by (simp add: streaming_cong [of "s\<lparr>ad_client := p\<rparr>" s])
  moreover have ef: "events_for (s\<lparr>ad_client := p\<rparr>) = events_for s"
    by (simp add: events_for_def fun_eq_iff)
  ultimately show ?thesis
    using streaming_events [of "s\<lparr>ad_client := p\<rparr>" k t st now "drop (length (pc_events (ad_client s))) (pc_events p)",
        unfolded ef]
    by (simp add: client_changed_def Let_def streaming_cong [of "fold answer os h" h for os h])
qed

lemma client_changed_fields [simp]:
  "ad_client (client_changed now p s) = p" "ad_execs (client_changed now p s) = ad_execs s"
  by (simp_all add: client_changed_def Let_def)

lemma upto_terminal_append:
  "upto_terminal (xs @ ys) =
     upto_terminal xs @ (if \<exists>e \<in> set xs. terminal_detail (ev_detail e) then [] else upto_terminal ys)"
  by (induction xs) auto

text \<open>What the gateway connection does, as inputs of the server.\<close>

definition ad_client_run :: "adapter_options \<Rightarrow> (nat \<times> pc_in) list \<Rightarrow> adapter \<Rightarrow> adapter" where
  "ad_client_run opts cs s =
     fold (\<lambda>(now, i) s. client_changed now (pc_step (ao_client opts) i (ad_client s)) s) cs s"

lemma ad_client_run_fields [simp]:
  "ad_execs (ad_client_run opts cs s) = ad_execs s"
  "ad_client (ad_client_run opts cs s) = pc_run (ao_client opts) (map snd cs) (ad_client s)"
  unfolding ad_client_run_def pc_run_def
  by (induction cs arbitrary: s) (simp_all add: case_prod_beta)

lemma grows_pc_run: "grows s (pc_run c is s)"
  unfolding pc_run_def by (rule grows_fold) (rule grows_step)

lemma streaming_run:
  assumes "streaming s k t st"
  shows "\<exists>st'. streaming (ad_client_run opts cs s) k t st'
    \<and> map be_event (ss_frames st') = map be_event (ss_frames st)
        @ (if ss_ended st then [] else upto_terminal (events_for s t
            (drop (length (pc_events (ad_client s))) (pc_events (ad_client (ad_client_run opts cs s))))))
    \<and> (ss_ended st' \<longleftrightarrow> ss_ended st \<or> (\<exists>e \<in> set (events_for s t
          (drop (length (pc_events (ad_client s))) (pc_events (ad_client (ad_client_run opts cs s))))).
            terminal_detail (ev_detail e)))"
  using assms
proof (induction cs arbitrary: s st)
  case Nil
  then show ?case by (intro exI [of _ st]) (simp add: ad_client_run_def)
next
  case (Cons ci cs)
  obtain now i where ci: "ci = (now, i)" by (cases ci)
  let ?p = "pc_step (ao_client opts) i (ad_client s)"
  let ?s = "client_changed now ?p s"
  obtain st1 where st1: "streaming ?s k t st1"
    "map be_event (ss_frames st1) = map be_event (ss_frames st)
        @ (if ss_ended st then [] else upto_terminal
            (events_for s t (drop (length (pc_events (ad_client s))) (pc_events ?p))))"
    "ss_ended st1 \<longleftrightarrow> ss_ended st \<or> (\<exists>e \<in> set (events_for s t
          (drop (length (pc_events (ad_client s))) (pc_events ?p))). terminal_detail (ev_detail e))"
    using streaming_client [OF Cons.prems, of now ?p] by auto
  have run: "ad_client_run opts (ci # cs) s = ad_client_run opts cs ?s"
    by (simp add: ad_client_run_def ci)
  obtain d1 where d1: "pc_events ?p = pc_events (ad_client s) @ d1"
    using grows_step [of "ad_client s" "ao_client opts" i] by (auto simp: grows_def prefix_def)
  obtain d2 where d2: "pc_events (pc_run (ao_client opts) (map snd cs) ?p) = pc_events ?p @ d2"
    using grows_pc_run [of ?p] by (auto simp: grows_def prefix_def)
  have new: "drop (length (pc_events (ad_client ?s))) (pc_events (ad_client (ad_client_run opts cs ?s))) = d2"
    "drop (length (pc_events (ad_client s))) (pc_events (ad_client (ad_client_run opts (ci # cs) s))) = d1 @ d2"
    "drop (length (pc_events (ad_client s))) (pc_events ?p) = d1"
    using d1 d2 unfolding run by simp_all
  have ef: "events_for ?s = events_for s" by (simp add: events_for_def fun_eq_iff)
  obtain st' where st': "streaming (ad_client_run opts cs ?s) k t st'"
    "map be_event (ss_frames st') = map be_event (ss_frames st1)
        @ (if ss_ended st1 then [] else upto_terminal (events_for s t d2))"
    "ss_ended st' \<longleftrightarrow> ss_ended st1 \<or> (\<exists>e \<in> set (events_for s t d2). terminal_detail (ev_detail e))"
    using Cons.IH [OF st1(1), unfolded new ef] by blast
  show ?case
    unfolding new
    using st' st1(2,3) [unfolded new]
    by (intro exI [of _ st']) (auto simp: run events_for_append upto_terminal_append)
qed

lemma ad_open_fields:
  "ad_client (ad_open_stream k t h s) = ad_client s" "ad_execs (ad_open_stream k t h s) = ad_execs s"
  by (simp_all add: ad_open_stream_def Let_def)

text \<open>A stream as it is opened.\<close>

lemma streaming_open:
  assumes "ad_inv s" "jm_get (ad_streams s) k = None"
    and "n = positive_or 0 (case h of None \<Rightarrow> NumInt 0 | Some v \<Rightarrow> js_number v)"
  shows "\<exists>st. streaming (ad_open_stream k t h s) k t st \<and> ss_frames st = br_replay t n (ad_broker s)
    \<and> (ss_ended st \<longleftrightarrow> br_replay t n (ad_broker s) \<noteq> []
         \<and> terminal_detail (ev_detail (be_event (last (br_replay t n (ad_broker s))))))"
proof -
  let ?r = "br_replay t n (ad_broker s)"
  have fresh: "k \<notin> set (br_listeners_of (ad_broker s) t')" for t'
    using ad_invD(2) [OF assms(1), of k t'] assms(2) by (auto simp: stream_task_def)
  have ok: "broker_ok (ad_broker s)" using assms(1) by (rule ad_invD)
  have srt: "sorted_wrt (\<lambda>a b. be_id a < be_id b) ?r"
    using ok by (rule broker_log.replay_sorted)
  have bound: "be_id f < br_next_id (ad_broker s) t" if "f \<in> set ?r" for f
    using that broker_history_ids(2) [OF ok] by (auto simp: br_replay_def)
  have none: "filter (\<lambda>l. l = k) (br_listeners_of (ad_broker s) t) = []"
    using fresh by (auto simp: filter_empty_conv)
  show ?thesis
  proof (cases "?r \<noteq> [] \<and> terminal_detail (ev_detail (be_event (last ?r)))")
    case True
    then show ?thesis
      using fresh srt
      by (auto simp: ad_open_stream_def assms(3) [symmetric] Let_def streaming_def frames_ok_def detached_def)
  next
    case False
    then show ?thesis
      using fresh none srt bound
      by (auto simp: ad_open_stream_def assms(3) [symmetric] Let_def streaming_def frames_ok_def attached_def
          br_subscribe_listeners) (simp_all add: br_subscribe_def br_lookup_defs Let_def)
  qed
qed

text \<open>
  C17: a stream shows its reader the retained events after the id it asks for, and then, unless these
  end with the task's end, every event the gateway connection produces for the executions
  of that task, in order, up to and including the first terminal one, at which the stream
  is ended; the ids of its frames strictly increase.
\<close>

theorem stream_shows_task:
  assumes "s = ad_run lib opts is createAdapterServer" and "jm_get (ad_streams s) k = None"
    and "n = positive_or 0 (case h of None \<Rightarrow> NumInt 0 | Some v \<Rightarrow> js_number v)"
    and "replay = br_replay t n (ad_broker s)"
    and "s' = ad_client_run opts cs (ad_open_stream k t h s)"
    and "new = events_for s t (drop (length (pc_events (ad_client s))) (pc_events (ad_client s')))"
    and "over \<longleftrightarrow> replay \<noteq> [] \<and> terminal_detail (ev_detail (be_event (last replay)))"
  shows "\<exists>st. jm_get (ad_streams s') k = Some st
    \<and> map be_event (ss_frames st) = map be_event replay @ (if over then [] else upto_terminal new)
    \<and> (ss_ended st \<longleftrightarrow> over \<or> (\<exists>e \<in> set new. terminal_detail (ev_detail e)))
    \<and> sorted_wrt (\<lambda>a b. be_id a < be_id b) (ss_frames st)"
proof -
  have inv: "ad_inv s" using ad_inv_run assms(1) by simp
  obtain st where st: "streaming (ad_open_stream k t h s) k t st" "ss_frames st = replay" "ss_ended st \<longleftrightarrow> over"
    using streaming_open [OF inv assms(2,3), of t] assms(4,7) by blast
  note op = ad_open_fields [of k t h s]
  then have ef: "events_for (ad_open_stream k t h s) = events_for s" by (simp add: events_for_def fun_eq_iff)
  from streaming_run [OF st(1), of opts cs, unfolded ef op] st(2,3) assms(5,6) show ?thesis
    by (auto simp: streaming_def frames_ok_def)
qed

section \<open>What is executed\<close>

lemma read_chunks_bound: "read_chunks n chs = Inr b \<Longrightarrow> b = concat chs \<and> n + length b \<le> max n (1024 * 1024)"
proof (induction n chs arbitrary: b rule: read_chunks.induct)
  case (2 n ch chs)
  then show ?case by (auto simp: map_sum_def split: if_splits sum.splits)
qed simp

text \<open>A file the checks let through.\<close>

definition admissible_file :: "adapter_lib \<Rightarrow> jstr option \<Rightarrow> gateway_file \<Rightarrow> bool" where
  "admissible_file lib allowed f \<longleftrightarrow>
     1 \<le> gf_sizeBytes f \<and> gf_sizeBytes f \<le> MAX_FILE_BYTES
     \<and> (case gf_contentUrl f of
          None \<Rightarrow> True
        | Some u \<Rightarrow> (case al_origin lib u of
                     None \<Rightarrow> False
                   | Some origin \<Rightarrow> truthy allowed \<longrightarrow> al_origin lib (the allowed) = Some origin))"

lemma check_file_admits: "check_file lib allowed v = None \<Longrightarrow> admissible_file lib allowed (file_of_json v)"
proof -
  assume c: "check_file lib allowed v = None"
  then have sz: "valid_size (jprop v (js ''sizeBytes''))" by (auto simp: check_file_def split: if_splits)
  then obtain i where i: "jprop v (js ''sizeBytes'') = Some (JInt i)" "1 \<le> i" "i \<le> 25 * 1024 * 1024"
    by (auto simp: valid_size_def split: option.splits json.splits)
  have url: "case al_origin lib u of None \<Rightarrow> False
      | Some origin \<Rightarrow> truthy allowed \<longrightarrow> al_origin lib (the allowed) = Some origin"
    if "gf_contentUrl (file_of_json v) = Some u" for u
  proof -
    from that obtain w where w: "json_truthy (jprop v (js ''contentUrl''))"
      "jprop v (js ''contentUrl'') = Some w" "u = js_string w"
      by (auto simp: file_of_json_def split: if_splits)
    with c show ?thesis by (auto simp: check_file_def split: if_splits option.splits)
  qed
  have "gf_sizeBytes (file_of_json v) = nat i" using i(1) by (simp add: file_of_json_def)
  with i(2,3) url show ?thesis
    unfolding admissible_file_def MAX_FILE_BYTES_def by (auto split: option.split)
qed

lemma check_files_admits:
  "check_files lib allowed fs = None \<Longrightarrow> f \<in> set (map file_of_json fs) \<Longrightarrow> admissible_file lib allowed f"
  by (induction fs) (auto simp: check_file_admits split: option.splits)

definition admissible_input :: "adapter_lib \<Rightarrow> jstr option \<Rightarrow> gateway_input \<Rightarrow> bool" where
  "admissible_input lib allowed i \<longleftrightarrow>
     gi_taskId i \<noteq> [] \<and> gi_sessionId i \<noteq> [] \<and> length (gi_message i) \<le> 30000
     \<and> (case gi_files i of
          None \<Rightarrow> False
        | Some fs \<Rightarrow> length fs \<le> 10 \<and> list_all (admissible_file lib allowed) fs)"

lemma validate_admits:
  assumes "validateExecutePayload lib allowed v = None"
  shows "admissible_input lib allowed (execute_input v)"
proof -
  from assms have c: "non_empty_text (prop_str v (js ''taskId''))" "non_empty_text (prop_str v (js ''sessionId''))"
    "length (the (prop_str v (js ''message''))) \<le> 30000"
    "payload_files v \<noteq> None" "length (the (payload_files v)) \<le> 10"
    "check_files lib allowed (the (payload_files v)) = None"
    unfolding validateExecutePayload_def by (simp_all split: if_splits)
  obtain fs where fs: "payload_files v = Some fs" using c(4) by blast
  have "list_all (admissible_file lib allowed) (map file_of_json fs)"
    using check_files_admits c(6) fs unfolding list_all_iff by fastforce
  with c fs show ?thesis
    by (auto simp: admissible_input_def execute_input_def non_empty_text_def)
qed

text \<open>
  C18: an execute request either is answered at once with 400, 413 or 502 and reaches neither
  the gateway connection nor the broker, or its body fits 1 MiB and it starts exactly one
  execution, of a task with an id and a session, a message within 30000 units and at most ten
  files, each within the size limit and downloadable only from the allowed origin.
\<close>

theorem execute_admits_valid:
  "(ad_client (ad_execute lib opts k q s) = ad_client s \<and> ad_broker (ad_execute lib opts k q s) = ad_broker s
      \<and> (\<exists>st v. st \<in> {400, 413, 502} \<and> ad_replies (ad_execute lib opts k q s) = ad_replies s @ [(k, JsonReply st v)]))
   \<or> (\<exists>i. ad_client (ad_execute lib opts k q s) = pc_step (ao_client opts) (PcExecute k i) (ad_client s)
        \<and> length (concat (hq_body q)) \<le> 1024 * 1024
        \<and> admissible_input lib (ao_allowedContentOrigin opts) i)"
proof (cases "readJsonBody lib (hq_body q)")
  case (Inl e)
  then show ?thesis
    by (auto simp: ad_execute_def execute_failed_def writeJson_def execute_status_def)
next
  case (Inr v)
  then have len: "length (concat (hq_body q)) \<le> 1024 * 1024"
    using read_chunks_bound [of 0 "hq_body q"]
    by (auto simp: readJsonBody_def split: sum.splits option.splits)
  show ?thesis
  proof (cases "validateExecutePayload lib (ao_allowedContentOrigin opts) v")
    case (Some e)
    with Inr show ?thesis
      by (auto simp: ad_execute_def execute_failed_def writeJson_def execute_status_def)
  next
    case None
    with Inr len validate_admits [OF None] show ?thesis by (auto simp: ad_execute_def)
  qed
qed

section \<open>A run of the model\<close>

definition sample_lib :: adapter_lib where
  "sample_lib = \<lparr>al_json = (\<lambda>_. Some (JObj [(js ''taskId'', JStr (js ''t'')), (js ''sessionId'', JStr (js ''s'')),
     (js ''message'', JStr (js ''hi''))])), al_origin = (\<lambda>_. None), al_decode = Some\<rparr>"

definition sample_options :: adapter_options where
  "sample_options = \<lparr>ao_internalToken = None, ao_allowedContentOrigin = None, ao_client = sample_client\<rparr>"

definition sample_request :: adapter_request where
  "sample_request = \<lparr>hq_method = js ''POST'', hq_pathname = js ''/gateway/tasks/execute'',
     hq_authorization = None, hq_lastEventId = None, hq_body = [[123, 125]]\<rparr>"

definition sample_later :: "(nat \<times> pc_in) list" where
  "sample_later = map (Pair 0) [PcPrepared 0 (Inr sample_message), SockOpen 0,
     SockFrame [] (Some (SuccessFrame (js ''persistent-connect'') sample_success)),
     SockFrame [] (Some (SuccessFrame (js ''t'') sample_success)),
     SockFrame [] (Some (EventFrame (js ''chat'') sample_final))]"

definition sample_payload_input :: gateway_input where
  "sample_payload_input =
     \<lparr>gi_gatewayUrl = [], gi_taskId = js ''t'', gi_sessionId = js ''s'', gi_message = js ''hi'', gi_files = Some [],
      gi_gatewayToken = None, gi_gatewayPassword = None, gi_taskTimeoutMs = None\<rparr>"

abbreviation sample_adapter :: adapter where
  "sample_adapter \<equiv> ad_run sample_lib sample_options [AdRequest 0 [] 0 sample_request] createAdapterServer"

lemma sample_execute:
  "ad_execute sample_lib sample_options 0 sample_request createAdapterServer =
     createAdapterServer\<lparr>ad_execs := [(0, js ''t'')],
       ad_client := pc_step sample_client (PcExecute 0 sample_payload_input) pc_new\<rparr>"
proof -
  have "readJsonBody sample_lib (hq_body sample_request) = Inr (JObj [(js ''taskId'', JStr (js ''t'')),
      (js ''sessionId'', JStr (js ''s'')), (js ''message'', JStr (js ''hi''))])"
    by (simp add: readJsonBody_def sample_lib_def sample_request_def)
  then show ?thesis
    by (simp add: ad_execute_def validateExecutePayload_def non_empty_text_def prop_str_def payload_files_def
        execute_input_def sample_options_def sample_payload_input_def createAdapterServer_def jm_set_def)
qed

lemma sample_adapter_state:
  "sample_adapter = ad_execute sample_lib sample_options 0 sample_request createAdapterServer"
proof -
  have "unauthorized sample_options sample_request = False"
    by (simp add: unauthorized_def sample_options_def truthy_def)
  then show ?thesis
    by (simp add: ad_run_def ad_request_def) (simp add: createAdapterServer_def sample_request_def)
qed

lemma sample_adapter_facts:
  "jm_get (ad_streams sample_adapter) 1 = None"
  "br_replay (js ''t'') 0 (ad_broker sample_adapter) = []"
  "jm_get (ad_execs sample_adapter) 0 = Some (js ''t'')"
  "ad_client sample_adapter = pc_step sample_client (PcExecute 0 sample_payload_input) pc_new"
  unfolding sample_adapter_state sample_execute
  by (simp_all add: createAdapterServer_def br_replay_def br_new_def br_history_of_def jm_get_def)

lemma sample_later_events:
  "map (\<lambda>(x, e). (x, ev_detail e)) (pc_events (pc_run sample_client (map snd sample_later)
      (pc_step sample_client (PcExecute 0 sample_payload_input) pc_new))) = [(0, Accepted), (0, CompletedEv)]"
  by code_simp

theorem stream_shows_task_witness:
  "\<exists>st. jm_get (ad_streams (ad_client_run sample_options sample_later
      (ad_open_stream 1 (js ''t'') None sample_adapter))) 1 = Some st
    \<and> length (ss_frames st) = 2 \<and> ss_ended st"
proof -
  have n: "(0::nat) = positive_or 0 (case None of None \<Rightarrow> NumInt 0 | Some v \<Rightarrow> js_number v)"
    by (simp add: positive_or_def)
  define s' where "s' = ad_client_run sample_options sample_later (ad_open_stream 1 (js ''t'') None sample_adapter)"
  define new where "new = events_for sample_adapter (js ''t'')
    (drop (length (pc_events (ad_client sample_adapter))) (pc_events (ad_client s')))"
  have "ad_client s' = pc_run sample_client (map snd sample_later)
      (pc_step sample_client (PcExecute 0 sample_payload_input) pc_new)"
    by (simp add: s'_def ad_open_fields sample_adapter_facts(4) del: pc_step.simps)
      (simp add: sample_options_def)
  moreover have "pc_events (ad_client sample_adapter) = []"
    by (simp add: sample_adapter_facts(4) execute_def pc_new_def)
  ultimately obtain a b where new: "new = [a, b]" "ev_detail a = Accepted" "ev_detail b = CompletedEv"
    using sample_later_events sample_adapter_facts(3) by (auto simp: new_def)
  obtain st where st: "jm_get (ad_streams s') 1 = Some st"
    "map be_event (ss_frames st) = upto_terminal new"
    "ss_ended st \<longleftrightarrow> (\<exists>e \<in> set new. terminal_detail (ev_detail e))"
    using stream_shows_task [OF refl sample_adapter_facts(1) n sample_adapter_facts(2) [symmetric] s'_def new_def refl]
    by auto
  have "length (map be_event (ss_frames st)) = 2" unfolding st(2) new(1) using new(2,3) by simp
  with st(1,3) new show ?thesis by (auto simp: s'_def)
qed

theorem execute_admits_valid_witness:
  "\<exists>i. pc_step sample_client (PcExecute 0 sample_payload_input) pc_new = pc_step sample_client (PcExecute 0 i) pc_new
    \<and> admissible_input sample_lib None i"
proof -
  have "ad_replies (ad_execute sample_lib sample_options 0 sample_request createAdapterServer) = []"
    unfolding sample_execute by (simp add: createAdapterServer_def)
  moreover have "ad_client createAdapterServer = pc_new" "ao_client sample_options = sample_client"
    "ao_allowedContentOrigin sample_options = None"
    by (simp_all add: createAdapterServer_def sample_options_def)
  ultimately show ?thesis
    using execute_admits_valid [of sample_lib sample_options 0 sample_request createAdapterServer]
    by (auto simp: sample_execute)
qed

end
