(* ===== verification/TaskStore.thy ===== *)
theory TaskStore
  imports SharedTypes
begin

text \<open>
  \<^verbatim>\<open>apps/mobile/src/store/taskStore.ts\<close>: the app's store of the current conversation, with the
  types of \<^verbatim>\<open>services/tasks.ts\<close> it takes from the API. The module's state is \<open>task_state\<close>; the store
  adds the snapshot its readers see and its listeners, and \<open>emit\<close> is the \<^verbatim>\<open>emit\<close> that ends each
  operation. Values stand for the objects: the code changes a message or a recent item in place
  only where it is about to emit. Chinese texts are their UTF-16 code units.
\<close>

section \<open>Texts\<close>

definition new_conversation_title :: jstr where
  "new_conversation_title =
     [0x65B0, 0x5BF9, 0x8BDD]"

definition greeting :: jstr where
  "greeting =
     [0x4F60, 0x597D, 0x5440, 0xFF01, 0x5F88, 0x9AD8, 0x5174, 0x8BA4, 0x8BC6, 0x4F60, 0xD83D,
     0xDE0A]"

definition meeting_preview :: jstr where
  "meeting_preview =
     [0x6536, 0x5230, 0xFF0C, 0x6211, 0x5148, 0x5E2E, 0x4F60, 0x6574, 0x7406, 0x4F1A, 0x8BAE,
     0x7EAA, 0x8981, 0x7ED3, 0x6784, 0xFF0C, 0x518D, 0x7EE7, 0x7EED, 0x7EC6, 0x5316, 0x91CD,
     0x70B9, 0x548C, 0x5F85, 0x529E, 0x3002]"

definition email_preview :: jstr where
  "email_preview =
     [0x53EF, 0x4EE5, 0xFF0C, 0x6211, 0x4F1A, 0x5148, 0x7ED9, 0x4F60, 0x8D77, 0x4E00, 0x7248,
     0x6E05, 0x6670, 0x793C, 0x8C8C, 0x7684, 0x90AE, 0x4EF6, 0x8349, 0x7A3F, 0xFF0C, 0x518D,
     0x4E00, 0x8D77, 0x8C03, 0x6574, 0x8BED, 0x6C14, 0x3002]"

definition summary_preview :: jstr where
  "summary_preview =
     [0x597D, 0x7684, 0xFF0C, 0x6211, 0x5148, 0x5FEB, 0x901F, 0x63D0, 0x70BC, 0x6838, 0x5FC3,
     0x5185, 0x5BB9, 0xFF0C, 0x518D, 0x6309, 0x66F4, 0x6613, 0x8BFB, 0x7684, 0x65B9, 0x5F0F,
     0x5E2E, 0x4F60, 0x6574, 0x7406, 0x3002]"

definition default_preview :: jstr where
  "default_preview =
     [0x6536, 0x5230, 0xFF0C, 0x6211, 0x5148, 0x5E2E, 0x4F60, 0x8D77, 0x4E00, 0x7248, 0x7ED3,
     0x679C, 0xFF0C, 0x4F60, 0x53EF, 0x4EE5, 0x7EE7, 0x7EED, 0x8FFD, 0x95EE, 0x6216, 0x6539,
     0x7A3F, 0x3002]"

definition just_now :: jstr where
  "just_now =
     [0x521A, 0x521A]"

definition in_progress :: jstr where
  "in_progress =
     [0x5904, 0x7406, 0x4E2D]"

definition finished :: jstr where
  "finished =
     [0x5DF2, 0x5B8C, 0x6210]"

definition cancelled_label :: jstr where
  "cancelled_label =
     [0x5DF2, 0x53D6, 0x6D88]"

definition failed_label :: jstr where
  "failed_label =
     [0x5931, 0x8D25]"

section \<open>State\<close>

datatype conversation_message =
    UserMessage jstr jstr "jstr option"
  | AssistantMessage jstr jstr "jstr option"
  | ArtifactMessage jstr json "jstr option"

record recent_conversation =
  rc_id :: jstr
  rc_sessionId :: "jstr option"
  rc_title :: jstr
  rc_subtitle :: jstr
  rc_status :: jstr
  rc_prompt :: jstr

record pending_attachment =
  pa_clientId :: jstr
  pa_fileId :: "jstr option"
  pa_filename :: jstr
  pa_mimeType :: jstr
  pa_sizeBytes :: nat
  pa_status :: file_status
  pa_storageKey :: "jstr option"
  pa_errorMessage :: "jstr option"

text \<open>\<^verbatim>\<open>TaskResultVersion\<close> and \<^verbatim>\<open>HistoryTaskDetail\<close> of \<^verbatim>\<open>services/tasks.ts\<close>.\<close>

record result_version =
  tv_id :: jstr
  tv_taskId :: jstr
  tv_sessionId :: jstr
  tv_versionNo :: nat
  tv_outputText :: jstr
  tv_outputJson :: json
  tv_createdAt :: jstr

record detail_task =
  dt_taskId :: jstr
  dt_parentTaskId :: "jstr option"
  dt_inputText :: jstr
  dt_status :: jstr
  dt_errorMessage :: "jstr option"
  dt_createdAt :: jstr
  dt_result :: "result_version option"

record task_detail =
  td_sessionId :: jstr
  td_title :: jstr
  td_status :: jstr
  td_currentTaskId :: "jstr option"
  td_tasks :: "detail_task list"
  td_versions :: "result_version list"

record task_state =
  ts_draft :: jstr
  ts_lastSubmittedTaskText :: "jstr option"
  ts_submitCount :: nat
  ts_currentTaskId :: "jstr option"
  ts_currentSessionId :: "jstr option"
  ts_currentStatus :: "jstr option"
  ts_currentError :: "jstr option"
  ts_currentTitle :: jstr
  ts_currentRunId :: "jstr option"
  ts_messages :: "conversation_message list"
  ts_pendingAttachments :: "pending_attachment list"
  ts_recentConversations :: "recent_conversation list"
  ts_resultVersions :: "result_version list"
  ts_selectedVersionNo :: "nat option"

record task_store =
  st_state :: task_state
  st_snapshot :: task_state
  st_listeners :: "nat list"
  st_calls :: "(nat \<times> task_state) list"

definition initialState :: task_state where
  "initialState =
     \<lparr>ts_draft = [], ts_lastSubmittedTaskText = None, ts_submitCount = 0, ts_currentTaskId = None,
      ts_currentSessionId = None, ts_currentStatus = None, ts_currentError = None,
      ts_currentTitle = new_conversation_title, ts_currentRunId = None,
      ts_messages = [AssistantMessage (js ''welcome-assistant'') greeting None],
      ts_pendingAttachments = [], ts_recentConversations = [], ts_resultVersions = [],
      ts_selectedVersionNo = None\<rparr>"

definition store_new :: task_store where
  "store_new = \<lparr>st_state = initialState, st_snapshot = initialState, st_listeners = [], st_calls = []\<rparr>"

text \<open>Every listener is called once, and finds the new snapshot.\<close>

definition emit :: "task_store \<Rightarrow> task_store" where
  "emit s = s\<lparr>st_snapshot := st_state s,
              st_calls := st_calls s @ map (\<lambda>k. (k, st_state s)) (st_listeners s)\<rparr>"

definition with_state :: "(task_state \<Rightarrow> task_state) \<Rightarrow> task_store \<Rightarrow> task_store" where
  "with_state f s = s\<lparr>st_state := f (st_state s)\<rparr>"

definition subscribe_store :: "nat \<Rightarrow> task_store \<Rightarrow> task_store" where
  "subscribe_store k s =
     s\<lparr>st_listeners := (if k \<in> set (st_listeners s) then st_listeners s else st_listeners s @ [k])\<rparr>"

definition unsubscribe_store :: "nat \<Rightarrow> task_store \<Rightarrow> task_store" where
  "unsubscribe_store k s = s\<lparr>st_listeners := filter (\<lambda>j. j \<noteq> k) (st_listeners s)\<rparr>"

section \<open>Helpers\<close>

text \<open>
  \<^verbatim>\<open>Date.now()\<close> and the random suffix of a new id; an operation makes at most one id of a
  prefix, so the suffix is a function of the prefix.
\<close>

record mint =
  mt_now :: nat
  mt_suffix :: "jstr \<Rightarrow> jstr"

definition nextId :: "mint \<Rightarrow> jstr \<Rightarrow> jstr" where
  "nextId m p = p @ js ''-'' @ js_of_nat (mt_now m) @ js ''-'' @ mt_suffix m p"

definition buildTitle :: "jstr \<Rightarrow> jstr" where
  "buildTitle t =
     (let trimmed = js_trim t
      in if trimmed = [] then new_conversation_title
         else if length trimmed > 10 then take 10 trimmed @ [0x2026] else trimmed)"

definition buildAssistantPreview :: "jstr \<Rightarrow> jstr" where
  "buildAssistantPreview t =
     (if js_includes t [0x4F60, 0x597D] then greeting
      else if js_includes t [0x4F1A, 0x8BAE] \<or> js_includes t [0x7EAA, 0x8981] then meeting_preview
      else if js_includes t [0x90AE, 0x4EF6] then email_preview
      else if js_includes t [0x603B, 0x7ED3] \<or> js_includes t [0x6587, 0x6863] then summary_preview
      else default_preview)"

fun remove_first :: "('a \<Rightarrow> bool) \<Rightarrow> 'a list \<Rightarrow> 'a list" where
  "remove_first P [] = []"
| "remove_first P (x # xs) = (if P x then xs else x # remove_first P xs)"

definition upsertRecent :: "mint \<Rightarrow> jstr \<Rightarrow> jstr \<Rightarrow> task_state \<Rightarrow> task_state" where
  "upsertRecent m prompt status t =
     (let existing = find (\<lambda>i. rc_prompt i = prompt) (ts_recentConversations t);
          nextItem = \<lparr>rc_id = (case existing of Some i \<Rightarrow> rc_id i | None \<Rightarrow> nextId m (js ''recent'')),
                      rc_sessionId = None, rc_title = buildTitle prompt, rc_subtitle = just_now,
                      rc_status = status, rc_prompt = prompt\<rparr>
      in t\<lparr>ts_recentConversations :=
             nextItem # remove_first (\<lambda>i. rc_prompt i = prompt) (ts_recentConversations t)\<rparr>)"

definition pushUserMessage :: "mint \<Rightarrow> jstr \<Rightarrow> task_state \<Rightarrow> task_state" where
  "pushUserMessage m prompt t =
     t\<lparr>ts_messages := ts_messages t @ [UserMessage (nextId m (js ''user'')) prompt None]\<rparr>"

definition last_message :: "task_state \<Rightarrow> conversation_message option" where
  "last_message t = (if ts_messages t = [] then None else Some (last (ts_messages t)))"

definition appendAssistantDelta :: "mint \<Rightarrow> jstr \<Rightarrow> jstr \<Rightarrow> task_state \<Rightarrow> task_state" where
  "appendAssistantDelta m runId delta t =
     (let fresh = t\<lparr>ts_messages := ts_messages t @
                    [AssistantMessage (nextId m (js ''assistant'')) delta (Some runId)]\<rparr>
      in if delta = [] then t
         else case last_message t of
                Some (AssistantMessage i old r) \<Rightarrow>
                  if r = Some runId
                  then t\<lparr>ts_messages := butlast (ts_messages t) @ [AssistantMessage i (old @ delta) r]\<rparr>
                  else fresh
              | _ \<Rightarrow> fresh)"

definition appendArtifactMessage :: "mint \<Rightarrow> jstr \<Rightarrow> json \<Rightarrow> task_state \<Rightarrow> task_state" where
  "appendArtifactMessage m runId artifact t =
     (let fresh = t\<lparr>ts_messages := ts_messages t @
                    [ArtifactMessage (nextId m (js ''artifact'')) artifact (Some runId)]\<rparr>
      in case last_message t of
           Some (ArtifactMessage i old r) \<Rightarrow>
             if r = Some runId \<and> jprop old (js ''downloadUrl'') = jprop artifact (js ''downloadUrl'')
             then t else fresh
         | _ \<Rightarrow> fresh)"

definition replacePendingAttachment :: "jstr \<Rightarrow> pending_attachment \<Rightarrow> task_state \<Rightarrow> task_state" where
  "replacePendingAttachment clientId a t =
     t\<lparr>ts_pendingAttachments :=
        map (\<lambda>b. if pa_clientId b = clientId then a else b) (ts_pendingAttachments t)\<rparr>"

text \<open>The artifact is the JSON object itself, once its members have the types the app needs.\<close>

definition extractArtifactFromResult :: "json \<Rightarrow> json option" where
  "extractArtifactFromResult v =
     (if prop_str v (js ''type'') = Some (js ''artifact'')
      then case jprop v (js ''artifact'') of
             Some a \<Rightarrow>
               if (\<exists>k \<in> {js ''excel'', js ''pdf'', js ''docx''}. prop_str a (js ''kind'') = Some k)
                  \<and> prop_str a (js ''fileName'') \<noteq> None \<and> prop_str a (js ''mimeType'') \<noteq> None
                  \<and> prop_str a (js ''downloadUrl'') \<noteq> None \<and> prop_str a (js ''previewText'') \<noteq> None
               then Some a else None
           | None \<Rightarrow> None
      else None)"

text \<open>\<^verbatim>\<open>if (state.recentConversations[0]) ...\<close>\<close>

definition upd_first_recent :: "(recent_conversation \<Rightarrow> recent_conversation) \<Rightarrow> task_state \<Rightarrow> task_state" where
  "upd_first_recent f t =
     t\<lparr>ts_recentConversations := (case ts_recentConversations t of [] \<Rightarrow> [] | r # rs \<Rightarrow> f r # rs)\<rparr>"

section \<open>Operations\<close>

definition setDraft :: "jstr \<Rightarrow> task_store \<Rightarrow> task_store" where
  "setDraft x s = emit (with_state (\<lambda>t. t\<lparr>ts_draft := x\<rparr>) s)"

definition beginPendingAttachment :: "mint \<Rightarrow> jstr \<Rightarrow> jstr \<Rightarrow> nat \<Rightarrow> task_store \<Rightarrow> task_store \<times> jstr" where
  "beginPendingAttachment m filename mimeType sizeBytes s =
     (let clientId = nextId m (js ''attachment'');
          a = \<lparr>pa_clientId = clientId, pa_fileId = None, pa_filename = filename, pa_mimeType = mimeType,
               pa_sizeBytes = sizeBytes, pa_status = Uploading, pa_storageKey = None, pa_errorMessage = None\<rparr>
      in (emit (with_state (\<lambda>t. t\<lparr>ts_pendingAttachments := ts_pendingAttachments t @ [a]\<rparr>) s), clientId))"

definition completePendingAttachment :: "jstr \<Rightarrow> file_record \<Rightarrow> task_store \<Rightarrow> task_store" where
  "completePendingAttachment clientId f s =
     emit (with_state (replacePendingAttachment clientId
       \<lparr>pa_clientId = clientId, pa_fileId = Some (fr_fileId f), pa_filename = fr_filename f,
        pa_mimeType = fr_mimeType f, pa_sizeBytes = fr_sizeBytes f, pa_status = fr_status f,
        pa_storageKey = Some (fr_storageKey f), pa_errorMessage = None\<rparr>) s)"

definition failPendingAttachment :: "jstr \<Rightarrow> jstr \<Rightarrow> task_store \<Rightarrow> task_store" where
  "failPendingAttachment clientId errorMessage s =
     (case find (\<lambda>a. pa_clientId a = clientId) (ts_pendingAttachments (st_state s)) of
        None \<Rightarrow> s
      | Some a \<Rightarrow>
          emit (with_state (replacePendingAttachment clientId
            (a\<lparr>pa_status := UploadFailed, pa_errorMessage := Some errorMessage\<rparr>)) s))"

definition removePendingAttachment :: "jstr \<Rightarrow> task_store \<Rightarrow> task_store" where
  "removePendingAttachment clientId s =
     emit (with_state (\<lambda>t. t\<lparr>ts_pendingAttachments :=
       filter (\<lambda>a. pa_clientId a \<noteq> clientId) (ts_pendingAttachments t)\<rparr>) s)"

definition getUploadedPendingFileIds :: "task_store \<Rightarrow> jstr list" where
  "getUploadedPendingFileIds s =
     map (the \<circ> pa_fileId)
       (filter (\<lambda>a. pa_status a = Uploaded \<and> pa_fileId a \<noteq> None) (ts_pendingAttachments (st_state s)))"

definition startConversation :: "mint \<Rightarrow> jstr \<Rightarrow> task_store \<Rightarrow> task_store" where
  "startConversation m x s =
     (let prompt = js_trim x
      in if prompt = [] then s
         else emit (with_state (\<lambda>t. upsertRecent m prompt in_progress
                (t\<lparr>ts_lastSubmittedTaskText := Some prompt, ts_submitCount := Suc (ts_submitCount t),
                   ts_draft := [], ts_currentTaskId := None, ts_currentSessionId := None,
                   ts_currentStatus := Some (js ''queued''), ts_currentError := None,
                   ts_currentTitle := buildTitle prompt, ts_currentRunId := None,
                   ts_pendingAttachments := [], ts_resultVersions := [], ts_selectedVersionNo := None,
                   ts_messages := [UserMessage (nextId m (js ''user'')) prompt None]\<rparr>)) s))"

definition appendFollowUp :: "mint \<Rightarrow> jstr \<Rightarrow> task_store \<Rightarrow> task_store" where
  "appendFollowUp m x s =
     (let prompt = js_trim x
      in if prompt = [] then s
         else emit (with_state (\<lambda>t. upsertRecent m prompt in_progress (pushUserMessage m prompt
                (t\<lparr>ts_lastSubmittedTaskText := Some prompt, ts_submitCount := Suc (ts_submitCount t),
                   ts_draft := [], ts_currentTaskId := None, ts_currentStatus := Some (js ''queued''),
                   ts_currentError := None, ts_currentRunId := None, ts_pendingAttachments := []\<rparr>))) s))"

definition resumeConversation :: "mint \<Rightarrow> recent_conversation \<Rightarrow> task_store \<Rightarrow> task_store" where
  "resumeConversation m i s =
     emit (with_state (\<lambda>t. t\<lparr>ts_currentTaskId := None, ts_currentSessionId := None,
       ts_currentStatus := Some (rc_status i), ts_currentError := None, ts_currentTitle := rc_title i,
       ts_currentRunId := None, ts_lastSubmittedTaskText := Some (rc_prompt i), ts_pendingAttachments := [],
       ts_messages := [UserMessage (nextId m (js ''user'')) (rc_prompt i) None,
         AssistantMessage (nextId m (js ''assistant'')) (buildAssistantPreview (rc_prompt i)) None]\<rparr>) s)"

definition setExecutionMeta :: "jstr \<Rightarrow> jstr \<Rightarrow> jstr \<Rightarrow> jstr option \<Rightarrow> task_store \<Rightarrow> task_store" where
  "setExecutionMeta taskId sessionId initialStatus errorMessage s =
     emit (with_state (\<lambda>t. upd_first_recent
         (\<lambda>r. r\<lparr>rc_id := taskId, rc_sessionId := Some sessionId, rc_status := initialStatus\<rparr>)
         (t\<lparr>ts_currentTaskId := Some taskId, ts_currentSessionId := Some sessionId,
            ts_currentStatus := Some initialStatus, ts_currentError := errorMessage\<rparr>)) s)"

fun apply_event_state :: "mint \<Rightarrow> jstr \<Rightarrow> event_detail \<Rightarrow> task_state \<Rightarrow> task_state" where
  "apply_event_state m runId Accepted t =
     upd_first_recent (\<lambda>r. r\<lparr>rc_status := in_progress\<rparr>) (t\<lparr>ts_currentStatus := Some (js ''running'')\<rparr>)"
| "apply_event_state m runId (StageChanged _) t = t\<lparr>ts_currentStatus := Some (js ''running'')\<rparr>"
| "apply_event_state m runId (ResultCreated r) t =
     (let t1 = t\<lparr>ts_currentStatus := Some (js ''running'')\<rparr>
      in case extractArtifactFromResult (result_json r) of
           None \<Rightarrow> t1
         | Some a \<Rightarrow> appendArtifactMessage m runId a t1)"
| "apply_event_state m runId (Delta d) t =
     appendAssistantDelta m runId d (t\<lparr>ts_currentStatus := Some (js ''running'')\<rparr>)"
| "apply_event_state m runId CompletedEv t =
     upd_first_recent (\<lambda>r. r\<lparr>rc_status := finished\<rparr>) (t\<lparr>ts_currentStatus := Some (js ''completed'')\<rparr>)"
| "apply_event_state m runId (CancelledEv _) t =
     upd_first_recent (\<lambda>r. r\<lparr>rc_status := cancelled_label\<rparr>)
       (t\<lparr>ts_currentStatus := Some (js ''cancelled''), ts_currentError := None\<rparr>)"
| "apply_event_state m runId (FailedEv _ message) t =
     upd_first_recent (\<lambda>r. r\<lparr>rc_status := failed_label\<rparr>)
       (t\<lparr>ts_currentStatus := Some (js ''failed''), ts_currentError := Some message\<rparr>)"

definition applyStreamEvent :: "mint \<Rightarrow> task_event \<Rightarrow> task_store \<Rightarrow> task_store" where
  "applyStreamEvent m e s =
     (let b = ev_base e
      in emit (with_state (\<lambda>t. apply_event_state m (ev_runId b) (ev_detail e)
                (t\<lparr>ts_currentTaskId := Some (ev_taskId b), ts_currentSessionId := Some (ev_sessionId b),
                   ts_currentRunId := Some (ev_runId b)\<rparr>)) s))"

definition setTaskError :: "jstr \<Rightarrow> task_store \<Rightarrow> task_store" where
  "setTaskError message s =
     emit (with_state (\<lambda>t. upd_first_recent (\<lambda>r. r\<lparr>rc_status := failed_label\<rparr>)
       (t\<lparr>ts_currentStatus := Some (js ''failed''), ts_currentError := Some message\<rparr>)) s)"

definition beginRetry :: "task_store \<Rightarrow> task_store" where
  "beginRetry s =
     emit (with_state (\<lambda>t. t\<lparr>ts_currentStatus := Some (js ''queued''), ts_currentError := None\<rparr>) s)"

definition markCancelled :: "task_store \<Rightarrow> task_store" where
  "markCancelled s =
     emit (with_state (\<lambda>t. upd_first_recent (\<lambda>r. r\<lparr>rc_status := cancelled_label\<rparr>)
       (t\<lparr>ts_currentStatus := Some (js ''cancelled''), ts_currentError := None\<rparr>)) s)"

definition recoverActiveTask :: "jstr \<Rightarrow> jstr \<Rightarrow> jstr \<Rightarrow> jstr \<Rightarrow> task_store \<Rightarrow> task_store" where
  "recoverActiveTask i sessionId inputText status s =
     (if ts_currentTaskId (st_state s) = Some i then s
      else emit (with_state (\<lambda>t. t\<lparr>ts_currentTaskId := Some i, ts_currentSessionId := Some sessionId,
        ts_currentStatus := Some status, ts_currentError := None, ts_currentTitle := buildTitle inputText,
        ts_currentRunId := None, ts_lastSubmittedTaskText := Some inputText, ts_pendingAttachments := [],
        ts_messages := [UserMessage (js ''user-'' @ i) inputText None]\<rparr>) s))"

definition hydrateRecentConversations :: "recent_conversation list \<Rightarrow> task_store \<Rightarrow> task_store" where
  "hydrateRecentConversations items s = emit (with_state (\<lambda>t. t\<lparr>ts_recentConversations := items\<rparr>) s)"

definition appendRecentConversations :: "recent_conversation list \<Rightarrow> task_store \<Rightarrow> task_store" where
  "appendRecentConversations items s =
     emit (with_state (\<lambda>t. t\<lparr>ts_recentConversations := ts_recentConversations t @
       filter (\<lambda>i. rc_id i \<notin> rc_id ` set (ts_recentConversations t)) items\<rparr>) s)"

definition removeRecentConversation :: "jstr \<Rightarrow> task_store \<Rightarrow> task_store" where
  "removeRecentConversation taskId s =
     emit (with_state (\<lambda>t. t\<lparr>ts_recentConversations :=
       filter (\<lambda>i. rc_id i \<noteq> taskId) (ts_recentConversations t)\<rparr>) s)"

text \<open>The messages of one task of the history.\<close>

definition history_messages :: "detail_task \<Rightarrow> conversation_message list" where
  "history_messages d =
     UserMessage (js ''user-'' @ dt_taskId d) (dt_inputText d) None
     # (case dt_result d of
          Some r \<Rightarrow>
            (if tv_outputText r = [] then []
             else [AssistantMessage (js ''assistant-'' @ dt_taskId d) (tv_outputText r) (Some (dt_taskId d))])
            @ (case extractArtifactFromResult (tv_outputJson r) of
                 None \<Rightarrow> []
               | Some a \<Rightarrow> [ArtifactMessage (js ''artifact-'' @ dt_taskId d) a (Some (dt_taskId d))])
        | None \<Rightarrow> [])"

definition last_opt :: "'a list \<Rightarrow> 'a option" where
  "last_opt xs = (if xs = [] then None else Some (last xs))"

definition hydrateServerConversation :: "task_detail \<Rightarrow> task_store \<Rightarrow> task_store" where
  "hydrateServerConversation d s =
     (let latest = last_opt (td_tasks d)
      in emit (with_state (\<lambda>t. t
           \<lparr>ts_currentTaskId := (case td_currentTaskId d of Some i \<Rightarrow> Some i | None \<Rightarrow> map_option dt_taskId latest),
            ts_currentSessionId := Some (td_sessionId d),
            ts_currentStatus := Some (case latest of Some l \<Rightarrow> dt_status l | None \<Rightarrow> td_status d),
            ts_currentError := Option.bind latest dt_errorMessage,
            ts_currentTitle := td_title d, ts_currentRunId := None,
            ts_lastSubmittedTaskText := map_option dt_inputText latest, ts_pendingAttachments := [],
            ts_messages := concat (map history_messages (td_tasks d)),
            ts_resultVersions := td_versions d,
            ts_selectedVersionNo := map_option tv_versionNo (last_opt (td_versions d))\<rparr>) s))"

definition setResultVersions :: "result_version list \<Rightarrow> task_store \<Rightarrow> task_store" where
  "setResultVersions versions s =
     emit (with_state (\<lambda>t. t\<lparr>ts_resultVersions := versions,
       ts_selectedVersionNo := map_option tv_versionNo (last_opt versions)\<rparr>) s)"

definition selectResultVersion :: "nat \<Rightarrow> task_store \<Rightarrow> task_store" where
  "selectResultVersion n s =
     (if n \<notin> tv_versionNo ` set (ts_resultVersions (st_state s)) then s
      else emit (with_state (\<lambda>t. t\<lparr>ts_selectedVersionNo := Some n\<rparr>) s))"

definition reset_store :: "task_store \<Rightarrow> task_store" where
  "reset_store s = emit (with_state (\<lambda>_. initialState) s)"

section \<open>The store as a machine\<close>

datatype store_in =
    Subscribe nat
  | Unsubscribe nat
  | SetDraft jstr
  | BeginAttachment mint jstr jstr nat
  | CompleteAttachment jstr file_record
  | FailAttachment jstr jstr
  | RemoveAttachment jstr
  | Start mint jstr
  | FollowUp mint jstr
  | Resume mint recent_conversation
  | ExecutionMeta jstr jstr jstr "jstr option"
  | StreamEvent mint task_event
  | TaskError jstr
  | Retry
  | MarkCancelled
  | Recover jstr jstr jstr jstr
  | HydrateRecent "recent_conversation list"
  | AppendRecent "recent_conversation list"
  | RemoveRecent jstr
  | HydrateServer task_detail
  | SetVersions "result_version list"
  | SelectVersion nat
  | Reset

fun store_step :: "store_in \<Rightarrow> task_store \<Rightarrow> task_store" where
  "store_step (Subscribe k) s = subscribe_store k s"
| "store_step (Unsubscribe k) s = unsubscribe_store k s"
| "store_step (SetDraft x) s = setDraft x s"
| "store_step (BeginAttachment m f ty n) s = fst (beginPendingAttachment m f ty n s)"
| "store_step (CompleteAttachment i f) s = completePendingAttachment i f s"
| "store_step (FailAttachment i e) s = failPendingAttachment i e s"
| "store_step (RemoveAttachment i) s = removePendingAttachment i s"
| "store_step (Start m x) s = startConversation m x s"
| "store_step (FollowUp m x) s = appendFollowUp m x s"
| "store_step (Resume m i) s = resumeConversation m i s"
| "store_step (ExecutionMeta i sid st e) s = setExecutionMeta i sid st e s"
| "store_step (StreamEvent m e) s = applyStreamEvent m e s"
| "store_step (TaskError e) s = setTaskError e s"
| "store_step Retry s = beginRetry s"
| "store_step MarkCancelled s = markCancelled s"
| "store_step (Recover i sid x st) s = recoverActiveTask i sid x st s"
| "store_step (HydrateRecent is) s = hydrateRecentConversations is s"
| "store_step (AppendRecent is) s = appendRecentConversations is s"
| "store_step (RemoveRecent i) s = removeRecentConversation i s"
| "store_step (HydrateServer d) s = hydrateServerConversation d s"
| "store_step (SetVersions vs) s = setResultVersions vs s"
| "store_step (SelectVersion n) s = selectResultVersion n s"
| "store_step Reset s = reset_store s"

end
