(* ===== verification/TaskStoreRuns.thy ===== *)
theory TaskStoreRuns
  imports TaskStore
begin

text \<open>
  The app's store: its readers always see the current state, each change reaches every listener
  once, and the conversation it shows of a stream of events is their text, their files and
  the status of the last.
\<close>

section \<open>Readers and listeners\<close>

definition store_inv :: "task_store \<Rightarrow> bool" where
  "store_inv s \<longleftrightarrow>
     st_snapshot s = st_state s \<and> distinct (st_listeners s)
     \<and> (case ts_selectedVersionNo (st_state s) of
          None \<Rightarrow> True | Some n \<Rightarrow> n \<in> tv_versionNo ` set (ts_resultVersions (st_state s)))"

text \<open>A step either leaves the state, or ends with \<open>emit\<close>.\<close>

definition emits :: "task_store \<Rightarrow> task_store \<Rightarrow> bool" where
  "emits s s' \<longleftrightarrow> (\<exists>f. s' = emit (with_state f s))"

lemma emits_intro [intro]: "emits s (emit (with_state f s))"
  by (auto simp: emits_def)

lemmas store_ops [op_defs] = setDraft_def beginPendingAttachment_def completePendingAttachment_def
  failPendingAttachment_def removePendingAttachment_def startConversation_def appendFollowUp_def
  resumeConversation_def setExecutionMeta_def applyStreamEvent_def setTaskError_def beginRetry_def
  markCancelled_def recoverActiveTask_def hydrateRecentConversations_def appendRecentConversations_def
  removeRecentConversation_def hydrateServerConversation_def setResultVersions_def selectResultVersion_def
  reset_store_def

lemma store_step_cases:
  "emits s (store_step i s)
   \<or> st_state (store_step i s) = st_state s \<and> st_snapshot (store_step i s) = st_snapshot s
     \<and> st_calls (store_step i s) = st_calls s \<and> (distinct (st_listeners s) \<longrightarrow> distinct (st_listeners (store_step i s)))"
  by (cases i)
    (auto simp: store_ops Let_def subscribe_store_def unsubscribe_store_def split: option.split)

lemma selected_kept:
  "ts_selectedVersionNo (upsertRecent m p st t) = ts_selectedVersionNo t"
  "ts_resultVersions (upsertRecent m p st t) = ts_resultVersions t"
  "ts_selectedVersionNo (pushUserMessage m p t) = ts_selectedVersionNo t"
  "ts_resultVersions (pushUserMessage m p t) = ts_resultVersions t"
  "ts_selectedVersionNo (upd_first_recent g t) = ts_selectedVersionNo t"
  "ts_resultVersions (upd_first_recent g t) = ts_resultVersions t"
  "ts_selectedVersionNo (replacePendingAttachment c a t) = ts_selectedVersionNo t"
  "ts_resultVersions (replacePendingAttachment c a t) = ts_resultVersions t"
  "ts_selectedVersionNo (apply_event_state m r d t) = ts_selectedVersionNo t"
  "ts_resultVersions (apply_event_state m r d t) = ts_resultVersions t"
  by (simp_all add: upsertRecent_def pushUserMessage_def upd_first_recent_def replacePendingAttachment_def Let_def)
    (cases d; simp add: upd_first_recent_def appendAssistantDelta_def appendArtifactMessage_def Let_def
      split: option.split conversation_message.split)+

lemma selected_step:
  assumes "store_inv s"
  shows "case ts_selectedVersionNo (st_state (store_step i s)) of
      None \<Rightarrow> True | Some n \<Rightarrow> n \<in> tv_versionNo ` set (ts_resultVersions (st_state (store_step i s)))"
  using assms
  by (cases i)
    (auto simp: store_inv_def store_ops Let_def subscribe_store_def unsubscribe_store_def emit_def with_state_def
      selected_kept initialState_def last_opt_def split: option.split option.splits)

lemma store_inv_step: "store_inv s \<Longrightarrow> store_inv (store_step i s)"
  using store_step_cases [of s i] selected_step [of s i]
  by (auto simp: store_inv_def emits_def) (simp_all add: emit_def with_state_def)

interpretation store_machine: machine store_step store_inv
  by unfold_locales (rule store_inv_step)

lemma store_inv_new: "store_inv store_new"
  by (simp add: store_inv_def store_new_def initialState_def)

text \<open>
  whatever the app and the server do, the snapshot that readers get is the current state, a
  selected result version is one of those loaded, and every step that changes the state
  calls each listener exactly once, with the new snapshot.
\<close>

theorem store_readers_current:
  assumes "s = fold store_step is store_new" and "s' = store_step i s"
  shows "st_snapshot s' = st_state s'
    \<and> (\<forall>n. ts_selectedVersionNo (st_state s') = Some n \<longrightarrow> n \<in> tv_versionNo ` set (ts_resultVersions (st_state s')))
    \<and> distinct (st_listeners s)
    \<and> (st_state s' \<noteq> st_state s \<longrightarrow> st_calls s' = st_calls s @ map (\<lambda>k. (k, st_snapshot s')) (st_listeners s))"
proof -
  have inv: "store_inv s" unfolding assms(1) by (rule store_machine.inv_run [OF store_inv_new])
  then have "store_inv s'" unfolding assms(2) by (rule store_inv_step)
  moreover have "st_calls s' = st_calls s @ map (\<lambda>k. (k, st_snapshot s')) (st_listeners s)" if "st_state s' \<noteq> st_state s"
    using that store_step_cases [of s i] unfolding assms(2) by (auto simp: emits_def emit_def with_state_def)
  ultimately show ?thesis using inv by (auto simp: store_inv_def)
qed

theorem store_readers_current_witness:
  "st_calls (store_step (SetDraft (js ''a'')) (fold store_step [Subscribe 1] store_new))
     = [(1, st_snapshot (store_step (SetDraft (js ''a'')) (fold store_step [Subscribe 1] store_new)))]"
proof -
  let ?s = "fold store_step [Subscribe 1] store_new"
  have "st_state (store_step (SetDraft (js ''a'')) ?s) \<noteq> st_state ?s" "st_listeners ?s = [1]" "st_calls ?s = []"
    by (simp_all add: setDraft_def emit_def with_state_def store_new_def subscribe_store_def initialState_def task_state.defs)
  then show ?thesis using store_readers_current [where i = "SetDraft (js ''a'')", OF refl [of ?s] refl] by simp
qed

section \<open>What a stream of events shows\<close>

definition assistant_text :: "conversation_message list \<Rightarrow> jstr" where
  "assistant_text ms = concat (map (\<lambda>m. case m of AssistantMessage _ t _ \<Rightarrow> t | _ \<Rightarrow> []) ms)"

definition user_texts :: "conversation_message list \<Rightarrow> jstr list" where
  "user_texts ms = concat (map (\<lambda>m. case m of UserMessage _ t _ \<Rightarrow> [t] | _ \<Rightarrow> []) ms)"

definition shown_files :: "conversation_message list \<Rightarrow> json option set" where
  "shown_files ms = {jprop a (js ''downloadUrl'') |a. \<exists>i r. ArtifactMessage i a r \<in> set ms}"

fun event_text :: "event_detail \<Rightarrow> jstr" where
  "event_text (Delta d) = d"
| "event_text _ = []"

definition event_file :: "event_detail \<Rightarrow> json option" where
  "event_file d = (case d of ResultCreated r \<Rightarrow> extractArtifactFromResult (result_json r) | _ \<Rightarrow> None)"

fun status_after :: "event_detail \<Rightarrow> jstr" where
  "status_after CompletedEv = js ''completed''"
| "status_after (CancelledEv _) = js ''cancelled''"
| "status_after (FailedEv _ _) = js ''failed''"
| "status_after _ = js ''running''"

lemma message_lists [simp]:
  "assistant_text (xs @ ys) = assistant_text xs @ assistant_text ys"
  "user_texts (xs @ ys) = user_texts xs @ user_texts ys"
  "shown_files (xs @ ys) = shown_files xs \<union> shown_files ys"
  "assistant_text [] = []" "user_texts [] = []" "shown_files [] = {}"
  "assistant_text (UserMessage i t r # ms) = assistant_text ms"
  "assistant_text (AssistantMessage i t r # ms) = t @ assistant_text ms"
  "assistant_text (ArtifactMessage i a r # ms) = assistant_text ms"
  "user_texts (UserMessage i t r # ms) = t # user_texts ms"
  "user_texts (AssistantMessage i t r # ms) = user_texts ms"
  "user_texts (ArtifactMessage i a r # ms) = user_texts ms"
  "shown_files (UserMessage i t r # ms) = shown_files ms"
  "shown_files (AssistantMessage i t r # ms) = shown_files ms"
  "shown_files (ArtifactMessage i a r # ms) = insert (jprop a (js ''downloadUrl'')) (shown_files ms)"
  by (auto simp: assistant_text_def user_texts_def shown_files_def)

lemma last_message_split:
  "last_message t = Some m \<Longrightarrow> ts_messages t = butlast (ts_messages t) @ [m]"
  by (auto simp: last_message_def split: if_splits)

lemma delta_messages:
  "assistant_text (ts_messages (appendAssistantDelta m r d t)) = assistant_text (ts_messages t) @ d
   \<and> user_texts (ts_messages (appendAssistantDelta m r d t)) = user_texts (ts_messages t)
   \<and> shown_files (ts_messages (appendAssistantDelta m r d t)) = shown_files (ts_messages t)"
proof (cases "last_message t")
  case (Some msg)
  note s = last_message_split [OF Some]
  show ?thesis
  proof (cases msg)
    case (AssistantMessage i old r')
    define xs where "xs = butlast (ts_messages t)"
    have "ts_messages t = xs @ [AssistantMessage i old r']" using s AssistantMessage by (simp add: xs_def)
    then show ?thesis by (simp add: appendAssistantDelta_def Let_def last_message_def)
  qed (simp_all add: appendAssistantDelta_def Let_def Some)
qed (simp add: appendAssistantDelta_def Let_def)

lemma artifact_messages:
  "assistant_text (ts_messages (appendArtifactMessage m r a t)) = assistant_text (ts_messages t)
   \<and> user_texts (ts_messages (appendArtifactMessage m r a t)) = user_texts (ts_messages t)
   \<and> shown_files (ts_messages (appendArtifactMessage m r a t))
       = insert (jprop a (js ''downloadUrl'')) (shown_files (ts_messages t))"
proof (cases "last_message t")
  case (Some msg)
  show ?thesis
  proof (cases msg)
    case (ArtifactMessage i old r')
    then have "ArtifactMessage i old r' \<in> set (ts_messages t)"
      using last_message_split [OF Some] by (metis in_set_conv_decomp)
    then have "jprop old (js ''downloadUrl'') \<in> shown_files (ts_messages t)" by (auto simp: shown_files_def)
    then show ?thesis
      by (auto simp: appendArtifactMessage_def Let_def Some ArtifactMessage)
  qed (simp_all add: appendArtifactMessage_def Let_def Some)
qed (simp add: appendArtifactMessage_def Let_def)

lemma apply_event_shows:
  "assistant_text (ts_messages (apply_event_state m r d t)) = assistant_text (ts_messages t) @ event_text d
   \<and> user_texts (ts_messages (apply_event_state m r d t)) = user_texts (ts_messages t)
   \<and> shown_files (ts_messages (apply_event_state m r d t)) = shown_files (ts_messages t)
        \<union> (case event_file d of None \<Rightarrow> {} | Some a \<Rightarrow> {jprop a (js ''downloadUrl'')})
   \<and> ts_currentStatus (apply_event_state m r d t) = Some (status_after d)"
proof -
  have st: "ts_currentStatus (appendAssistantDelta m r x t) = ts_currentStatus t"
    "ts_currentStatus (appendArtifactMessage m r a t) = ts_currentStatus t" for x a t
    by (simp_all add: appendAssistantDelta_def appendArtifactMessage_def Let_def
        split: option.split conversation_message.split)
  show ?thesis
    by (cases d) (auto simp: delta_messages artifact_messages upd_first_recent_def st event_file_def Let_def
        split: option.split)
qed

definition apply_events :: "(mint \<times> task_event) list \<Rightarrow> task_store \<Rightarrow> task_store" where
  "apply_events es s = fold (\<lambda>(m, e). applyStreamEvent m e) es s"

lemma apply_events_snoc:
  "st_state (apply_events (es @ [(m, e)]) s) = apply_event_state m (ev_runId (ev_base e)) (ev_detail e)
     ((st_state (apply_events es s))\<lparr>ts_currentTaskId := Some (ev_taskId (ev_base e)),
        ts_currentSessionId := Some (ev_sessionId (ev_base e)), ts_currentRunId := Some (ev_runId (ev_base e))\<rparr>)"
  by (simp add: apply_events_def applyStreamEvent_def Let_def emit_def with_state_def)

lemma apply_events_texts:
  "assistant_text (ts_messages (st_state (apply_events es s))) =
      assistant_text (ts_messages (st_state s)) @ concat (map (event_text \<circ> ev_detail \<circ> snd) es)
   \<and> user_texts (ts_messages (st_state (apply_events es s))) = user_texts (ts_messages (st_state s))
   \<and> shown_files (ts_messages (st_state (apply_events es s))) = shown_files (ts_messages (st_state s))
       \<union> {jprop a (js ''downloadUrl'') |a. \<exists>(m, e) \<in> set es. event_file (ev_detail e) = Some a}"
proof (induction es rule: rev_induct)
  case (snoc x es)
  then show ?case
    using apply_event_shows by (cases x) (auto simp: apply_events_snoc split: option.splits)
qed (simp add: apply_events_def)

lemma apply_events_status:
  assumes "es \<noteq> []"
  shows "ts_currentStatus (st_state (apply_events es s)) = Some (status_after (ev_detail (snd (last es))))"
    "ts_currentTaskId (st_state (apply_events es s)) = Some (ev_taskId (ev_base (snd (last es))))"
proof -
  obtain fs m e where es: "es = fs @ [(m, e)]" using assms by (metis rev_exhaust surj_pair)
  have task: "ts_currentTaskId (apply_event_state m r d t) = ts_currentTaskId t" for r d t
    by (cases d) (simp_all add: upd_first_recent_def appendAssistantDelta_def appendArtifactMessage_def Let_def
        split: option.split conversation_message.split)
  show "ts_currentStatus (st_state (apply_events es s)) = Some (status_after (ev_detail (snd (last es))))"
    "ts_currentTaskId (st_state (apply_events es s)) = Some (ev_taskId (ev_base (snd (last es))))"
    by (simp_all add: es apply_events_snoc task apply_event_shows)
qed

text \<open>
  whatever events the store applies, what the assistant says in the conversation grows by
  exactly the text of their deltas in order, what the user said stays, the files shown are those
  of the events, each by its URL, beside the earlier ones, and the status is that of the last event.
\<close>

theorem store_shows_events:
  "assistant_text (ts_messages (st_state (apply_events es s))) =
      assistant_text (ts_messages (st_state s)) @ concat (map (event_text \<circ> ev_detail \<circ> snd) es)
   \<and> user_texts (ts_messages (st_state (apply_events es s))) = user_texts (ts_messages (st_state s))
   \<and> shown_files (ts_messages (st_state (apply_events es s))) = shown_files (ts_messages (st_state s))
       \<union> {jprop a (js ''downloadUrl'') |a. \<exists>(m, e) \<in> set es. event_file (ev_detail e) = Some a}
   \<and> (es \<noteq> [] \<longrightarrow>
        ts_currentStatus (st_state (apply_events es s)) = Some (status_after (ev_detail (snd (last es))))
        \<and> ts_currentTaskId (st_state (apply_events es s)) = Some (ev_taskId (ev_base (snd (last es)))))"
  using apply_events_texts apply_events_status by blast

definition sample_mint :: mint where
  "sample_mint = \<lparr>mt_now = 1, mt_suffix = (\<lambda>_. js ''f'')\<rparr>"

theorem store_shows_events_witness:
  "let e = (\<lambda>d. (sample_mint, \<lparr>ev_base = \<lparr>ev_taskId = js ''t'', ev_sessionId = js ''s'', ev_runId = js ''r'',
        ev_timestamp = []\<rparr>, ev_detail = d\<rparr>));
       s = apply_events [e (Delta (js ''a'')), e (Delta (js ''b'')), e CompletedEv]
         (startConversation sample_mint (js ''hi'') store_new)
   in assistant_text (ts_messages (st_state s)) = js ''ab''
      \<and> ts_currentStatus (st_state s) = Some (js ''completed'')"
proof -
  have "assistant_text (ts_messages (st_state (startConversation sample_mint (js ''hi'') store_new))) = []"
    by code_simp
  then show ?thesis by (simp add: store_shows_events Let_def js_append [symmetric])
qed

end
