(* ===== verification/MobileView.thy ===== *)
theory MobileView
  imports TaskStoreRuns ApiMachine
begin

text \<open>
  The API and the app together: what a user who follows a task sees is what the user finds when
  the task is opened again. The detail of the history goes over HTTP as JSON: times become
  ISO texts (\<open>stamp\<close>, an argument) and states their names.
\<close>

definition client_version :: "(nat \<Rightarrow> jstr) \<Rightarrow> client_result \<Rightarrow> result_version" where
  "client_version stamp r =
     \<lparr>tv_id = cr_id r, tv_taskId = cr_taskId r, tv_sessionId = cr_sessionId r, tv_versionNo = cr_versionNo r,
      tv_outputText = cr_outputText r, tv_outputJson = cr_outputJson r, tv_createdAt = stamp (cr_createdAt r)\<rparr>"

definition client_task :: "(nat \<Rightarrow> jstr) \<Rightarrow> history_task \<Rightarrow> detail_task" where
  "client_task stamp t =
     \<lparr>dt_taskId = ht_taskId t, dt_parentTaskId = ht_parentTaskId t, dt_inputText = ht_inputText t,
      dt_status = status_text (ht_status t), dt_errorMessage = ht_errorMessage t,
      dt_createdAt = stamp (ht_createdAt t), dt_result = map_option (client_version stamp) (ht_result t)\<rparr>"

definition client_detail :: "(nat \<Rightarrow> jstr) \<Rightarrow> history_detail \<Rightarrow> task_detail" where
  "client_detail stamp h =
     \<lparr>td_sessionId = hd_sessionId h, td_title = hd_title h, td_status = status_text (hd_status h),
      td_currentTaskId = hd_currentTaskId h, td_tasks = map (client_task stamp) (hd_tasks h),
      td_versions = map (client_version stamp) (hd_versions h)\<rparr>"

section \<open>The messages of a session\<close>

lemma messages_concat:
  "assistant_text (concat xss) = concat (map assistant_text xss)"
  "user_texts (concat xss) = concat (map user_texts xss)"
  by (induction xss) simp_all

text \<open>The text of a task's last result.\<close>

definition result_text :: "db \<Rightarrow> task \<Rightarrow> jstr" where
  "result_text d t =
     (case rev (sort_key r_versionNo (filter (\<lambda>r. r_taskId r = t_id t) (db_results d))) of
        [] \<Rightarrow> [] | r # _ \<Rightarrow> r_outputText r)"

lemma history_messages_text:
  "assistant_text (history_messages (client_task stamp (history_task_of y d t))) = result_text d t"
  "user_texts (history_messages (client_task stamp (history_task_of y d t))) = [t_inputText t]"
  by (simp_all add: history_messages_def client_task_def history_task_of_def client_version_def
      result_text_def toClientResult_def Let_def split: list.split option.split)

definition session_tasks :: "db \<Rightarrow> jstr \<Rightarrow> task list" where
  "session_tasks d sid = sort_key t_createdAt (filter (\<lambda>t. t_sessionId t = sid) (db_tasks d))"

lemma find_map_same: "(\<And>x. P (g x) = P x) \<Longrightarrow> find P (map g xs) = map_option g (find P xs)"
  by (induction xs) auto

lemma sort_key_map:
  assumes "\<And>x. k (g x) = k x"
  shows "sort_key k (map g xs) = map g (sort_key k xs)"
proof -
  have "insort_key k (g x) (map g ys) = map g (insort_key k x ys)" for x ys
    by (induction ys) (simp_all add: assms)
  then show ?thesis by (induction xs) simp_all
qed

lemma session_tasks_map:
  assumes "db_tasks d' = map g (db_tasks d)" "\<And>t. t_createdAt (g t) = t_createdAt t" "\<And>t. t_sessionId (g t) = t_sessionId t"
  shows "session_tasks d' sid = map g (session_tasks d sid)"
  by (simp add: session_tasks_def assms sort_key_map filter_map comp_def)

lemma getHistoryTask_detail:
  assumes "getHistoryTask y d uid i = Inr h" "find_owned_task d uid i = Some t"
  obtains s where "s \<in> set (db_sessions d)" "s_id s = t_sessionId t" "s_userId s = uid" "hd_sessionId h = t_sessionId t"
    "hd_currentTaskId h = s_currentTaskId s"
    "hd_tasks h = map (history_task_of y d) (session_tasks d (t_sessionId t))"
proof -
  obtain s where s: "find (\<lambda>s. s_id s = t_sessionId t \<and> s_userId s = uid) (db_sessions d) = Some s"
    using assms by (auto simp: getHistoryTask_def split: option.splits)
  then have "s \<in> set (db_sessions d)" "s_id s = t_sessionId t" "s_userId s = uid" by (auto simp: find_Some_iff)
  then show ?thesis using assms s by (intro that [of s]) (auto simp: getHistoryTask_def session_tasks_def)
qed

lemma client_task_fields:
  "dt_status (client_task stamp (history_task_of y d t)) = status_text (t_status t)"
  "dt_taskId (client_task stamp (history_task_of y d t)) = t_id t"
  by (simp_all add: client_task_def history_task_of_def)

lemma client_detail_fields:
  "td_tasks (client_detail stamp h) = map (client_task stamp) (hd_tasks h)"
  "td_currentTaskId (client_detail stamp h) = hd_currentTaskId h"
  "td_sessionId (client_detail stamp h) = hd_sessionId h"
  by (simp_all add: client_detail_def)

lemma hydrated_view:
  fixes stamp s
  assumes "hd_tasks h = map (history_task_of y d) ts"
  defines "v \<equiv> st_state (hydrateServerConversation (client_detail stamp h) s)"
  shows "assistant_text (ts_messages v) = concat (map (result_text d) ts)"
    "user_texts (ts_messages v) = map t_inputText ts"
    "ts \<noteq> [] \<Longrightarrow> ts_currentStatus v = Some (status_text (t_status (last ts)))"
    "hd_currentTaskId h = Some i \<Longrightarrow> ts_currentTaskId v = Some i"
  unfolding v_def hydrateServerConversation_def emit_def with_state_def Let_def
  by (simp_all add: client_detail_fields assms(1) messages_concat comp_def history_messages_text last_opt_def
      last_map client_task_fields concat_map_singleton)

lemma hydrate_same:
  "event_text (ev_detail (hydrateStoredEvent x d e)) = delta_text (ev_detail e)"
  "ev_base (hydrateStoredEvent x d e) = ev_base e"
  "ev_detail e = CompletedEv \<Longrightarrow> ev_detail (hydrateStoredEvent x d e) = CompletedEv"
  by (cases "ev_detail e"; simp add: hydrateStoredEvent_def split: option.split)+

lemma listed_detail:
  assumes "db_ok (x_vurl x) d" "assertTaskOwnership d uid i = Inr ()" "listTaskEvents x d uid i 0 = Inr evs"
  shows "concat (map (event_text \<circ> ev_detail \<circ> snd) evs) = log_text (task_log (x_vurl x) d i)"
    "task_log (x_vurl x) d i = ds @ [Some CompletedEv] \<Longrightarrow>
       evs \<noteq> [] \<and> ev_detail (snd (last evs)) = CompletedEv \<and> ev_taskId (ev_base (snd (last evs))) = i"
proof -
  let ?rows = "filter (\<lambda>r. te_taskId r = i) (db_events d)"
  have evs: "evs = map (listed_row x d) ?rows"
    using listTaskEvents_rows [OF assms(1,2), of 0] event_table.replay_all [OF assms(1), of i] assms(3) by simp
  have row: "\<exists>e. parse_task_event (x_vurl x) (te_payload r) = Some e \<and> ev_taskId (ev_base e) = i"
    if "r \<in> set ?rows" for r
    using db_okD(2) [OF assms(1)] that
    by (auto simp: events_ok_def list_all_iff row_ok_def split: option.splits)
  have "event_text (ev_detail (snd (listed_row x d r)))
      = (case row_detail (x_vurl x) r of Some dt \<Rightarrow> delta_text dt | None \<Rightarrow> [])" if "r \<in> set ?rows" for r
    using row [OF that] by (auto simp: listed_row_def row_detail_def hydrate_same)
  then show "concat (map (event_text \<circ> ev_detail \<circ> snd) evs) = log_text (task_log (x_vurl x) d i)"
    by (auto simp: evs log_text_def task_log_def comp_def intro!: arg_cong [where f = concat])
  assume log: "task_log (x_vurl x) d i = ds @ [Some CompletedEv]"
  then have "?rows \<noteq> []" by (auto simp: task_log_def)
  moreover from this log have "row_detail (x_vurl x) (last ?rows) = Some CompletedEv"
    by (simp add: task_log_def) (metis last_map last_snoc)
  ultimately show "evs \<noteq> [] \<and> ev_detail (snd (last evs)) = CompletedEv \<and> ev_taskId (ev_base (snd (last evs))) = i"
    using row [OF last_in_set]
    by (auto simp: evs last_map listed_row_def row_detail_def hydrate_same)
qed

text \<open>The session of a completed task, before and after.\<close>

definition completed_task :: "nat \<Rightarrow> jstr \<Rightarrow> task \<Rightarrow> task" where
  "completed_task now i u =
     (if t_id u = i then u\<lparr>t_status := Completed, t_completedAt := Some now, t_errorCode := None,
        t_errorMessage := None, t_updatedAt := now\<rparr> else u)"

lemma completed_task_fields [simp]:
  "t_id (completed_task now i u) = t_id u" "t_sessionId (completed_task now i u) = t_sessionId u"
  "t_userId (completed_task now i u) = t_userId u" "t_createdAt (completed_task now i u) = t_createdAt u"
  "t_inputText (completed_task now i u) = t_inputText u"
  by (simp_all add: completed_task_def)

lemma completed_session:
  assumes "distinct (map t_id (db_tasks d))" "t \<in> set (db_tasks d)"
    and "db_tasks d' = map (completed_task now (t_id t)) (db_tasks d)"
    and "db_results d' = db_results d @ [r]" "r_taskId r = t_id t"
    and "\<forall>r \<in> set (db_results d). r_taskId r \<noteq> t_id t"
    and "last (session_tasks d (t_sessionId t)) = t"
  shows "concat (map (result_text d') (session_tasks d' (t_sessionId t)))
      = concat (map (result_text d) (session_tasks d (t_sessionId t))) @ r_outputText r"
    "map t_inputText (session_tasks d' (t_sessionId t)) = map t_inputText (session_tasks d (t_sessionId t))"
    "session_tasks d' (t_sessionId t) \<noteq> []"
    "t_status (last (session_tasks d' (t_sessionId t))) = Completed"
proof -
  let ?ts = "session_tasks d (t_sessionId t)" and ?g = "completed_task now (t_id t)"
  have ts': "session_tasks d' (t_sessionId t) = map ?g ?ts"
    by (rule session_tasks_map [OF assms(3)]) simp_all
  have in_ts: "set ?ts = {u \<in> set (db_tasks d). t_sessionId u = t_sessionId t}" by (auto simp: session_tasks_def)
  have ne: "?ts \<noteq> []" using assms(2) in_ts by force
  define us where "us = butlast ?ts"
  have split: "?ts = us @ [t]" using ne assms(7) by (metis us_def append_butlast_last_id)
  have dist: "distinct ?ts" using assms(1) by (simp add: session_tasks_def distinct_map)
  have inj: "inj_on t_id (set ?ts)"
    by (rule inj_on_subset [of _ "set (db_tasks d)"]) (use assms(1) in_ts in \<open>auto simp: distinct_map\<close>)
  have others: "t_id u \<noteq> t_id t" if "u \<in> set us" for u
    using that inj dist unfolding split by (auto simp: image_iff)
  have "result_text d' (?g u) = result_text d u" if "u \<in> set us" for u
    using others [OF that] by (simp add: result_text_def assms(4,5))
  then have "map (result_text d') (map ?g us) = map (result_text d) us" by simp
  moreover have "result_text d t = []" "result_text d' (?g t) = r_outputText r"
    using assms(4-6) by (simp_all add: result_text_def filter_False)
  ultimately show "concat (map (result_text d') (session_tasks d' (t_sessionId t)))
      = concat (map (result_text d) ?ts) @ r_outputText r"
    unfolding ts' split by (simp add: comp_def cong: map_cong)
  show "map t_inputText (session_tasks d' (t_sessionId t)) = map t_inputText ?ts"
    "session_tasks d' (t_sessionId t) \<noteq> []"
    "t_status (last (session_tasks d' (t_sessionId t))) = Completed"
    by (simp_all add: ts' split comp_def) (simp add: completed_task_def)
qed

lemma found_owned: "find_owned_task d uid i = Some t \<Longrightarrow> assertTaskOwnership d uid i = Inr ()"
proof -
  have "find P xs = Some y \<Longrightarrow> filter P xs \<noteq> []" for P and xs :: "'b list" and y
    by (induction xs) (auto split: if_splits)
  then show "find_owned_task d uid i = Some t \<Longrightarrow> assertTaskOwnership d uid i = Inr ()"
    by (simp add: find_owned_task_def assertTaskOwnership_def)
qed

text \<open>Following the listed events of a completed task.\<close>

lemma followed_view:
  assumes "db_ok (x_vurl y) d" "assertTaskOwnership d uid i = Inr ()" "listTaskEvents y d uid i 0 = Inr evs"
    and "task_log (x_vurl y) d i = ds @ [Some CompletedEv]" "length ms = length evs"
  defines "v \<equiv> (\<lambda>s. st_state (apply_events (zip ms (map snd evs)) s))"
  shows "assistant_text (ts_messages (v s)) = assistant_text (ts_messages (st_state s)) @ log_text ds"
    "user_texts (ts_messages (v s)) = user_texts (ts_messages (st_state s))"
    "ts_currentStatus (v s) = Some (js ''completed'')" "ts_currentTaskId (v s) = Some i"
proof -
  have z: "map snd (zip ms (map snd evs)) = map snd evs" using assms(5) by simp
  have "concat (map (event_text \<circ> ev_detail \<circ> snd) (zip ms (map snd evs))) = log_text (ds @ [Some CompletedEv])"
    using listed_detail(1) [OF assms(1-3)] z unfolding assms(4) by (metis map_map)
  then have said: "concat (map (event_text \<circ> ev_detail \<circ> snd) (zip ms (map snd evs))) = log_text ds"
    by (simp add: log_text_append) (simp add: log_text_def)
  note last = listed_detail(2) [OF assms(1-4)]
  have ne: "zip ms (map snd evs) \<noteq> []" using last assms(5) by (cases ms; cases evs) auto
  have "snd (last (zip ms (map snd evs))) = snd (last evs)"
    using z ne last by (metis last_map)
  then show "assistant_text (ts_messages (v s)) = assistant_text (ts_messages (st_state s)) @ log_text ds"
    "user_texts (ts_messages (v s)) = user_texts (ts_messages (st_state s))"
    "ts_currentStatus (v s) = Some (js ''completed'')" "ts_currentTaskId (v s) = Some i"
    using last by (simp_all add: v_def apply_events_texts apply_events_status [OF ne] said)
qed



end
