(* ===== verification/Auth.thy ===== *)
theory Auth
  imports ApiCommon
begin

text \<open>
  Accounts: \<^verbatim>\<open>apps/mobile-api/src/auth/auth.service.ts\<close> and its guard, on \<^verbatim>\<open>packages/auth\<close>. The four
  tables are the record \<open>auth_db\<close>; scrypt, base64url, JSON web tokens and SHA-256 are the functions
  of \<open>auth_lib\<close>; the times, random bytes and ids of one call are the record \<open>auth_call\<close>. An operation
  that awaits the database between a read and a write is two steps, \<open>login_read\<close> and \<open>login_write\<close>,
  \<open>refresh_read\<close> and \<open>refresh_claim\<close>, so that calls can interleave there.
\<close>

section \<open>Rows, libraries and calls\<close>

record auth_user =
  us_id :: jstr
  us_email :: "jstr option"
  us_nickname :: jstr

record credential =
  pc_userId :: jstr
  pc_passwordHash :: jstr
  pc_passwordSalt :: jstr
  pc_failedAttempts :: nat
  pc_lockedUntil :: "nat option"

record refresh_row =
  rt_id :: jstr
  rt_userId :: jstr
  rt_tokenHash :: jstr
  rt_expiresAt :: nat
  rt_revokedAt :: "nat option"

record auth_db =
  au_users :: "auth_user list"
  au_credentials :: "credential list"
  au_settings :: "jstr list"
  au_refreshTokens :: "refresh_row list"

definition auth_empty :: auth_db where
  "auth_empty = \<lparr>au_users = [], au_credentials = [], au_settings = [], au_refreshTokens = []\<rparr>"

text \<open>\<open>al_sign\<close> takes the payload, the secret, the time and the lifetime in seconds.\<close>

record auth_lib =
  al_env :: env
  al_scrypt :: "jstr \<Rightarrow> jstr \<Rightarrow> nat \<Rightarrow> nat list"
  al_to64 :: "nat list \<Rightarrow> jstr"
  al_of64 :: "jstr \<Rightarrow> nat list"
  al_sign :: "json \<Rightarrow> jstr \<Rightarrow> nat \<Rightarrow> nat \<Rightarrow> jstr"
  al_verify :: "jstr \<Rightarrow> jstr \<Rightarrow> nat \<Rightarrow> json option"
  al_sha256 :: "jstr \<Rightarrow> jstr"

text \<open>\<open>ac_now\<close> is the time of the first read, \<open>ac_later\<close> the time of the writes.\<close>

record auth_call =
  ac_now :: nat
  ac_later :: nat
  ac_salt :: "nat list"
  ac_nonce :: jstr
  ac_userId :: jstr
  ac_rowId :: jstr

definition unique_violation :: exn where
  "unique_violation = JsError (Some (js ''P2002'')) (js ''Unique constraint failed'')"

section \<open>Passwords and tokens\<close>

definition env_value :: "env \<Rightarrow> string \<Rightarrow> jstr" where
  "env_value env k = (case env k of Some v \<Rightarrow> js_trim v | None \<Rightarrow> [])"

definition resolvePasswordPepper :: "env \<Rightarrow> exn + jstr" where
  "resolvePasswordPepper env =
     (if env_value env ''PASSWORD_PEPPER'' \<noteq> [] then Inr (env_value env ''PASSWORD_PEPPER'')
      else if env ''NODE_ENV'' = Some (js ''production'')
      then Inl (JsError None (js ''PASSWORD_PEPPER is required in production''))
      else Inr (js ''clawwork-local-password-pepper''))"

definition hashPassword :: "auth_lib \<Rightarrow> auth_call \<Rightarrow> jstr \<Rightarrow> exn + jstr \<times> jstr" where
  "hashPassword l c password =
     (case resolvePasswordPepper (al_env l) of
        Inl e \<Rightarrow> Inl e
      | Inr pepper \<Rightarrow>
          let salt = al_to64 l (ac_salt c)
          in Inr (al_to64 l (al_scrypt l (password @ pepper) salt 64), salt))"

text \<open>\<^verbatim>\<open>timingSafeEqual\<close> refuses buffers of different lengths.\<close>

definition verifyPassword :: "auth_lib \<Rightarrow> jstr \<Rightarrow> jstr \<Rightarrow> jstr \<Rightarrow> exn + bool" where
  "verifyPassword l password passwordHash passwordSalt =
     (case resolvePasswordPepper (al_env l) of
        Inl e \<Rightarrow> Inl e
      | Inr pepper \<Rightarrow>
          let expected = al_of64 l passwordHash;
              actual = al_scrypt l (password @ pepper) passwordSalt (length expected)
          in if expected = [] then Inr False
             else if length actual \<noteq> length expected
             then Inl (JsError (Some (js ''ERR_CRYPTO_TIMING_SAFE_EQUAL_LENGTH''))
                        (js ''Input buffers must have the same byte length''))
             else Inr (actual = expected))"

definition resolveTokenSecrets :: "env \<Rightarrow> exn + jstr \<times> jstr" where
  "resolveTokenSecrets env =
     (let a = env_value env ''JWT_ACCESS_SECRET''; r = env_value env ''JWT_REFRESH_SECRET''
      in if a \<noteq> [] \<and> r \<noteq> [] then Inr (a, r)
         else if env ''NODE_ENV'' = Some (js ''production'')
         then Inl (JsError None (js ''JWT_ACCESS_SECRET and JWT_REFRESH_SECRET are required in production''))
         else Inr (js ''clawwork-local-access-secret'', js ''clawwork-local-refresh-secret''))"

definition issueTokens :: "auth_lib \<Rightarrow> auth_call \<Rightarrow> jstr \<Rightarrow> jstr option \<Rightarrow> exn + jstr \<times> jstr" where
  "issueTokens l c sub email =
     (case resolveTokenSecrets (al_env l) of
        Inl e \<Rightarrow> Inl e
      | Inr (a, r) \<Rightarrow>
          Inr (al_sign l (JObj ((js ''sub'', JStr sub)
                 # (case email of Some m \<Rightarrow> [(js ''email'', JStr m)] | None \<Rightarrow> []))) a (ac_later c) (15 * 60),
               al_sign l (JObj [(js ''sub'', JStr sub), (js ''nonce'', JStr (ac_nonce c))]) r
                 (ac_later c) (30 * 24 * 60 * 60)))"

text \<open>A failure to find the secrets is caught with the failures of the verification.\<close>

definition verifyAccessToken :: "auth_lib \<Rightarrow> jstr \<Rightarrow> nat \<Rightarrow> json option" where
  "verifyAccessToken l token now =
     (case resolveTokenSecrets (al_env l) of Inl e \<Rightarrow> None | Inr (a, r) \<Rightarrow> al_verify l token a now)"

definition verifyRefreshToken :: "auth_lib \<Rightarrow> jstr \<Rightarrow> nat \<Rightarrow> json option" where
  "verifyRefreshToken l token now =
     (case resolveTokenSecrets (al_env l) of Inl e \<Rightarrow> None | Inr (a, r) \<Rightarrow> al_verify l token r now)"

definition hashRefreshToken :: "auth_lib \<Rightarrow> jstr \<Rightarrow> jstr" where
  "hashRefreshToken l token = al_sha256 l token"

section \<open>Sessions\<close>

record auth_session =
  so_accessToken :: jstr
  so_refreshToken :: jstr
  so_user :: auth_user

definition refresh_lifetime_ms :: nat where
  "refresh_lifetime_ms = 30 * 24 * 60 * 60 * 1000"

definition createSession :: "auth_lib \<Rightarrow> auth_call \<Rightarrow> auth_user \<Rightarrow> auth_db \<Rightarrow> auth_db \<times> (exn + auth_session)" where
  "createSession l c u d =
     (case issueTokens l c (us_id u)
             (case us_email u of Some m \<Rightarrow> if m = [] then None else Some m | None \<Rightarrow> None) of
        Inl e \<Rightarrow> (d, Inl e)
      | Inr (access, refresh) \<Rightarrow>
          let h = hashRefreshToken l refresh
          in if list_ex (\<lambda>r. rt_id r = ac_rowId c \<or> rt_tokenHash r = h) (au_refreshTokens d)
             then (d, Inl unique_violation)
             else (d\<lparr>au_refreshTokens := au_refreshTokens d @
                     [\<lparr>rt_id = ac_rowId c, rt_userId = us_id u, rt_tokenHash = h,
                       rt_expiresAt = ac_later c + refresh_lifetime_ms, rt_revokedAt = None\<rparr>]\<rparr>,
                   Inr \<lparr>so_accessToken = access, so_refreshToken = refresh, so_user = u\<rparr>))"

definition normal_email :: "jstr \<Rightarrow> jstr" where
  "normal_email e = js_lower (js_trim e)"

definition find_email :: "auth_db \<Rightarrow> jstr \<Rightarrow> auth_user option" where
  "find_email d m = find (\<lambda>u. us_email u = Some m) (au_users d)"

definition find_user :: "auth_db \<Rightarrow> jstr \<Rightarrow> auth_user option" where
  "find_user d i = find (\<lambda>u. us_id u = i) (au_users d)"

definition find_credential :: "auth_db \<Rightarrow> jstr \<Rightarrow> credential option" where
  "find_credential d i = find (\<lambda>p. pc_userId p = i) (au_credentials d)"

definition create_user :: "auth_user \<Rightarrow> auth_db \<Rightarrow> exn + auth_db" where
  "create_user u d =
     (if list_ex (\<lambda>v. us_id v = us_id u \<or> us_email u \<noteq> None \<and> us_email v = us_email u) (au_users d)
      then Inl unique_violation
      else Inr (d\<lparr>au_users := au_users d @ [u]\<rparr>))"

text \<open>
  The session is returned without \<^verbatim>\<open>await\<close>, so the \<^verbatim>\<open>catch\<close> sees only the failures of the
  transaction.
\<close>

definition register ::
  "auth_lib \<Rightarrow> auth_call \<Rightarrow> jstr \<Rightarrow> jstr \<Rightarrow> jstr \<Rightarrow> auth_db \<Rightarrow> auth_db \<times> (exn + auth_session)" where
  "register l c email nickname password d =
     (case hashPassword l c password of
        Inl e \<Rightarrow> (d, Inl e)
      | Inr (h, salt) \<Rightarrow>
          let u = \<lparr>us_id = ac_userId c, us_email = Some (normal_email email), us_nickname = js_trim nickname\<rparr>
          in case create_user u d of
               Inl e \<Rightarrow> (d, Inl (Conflict (js ''email is already registered'')))
             | Inr d1 \<Rightarrow>
                 if find_credential d1 (us_id u) \<noteq> None \<or> us_id u \<in> set (au_settings d1)
                 then (d, Inl (Conflict (js ''email is already registered'')))
                 else createSession l c u
                   (d1\<lparr>au_credentials := au_credentials d1 @
                        [\<lparr>pc_userId = us_id u, pc_passwordHash = h, pc_passwordSalt = salt,
                          pc_failedAttempts = 0, pc_lockedUntil = None\<rparr>],
                      au_settings := au_settings d1 @ [us_id u]\<rparr>))"

section \<open>Login\<close>

definition bad_login :: exn where
  "bad_login = Unauthorized (js ''email or password is incorrect'')"

definition login_read :: "nat \<Rightarrow> jstr \<Rightarrow> auth_db \<Rightarrow> exn + auth_user \<times> credential" where
  "login_read now email d =
     (case find_email d (normal_email email) of
        None \<Rightarrow> Inl bad_login
      | Some u \<Rightarrow>
          (case find_credential d (us_id u) of
             None \<Rightarrow> Inl bad_login
           | Some p \<Rightarrow>
               if (case pc_lockedUntil p of Some n \<Rightarrow> n > now | None \<Rightarrow> False) then Inl bad_login
               else Inr (u, p)))"

definition update_credential :: "jstr \<Rightarrow> nat \<Rightarrow> nat option \<Rightarrow> auth_db \<Rightarrow> exn + auth_db" where
  "update_credential uid failed locked d =
     (if find_credential d uid = None then Inl (JsError (Some (js ''P2025'')) (js ''Record to update not found''))
      else Inr (d\<lparr>au_credentials := map (\<lambda>p. if pc_userId p = uid
                     then p\<lparr>pc_failedAttempts := failed, pc_lockedUntil := locked\<rparr> else p)
                   (au_credentials d)\<rparr>))"

definition login_write ::
  "auth_lib \<Rightarrow> auth_call \<Rightarrow> jstr \<Rightarrow> auth_user \<Rightarrow> credential \<Rightarrow> auth_db \<Rightarrow> auth_db \<times> (exn + auth_session)" where
  "login_write l c password u p d =
     (case verifyPassword l password (pc_passwordHash p) (pc_passwordSalt p) of
        Inl e \<Rightarrow> (d, Inl e)
      | Inr False \<Rightarrow>
          let failedAttempts = pc_failedAttempts p + 1
          in (case update_credential (us_id u) failedAttempts
                     (if failedAttempts \<ge> 5 then Some (ac_later c + 15 * 60 * 1000) else None) d of
                Inl e \<Rightarrow> (d, Inl e)
              | Inr d1 \<Rightarrow> (d1, Inl bad_login))
      | Inr True \<Rightarrow>
          (case update_credential (us_id u) 0 None d of
             Inl e \<Rightarrow> (d, Inl e)
           | Inr d1 \<Rightarrow> createSession l c u d1))"

text \<open>A login that nothing interleaves with.\<close>

definition login ::
  "auth_lib \<Rightarrow> auth_call \<Rightarrow> jstr \<Rightarrow> jstr \<Rightarrow> auth_db \<Rightarrow> auth_db \<times> (exn + auth_session)" where
  "login l c email password d =
     (case login_read (ac_now c) email d of
        Inl e \<Rightarrow> (d, Inl e)
      | Inr (u, p) \<Rightarrow> login_write l c password u p d)"

definition devLogin ::
  "auth_lib \<Rightarrow> auth_call \<Rightarrow> jstr option \<Rightarrow> jstr \<Rightarrow> auth_db \<Rightarrow> auth_db \<times> (exn + auth_session)" where
  "devLogin l c email0 nickname0 d =
     (if al_env l ''NODE_ENV'' = Some (js ''production'')
      then (d, Inl (Forbidden (js ''development login is disabled'')))
      else
        let email = (case email0 of Some e \<Rightarrow> normal_email e | None \<Rightarrow> []);
            nickname = js_trim nickname0;
            new = \<lparr>us_id = ac_userId c, us_email = (if email = [] then None else Some email), us_nickname = nickname\<rparr>;
            existing = (if email \<noteq> [] then find_email d email
                        else find (\<lambda>u. us_email u = None \<and> us_nickname u = nickname) (au_users d));
            r = (case existing of
                   Some u \<Rightarrow>
                     let v = (if email \<noteq> [] then u\<lparr>us_nickname := nickname\<rparr> else u)
                     in Inr (d\<lparr>au_users := map (\<lambda>w. if us_id w = us_id u then v else w) (au_users d)\<rparr>, v)
                 | None \<Rightarrow> (case create_user new d of Inl e \<Rightarrow> Inl e | Inr d1 \<Rightarrow> Inr (d1, new)))
        in case r of
             Inl e \<Rightarrow> (d, Inl e)
           | Inr (d1, u) \<Rightarrow>
               createSession l c u
                 (d1\<lparr>au_settings := (if us_id u \<in> set (au_settings d1) then au_settings d1
                                     else au_settings d1 @ [us_id u])\<rparr>))"

section \<open>Refresh, logout, authentication\<close>

definition bad_refresh :: exn where
  "bad_refresh = Unauthorized (js ''refresh token is invalid or expired'')"

definition refresh_read :: "auth_lib \<Rightarrow> nat \<Rightarrow> jstr \<Rightarrow> auth_db \<Rightarrow> exn + refresh_row \<times> auth_user" where
  "refresh_read l now token d =
     (case verifyRefreshToken l token now of
        None \<Rightarrow> Inl bad_refresh
      | Some payload \<Rightarrow>
          (case find (\<lambda>r. rt_tokenHash r = hashRefreshToken l token) (au_refreshTokens d) of
             None \<Rightarrow> Inl bad_refresh
           | Some r \<Rightarrow>
               (case find_user d (rt_userId r) of
                  None \<Rightarrow> Inl (JsError None (js ''Inconsistent query result''))
                | Some u \<Rightarrow>
                    if Some (rt_userId r) \<noteq> prop_str payload (js ''sub'') \<or> rt_revokedAt r \<noteq> None
                       \<or> rt_expiresAt r \<le> now
                    then Inl bad_refresh else Inr (r, u))))"

definition refresh_claim ::
  "auth_lib \<Rightarrow> auth_call \<Rightarrow> refresh_row \<Rightarrow> auth_user \<Rightarrow> auth_db \<Rightarrow> auth_db \<times> (exn + auth_session)" where
  "refresh_claim l c row u d =
     (let open_row = (\<lambda>r. rt_id r = rt_id row \<and> rt_revokedAt r = None \<and> rt_expiresAt r > ac_later c);
          count = length (filter open_row (au_refreshTokens d));
          d1 = d\<lparr>au_refreshTokens := map (\<lambda>r. if open_row r then r\<lparr>rt_revokedAt := Some (ac_later c)\<rparr> else r)
                   (au_refreshTokens d)\<rparr>
      in if count \<noteq> 1 then (d1, Inl bad_refresh) else createSession l c u d1)"

definition refresh :: "auth_lib \<Rightarrow> auth_call \<Rightarrow> jstr \<Rightarrow> auth_db \<Rightarrow> auth_db \<times> (exn + auth_session)" where
  "refresh l c token d =
     (case refresh_read l (ac_now c) token d of
        Inl e \<Rightarrow> (d, Inl e)
      | Inr (r, u) \<Rightarrow> refresh_claim l c r u d)"

definition logout :: "auth_lib \<Rightarrow> nat \<Rightarrow> jstr \<Rightarrow> jstr \<Rightarrow> auth_db \<Rightarrow> auth_db" where
  "logout l now userId token d =
     d\<lparr>au_refreshTokens := map (\<lambda>r. if rt_userId r = userId \<and> rt_tokenHash r = hashRefreshToken l token
                                       \<and> rt_revokedAt r = None
                                    then r\<lparr>rt_revokedAt := Some now\<rparr> else r) (au_refreshTokens d)\<rparr>"

definition authenticate :: "auth_lib \<Rightarrow> nat \<Rightarrow> jstr \<Rightarrow> auth_db \<Rightarrow> exn + auth_user" where
  "authenticate l now token d =
     (case verifyAccessToken l token now of
        None \<Rightarrow> Inl (Unauthorized (js ''access token is invalid or expired''))
      | Some payload \<Rightarrow>
          (case prop_str payload (js ''sub'') of
             None \<Rightarrow> Inl (JsError None (js ''PrismaClientValidationError''))
           | Some i \<Rightarrow>
               (case find_user d i of
                  None \<Rightarrow> Inl (Unauthorized (js ''user no longer exists''))
                | Some u \<Rightarrow> Inr u)))"

text \<open>The guard: \<open>Inr None\<close> lets a public route pass, \<open>Inr (Some u)\<close> sets the user of the request.\<close>

definition auth_guard ::
  "auth_lib \<Rightarrow> nat \<Rightarrow> bool \<Rightarrow> jstr option \<Rightarrow> auth_db \<Rightarrow> exn + auth_user option" where
  "auth_guard l now isPublic header d =
     (if isPublic then Inr None
      else
        let parts = js_split 32 (case header of Some h \<Rightarrow> h | None \<Rightarrow> [])
        in if js_lower (hd parts) \<noteq> js ''bearer'' \<or> length parts < 2 \<or> parts ! 1 = []
           then Inl (Unauthorized (js ''bearer access token is required''))
           else map_sum id Some (authenticate l now (parts ! 1) d))"

section \<open>Interleaved calls\<close>

text \<open>
  The calls that wait between their read and their write, and what the claims gave out: the hash of
  the token, and its owner.
\<close>

record auth_sys =
  as_db :: auth_db
  as_logins :: "(jstr \<times> auth_user \<times> credential) list"
  as_refreshes :: "(jstr \<times> refresh_row \<times> auth_user) list"
  as_exchanged :: "(jstr \<times> jstr) list"

definition auth_start :: auth_sys where
  "auth_start = \<lparr>as_db = auth_empty, as_logins = [], as_refreshes = [], as_exchanged = []\<rparr>"

datatype auth_in =
    Register auth_call jstr jstr jstr
  | LoginRead nat jstr jstr
  | LoginWrite auth_call nat
  | DevLogin auth_call "jstr option" jstr
  | RefreshRead nat jstr
  | RefreshClaim auth_call nat
  | Logout nat jstr jstr

definition drop_at :: "nat \<Rightarrow> 'a list \<Rightarrow> 'a list" where
  "drop_at n xs = take n xs @ drop (Suc n) xs"

definition claims :: "auth_call \<Rightarrow> refresh_row \<Rightarrow> auth_db \<Rightarrow> bool" where
  "claims c row d \<longleftrightarrow> length (filter (\<lambda>r. rt_id r = rt_id row \<and> rt_revokedAt r = None \<and> rt_expiresAt r > ac_later c)
     (au_refreshTokens d)) = 1"

fun auth_step :: "auth_lib \<Rightarrow> auth_in \<Rightarrow> auth_sys \<Rightarrow> auth_sys" where
  "auth_step l (Register c m n pw) s = s\<lparr>as_db := fst (register l c m n pw (as_db s))\<rparr>"
| "auth_step l (LoginRead now m pw) s =
     (case login_read now m (as_db s) of
        Inl _ \<Rightarrow> s
      | Inr (u, p) \<Rightarrow> s\<lparr>as_logins := as_logins s @ [(pw, u, p)]\<rparr>)"
| "auth_step l (LoginWrite c n) s =
     (if n < length (as_logins s)
      then (case as_logins s ! n of
              (pw, u, p) \<Rightarrow> s\<lparr>as_db := fst (login_write l c pw u p (as_db s)), as_logins := drop_at n (as_logins s)\<rparr>)
      else s)"
| "auth_step l (DevLogin c m n) s = s\<lparr>as_db := fst (devLogin l c m n (as_db s))\<rparr>"
| "auth_step l (RefreshRead now token) s =
     (case refresh_read l now token (as_db s) of
        Inl _ \<Rightarrow> s
      | Inr (r, u) \<Rightarrow> s\<lparr>as_refreshes := as_refreshes s @ [(token, r, u)]\<rparr>)"
| "auth_step l (RefreshClaim c n) s =
     (if n < length (as_refreshes s)
      then (case as_refreshes s ! n of
              (token, r, u) \<Rightarrow>
                s\<lparr>as_db := fst (refresh_claim l c r u (as_db s)), as_refreshes := drop_at n (as_refreshes s),
                  as_exchanged := as_exchanged s @
                    (if claims c r (as_db s) then [(hashRefreshToken l token, us_id u)] else [])\<rparr>)
      else s)"
| "auth_step l (Logout now uid token) s = s\<lparr>as_db := logout l now uid token (as_db s)\<rparr>"

end
