(* ===== verification/AuthRuns.thy ===== *)
theory AuthRuns
  imports Auth
begin

text \<open>
  Accounts under interleaving: a refresh token is exchanged at most once whatever calls overlap; the
  password guesses that logins one after another let through are bounded, those of overlapping
  logins are not; and what registration hands out opens the account again.
\<close>

section \<open>The tables\<close>

definition auth_ok :: "auth_db \<Rightarrow> bool" where
  "auth_ok d \<longleftrightarrow>
     distinct (map us_id (au_users d)) \<and> distinct (map pc_userId (au_credentials d))
     \<and> distinct (map rt_id (au_refreshTokens d)) \<and> distinct (map rt_tokenHash (au_refreshTokens d))
     \<and> rt_userId ` set (au_refreshTokens d) \<subseteq> us_id ` set (au_users d)"

text \<open>Refresh rows are only added or revoked.\<close>

definition same_token :: "refresh_row \<Rightarrow> refresh_row \<Rightarrow> bool" where
  "same_token r r' \<longleftrightarrow> rt_id r' = rt_id r \<and> rt_userId r' = rt_userId r \<and> rt_tokenHash r' = rt_tokenHash r
     \<and> rt_expiresAt r' = rt_expiresAt r \<and> (rt_revokedAt r \<noteq> None \<longrightarrow> rt_revokedAt r' = rt_revokedAt r)"

definition tokens_grow :: "auth_db \<Rightarrow> auth_db \<Rightarrow> bool" where
  "tokens_grow d d' \<longleftrightarrow> (\<forall>r \<in> set (au_refreshTokens d). \<exists>r' \<in> set (au_refreshTokens d'). same_token r r')"

lemma same_token_refl [simp]: "same_token r r"
  by (simp add: same_token_def)

lemma tokens_grow_refl [simp]: "tokens_grow d d"
  by (auto simp: tokens_grow_def intro: same_token_refl)

lemma tokens_grow_trans: "tokens_grow d d1 \<Longrightarrow> tokens_grow d1 d2 \<Longrightarrow> tokens_grow d d2"
  unfolding tokens_grow_def same_token_def by (metis (no_types, lifting))

lemma tokens_grow_cong: "au_refreshTokens d' = au_refreshTokens d \<Longrightarrow> tokens_grow d d'"
  by (auto simp: tokens_grow_def intro: same_token_refl)

definition auth_ext :: "auth_db \<Rightarrow> auth_db \<Rightarrow> bool" where
  "auth_ext d d' \<longleftrightarrow> auth_ok d' \<and> tokens_grow d d' \<and> us_id ` set (au_users d) \<subseteq> us_id ` set (au_users d')"

lemma auth_ext_refl: "auth_ok d \<Longrightarrow> auth_ext d d"
  by (simp add: auth_ext_def)

lemma auth_ext_trans: "auth_ext d d1 \<Longrightarrow> auth_ext d1 d2 \<Longrightarrow> auth_ext d d2"
  unfolding auth_ext_def by (meson subset_trans tokens_grow_trans)

lemma auth_ext_credentials:
  assumes "auth_ok d" "distinct (map pc_userId cs)"
  shows "auth_ext d (d\<lparr>au_credentials := cs, au_settings := ss\<rparr>)"
  using assms by (simp add: auth_ext_def auth_ok_def tokens_grow_cong)

lemma auth_ext_settings: "auth_ok d \<Longrightarrow> auth_ext d (d\<lparr>au_settings := ss\<rparr>)"
  by (simp add: auth_ext_def auth_ok_def tokens_grow_cong)

definition new_row :: "auth_lib \<Rightarrow> auth_call \<Rightarrow> auth_user \<Rightarrow> jstr \<Rightarrow> refresh_row" where
  "new_row l c u rtok =
     \<lparr>rt_id = ac_rowId c, rt_userId = us_id u, rt_tokenHash = hashRefreshToken l rtok,
      rt_expiresAt = ac_later c + refresh_lifetime_ms, rt_revokedAt = None\<rparr>"

lemma createSession_cases:
  obtains (refused) e where "createSession l c u d = (d, Inl e)"
  | (created) access rtok where
      "issueTokens l c (us_id u) (case us_email u of Some m \<Rightarrow> if m = [] then None else Some m | None \<Rightarrow> None) = Inr (access, rtok)"
      "ac_rowId c \<notin> rt_id ` set (au_refreshTokens d)"
      "hashRefreshToken l rtok \<notin> rt_tokenHash ` set (au_refreshTokens d)"
      "createSession l c u d = (d\<lparr>au_refreshTokens := au_refreshTokens d @ [new_row l c u rtok]\<rparr>,
         Inr \<lparr>so_accessToken = access, so_refreshToken = rtok, so_user = u\<rparr>)"
proof (cases "issueTokens l c (us_id u) (case us_email u of Some m \<Rightarrow> if m = [] then None else Some m | None \<Rightarrow> None)")
  case (Inl e)
  then show ?thesis by (intro refused [of e]) (simp add: createSession_def)
next
  case (Inr b)
  obtain access rtok where b: "b = (access, rtok)" by fastforce
  show ?thesis
  proof (cases "ac_rowId c \<in> rt_id ` set (au_refreshTokens d) \<or> hashRefreshToken l rtok \<in> rt_tokenHash ` set (au_refreshTokens d)")
    case True
    then show ?thesis
      by (intro refused [of unique_violation]) (force simp: createSession_def Inr b Let_def list_ex_iff)
  next
    case False
    then have "\<not> list_ex (\<lambda>r. rt_id r = ac_rowId c \<or> rt_tokenHash r = hashRefreshToken l rtok) (au_refreshTokens d)"
      by (auto simp: list_ex_iff image_iff)
    then show ?thesis
      using False Inr b by (intro created [of access rtok]) (simp_all add: createSession_def Let_def new_row_def)
  qed
qed

lemma createSession_Inr:
  assumes "createSession l c u d = (d', Inr so)"
  obtains access rtok where
      "issueTokens l c (us_id u) (case us_email u of Some m \<Rightarrow> if m = [] then None else Some m | None \<Rightarrow> None) = Inr (access, rtok)"
      "hashRefreshToken l rtok \<notin> rt_tokenHash ` set (au_refreshTokens d)"
      "d' = d\<lparr>au_refreshTokens := au_refreshTokens d @ [new_row l c u rtok]\<rparr>"
      "so = \<lparr>so_accessToken = access, so_refreshToken = rtok, so_user = u\<rparr>"
proof (cases rule: createSession_cases [of l c u d])
  case (created access rtok)
  then show ?thesis using assms by (intro that [of access rtok]) simp_all
qed (use assms in simp)

lemma createSession_ext:
  assumes "auth_ok d" "us_id u \<in> us_id ` set (au_users d)"
  shows "auth_ext d (fst (createSession l c u d))"
proof (cases rule: createSession_cases [of l c u d])
  case (created access rtok)
  have "tokens_grow d (d\<lparr>au_refreshTokens := au_refreshTokens d @ [new_row l c u rtok]\<rparr>)"
    by (auto simp: tokens_grow_def intro: same_token_refl)
  then show ?thesis using assms created by (simp add: auth_ext_def auth_ok_def new_row_def)
qed (simp add: auth_ext_refl assms(1))

lemma create_user_ext:
  assumes "auth_ok d" "create_user u d = Inr d1"
  shows "auth_ext d d1 \<and> us_id u \<in> us_id ` set (au_users d1) \<and> au_credentials d1 = au_credentials d
    \<and> au_settings d1 = au_settings d \<and> au_refreshTokens d1 = au_refreshTokens d"
proof -
  have d1: "d1 = d\<lparr>au_users := au_users d @ [u]\<rparr>" "us_id u \<notin> us_id ` set (au_users d)"
    using assms(2) by (auto simp: create_user_def list_ex_iff image_iff split: if_splits)
  then show ?thesis using assms(1) by (auto simp: auth_ext_def auth_ok_def tokens_grow_cong)
qed

lemma find_last: "\<forall>x \<in> set xs. \<not> P x \<Longrightarrow> P y \<Longrightarrow> find P (xs @ [y]) = Some y"
  by (induction xs) auto

lemma find_user_mem: "find_user d i = Some u \<Longrightarrow> us_id u = i \<and> i \<in> us_id ` set (au_users d)"
  by (auto simp: find_user_def dest!: find_Some_set)

lemma find_email_mem: "find_email d m = Some u \<Longrightarrow> us_email u = Some m \<and> u \<in> set (au_users d)"
  by (auto simp: find_email_def dest!: find_Some_set)

lemma register_ext:
  assumes "auth_ok d"
  shows "auth_ext d (fst (register l c m n pw d))"
proof -
  let ?u = "\<lparr>us_id = ac_userId c, us_email = Some (normal_email m), us_nickname = js_trim n\<rparr>"
  let ?d2 = "\<lambda>d1 h s. d1\<lparr>au_credentials := au_credentials d1 @ [\<lparr>pc_userId = ac_userId c, pc_passwordHash = h, pc_passwordSalt = s,
       pc_failedAttempts = 0, pc_lockedUntil = None\<rparr>], au_settings := au_settings d1 @ [ac_userId c]\<rparr>"
  have run: "auth_ext d (fst (createSession l c ?u (?d2 d1 h s)))"
    if d1: "create_user ?u d = Inr d1" and free: "find_credential d1 (ac_userId c) = None" for d1 h s
  proof -
    note e = create_user_ext [OF assms d1]
    have "distinct (map pc_userId (au_credentials (?d2 d1 h s)))"
      using e free by (auto simp: auth_ext_def auth_ok_def find_credential_def find_None_iff)
    then have "auth_ext d1 (?d2 d1 h s)" using e auth_ext_credentials by (simp add: auth_ext_def)
    moreover from this have "auth_ext (?d2 d1 h s) (fst (createSession l c ?u (?d2 d1 h s)))"
      using e by (intro createSession_ext) (simp_all add: auth_ext_def)
    ultimately show ?thesis using e by (blast intro: auth_ext_trans)
  qed
  show ?thesis
    using run auth_ext_refl [OF assms]
    by (simp add: register_def Let_def split: sum.split prod.split)
qed

lemma auth_ext_updates:
  assumes "auth_ok d"
  shows "map pc_userId cs = map pc_userId (au_credentials d) \<Longrightarrow> auth_ext d (d\<lparr>au_credentials := cs\<rparr>)"
    "map rt_id rs = map rt_id (au_refreshTokens d) \<Longrightarrow> map rt_tokenHash rs = map rt_tokenHash (au_refreshTokens d) \<Longrightarrow>
     map rt_userId rs = map rt_userId (au_refreshTokens d) \<Longrightarrow> tokens_grow d (d\<lparr>au_refreshTokens := rs\<rparr>) \<Longrightarrow>
     auth_ext d (d\<lparr>au_refreshTokens := rs\<rparr>)"
    "map us_id us = map us_id (au_users d) \<Longrightarrow> auth_ext d (d\<lparr>au_users := us\<rparr>)"
  using assms by (simp_all add: auth_ext_def auth_ok_def tokens_grow_cong flip: set_map)

lemma update_credential_ext:
  assumes "auth_ok d" "update_credential i f k d = Inr d1"
  shows "auth_ext d d1 \<and> au_users d1 = au_users d"
proof -
  have d1: "d1 = d\<lparr>au_credentials := map (\<lambda>p. if pc_userId p = i
       then p\<lparr>pc_failedAttempts := f, pc_lockedUntil := k\<rparr> else p) (au_credentials d)\<rparr>"
    using assms(2) by (simp add: update_credential_def split: if_splits)
  show ?thesis unfolding d1 by (intro conjI auth_ext_updates(1) [OF assms(1)]) simp_all
qed

lemma login_write_ext:
  assumes "auth_ok d" "us_id u \<in> us_id ` set (au_users d)"
  shows "auth_ext d (fst (login_write l c pw u p d))"
proof -
  have "auth_ext d (fst (createSession l c u d1))" if "update_credential (us_id u) f k d = Inr d1" for f k d1
    using update_credential_ext [OF assms(1) that] createSession_ext [of d1 u l c] assms(2)
    by (metis auth_ext_def auth_ext_trans)
  then show ?thesis
    using auth_ext_refl [OF assms(1)] update_credential_ext [OF assms(1)]
    by (simp add: login_write_def Let_def split: sum.split bool.split)
qed

lemma devLogin_ext:
  assumes "auth_ok d"
  shows "auth_ext d (fst (devLogin l c m n d))"
proof -
  have run: "auth_ext d (fst (createSession l c u (d1\<lparr>au_settings := ss\<rparr>)))"
    if "auth_ext d d1" "us_id u \<in> us_id ` set (au_users d1)" for d1 u ss
  proof -
    have "auth_ext d1 (d1\<lparr>au_settings := ss\<rparr>)" using that(1) auth_ext_settings by (simp add: auth_ext_def)
    moreover from this have "auth_ext (d1\<lparr>au_settings := ss\<rparr>) (fst (createSession l c u (d1\<lparr>au_settings := ss\<rparr>)))"
      using that(2) by (intro createSession_ext) (simp_all add: auth_ext_def)
    ultimately show ?thesis using that(1) by (blast intro: auth_ext_trans)
  qed
  have renamed: "auth_ext d (d\<lparr>au_users := map (\<lambda>w. if us_id w = us_id u then v else w) (au_users d)\<rparr>)
      \<and> us_id u \<in> us_id ` set (map (\<lambda>w. if us_id w = us_id u then v else w) (au_users d))"
    if "u \<in> set (au_users d)" "us_id v = us_id u" for u v
  proof -
    have ids: "map us_id (map (\<lambda>w. if us_id w = us_id u then v else w) (au_users d)) = map us_id (au_users d)"
      using that(2) by simp
    have "us_id u \<in> set (map us_id (map (\<lambda>w. if us_id w = us_id u then v else w) (au_users d)))"
      unfolding ids using that(1) by simp
    then show ?thesis unfolding set_map [of us_id] using auth_ext_updates(3) [OF assms ids] by blast
  qed
  define e where "e = (case m of Some x \<Rightarrow> normal_email x | None \<Rightarrow> [])"
  define old where "old = (if e \<noteq> [] then find_email d e
     else find (\<lambda>u. us_email u = None \<and> us_nickname u = js_trim n) (au_users d))"
  define new where "new = \<lparr>us_id = ac_userId c, us_email = (if e = [] then None else Some e), us_nickname = js_trim n\<rparr>"
  have D: "fst (devLogin l c m n d) =
      (if al_env l ''NODE_ENV'' = Some (js ''production'') then d
       else case (case old of
               Some u \<Rightarrow>
                 let v = (if e \<noteq> [] then u\<lparr>us_nickname := js_trim n\<rparr> else u)
                 in Inr (d\<lparr>au_users := map (\<lambda>w. if us_id w = us_id u then v else w) (au_users d)\<rparr>, v)
             | None \<Rightarrow> (case create_user new d of Inl x \<Rightarrow> Inl x | Inr d1 \<Rightarrow> Inr (d1, new))) of
             Inl x \<Rightarrow> d
           | Inr (d1, u) \<Rightarrow> fst (createSession l c u
               (d1\<lparr>au_settings := (if us_id u \<in> set (au_settings d1) then au_settings d1
                                     else au_settings d1 @ [us_id u])\<rparr>)))"
    unfolding devLogin_def Let_def e_def old_def new_def by (simp split: sum.split)
  show ?thesis
  proof (cases old)
    case None
    show ?thesis
    proof (cases "create_user new d")
      case (Inr d1)
      then show ?thesis
        using create_user_ext [OF assms Inr] run [of d1 new] auth_ext_refl [OF assms] by (simp add: D None)
    qed (simp add: D None auth_ext_refl assms)
  next
    case (Some u)
    then have u: "u \<in> set (au_users d)" by (auto simp: old_def find_email_mem dest: find_Some_set split: if_splits)
    define v where "v = (if e \<noteq> [] then u\<lparr>us_nickname := js_trim n\<rparr> else u)"
    have v: "us_id v = us_id u" by (simp add: v_def)
    define d1 where "d1 = d\<lparr>au_users := map (\<lambda>w. if us_id w = us_id u then v else w) (au_users d)\<rparr>"
    have "auth_ext d d1" "us_id v \<in> us_id ` set (au_users d1)"
      using renamed [OF u v] by (simp_all add: d1_def v del: set_map)
    then show ?thesis
      using run [of d1 v] by (simp add: D Some Let_def flip: v_def d1_def) (simp add: auth_ext_refl assms)
  qed
qed

lemma revoke_ext:
  assumes "auth_ok d"
  shows "auth_ext d (d\<lparr>au_refreshTokens := map (\<lambda>r. if P r \<and> rt_revokedAt r = None then r\<lparr>rt_revokedAt := Some k\<rparr> else r)
    (au_refreshTokens d)\<rparr>)"
proof -
  let ?g = "\<lambda>r. if P r \<and> rt_revokedAt r = None then r\<lparr>rt_revokedAt := Some k\<rparr> else r"
  have g: "rt_id (?g r) = rt_id r" "rt_tokenHash (?g r) = rt_tokenHash r" "rt_userId (?g r) = rt_userId r"
    "same_token r (?g r)" for r
    by (simp_all add: same_token_def)
  have "tokens_grow d (d\<lparr>au_refreshTokens := map ?g (au_refreshTokens d)\<rparr>)"
    unfolding tokens_grow_def by (intro ballI bexI, rule g(4), simp)
  then show ?thesis by (intro auth_ext_updates(2) [OF assms]) simp_all
qed

section \<open>Refresh tokens\<close>

definition has_token :: "auth_db \<Rightarrow> jstr \<Rightarrow> jstr \<Rightarrow> bool" where
  "has_token d h uid \<longleftrightarrow> (\<exists>r \<in> set (au_refreshTokens d). rt_tokenHash r = h \<and> rt_userId r = uid)"

definition spent_token :: "auth_db \<Rightarrow> jstr \<Rightarrow> jstr \<Rightarrow> bool" where
  "spent_token d h uid \<longleftrightarrow>
     (\<exists>r \<in> set (au_refreshTokens d). rt_tokenHash r = h \<and> rt_userId r = uid \<and> rt_revokedAt r \<noteq> None)"

definition known_user :: "auth_db \<Rightarrow> auth_user \<Rightarrow> bool" where
  "known_user d u \<longleftrightarrow> us_id u \<in> us_id ` set (au_users d)"

definition login_ok :: "auth_db \<Rightarrow> jstr \<times> auth_user \<times> credential \<Rightarrow> bool" where
  "login_ok d x \<longleftrightarrow> known_user d (fst (snd x))"

definition refresh_ok :: "auth_lib \<Rightarrow> auth_db \<Rightarrow> jstr \<times> refresh_row \<times> auth_user \<Rightarrow> bool" where
  "refresh_ok l d x \<longleftrightarrow>
     (case x of (token, r, u) \<Rightarrow>
        rt_userId r = us_id u \<and> known_user d u
        \<and> (\<exists>r' \<in> set (au_refreshTokens d). same_token r r' \<and> rt_tokenHash r' = hashRefreshToken l token))"

definition auth_inv :: "auth_lib \<Rightarrow> auth_sys \<Rightarrow> bool" where
  "auth_inv l s \<longleftrightarrow>
     auth_ok (as_db s) \<and> list_all (login_ok (as_db s)) (as_logins s)
     \<and> list_all (refresh_ok l (as_db s)) (as_refreshes s)
     \<and> distinct (map fst (as_exchanged s))
     \<and> list_all (\<lambda>x. spent_token (as_db s) (fst x) (snd x)) (as_exchanged s)"

lemma spent_token_grow: "tokens_grow d d' \<Longrightarrow> spent_token d h uid \<Longrightarrow> spent_token d' h uid"
  unfolding spent_token_def tokens_grow_def same_token_def by (metis (no_types, lifting))

lemma pending_grow:
  assumes "auth_ext d d'"
  shows "login_ok d x \<Longrightarrow> login_ok d' x" "refresh_ok l d y \<Longrightarrow> refresh_ok l d' y"
proof -
  show "login_ok d x \<Longrightarrow> login_ok d' x" using assms by (auto simp: login_ok_def known_user_def auth_ext_def)
  have "\<exists>r' \<in> set (au_refreshTokens d'). same_token r r' \<and> rt_tokenHash r' = h"
    if "\<exists>r' \<in> set (au_refreshTokens d). same_token r r' \<and> rt_tokenHash r' = h" for r h
    using assms that unfolding auth_ext_def tokens_grow_def same_token_def by (metis (no_types, lifting))
  then show "refresh_ok l d y \<Longrightarrow> refresh_ok l d' y"
    using assms by (auto simp: refresh_ok_def known_user_def auth_ext_def)
qed

text \<open>A step that only extends the tables keeps the invariant.\<close>

lemma auth_inv_ext:
  assumes "auth_inv l s" "auth_ext (as_db s) d"
    and "set ls \<subseteq> set (as_logins s)" "set rs \<subseteq> set (as_refreshes s)"
  shows "auth_inv l (s\<lparr>as_db := d, as_logins := ls, as_refreshes := rs\<rparr>)"
proof -
  have "tokens_grow (as_db s) d" "auth_ok d" using assms(2) by (simp_all add: auth_ext_def)
  then show ?thesis
    using assms(1,3,4) pending_grow [OF assms(2)] spent_token_grow
    by (auto simp: auth_inv_def list_all_iff)
qed

lemma drop_at_subset: "set (drop_at n xs) \<subseteq> set xs"
  by (auto simp: drop_at_def dest: in_set_takeD in_set_dropD)

lemma claim_ext:
  assumes "auth_ok d" "us_id u \<in> us_id ` set (au_users d)"
  shows "auth_ext d (fst (refresh_claim l c r u d))"
proof -
  let ?P = "\<lambda>q. rt_id q = rt_id r \<and> rt_expiresAt q > ac_later c"
  let ?d1 = "d\<lparr>au_refreshTokens := map (\<lambda>q. if ?P q \<and> rt_revokedAt q = None
       then q\<lparr>rt_revokedAt := Some (ac_later c)\<rparr> else q) (au_refreshTokens d)\<rparr>"
  have "auth_ext d ?d1" by (rule revoke_ext [OF assms(1)])
  moreover from this have "auth_ext ?d1 (fst (createSession l c u ?d1))"
    using assms(2) by (intro createSession_ext) (simp_all add: auth_ext_def)
  ultimately show ?thesis
    by (simp add: refresh_claim_def Let_def conj_ac) (blast intro: auth_ext_trans)
qed

text \<open>A claim that succeeds finds the token unspent and spends it.\<close>

lemma claim_spends:
  assumes "auth_ok d" "refresh_ok l d (token, r, u)" "claims c r d"
  shows "\<not> spent_token d (hashRefreshToken l token) uid"
    "spent_token (fst (refresh_claim l c r u d)) (hashRefreshToken l token) (us_id u)"
proof -
  let ?h = "hashRefreshToken l token"
  let ?open = "\<lambda>q. rt_id q = rt_id r \<and> rt_revokedAt q = None \<and> rt_expiresAt q > ac_later c"
  obtain q where q: "q \<in> set (au_refreshTokens d)" "same_token r q" "rt_tokenHash q = ?h"
    and u: "rt_userId r = us_id u" "known_user d u"
    using assms(2) by (auto simp: refresh_ok_def)
  have "filter ?open (au_refreshTokens d) \<noteq> []" using assms(3) by (auto simp: claims_def)
  then obtain w where w: "w \<in> set (au_refreshTokens d)" "?open w" by (auto simp: filter_empty_conv)
  have same: "x = q" if "x \<in> set (au_refreshTokens d)" "rt_id x = rt_id q \<or> rt_tokenHash x = rt_tokenHash q" for x
    using that q(1) assms(1) by (auto simp: auth_ok_def distinct_map dest: inj_onD)
  have "w = q" using w q(2) same by (auto simp: same_token_def)
  then have open_q: "?open q" using w by simp
  show "\<not> spent_token d ?h uid"
    using same q(3) open_q by (force simp: spent_token_def)
  let ?d1 = "d\<lparr>au_refreshTokens := map (\<lambda>x. if ?open x then x\<lparr>rt_revokedAt := Some (ac_later c)\<rparr> else x)
       (au_refreshTokens d)\<rparr>"
  have "q\<lparr>rt_revokedAt := Some (ac_later c)\<rparr> \<in> set (au_refreshTokens ?d1)"
    using q(1) open_q by force
  then have spent: "spent_token ?d1 ?h (us_id u)"
    unfolding spent_token_def using q u
    by (intro bexI [of _ "q\<lparr>rt_revokedAt := Some (ac_later c)\<rparr>"]) (simp_all add: same_token_def)
  have "auth_ext d ?d1"
    using revoke_ext [OF assms(1), of "\<lambda>q. rt_id q = rt_id r \<and> rt_expiresAt q > ac_later c" "ac_later c"]
    by (simp add: conj_ac)
  then have "auth_ext ?d1 (fst (createSession l c u ?d1))"
    using u(2) by (intro createSession_ext) (simp_all add: auth_ext_def known_user_def)
  then have "spent_token (fst (createSession l c u ?d1)) ?h (us_id u)"
    using spent spent_token_grow by (auto simp: auth_ext_def)
  then show "spent_token (fst (refresh_claim l c r u d)) ?h (us_id u)"
    using assms(3) spent by (auto simp: refresh_claim_def Let_def claims_def)
qed

lemma login_read_ok: "login_read now m d = Inr (u, p) \<Longrightarrow> login_ok d (pw, u, p)"
  by (auto simp: login_read_def login_ok_def known_user_def split: option.splits if_splits dest: find_email_mem)

lemma refresh_read_ok: "refresh_read l now token d = Inr (r, u) \<Longrightarrow> refresh_ok l d (token, r, u)"
  by (auto simp: refresh_read_def refresh_ok_def known_user_def split: option.splits if_splits
      dest!: find_user_mem find_Some_set intro!: bexI [of _ r])

lemma refresh_read_spent:
  assumes "\<And>x. find (\<lambda>x. rt_tokenHash x = hashRefreshToken l token) (au_refreshTokens d) = Some x \<Longrightarrow> rt_revokedAt x \<noteq> None"
  shows "\<exists>e. refresh_read l now token d = Inl e"
proof (cases "find (\<lambda>x. rt_tokenHash x = hashRefreshToken l token) (au_refreshTokens d)")
  case (Some x)
  then show ?thesis using assms [OF Some] by (simp add: refresh_read_def split: option.split)
qed (simp add: refresh_read_def split: option.split)

lemma logout_ext: "auth_ok d \<Longrightarrow> auth_ext d (logout l now uid token d)"
  using revoke_ext [of d "\<lambda>r. rt_userId r = uid \<and> rt_tokenHash r = hashRefreshToken l token" now]
  by (simp add: logout_def conj_ac)

lemma auth_inv_step:
  assumes "auth_inv l s"
  shows "auth_inv l (auth_step l i s)"
proof -
  have ok: "auth_ok (as_db s)" using assms by (simp add: auth_inv_def)
  have ext: "auth_inv l (s\<lparr>as_db := d\<rparr>)" if "auth_ext (as_db s) d" for d
    using auth_inv_ext [OF assms that, of "as_logins s" "as_refreshes s"] by simp
  show ?thesis
  proof (cases i)
    case (LoginRead now m pw)
    then show ?thesis
      using assms login_read_ok [of now m "as_db s"] by (auto simp: auth_inv_def split: sum.split)
  next
    case (LoginWrite c n)
    show ?thesis
    proof (cases "n < length (as_logins s)")
      case True
      obtain pw u p where x: "as_logins s ! n = (pw, u, p)" by (metis prod_cases3)
      have "login_ok (as_db s) (pw, u, p)" using assms True x by (metis auth_inv_def list_all_length)
      then have "auth_ext (as_db s) (fst (login_write l c pw u p (as_db s)))"
        using login_write_ext [OF ok] by (simp add: login_ok_def known_user_def)
      then show ?thesis
        using auth_inv_ext [OF assms _ drop_at_subset order_refl] by (simp add: LoginWrite True x)
    qed (simp add: LoginWrite assms)
  next
    case (RefreshRead now token)
    then show ?thesis
      using assms refresh_read_ok [of l now token "as_db s"] by (auto simp: auth_inv_def split: sum.split)
  next
    case (RefreshClaim c n)
    show ?thesis
    proof (cases "n < length (as_refreshes s)")
      case True
      obtain token r u where x: "as_refreshes s ! n = (token, r, u)" by (metis prod_cases3)
      have pend: "refresh_ok l (as_db s) (token, r, u)" using assms True x by (metis auth_inv_def list_all_length)
      then have "us_id u \<in> us_id ` set (au_users (as_db s))" by (simp add: refresh_ok_def known_user_def)
      then have "auth_ext (as_db s) (fst (refresh_claim l c r u (as_db s)))" by (rule claim_ext [OF ok])
      then have inv: "auth_inv l (s\<lparr>as_db := fst (refresh_claim l c r u (as_db s)), as_refreshes := drop_at n (as_refreshes s)\<rparr>)"
        using auth_inv_ext [OF assms _ order_refl drop_at_subset] by simp
      have "hashRefreshToken l token \<notin> fst ` set (as_exchanged s)" if "claims c r (as_db s)"
        using claim_spends(1) [OF ok pend that] assms by (force simp: auth_inv_def list_all_iff)
      then show ?thesis
        using inv claim_spends(2) [OF ok pend] by (simp add: RefreshClaim True x auth_inv_def)
    qed (simp add: RefreshClaim assms)
  qed (simp_all add: ext register_ext devLogin_ext logout_ext ok)
qed

interpretation auth_machine: machine "auth_step l" "auth_inv l"
  by unfold_locales (rule auth_inv_step)

lemma auth_inv_start: "auth_inv l auth_start"
  by (simp add: auth_inv_def auth_start_def auth_ok_def auth_empty_def)


section \<open>Concrete libraries\<close>

text \<open>What the libraries are documented to do.\<close>

definition auth_laws :: "auth_lib \<Rightarrow> bool" where
  "auth_laws l \<longleftrightarrow>
     (\<forall>p s n. length (al_scrypt l p s n) = n \<and> al_of64 l (al_to64 l (al_scrypt l p s n)) = al_scrypt l p s n)
     \<and> (\<forall>v s t n now. now < t + n * 1000 \<longrightarrow>
          (\<exists>w. al_verify l (al_sign l v s t n) s now = Some w \<and> prop_str w (js ''sub'') = prop_str v (js ''sub'')))"

fun sample_decode :: "jstr \<Rightarrow> jstr option" where
  "sample_decode (x # y # t) =
     (if x = 1 then map_option ((#) y) (sample_decode t) else if x = 0 then Some [] else None)"
| "sample_decode [x] = (if x = 0 then Some [] else None)"
| "sample_decode [] = None"

definition sample_encode :: "json \<Rightarrow> jstr" where
  "sample_encode v =
     (case prop_str v (js ''sub'') of Some x \<Rightarrow> concat (map (\<lambda>c. [1, c]) x) @ [0] | None \<Rightarrow> [2])
     @ (case prop_str v (js ''nonce'') of Some x \<Rightarrow> x | None \<Rightarrow> [])"

definition sample_lib :: auth_lib where
  "sample_lib = \<lparr>al_env = (\<lambda>_. None), al_scrypt = (\<lambda>p s n. replicate n (length p mod 256)),
     al_to64 = map of_nat, al_of64 = map unat, al_sign = (\<lambda>v s now life. sample_encode v),
     al_verify = (\<lambda>t s now. Some (case sample_decode t of Some x \<Rightarrow> JObj [(js ''sub'', JStr x)] | None \<Rightarrow> JNull)),
     al_sha256 = (\<lambda>t. t)\<rparr>"

definition sample_token :: jstr where
  "sample_token = [1] @ js ''u'' @ [0] @ js ''a''"

lemma tagged_decode_encode: "sample_decode (concat (map (\<lambda>c. [1, c]) x) @ 0 # t) = Some x"
proof (induction x)
  case Nil
  then show ?case by (cases t) simp_all
qed simp

lemma sample_laws: "auth_laws sample_lib"
proof -
  have "map unat (map of_nat (replicate n (k mod 256)) :: 16 word list) = replicate n (k mod 256)" for n k :: nat
    by (simp add: unat_of_nat)
  moreover have "sample_decode (2 # t) = None" for t by (cases t) simp_all
  ultimately show ?thesis
    by (auto simp: auth_laws_def sample_lib_def sample_encode_def tagged_decode_encode prop_str_def [of "JObj _"]
        prop_str_def [of JNull] split: option.split)
qed

definition sample_call :: "nat \<Rightarrow> string \<Rightarrow> auth_call" where
  "sample_call t n = \<lparr>ac_now = t, ac_later = t, ac_salt = [1], ac_nonce = js n, ac_userId = js ''u'', ac_rowId = js n\<rparr>"

definition overlap_run :: "auth_in list" where
  "overlap_run = [Register (sample_call 1 ''a'') (js ''E'') (js ''n'') (js ''pw''), RefreshRead 2 (sample_token),
     RefreshRead 2 (sample_token), RefreshClaim (sample_call 3 ''b'') 0, RefreshClaim (sample_call 4 ''c'') 0]"

lemmas sample_auth = sample_lib_def sample_call_def register_def hashPassword_def resolvePasswordPepper_def
  env_value_def create_user_def find_credential_def createSession_def issueTokens_def resolveTokenSecrets_def
  hashRefreshToken_def refresh_read_def verifyRefreshToken_def find_user_def refresh_claim_def claims_def
  drop_at_def refresh_lifetime_ms_def sample_token_def sample_encode_def prop_str_def js_def Let_def


section \<open>Guessing a password\<close>

text \<open>Logins one after another: the times are in order between \<open>T\<close> and \<open>E\<close>.\<close>

fun in_order :: "nat \<Rightarrow> auth_call list \<Rightarrow> nat \<Rightarrow> bool" where
  "in_order T [] E \<longleftrightarrow> T \<le> E"
| "in_order T (c # cs) E \<longleftrightarrow> T \<le> ac_now c \<and> ac_now c \<le> ac_later c \<and> in_order (ac_later c) cs E"

text \<open>How many of the attempts have their password checked.\<close>

fun guesses_checked :: "auth_lib \<Rightarrow> jstr \<Rightarrow> (auth_call \<times> jstr) list \<Rightarrow> auth_db \<Rightarrow> nat" where
  "guesses_checked l m [] d = 0"
| "guesses_checked l m ((c, pw) # xs) d =
     (case login_read (ac_now c) m d of Inl _ \<Rightarrow> 0 | Inr _ \<Rightarrow> 1) + guesses_checked l m xs (fst (login l c m pw d))"

definition wrong_for :: "auth_lib \<Rightarrow> credential \<Rightarrow> jstr \<Rightarrow> bool" where
  "wrong_for l p pw \<longleftrightarrow> verifyPassword l pw (pc_passwordHash p) (pc_passwordSalt p) = Inr False"

definition quarter :: nat where
  "quarter = 15 * 60 * 1000"

definition guess_bound :: "nat \<Rightarrow> nat \<Rightarrow> nat \<Rightarrow> nat option \<Rightarrow> nat" where
  "guess_bound T E f locked =
     (let t = max T (case locked of Some n \<Rightarrow> n | None \<Rightarrow> 0)
      in (4 - f) + (if t \<le> E then 1 + (E - t) div quarter else 0))"

lemma in_order_le: "in_order T cs E \<Longrightarrow> T \<le> E"
  by (induction cs arbitrary: T) force+

lemma find_credential_update:
  assumes "update_credential i f k d = Inr d1" "find_credential d i = Some p"
  shows "find_credential d1 i = Some (p\<lparr>pc_failedAttempts := f, pc_lockedUntil := k\<rparr>)"
    "find_email d1 m = find_email d m"
proof -
  have d1: "d1 = d\<lparr>au_credentials := map (\<lambda>p. if pc_userId p = i then p\<lparr>pc_failedAttempts := f, pc_lockedUntil := k\<rparr> else p)
       (au_credentials d)\<rparr>"
    using assms by (simp add: update_credential_def)
  define g :: "credential \<Rightarrow> credential" where "g = (\<lambda>p. p\<lparr>pc_failedAttempts := f, pc_lockedUntil := k\<rparr>)"
  have g: "pc_userId (g p) = pc_userId p" for p by (simp add: g_def)
  have "find (\<lambda>p. pc_userId p = i) (map (\<lambda>p. if pc_userId p = i then g p else p) xs)
      = map_option g (find (\<lambda>p. pc_userId p = i) xs)" for xs
    by (induction xs) (auto simp: g)
  moreover have "au_credentials d1 = map (\<lambda>p. if pc_userId p = i then g p else p) (au_credentials d)"
    by (simp add: d1 g_def)
  ultimately have "find_credential d1 i = Some (g p)" using assms(2) by (simp add: find_credential_def)
  then show "find_credential d1 i = Some (p\<lparr>pc_failedAttempts := f, pc_lockedUntil := k\<rparr>)" by (simp add: g_def)
  show "find_email d1 m = find_email d m" by (simp add: d1 find_email_def)
qed

lemma wrong_write:
  assumes "wrong_for l p pw" "find_credential d (us_id u) = Some q"
  obtains d1 where "login_write l c pw u p d = (d1, Inl bad_login)"
    "find_credential d1 (us_id u) = Some (q\<lparr>pc_failedAttempts := pc_failedAttempts p + 1,
       pc_lockedUntil := if pc_failedAttempts p + 1 \<ge> 5 then Some (ac_later c + quarter) else None\<rparr>)"
    "\<And>m. find_email d1 m = find_email d m"
proof -
  obtain d1 where d1: "update_credential (us_id u) (pc_failedAttempts p + 1)
      (if pc_failedAttempts p + 1 \<ge> 5 then Some (ac_later c + quarter) else None) d = Inr d1"
    using assms(2) by (simp add: update_credential_def)
  then show ?thesis
    using that [of d1] find_credential_update [OF d1 assms(2)] assms(1)
    unfolding quarter_def by (simp add: login_write_def wrong_for_def Let_def)
qed

lemma guess_bound_step:
  assumes "\<not> (case locked of Some n \<Rightarrow> n > now | None \<Rightarrow> False)" "T \<le> now" "now \<le> k" "k \<le> E"
  shows "1 + guess_bound k E (f + 1) (if f + 1 \<ge> 5 then Some (k + quarter) else None) \<le> guess_bound T E f locked"
proof -
  define t where "t = max T (case locked of Some n \<Rightarrow> n | None \<Rightarrow> 0)"
  have t: "t \<le> k" "t \<le> E" using assms by (auto simp: t_def split: option.splits)
  have mono: "(E - k) div quarter \<le> (E - t) div quarter" using t by (simp add: div_le_mono)
  have q: "0 < quarter" by (simp add: quarter_def)
  have old: "guess_bound T E f locked = (4 - f) + (1 + (E - t) div quarter)"
    using t by (simp add: guess_bound_def t_def [symmetric] Let_def)
  show ?thesis
  proof (cases "4 \<le> f")
    case True
    have "1 + (E - (k + quarter)) div quarter = (E - k) div quarter" if "k + quarter \<le> E"
      using that q by (simp add: div_if [of "E - k"]) 
    then show ?thesis unfolding old using True mono assms(4) by (simp add: guess_bound_def Let_def)
  next
    case False
    then show ?thesis unfolding old using mono assms(4) by (simp add: guess_bound_def Let_def)
  qed
qed

lemma guesses_le:
  assumes "find_email d (normal_email m) = Some u" "find_credential d (us_id u) = Some p"
    and "\<forall>x \<in> set xs. wrong_for l p (snd x)" "in_order T (map fst xs) E"
  shows "guesses_checked l m xs d \<le> guess_bound T E (pc_failedAttempts p) (pc_lockedUntil p)"
  using assms
proof (induction xs arbitrary: d p T)
  case (Cons x xs)
  obtain c pw where x: "x = (c, pw)" by fastforce
  have time: "T \<le> ac_now c" "ac_now c \<le> ac_later c" "in_order (ac_later c) (map fst xs) E" "ac_later c \<le> E"
    using Cons.prems(4) by (auto simp: x dest: in_order_le)
  show ?case
  proof (cases "case pc_lockedUntil p of Some n \<Rightarrow> n > ac_now c | None \<Rightarrow> False")
    case True
    then have "login_read (ac_now c) m d = Inl bad_login" by (simp add: login_read_def Cons.prems(1,2))
    moreover have "guess_bound (ac_later c) E (pc_failedAttempts p) (pc_lockedUntil p)
        \<le> guess_bound T E (pc_failedAttempts p) (pc_lockedUntil p)"
      using time by (auto simp: guess_bound_def Let_def intro!: div_le_mono split: option.split)
    ultimately show ?thesis
      using Cons.IH [OF Cons.prems(1,2) _ time(3)] Cons.prems(3) by (simp add: x login_def)
  next
    case False
    then have read: "login_read (ac_now c) m d = Inr (u, p)" by (simp add: login_read_def Cons.prems(1,2))
    have "wrong_for l p pw" using Cons.prems(3) by (simp add: x)
    from wrong_write [OF this Cons.prems(2)] obtain d1 where d1: "login_write l c pw u p d = (d1, Inl bad_login)"
      "find_email d1 (normal_email m) = Some u"
      "find_credential d1 (us_id u) = Some (p\<lparr>pc_failedAttempts := pc_failedAttempts p + 1,
         pc_lockedUntil := if pc_failedAttempts p + 1 \<ge> 5 then Some (ac_later c + quarter) else None\<rparr>)"
      using Cons.prems(1) by metis
    have "guesses_checked l m xs d1 \<le> guess_bound (ac_later c) E (pc_failedAttempts p + 1)
        (if pc_failedAttempts p + 1 \<ge> 5 then Some (ac_later c + quarter) else None)"
      using Cons.IH [OF d1(2,3) _ time(3)] Cons.prems(3) by (simp add: wrong_for_def)
    moreover have "1 + guess_bound (ac_later c) E (pc_failedAttempts p + 1)
        (if pc_failedAttempts p + 1 \<ge> 5 then Some (ac_later c + quarter) else None)
        \<le> guess_bound T E (pc_failedAttempts p) (pc_lockedUntil p)"
      by (rule guess_bound_step) (use False time in simp_all)
    ultimately show ?thesis by (simp add: x read login_def d1(1))
  qed
qed simp


definition sample_account :: auth_db where
  "sample_account = \<lparr>au_users = [\<lparr>us_id = js ''u'', us_email = Some (normal_email (js ''e'')), us_nickname = []\<rparr>],
     au_credentials = [\<lparr>pc_userId = js ''u'', pc_passwordHash = [1, 1, 1], pc_passwordSalt = [],
        pc_failedAttempts = 0, pc_lockedUntil = None\<rparr>], au_settings = [], au_refreshTokens = []\<rparr>"

lemma sample_account_facts:
  "find_email sample_account (normal_email (js ''e'')) = Some (hd (au_users sample_account))"
  "find_credential sample_account (us_id (hd (au_users sample_account))) = Some (hd (au_credentials sample_account))"
  "wrong_for sample_lib (hd (au_credentials sample_account)) (js ''x'')"
  "pc_failedAttempts (hd (au_credentials sample_account)) = 0" "pc_lockedUntil (hd (au_credentials sample_account)) = None"
  by (simp_all add: sample_account_def find_email_def find_credential_def wrong_for_def verifyPassword_def
      resolvePasswordPepper_def env_value_def sample_lib_def Let_def)


lemma fold_reads:
  assumes "login_read now m (as_db s) = Inr (u, p)"
  shows "fold (auth_step l) (map (LoginRead now m) pws) s = s\<lparr>as_logins := as_logins s @ map (\<lambda>pw. (pw, u, p)) pws\<rparr>"
  using assms by (induction pws arbitrary: s) simp_all

lemma fold_writes:
  assumes "as_logins s = map (\<lambda>pw. (pw, u, p)) pws" "length cs = length pws" "\<forall>pw \<in> set pws. wrong_for l p pw"
    and "find_credential (as_db s) (us_id u) = Some (p\<lparr>pc_failedAttempts := f, pc_lockedUntil := k\<rparr>)"
    and "pc_failedAttempts p < 4"
  defines "s' \<equiv> fold (auth_step l) (map (\<lambda>c. LoginWrite c 0) cs) s"
  shows "as_logins s' = [] \<and> find_credential (as_db s') (us_id u) =
    Some (if pws = [] then p\<lparr>pc_failedAttempts := f, pc_lockedUntil := k\<rparr>
          else p\<lparr>pc_failedAttempts := pc_failedAttempts p + 1, pc_lockedUntil := None\<rparr>)"
  using assms(1-4) unfolding s'_def
proof (induction pws arbitrary: s cs f k)
  case (Cons pw pws)
  then obtain c cs' where cs: "cs = c # cs'" by (cases cs) auto
  have w: "wrong_for l p pw" using Cons.prems(3) by simp
  obtain d1 where d1: "login_write l c pw u p (as_db s) = (d1, Inl bad_login)"
    "find_credential d1 (us_id u) = Some (p\<lparr>pc_failedAttempts := pc_failedAttempts p + 1, pc_lockedUntil := None\<rparr>)"
    by (rule wrong_write [OF w Cons.prems(4), of c]) (use assms(5) in simp)
  have step: "auth_step l (LoginWrite c 0) s = s\<lparr>as_db := d1, as_logins := map (\<lambda>pw. (pw, u, p)) pws\<rparr>"
    using Cons.prems(1) by (simp add: d1(1) drop_at_def)
  show ?case
    using Cons.IH [where s = "s\<lparr>as_db := d1, as_logins := map (\<lambda>pw. (pw, u, p)) pws\<rparr>" and cs = cs'
      and f = "pc_failedAttempts p + 1" and k = None] Cons.prems(2,3) d1(2)
    by (simp add: cs step del: auth_step.simps)
qed simp

text \<open>
  the bound does not hold for logins that overlap: however many wrong passwords arrive together,
  all of them are checked, and together they count as one failed attempt, which even lifts a
  lock set meanwhile.
\<close>

theorem overlapping_guesses_count_once:
  assumes "login_read now m (as_db s) = Inr (u, p)" "as_logins s = []" "pc_failedAttempts p < 4"
    and "\<forall>pw \<in> set pws. wrong_for l p pw" "pws \<noteq> []" "length cs = length pws"
    and "s1 = fold (auth_step l) (map (LoginRead now m) pws) s"
    and "s2 = s1\<lparr>as_db := d\<rparr>" "find_credential d (us_id u) = Some (p\<lparr>pc_failedAttempts := f, pc_lockedUntil := k\<rparr>)"
    and "s3 = fold (auth_step l) (map (\<lambda>c. LoginWrite c 0) cs) s2"
  shows "length (as_logins s1) = length pws \<and> as_logins s3 = []
    \<and> find_credential (as_db s3) (us_id u) =
        Some (p\<lparr>pc_failedAttempts := pc_failedAttempts p + 1, pc_lockedUntil := None\<rparr>)"
proof -
  have s1: "s1 = s\<lparr>as_logins := map (\<lambda>pw. (pw, u, p)) pws\<rparr>"
    unfolding assms(7) using fold_reads [OF assms(1), of l pws] assms(2) by simp
  then have "as_logins s2 = map (\<lambda>pw. (pw, u, p)) pws" "find_credential (as_db s2) (us_id u) = Some (p\<lparr>pc_failedAttempts := f, pc_lockedUntil := k\<rparr>)"
    using assms(8,9) by simp_all
  from fold_writes [OF this(1) assms(6,4) this(2) assms(3)] show ?thesis
    using assms(5) by (simp add: s1 assms(10))
qed

theorem overlapping_guesses_count_once_witness:
  "find_credential (as_db (fold (auth_step sample_lib) (map (\<lambda>c. LoginWrite c 0) (replicate 100 (sample_call 9 ''n'')))
      (fold (auth_step sample_lib) (map (LoginRead 1 (js ''e'')) (replicate 100 (js ''x'')))
        (auth_start\<lparr>as_db := sample_account\<rparr>)))) (js ''u'')
   = Some ((hd (au_credentials sample_account))\<lparr>pc_failedAttempts := 1\<rparr>)"
proof -
  let ?s = "auth_start\<lparr>as_db := sample_account\<rparr>" and ?p = "hd (au_credentials sample_account)"
  have read: "login_read 1 (js ''e'') (as_db ?s) = Inr (hd (au_users sample_account), ?p)"
    by (simp add: login_read_def sample_account_facts)
  have p: "?p = ?p\<lparr>pc_failedAttempts := 0, pc_lockedUntil := None\<rparr>" "us_id (hd (au_users sample_account)) = js ''u''"
    by (simp_all add: sample_account_def)
  let ?s1 = "fold (auth_step sample_lib) (map (LoginRead 1 (js ''e'')) (replicate 100 (js ''x''))) ?s"
  have db: "as_db ?s1 = sample_account" unfolding fold_reads [OF read] by simp
  have "find_credential (as_db ?s1) (us_id (hd (au_users sample_account))) = Some (?p\<lparr>pc_failedAttempts := 0, pc_lockedUntil := None\<rparr>)"
    unfolding db p(1) [symmetric] by (rule sample_account_facts)
  from overlapping_guesses_count_once [OF read _ _ _ _ _ refl _ this refl,
      where l = sample_lib and cs = "replicate 100 (sample_call 9 ''n'')" and pws = "replicate 100 (js ''x'')"]
  show ?thesis using sample_account_facts by (simp add: p(2) auth_start_def del: map_replicate fold_replicate)
qed

section \<open>What registration hands out\<close>

lemma issued_tokens:
  assumes "auth_laws l" "issueTokens l c i email = Inr (access, rtok)"
  shows "now < ac_later c + 15 * 60 * 1000 \<Longrightarrow>
      \<exists>w. verifyAccessToken l access now = Some w \<and> prop_str w (js ''sub'') = Some i"
    "now < ac_later c + 30 * 24 * 60 * 60 * 1000 \<Longrightarrow>
      \<exists>w. verifyRefreshToken l rtok now = Some w \<and> prop_str w (js ''sub'') = Some i"
proof -
  obtain a r where sec: "resolveTokenSecrets (al_env l) = Inr (a, r)"
    using assms(2) by (cases "resolveTokenSecrets (al_env l)") (auto simp: issueTokens_def)
  have verify: "\<exists>w. al_verify l (al_sign l (JObj ((js ''sub'', JStr i) # xs)) s (ac_later c) n) s now = Some w
      \<and> prop_str w (js ''sub'') = Some i" if "now < ac_later c + n * 1000" for xs s n now
  proof -
    have "prop_str (JObj ((js ''sub'', JStr i) # xs)) (js ''sub'') = Some i" by (simp add: prop_str_def)
    then show ?thesis using assms(1) that unfolding auth_laws_def by metis
  qed
  have toks: "access = al_sign l (JObj ((js ''sub'', JStr i)
        # (case email of Some m \<Rightarrow> [(js ''email'', JStr m)] | None \<Rightarrow> []))) a (ac_later c) (15 * 60)"
    "rtok = al_sign l (JObj ((js ''sub'', JStr i) # [(js ''nonce'', JStr (ac_nonce c))])) r (ac_later c) (30 * 24 * 60 * 60)"
    using assms(2) by (simp_all add: issueTokens_def sec)
  show "now < ac_later c + 15 * 60 * 1000 \<Longrightarrow>
      \<exists>w. verifyAccessToken l access now = Some w \<and> prop_str w (js ''sub'') = Some i"
    unfolding toks verifyAccessToken_def sec sum.case prod.case by (rule verify) simp
  show "now < ac_later c + 30 * 24 * 60 * 60 * 1000 \<Longrightarrow>
      \<exists>w. verifyRefreshToken l rtok now = Some w \<and> prop_str w (js ''sub'') = Some i"
    unfolding toks verifyRefreshToken_def sec sum.case prod.case by (rule verify) simp
qed

text \<open>
  a registration opens an account that its password, its access token and its refresh token open
  again: the password for every spelling of the address that differs in case or surrounding
  space only, the access token for fifteen minutes, the refresh token for thirty days.
\<close>

theorem registration_opens_account:
  assumes "auth_laws l" "register l c email nickname password d = (d', Inr so)"
  shows "us_email (so_user so) = Some (normal_email email)
    \<and> (\<forall>e now. normal_email e = normal_email email \<longrightarrow>
         (\<exists>p. login_read now e d' = Inr (so_user so, p)
            \<and> verifyPassword l password (pc_passwordHash p) (pc_passwordSalt p) = Inr True))
    \<and> (\<forall>now. now < ac_later c + 15 * 60 * 1000 \<longrightarrow> authenticate l now (so_accessToken so) d' = Inr (so_user so))
    \<and> (\<forall>now. now < ac_later c + 30 * 24 * 60 * 60 * 1000 \<longrightarrow>
         (\<exists>r. refresh_read l now (so_refreshToken so) d' = Inr (r, so_user so)))"
proof -
  let ?u = "\<lparr>us_id = ac_userId c, us_email = Some (normal_email email), us_nickname = js_trim nickname\<rparr>"
  obtain h salt d1 where h: "hashPassword l c password = Inr (h, salt)" and d1: "create_user ?u d = Inr d1"
    and free: "find_credential d1 (ac_userId c) = None"
    and run: "createSession l c ?u (d1\<lparr>au_credentials := au_credentials d1 @ [\<lparr>pc_userId = ac_userId c,
        pc_passwordHash = h, pc_passwordSalt = salt, pc_failedAttempts = 0, pc_lockedUntil = None\<rparr>],
        au_settings := au_settings d1 @ [ac_userId c]\<rparr>) = (d', Inr so)"
    using assms(2) by (auto simp: register_def Let_def split: sum.splits if_splits)
  let ?p = "\<lparr>pc_userId = ac_userId c, pc_passwordHash = h, pc_passwordSalt = salt, pc_failedAttempts = 0, pc_lockedUntil = None\<rparr>"
  obtain access rtok where tok: "issueTokens l c (us_id ?u) (case us_email ?u of Some m \<Rightarrow> if m = [] then None else Some m | None \<Rightarrow> None) = Inr (access, rtok)"
    and new: "hashRefreshToken l rtok \<notin> rt_tokenHash ` set (au_refreshTokens d1)"
    and d': "d' = d1\<lparr>au_credentials := au_credentials d1 @ [?p], au_settings := au_settings d1 @ [ac_userId c],
       au_refreshTokens := au_refreshTokens d1 @ [new_row l c ?u rtok]\<rparr>"
    and so: "so = \<lparr>so_accessToken = access, so_refreshToken = rtok, so_user = ?u\<rparr>"
    by (rule createSession_Inr [OF run]) simp
  have users: "au_users d1 = au_users d @ [?u]" "\<forall>v \<in> set (au_users d). us_id v \<noteq> ac_userId c \<and> us_email v \<noteq> Some (normal_email email)"
    using d1 by (auto simp: create_user_def list_ex_iff split: if_splits)
  have email: "find_email d' (normal_email email) = Some ?u" and user: "find_user d' (ac_userId c) = Some ?u"
    using users by (simp_all add: find_email_def find_user_def d' find_last)
  have cred: "find_credential d' (ac_userId c) = Some ?p"
    using free by (simp add: find_credential_def d' find_last find_None_iff)
  have row: "find (\<lambda>r. rt_tokenHash r = hashRefreshToken l rtok) (au_refreshTokens d') = Some (new_row l c ?u rtok)"
    using new by (auto simp: d' new_row_def image_iff intro!: find_last)
  have pw: "verifyPassword l password h salt = Inr True"
    using h assms(1) by (auto simp: hashPassword_def verifyPassword_def Let_def auth_laws_def split: sum.splits)
       (metis list.size(3) zero_neq_numeral)
  note tokens = issued_tokens [OF assms(1) tok, unfolded auth_user.select_convs]
  have acc: "authenticate l now access d' = Inr ?u" if "now < ac_later c + 15 * 60 * 1000" for now
    using tokens(1) [OF that] user by (auto simp: authenticate_def)
  have ref: "refresh_read l now rtok d' = Inr (new_row l c ?u rtok, ?u)" if "now < ac_later c + 30 * 24 * 60 * 60 * 1000" for now
  proof -
    from tokens(2) [OF that] obtain w where "verifyRefreshToken l rtok now = Some w" "prop_str w (js ''sub'') = Some (ac_userId c)"
      by blast
    then show ?thesis using row user that by (simp add: refresh_read_def new_row_def refresh_lifetime_ms_def)
  qed
  have log: "login_read now e d' = Inr (?u, ?p)" if "normal_email e = normal_email email" for e now
    unfolding login_read_def that email by (simp add: cred)
  have sel: "so_user so = ?u" "so_accessToken so = access" "so_refreshToken so = rtok" "pc_passwordHash ?p = h"
    "pc_passwordSalt ?p = salt" "us_email ?u = Some (normal_email email)"
    by (simp_all add: so)
  show ?thesis
    unfolding sel(1-3,6)
  proof (intro conjI allI impI)
    fix e now assume "normal_email e = normal_email email"
    then show "\<exists>p. login_read now e d' = Inr (?u, p)
        \<and> verifyPassword l password (pc_passwordHash p) (pc_passwordSalt p) = Inr True"
      using log pw by (intro exI [of _ ?p]) (simp only: sel simp_thms)
  next
    fix now assume "now < ac_later c + 30 * 24 * 60 * 60 * 1000"
    from ref [OF this] show "\<exists>r. refresh_read l now rtok d' = Inr (r, ?u)" by (rule exI)
  qed (rule refl acc, assumption?)+
qed

theorem registration_opens_account_witness:
  "\<exists>d so. register sample_lib (sample_call 1 ''a'') (js ''E'') (js ''n'') (js ''pw'') auth_empty = (d, Inr so)
     \<and> authenticate sample_lib 2 (so_accessToken so) d = Inr (so_user so)"
proof -
  obtain d so where run: "register sample_lib (sample_call 1 ''a'') (js ''E'') (js ''n'') (js ''pw'') auth_empty = (d, Inr so)"
    by (simp add: auth_empty_def sample_auth)
  from registration_opens_account [OF sample_laws run] run show ?thesis by (auto simp: sample_call_def)
qed

end
