(* ===== verification/ParserText.thy ===== *)
theory ParserText
  imports TaskEvents
begin

text \<open>
  The parser worker's extraction, \<^verbatim>\<open>apps/file-parser-worker/src/parse-file.ts\<close> and \<^verbatim>\<open>parse-child.ts\<close>:
  which parser a file goes to, the normalisation and limits of its text, spreadsheets as CSV, and
  the answer of the child process. The file system and the PDF, DOCX and XLSX readers are the
  functions of \<open>file_lib\<close>.
\<close>

section \<open>Errors and libraries\<close>

datatype parse_code = FILE_NOT_FOUND | PARSE_FAILED | UNSUPPORTED_FILE_TYPE

text \<open>A \<^verbatim>\<open>ParseFileError\<close>, or any other error by its message.\<close>

datatype parse_exn = ParseFileError parse_code jstr | OtherError jstr

datatype cell = CellNull | CellDate nat | CellObject json | CellValue jstr

record file_lib =
  fl_env :: env
  fl_resolve :: "jstr list \<Rightarrow> jstr"
  fl_access :: "jstr \<Rightarrow> bool"
  fl_basename :: "jstr \<Rightarrow> jstr"
  fl_extname :: "jstr \<Rightarrow> jstr"
  fl_readText :: "jstr \<Rightarrow> jstr + jstr"
  fl_readBytes :: "jstr \<Rightarrow> jstr + bytes"
  fl_pdf :: "bytes \<Rightarrow> jstr + jstr option"
  fl_docx :: "jstr \<Rightarrow> jstr + jstr option"
  fl_xlsx :: "jstr \<Rightarrow> jstr + (jstr \<times> cell list list) list"
  fl_iso :: "nat \<Rightarrow> jstr"
  fl_stringify :: "json \<Rightarrow> jstr"

section \<open>Text\<close>

text \<open>\<^verbatim>\<open>replace(/\r\n?/g, "\n")\<close>, and \<^verbatim>\<open>replace(/\n{3,}/g, "\n\n")\<close> with the length of the current run.\<close>

fun newlines :: "jstr \<Rightarrow> jstr" where
  "newlines [] = []"
| "newlines (c # cs) =
     (if c = 13 then (case cs of d # ds \<Rightarrow> if d = 10 then 10 # newlines ds else 10 # newlines cs | [] \<Rightarrow> [10])
      else c # newlines cs)"

fun collapse_newlines :: "nat \<Rightarrow> jstr \<Rightarrow> jstr" where
  "collapse_newlines n [] = []"
| "collapse_newlines n (c # cs) =
     (if c = 10 then if n < 2 then c # collapse_newlines (Suc n) cs else collapse_newlines n cs
      else c # collapse_newlines 0 cs)"

definition max_extracted_chars :: "env \<Rightarrow> nat" where
  "max_extracted_chars env =
     positive_or 1000000 (case env ''MAX_EXTRACTED_TEXT_CHARS'' of Some v \<Rightarrow> js_number v | None \<Rightarrow> NumInt 1000000)"

definition normalizeExtractedText :: "env \<Rightarrow> jstr \<Rightarrow> jstr" where
  "normalizeExtractedText env t =
     take (max_extracted_chars env) (js_trim (collapse_newlines 0 (filter (\<lambda>c. c \<noteq> 0) (newlines t))))"

definition ensureParsedText :: "env \<Rightarrow> jstr \<Rightarrow> jstr \<Rightarrow> parse_exn + jstr" where
  "ensureParsedText env t label =
     (let normalized = normalizeExtractedText env t
      in if normalized = [] then Inl (ParseFileError PARSE_FAILED (js ''no readable text extracted from '' @ label))
         else Inr normalized)"

section \<open>Spreadsheets\<close>

definition formatSpreadsheetCell :: "file_lib \<Rightarrow> cell \<Rightarrow> jstr" where
  "formatSpreadsheetCell l c =
     (case c of CellNull \<Rightarrow> [] | CellDate n \<Rightarrow> fl_iso l n | CellObject v \<Rightarrow> fl_stringify l v | CellValue s \<Rightarrow> s)"

definition escapeCsvCell :: "jstr \<Rightarrow> jstr" where
  "escapeCsvCell v =
     (if list_ex (\<lambda>c. c \<in> {34, 44, 10}) v
      then [34] @ concat (map (\<lambda>c. if c = 34 then [34, 34] else [c]) v) @ [34] else v)"

definition csv_row :: "file_lib \<Rightarrow> cell list \<Rightarrow> jstr" where
  "csv_row l row = js_join [44] (map (\<lambda>c. escapeCsvCell (formatSpreadsheetCell l c)) (take 256 row))"

definition sheet_csv :: "file_lib \<Rightarrow> cell list list \<Rightarrow> jstr" where
  "sheet_csv l rows =
     normalizeExtractedText (fl_env l)
       (js_join [10] (filter (\<lambda>row. js_trim (filter (\<lambda>c. c \<noteq> 44) row) \<noteq> []) (map (csv_row l) (take 10000 rows))))"

definition sheet_texts :: "file_lib \<Rightarrow> (jstr \<times> cell list list) list \<Rightarrow> jstr list" where
  "sheet_texts l workbook =
     concat (map (\<lambda>(name, rows). let csv = sheet_csv l rows
       in if csv = [] then [] else [js ''Sheet: '' @ name @ [10] @ csv]) (take 20 workbook))"

section \<open>Files\<close>

definition resolveReadablePath :: "file_lib \<Rightarrow> jstr \<Rightarrow> parse_exn + jstr" where
  "resolveReadablePath l p =
     (case find (fl_access l) [fl_resolve l [p], fl_resolve l [js ''..'', js ''..'', p]] of
        Some c \<Rightarrow> Inr c
      | None \<Rightarrow> Inl (ParseFileError FILE_NOT_FOUND (js ''file not found: '' @ p)))"

text \<open>The \<^verbatim>\<open>catch\<close> of a reader: whatever fails, also the check of the text, becomes its own message.\<close>

definition unable :: "file_lib \<Rightarrow> string \<Rightarrow> jstr \<Rightarrow> parse_exn + jstr \<Rightarrow> parse_exn + jstr" where
  "unable l what p r =
     (case r of
        Inr t \<Rightarrow> Inr t
      | Inl _ \<Rightarrow> Inl (ParseFileError PARSE_FAILED
          (js ''unable to extract '' @ js what @ js '' text from '' @ fl_basename l p)))"

definition read_error :: "jstr + 'a \<Rightarrow> parse_exn + 'a" where
  "read_error r = map_sum OtherError id r"

definition parsePdfFile :: "file_lib \<Rightarrow> jstr \<Rightarrow> parse_exn + jstr" where
  "parsePdfFile l p =
     (case read_error (fl_readBytes l p) of
        Inl e \<Rightarrow> Inl e
      | Inr b \<Rightarrow> unable l ''pdf'' p
          (case read_error (fl_pdf l b) of
             Inl e \<Rightarrow> Inl e
           | Inr t \<Rightarrow> ensureParsedText (fl_env l) (case t of Some s \<Rightarrow> s | None \<Rightarrow> []) (fl_basename l p)))"

definition parseDocxFile :: "file_lib \<Rightarrow> jstr \<Rightarrow> parse_exn + jstr" where
  "parseDocxFile l p =
     unable l ''docx'' p
       (case read_error (fl_docx l p) of
          Inl e \<Rightarrow> Inl e
        | Inr t \<Rightarrow> ensureParsedText (fl_env l) (case t of Some s \<Rightarrow> s | None \<Rightarrow> []) (fl_basename l p))"

definition parseSpreadsheetFile :: "file_lib \<Rightarrow> jstr \<Rightarrow> parse_exn + jstr" where
  "parseSpreadsheetFile l p =
     unable l ''spreadsheet'' p
       (case read_error (fl_xlsx l p) of
          Inl e \<Rightarrow> Inl e
        | Inr w \<Rightarrow> ensureParsedText (fl_env l) (js_join [10, 10] (sheet_texts l w)) (fl_basename l p))"

definition parseFile :: "file_lib \<Rightarrow> jstr \<Rightarrow> parse_exn + jstr" where
  "parseFile l p0 =
     (case resolveReadablePath l p0 of
        Inl e \<Rightarrow> Inl e
      | Inr p \<Rightarrow>
          let ext = js_lower (fl_extname l p)
          in if ext \<in> {js ''.md'', js ''.txt'', js ''.csv''}
             then (case read_error (fl_readText l p) of
                     Inl e \<Rightarrow> Inl e
                   | Inr t \<Rightarrow> ensureParsedText (fl_env l) t (fl_basename l p))
             else if ext = js ''.pdf'' then parsePdfFile l p
             else if ext = js ''.docx'' then parseDocxFile l p
             else if ext = js ''.xlsx'' then parseSpreadsheetFile l p
             else Inl (ParseFileError UNSUPPORTED_FILE_TYPE (js ''unsupported file type: '' @ ext)))"

text \<open>The answer the child writes, and its exit code.\<close>

fun code_text :: "parse_code \<Rightarrow> jstr" where
  "code_text FILE_NOT_FOUND = js ''FILE_NOT_FOUND''"
| "code_text PARSE_FAILED = js ''PARSE_FAILED''"
| "code_text UNSUPPORTED_FILE_TYPE = js ''UNSUPPORTED_FILE_TYPE''"

definition failure_json :: "jstr \<Rightarrow> jstr \<Rightarrow> json" where
  "failure_json code message =
     JObj [(js ''ok'', JBool False), (js ''code'', JStr code), (js ''message'', JStr message)]"

definition parse_child :: "file_lib \<Rightarrow> jstr option \<Rightarrow> json \<times> nat" where
  "parse_child l arg =
     (case arg of
        None \<Rightarrow> (failure_json (js ''PARSE_FAILED'') (js ''parser child requires a file path''), 1)
      | Some p \<Rightarrow>
          if p = [] then (failure_json (js ''PARSE_FAILED'') (js ''parser child requires a file path''), 1)
          else (case parseFile l p of
                  Inr t \<Rightarrow> (JObj [(js ''ok'', JBool True), (js ''text'', JStr t)], 0)
                | Inl (ParseFileError c m) \<Rightarrow> (failure_json (code_text c) m, 2)
                | Inl (OtherError m) \<Rightarrow> (failure_json (js ''PARSE_FAILED'') m, 2)))"

section \<open>Limits and form of the text\<close>

lemma newlines_no_cr: "13 \<notin> set (newlines t)"
  by (induction t rule: newlines.induct) (auto split: list.split)

lemma collapse_newlines_set: "set (collapse_newlines n t) \<subseteq> set t"
  by (induction n t rule: collapse_newlines.induct) auto

text \<open>Three line feeds in a row do not occur; \<open>n\<close> of them may come before.\<close>

fun newline_runs :: "nat \<Rightarrow> jstr \<Rightarrow> bool" where
  "newline_runs n [] \<longleftrightarrow> True"
| "newline_runs n (c # cs) \<longleftrightarrow> (if c = 10 then n < 2 \<and> newline_runs (Suc n) cs else newline_runs 0 cs)"

lemma newline_runs_mono: "newline_runs n t \<Longrightarrow> m \<le> n \<Longrightarrow> newline_runs m t"
  by (induction n t arbitrary: m rule: newline_runs.induct) (auto split: if_splits)

lemma newline_runs_collapse: "n \<le> 2 \<Longrightarrow> newline_runs n (collapse_newlines n t)"
proof (induction n t rule: collapse_newlines.induct)
  case (2 n c cs)
  then show ?case by (cases "c = 10"; cases "n < 2") auto
qed simp

lemma newline_runs_take: "newline_runs n t \<Longrightarrow> newline_runs n (take k t)"
  by (induction n t arbitrary: k rule: newline_runs.induct) (auto simp: take_Cons' split: if_splits)

lemma newline_runs_drop: "newline_runs n t \<Longrightarrow> newline_runs 0 (drop k t)"
proof (induction n t arbitrary: k rule: newline_runs.induct)
  case (2 n c cs)
  then show ?case by (cases k) (auto intro: newline_runs_mono split: if_splits)
qed simp

lemma newline_runs_infix: "newline_runs 0 t \<Longrightarrow> t \<noteq> a @ [10, 10, 10] @ b"
  using newline_runs_drop [of 0 t "length a"] by (auto simp: numeral_2_eq_2)

lemma js_trim_window: "\<exists>i k. js_trim t = take k (drop i t)"
proof -
  have "js_trim_end u = take (length u - length (takeWhile js_ws (rev u))) u" for u
    unfolding js_trim_end_def dropWhile_eq_drop rev_drop by simp
  then show ?thesis unfolding js_trim_def js_trim_start_def dropWhile_eq_drop by blast
qed

lemma max_extracted_pos: "0 < max_extracted_chars env"
  by (simp add: max_extracted_chars_def positive_or_pos)

definition clean_text :: "env \<Rightarrow> jstr \<Rightarrow> bool" where
  "clean_text env t \<longleftrightarrow>
     length t \<le> max_extracted_chars env \<and> 0 \<notin> set t \<and> 13 \<notin> set t
     \<and> (\<forall>a b. t \<noteq> a @ [10, 10, 10] @ b) \<and> (t \<noteq> [] \<longrightarrow> \<not> js_ws (hd t))"

lemma normalize_clean: "clean_text env (normalizeExtractedText env t)"
proof -
  let ?c = "collapse_newlines 0 (filter (\<lambda>c. c \<noteq> 0) (newlines t))"
  let ?n = "normalizeExtractedText env t"
  obtain i k where w: "js_trim ?c = take k (drop i ?c)" using js_trim_window by blast
  have sub: "set ?n \<subseteq> set ?c"
    using set_take_subset set_drop_subset unfolding normalizeExtractedText_def w by fastforce
  have "newline_runs 0 ?n"
    unfolding normalizeExtractedText_def w
    by (intro newline_runs_take newline_runs_drop [of 0] newline_runs_collapse) simp
  moreover have "0 \<notin> set ?c" "13 \<notin> set ?c"
    using collapse_newlines_set [of 0 "filter (\<lambda>c. c \<noteq> 0) (newlines t)"] newlines_no_cr [of t] by auto
  moreover have "\<not> js_ws (hd ?n)" if "?n \<noteq> []"
  proof -
    have "js_trim ?c \<noteq> []" "hd ?n = hd (js_trim ?c)"
      using that max_extracted_pos [of env] by (auto simp: normalizeExtractedText_def)
    then show ?thesis using js_trim_clean by simp
  qed
  ultimately show ?thesis
    using sub newline_runs_infix by (auto simp: clean_text_def normalizeExtractedText_def)
qed

lemma ensure_clean: "ensureParsedText env t label = Inr r \<Longrightarrow> clean_text env r \<and> r \<noteq> []"
  by (auto simp: ensureParsedText_def Let_def normalize_clean split: if_splits)

lemma unable_Inr: "unable l what p r = Inr t \<longleftrightarrow> r = Inr t"
  by (auto simp: unable_def split: sum.split)

lemma parsed_clean: "parseFile l p = Inr t \<Longrightarrow> clean_text (fl_env l) t \<and> t \<noteq> []"
  by (auto simp: parseFile_def parsePdfFile_def parseDocxFile_def parseSpreadsheetFile_def Let_def
      unable_Inr ensure_clean split: sum.splits if_splits)

text \<open>
  C31: whatever the file and its type, the text the extraction returns is not empty, within the
  configured limit, starts with no white space, and has no NUL, no carriage return and no three
  line feeds in a row.
\<close>

theorem extracted_text_clean:
  assumes "parseFile l p = Inr t"
  shows "t \<noteq> [] \<and> length t \<le> max_extracted_chars (fl_env l) \<and> 0 \<notin> set t \<and> 13 \<notin> set t
    \<and> (\<forall>a b. t \<noteq> a @ [10, 10, 10] @ b) \<and> \<not> js_ws (hd t)"
  using parsed_clean [OF assms] by (auto simp: clean_text_def)

definition sample_files :: file_lib where
  "sample_files = \<lparr>fl_env = (\<lambda>_. None), fl_resolve = last, fl_access = (\<lambda>_. True), fl_basename = (\<lambda>p. p),
     fl_extname = (\<lambda>p. js ''.txt''), fl_readText = (\<lambda>_. Inr [32, 65, 13, 10, 10, 13, 66, 0]),
     fl_readBytes = (\<lambda>_. Inr []), fl_pdf = (\<lambda>_. Inr None), fl_docx = (\<lambda>_. Inr None), fl_xlsx = (\<lambda>_. Inr []),
     fl_iso = (\<lambda>_. []), fl_stringify = (\<lambda>_. [])\<rparr>"

theorem extracted_text_clean_witness:
  "\<exists>t. parseFile sample_files (js ''a.txt'') = Inr t \<and> \<not> js_ws (hd t)"
proof -
  have "js_lower (js ''.txt'') = js ''.txt''" by (simp add: js_lower_def js_lower_char_def js_def)
  moreover have "normalizeExtractedText (\<lambda>_. None) [32, 65, 13, 10, 10, 13, 66, 0] = [65, 10, 10, 66]"
    by (simp add: normalizeExtractedText_def max_extracted_chars_def positive_or_def max_safe_integer_def
        js_trim_def js_trim_start_def js_trim_end_def js_ws_def)
  ultimately obtain t where t: "parseFile sample_files (js ''a.txt'') = Inr t"
    by (simp add: parseFile_def resolveReadablePath_def sample_files_def read_error_def ensureParsedText_def)
  with extracted_text_clean [OF t] show ?thesis by blast
qed

section \<open>Rows of a sheet\<close>

text \<open>A reader of comma-separated values: outside quotes, inside them, after them.\<close>

datatype csv_state = Plain | Quoted | Closed

fun csv_read :: "csv_state \<Rightarrow> jstr \<Rightarrow> jstr \<Rightarrow> jstr list" where
  "csv_read st acc [] = [acc]"
| "csv_read Plain acc (c # cs) =
     (if c = 44 then acc # csv_read Plain [] cs
      else if c = 34 \<and> acc = [] then csv_read Quoted [] cs
      else csv_read Plain (acc @ [c]) cs)"
| "csv_read Quoted acc (c # cs) = (if c = 34 then csv_read Closed acc cs else csv_read Quoted (acc @ [c]) cs)"
| "csv_read Closed acc (c # cs) =
     (if c = 34 then csv_read Quoted (acc @ [34]) cs
      else if c = 44 then acc # csv_read Plain [] cs else csv_read Plain (acc @ [c]) cs)"

definition csv_cells :: "jstr \<Rightarrow> jstr list" where
  "csv_cells t = csv_read Plain [] t"

definition csv_special :: "jchar \<Rightarrow> bool" where
  "csv_special c \<longleftrightarrow> c \<in> {34, 44, 10}"

lemma read_plain:
  "\<not> list_ex csv_special v \<Longrightarrow> csv_read Plain acc (v @ rest) = csv_read Plain (acc @ v) rest"
  by (induction v arbitrary: acc) (auto simp: csv_special_def)

lemma read_quoted:
  "csv_read Quoted acc (concat (map (\<lambda>c. if c = 34 then [34, 34] else [c]) v) @ 34 # rest) = csv_read Closed (acc @ v) rest"
  by (induction v arbitrary: acc) auto

lemma read_cell:
  "csv_read Plain [] (escapeCsvCell v) = [v]"
  "csv_read Plain [] (escapeCsvCell v @ 44 # rest) = v # csv_read Plain [] rest"
proof -
  have esc: "escapeCsvCell v = (if list_ex csv_special v
      then [34] @ concat (map (\<lambda>c. if c = 34 then [34, 34] else [c]) v) @ [34] else v)"
    by (simp add: escapeCsvCell_def csv_special_def [abs_def])
  show "csv_read Plain [] (escapeCsvCell v) = [v]"
    using read_plain [of v "[]" "[]"] read_quoted [of "[]" v "[]"] by (simp add: esc)
  show "csv_read Plain [] (escapeCsvCell v @ 44 # rest) = v # csv_read Plain [] rest"
    using read_plain [of v "[]" "44 # rest"] read_quoted [of "[]" v "44 # rest"] by (simp add: esc)
qed

text \<open>
  the row of a sheet reads back, as comma-separated values, as the texts of its first 256 cells,
  whatever commas, quotes and line feeds they contain.
\<close>

theorem csv_row_reads_back:
  assumes "row \<noteq> []"
  shows "csv_cells (csv_row l row) = map (formatSpreadsheetCell l) (take 256 row)"
proof -
  have "csv_read Plain [] (js_join [44] (map (\<lambda>c. escapeCsvCell (formatSpreadsheetCell l c)) cs))
      = map (formatSpreadsheetCell l) cs" if "cs \<noteq> []" for cs
    using that
  proof (induction cs)
    case (Cons c cs)
    then show ?case by (cases cs) (simp_all add: read_cell)
  qed simp
  then show ?thesis using assms by (simp add: csv_cells_def csv_row_def)
qed

theorem csv_row_reads_back_witness:
  "csv_cells (csv_row sample_files [CellValue [65, 44, 34], CellNull, CellValue [66]]) = [[65, 44, 34], [], [66]]"
  by (subst csv_row_reads_back) (simp_all add: formatSpreadsheetCell_def)

end
