(* ===== verification/ParserServer.thy ===== *)
theory ParserServer
  imports ParserText
begin

text \<open>
  The parser worker's server, \<^verbatim>\<open>apps/file-parser-worker/src/server.ts\<close>, as a machine. Requests are numbered
  as they arrive; a request that is parsed waits, in turn, for its directory, its body, the file
  and the child process, and each of these is an input of the machine, as are the timer of the
  child and what it prints. The decoding of bytes and of JSON are the functions of \<open>worker_lib\<close>.
\<close>

section \<open>Configuration\<close>

record parser_options =
  po_internalToken :: "jstr option"
  po_maxFileBytes :: jnum
  po_maxExtractedChars :: jnum
  po_timeoutMs :: jnum

record worker_lib =
  wk_encode :: "jstr \<Rightarrow> bytes"
  wk_decode :: "bytes \<Rightarrow> jstr"
  wk_json :: "jstr \<Rightarrow> json option"

definition po_fileBytes :: "parser_options \<Rightarrow> nat" where
  "po_fileBytes o' = positive_or (25 * 1024 * 1024) (po_maxFileBytes o')"

definition po_timeout :: "parser_options \<Rightarrow> nat" where
  "po_timeout o' = positive_or 15000 (po_timeoutMs o')"

definition po_chars :: "parser_options \<Rightarrow> nat" where
  "po_chars o' = min (positive_or 1000000 (po_maxExtractedChars o')) 1000000"

definition po_outputBytes :: "parser_options \<Rightarrow> nat" where
  "po_outputBytes o' = po_chars o' * 6 + 4096"

text \<open>\<^verbatim>\<open>main.ts\<close>: the options, or the refusal to start.\<close>

definition parser_main :: "env \<Rightarrow> jstr + parser_options" where
  "parser_main env =
     (let token = env ''FILE_PARSER_INTERNAL_TOKEN'';
          num = (\<lambda>k d. NumInt (int (positive_or d (opt_number (env k)))))
      in if env ''NODE_ENV'' = Some (js ''production'')
            \<and> (case token of None \<Rightarrow> True | Some t \<Rightarrow> length t < 24)
         then Inl (js ''FILE_PARSER_INTERNAL_TOKEN with at least 24 characters is required in production'')
         else Inr \<lparr>po_internalToken = token, po_maxFileBytes = num ''MAX_PARSE_FILE_BYTES'' (25 * 1024 * 1024),
                   po_maxExtractedChars = num ''MAX_EXTRACTED_TEXT_CHARS'' 1000000,
                   po_timeoutMs = num ''FILE_PARSE_TIMEOUT_MS'' 15000\<rparr>)"

section \<open>State\<close>

record parse_request =
  pq_method :: jstr
  pq_url :: jstr
  pq_authorization :: "jstr option"
  pq_extension :: "jstr option"
  pq_contentLength :: jnum

text \<open>Where a request being parsed is: the directory, the chunks so far, what the child printed.\<close>

datatype job =
    MakingDir parse_request jstr
  | Reading jstr jstr "bytes list" nat
  | Writing jstr jstr bytes
  | Parsing jstr "bytes list" nat "bytes list"

datatype response_body = JsonBody json | TextBody jstr

record parser_server =
  pv_active :: nat
  pv_total :: nat
  pv_failed :: nat
  pv_next :: nat
  pv_jobs :: "(nat, job) jmap"
  pv_dirs :: "jstr list"
  pv_responses :: "(nat \<times> nat \<times> response_body) list"
  pv_killed :: "nat list"

definition parser_start :: parser_server where
  "parser_start = \<lparr>pv_active = 0, pv_total = 0, pv_failed = 0, pv_next = 0, pv_jobs = [], pv_dirs = [],
     pv_responses = [], pv_killed = []\<rparr>"

section \<open>Requests\<close>

definition tokenMatches :: "worker_lib \<Rightarrow> jstr option \<Rightarrow> jstr option \<Rightarrow> bool" where
  "tokenMatches l authorization expectedToken =
     (case expectedToken of
        None \<Rightarrow> True
      | Some t \<Rightarrow>
          if t = [] then True
          else (case authorization of
                  None \<Rightarrow> False
                | Some h \<Rightarrow> js_starts_with h (js ''Bearer '') \<and> wk_encode l (drop 7 h) = wk_encode l t))"

definition ALLOWED_EXTENSIONS :: "jstr list" where
  "ALLOWED_EXTENSIONS = [js ''.csv'', js ''.docx'', js ''.md'', js ''.pdf'', js ''.txt'', js ''.xlsx'']"

definition request_extension :: "parse_request \<Rightarrow> jstr" where
  "request_extension q =
     (let raw = js_lower (case pq_extension q of Some e \<Rightarrow> e | None \<Rightarrow> [])
      in if js_starts_with raw [46] then raw else 46 # raw)"

definition respond :: "nat \<Rightarrow> nat \<Rightarrow> response_body \<Rightarrow> parser_server \<Rightarrow> parser_server" where
  "respond i status body s = s\<lparr>pv_responses := pv_responses s @ [(i, status, body)]\<rparr>"

definition error_body :: "string \<Rightarrow> jstr \<Rightarrow> response_body" where
  "error_body code message = JsonBody (JObj [(js ''code'', JStr (js code)), (js ''message'', JStr message)])"

definition metrics_text :: "parser_server \<Rightarrow> jstr" where
  "metrics_text s = js_join [10]
     [js ''# TYPE clawwork_parser_requests_total counter'', js ''clawwork_parser_requests_total '' @ js_of_nat (pv_total s),
      js ''# TYPE clawwork_parser_failures_total counter'', js ''clawwork_parser_failures_total '' @ js_of_nat (pv_failed s),
      js ''# TYPE clawwork_parser_active gauge'', js ''clawwork_parser_active '' @ js_of_nat (pv_active s), []]"

definition capacity :: nat where
  "capacity = 4"

definition on_request :: "worker_lib \<Rightarrow> parser_options \<Rightarrow> parse_request \<Rightarrow> parser_server \<Rightarrow> parser_server" where
  "on_request l op q s0 =
     (let i = pv_next s0; s = s0\<lparr>pv_next := Suc i\<rparr>; get = (pq_method q = js ''GET'')
      in if get \<and> pq_url q = js ''/health/live''
         then respond i 200 (JsonBody (JObj [(js ''status'', JStr (js ''ok''))])) s
         else if get \<and> pq_url q = js ''/health/ready''
         then respond i (if pv_active s < capacity then 200 else 503)
                (JsonBody (JObj [(js ''status'', JStr (js (if pv_active s < capacity then ''ready'' else ''busy''))),
                                 (js ''activeParses'', JInt (int (pv_active s)))])) s
         else if get \<and> pq_url q = js ''/metrics'' then respond i 200 (TextBody (metrics_text s)) s
         else if pq_method q \<noteq> js ''POST'' \<or> pq_url q \<noteq> js ''/parse''
         then respond i 404 (error_body ''NOT_FOUND'' (js ''route not found'')) s
         else if \<not> tokenMatches l (pq_authorization q) (po_internalToken op)
         then respond i 401 (error_body ''UNAUTHORIZED'' (js ''invalid parser token'')) s
         else if pv_active s \<ge> capacity
         then respond i 503 (error_body ''PARSER_BUSY'' (js ''parser capacity exhausted'')) s
         else if request_extension q \<notin> set ALLOWED_EXTENSIONS
         then respond i 415 (error_body ''UNSUPPORTED_FILE_TYPE'' (js ''unsupported file type: '' @ request_extension q)) s
         else s\<lparr>pv_active := pv_active s + 1, pv_total := pv_total s + 1,
                pv_jobs := jm_set i (MakingDir q (request_extension q)) (pv_jobs s)\<rparr>)"

section \<open>The end of a request\<close>

text \<open>\<^verbatim>\<open>finally\<close>: one parse less, and the directory goes.\<close>

definition job_dir :: "job \<Rightarrow> jstr option" where
  "job_dir j = (case j of MakingDir _ _ \<Rightarrow> None | Reading d _ _ _ \<Rightarrow> Some d | Writing d _ _ \<Rightarrow> Some d
                | Parsing d _ _ _ \<Rightarrow> Some d)"

definition end_job :: "nat \<Rightarrow> parser_server \<Rightarrow> parser_server" where
  "end_job i s =
     (let dir = Option.bind (jm_get (pv_jobs s) i) job_dir
      in s\<lparr>pv_active := pv_active s - 1, pv_jobs := jm_delete i (pv_jobs s),
           pv_dirs := filter (\<lambda>d. Some d \<noteq> dir) (pv_dirs s)\<rparr>)"

text \<open>The \<^verbatim>\<open>catch\<close>: the status the error carries, or 422.\<close>

definition fail_job :: "nat \<Rightarrow> nat option \<Rightarrow> jstr \<Rightarrow> parser_server \<Rightarrow> parser_server" where
  "fail_job i statusCode message s =
     (let status = (case statusCode of Some c \<Rightarrow> c | None \<Rightarrow> 422)
      in end_job i (respond i status
           (JsonBody (failure_json (js (if status = 413 then ''FILE_TOO_LARGE'' else ''PARSE_FAILED'')) message))
           (s\<lparr>pv_failed := pv_failed s + 1\<rparr>)))"

text \<open>A result of the child; one that claims success without a text is an error.\<close>

definition finish_job :: "nat \<Rightarrow> json \<Rightarrow> parser_server \<Rightarrow> parser_server" where
  "finish_job i v s =
     (if jprop v (js ''ok'') = Some (JBool False)
      then end_job i (respond i (if jprop v (js ''code'') = Some (JStr (js ''UNSUPPORTED_FILE_TYPE'')) then 415 else 422)
             (JsonBody v) (s\<lparr>pv_failed := pv_failed s + 1\<rparr>))
      else if jprop v (js ''text'') \<in> {None, Some JNull}
      then fail_job i None (js ''Cannot read properties of undefined (reading 'length')'') s
      else end_job i (respond i 200 (JsonBody v) s))"

section \<open>Steps of a parse\<close>

datatype parser_in =
    Request parse_request
  | DirMade nat "jstr + jstr"
  | BodyChunk nat bytes
  | BodyEnd nat
  | BodyError nat jstr
  | FileWritten nat "jstr option"
  | ChildOut nat bytes
  | ChildErr nat bytes
  | ChildFailed nat jstr
  | ChildClosed nat
  | ParseTimer nat

definition too_large :: jstr where
  "too_large = js ''file exceeds parser size limit''"

definition set_job :: "nat \<Rightarrow> job \<Rightarrow> parser_server \<Rightarrow> parser_server" where
  "set_job i j s = s\<lparr>pv_jobs := jm_set i j (pv_jobs s)\<rparr>"

definition declared_too_large :: "parser_options \<Rightarrow> parse_request \<Rightarrow> bool" where
  "declared_too_large op q \<longleftrightarrow> (case pq_contentLength q of NumInt n \<Rightarrow> n > int (po_fileBytes op) | _ \<Rightarrow> False)"

definition dir_made :: "parser_options \<Rightarrow> nat \<Rightarrow> jstr + jstr \<Rightarrow> parser_server \<Rightarrow> parser_server" where
  "dir_made op i r s =
     (case jm_get (pv_jobs s) i of
        Some (MakingDir q ext) \<Rightarrow>
          (case r of
             Inl e \<Rightarrow> fail_job i None e s
           | Inr d \<Rightarrow>
               let s1 = set_job i (Reading d (js ''input'' @ ext) [] 0) (s\<lparr>pv_dirs := pv_dirs s @ [d]\<rparr>)
               in if declared_too_large op q then fail_job i (Some 413) too_large s1 else s1)
      | _ \<Rightarrow> s)"

definition body_chunk :: "parser_options \<Rightarrow> nat \<Rightarrow> bytes \<Rightarrow> parser_server \<Rightarrow> parser_server" where
  "body_chunk op i b s =
     (case jm_get (pv_jobs s) i of
        Some (Reading d p cs n) \<Rightarrow>
          if n + length b > po_fileBytes op then fail_job i (Some 413) too_large s
          else set_job i (Reading d p (cs @ [b]) (n + length b)) s
      | _ \<Rightarrow> s)"

definition body_end :: "nat \<Rightarrow> parser_server \<Rightarrow> parser_server" where
  "body_end i s =
     (case jm_get (pv_jobs s) i of
        Some (Reading d p cs n) \<Rightarrow>
          if n = 0 then fail_job i (Some 400) (js ''empty file body'') s else set_job i (Writing d p (concat cs)) s
      | _ \<Rightarrow> s)"

definition body_error :: "nat \<Rightarrow> jstr \<Rightarrow> parser_server \<Rightarrow> parser_server" where
  "body_error i e s =
     (case jm_get (pv_jobs s) i of Some (Reading _ _ _ _) \<Rightarrow> fail_job i None e s | _ \<Rightarrow> s)"

definition file_written :: "nat \<Rightarrow> jstr option \<Rightarrow> parser_server \<Rightarrow> parser_server" where
  "file_written i e s =
     (case jm_get (pv_jobs s) i of
        Some (Writing d p b) \<Rightarrow>
          (case e of Some m \<Rightarrow> fail_job i None m s | None \<Rightarrow> set_job i (Parsing d [] 0 []) s)
      | _ \<Rightarrow> s)"

definition kill_child :: "nat \<Rightarrow> parser_server \<Rightarrow> parser_server" where
  "kill_child i s = s\<lparr>pv_killed := pv_killed s @ [i]\<rparr>"

definition child_out :: "parser_options \<Rightarrow> nat \<Rightarrow> bytes \<Rightarrow> parser_server \<Rightarrow> parser_server" where
  "child_out op i b s =
     (case jm_get (pv_jobs s) i of
        Some (Parsing d out n err) \<Rightarrow>
          if n + length b > po_outputBytes op
          then fail_job i None (js ''parser output exceeded the configured limit'') (kill_child i s)
          else set_job i (Parsing d (out @ [b]) (n + length b) err) s
      | _ \<Rightarrow> s)"

definition child_err :: "nat \<Rightarrow> bytes \<Rightarrow> parser_server \<Rightarrow> parser_server" where
  "child_err i b s =
     (case jm_get (pv_jobs s) i of
        Some (Parsing d out n err) \<Rightarrow>
          if length (concat err) < 16384 then set_job i (Parsing d out n (err @ [b])) s else s
      | _ \<Rightarrow> s)"

definition child_answer :: "worker_lib \<Rightarrow> bytes list \<Rightarrow> json option" where
  "child_answer l out =
     (case wk_json l (wk_decode l (concat out)) of
        None \<Rightarrow> None
      | Some v \<Rightarrow> (case jprop v (js ''ok'') of Some (JBool _) \<Rightarrow> Some v | _ \<Rightarrow> None))"

definition child_closed :: "worker_lib \<Rightarrow> nat \<Rightarrow> parser_server \<Rightarrow> parser_server" where
  "child_closed l i s =
     (case jm_get (pv_jobs s) i of
        Some (Parsing d out n err) \<Rightarrow>
          (case child_answer l out of
             Some v \<Rightarrow> finish_job i v s
           | None \<Rightarrow>
               let detail = take 512 (js_trim (wk_decode l (concat err)))
               in fail_job i None (if detail = [] then js ''parser child returned no valid response'' else detail) s)
      | _ \<Rightarrow> s)"

definition child_failed :: "nat \<Rightarrow> jstr \<Rightarrow> parser_server \<Rightarrow> parser_server" where
  "child_failed i e s =
     (case jm_get (pv_jobs s) i of Some (Parsing _ _ _ _) \<Rightarrow> fail_job i None e s | _ \<Rightarrow> s)"

definition parse_timer :: "parser_options \<Rightarrow> nat \<Rightarrow> parser_server \<Rightarrow> parser_server" where
  "parse_timer op i s =
     (case jm_get (pv_jobs s) i of
        Some (Parsing _ _ _ _) \<Rightarrow>
          fail_job i None (js ''file parsing exceeded '' @ js_of_nat (po_timeout op) @ js ''ms'') (kill_child i s)
      | _ \<Rightarrow> s)"

fun parser_step :: "worker_lib \<Rightarrow> parser_options \<Rightarrow> parser_in \<Rightarrow> parser_server \<Rightarrow> parser_server" where
  "parser_step l op (Request q) s = on_request l op q s"
| "parser_step l op (DirMade i r) s = dir_made op i r s"
| "parser_step l op (BodyChunk i b) s = body_chunk op i b s"
| "parser_step l op (BodyEnd i) s = body_end i s"
| "parser_step l op (BodyError i e) s = body_error i e s"
| "parser_step l op (FileWritten i e) s = file_written i e s"
| "parser_step l op (ChildOut i b) s = child_out op i b s"
| "parser_step l op (ChildErr i b) s = child_err i b s"
| "parser_step l op (ChildFailed i e) s = child_failed i e s"
| "parser_step l op (ChildClosed i) s = child_closed l i s"
| "parser_step l op (ParseTimer i) s =
     parse_timer op i s"

end
