(* ===== verification/ParserRuns.thy ===== *)
theory ParserRuns
  imports ParserServer
begin

text \<open>
  The parser worker under any sequence of inputs: what it has in progress, what it has answered and
  what it keeps in memory; the end of a parse; and the answer to a file that can be extracted.
\<close>

section \<open>Requests in progress and answered\<close>

definition job_ok :: "parser_options \<Rightarrow> job \<Rightarrow> bool" where
  "job_ok op j \<longleftrightarrow>
     (case j of
        MakingDir _ _ \<Rightarrow> True
      | Reading _ _ cs n \<Rightarrow> n = length (concat cs) \<and> n \<le> po_fileBytes op
      | Writing _ _ b \<Rightarrow> b \<noteq> [] \<and> length b \<le> po_fileBytes op
      | Parsing _ out n _ \<Rightarrow> n = length (concat out) \<and> n \<le> po_outputBytes op)"

definition jobs_ok :: "parser_options \<Rightarrow> parser_server \<Rightarrow> bool" where
  "jobs_ok op s \<longleftrightarrow>
     jm_ok (pv_jobs s) \<and> pv_active s = length (pv_jobs s) \<and> length (pv_jobs s) \<le> capacity
     \<and> (\<forall>i j. jm_get (pv_jobs s) i = Some j \<longrightarrow> i < pv_next s \<and> job_ok op j)"

definition answers_ok :: "parser_server \<Rightarrow> bool" where
  "answers_ok s \<longleftrightarrow>
     distinct (map fst (pv_responses s))
     \<and> (\<forall>i. i \<in> fst ` set (pv_responses s) \<longleftrightarrow> i < pv_next s \<and> jm_get (pv_jobs s) i = None)"

definition counts_ok :: "parser_server \<Rightarrow> bool" where
  "counts_ok s \<longleftrightarrow> pv_failed s + length (pv_jobs s) \<le> pv_total s \<and> pv_total s \<le> pv_next s"

definition dirs_ok :: "parser_server \<Rightarrow> bool" where
  "dirs_ok s \<longleftrightarrow>
     (\<forall>d \<in> set (pv_dirs s). \<exists>i j. jm_get (pv_jobs s) i = Some j \<and> job_dir j = Some d)"

definition parser_inv :: "parser_options \<Rightarrow> parser_server \<Rightarrow> bool" where
  "parser_inv op s \<longleftrightarrow> jobs_ok op s \<and> answers_ok s \<and> counts_ok s \<and> dirs_ok s"

lemmas parser_inv_defs = parser_inv_def jobs_ok_def answers_ok_def counts_ok_def dirs_ok_def

lemma jm_length:
  "length (jm_set k v m) = (if jm_get m k = None then Suc (length m) else length m)"
  "jm_ok m \<Longrightarrow> length (jm_delete k m) = (if jm_get m k = None then length m else length m - 1)"
proof -
  show "length (jm_set k v m) = (if jm_get m k = None then Suc (length m) else length m)"
    unfolding jm_set_def jm_get_def by (induction m) auto
  have "length (AList.delete k m) = (if map_of m k = None then length m else length m - 1)" if "distinct (map fst m)"
    using that
  proof (induction m)
    case (Cons x m)
    obtain a b where x: "x = (a, b)" by fastforce
    show ?case
    proof (cases "a = k")
      case True
      then have "map_of m k = None" using Cons.prems by (simp add: x map_of_eq_None_iff)
      then show ?thesis using Cons True by (simp add: x)
    next
      case False
      then show ?thesis using Cons by (cases m) (auto simp: x)
    qed
  qed simp
  then show "jm_ok m \<Longrightarrow> length (jm_delete k m) = (if jm_get m k = None then length m else length m - 1)"
    by (simp add: jm_ok_def jm_delete_def jm_get_def)
qed

text \<open>An answer that ends a job.\<close>

definition answered :: "nat \<Rightarrow> nat \<Rightarrow> response_body \<Rightarrow> nat \<Rightarrow> parser_server \<Rightarrow> parser_server" where
  "answered i status body k s = end_job i (respond i status body (s\<lparr>pv_failed := pv_failed s + k\<rparr>))"

lemma jobs_nonempty: "jm_get (pv_jobs s) i = Some j \<Longrightarrow> 0 < length (pv_jobs s)"
  by (cases "pv_jobs s") simp_all

lemma answered_inv:
  assumes inv: "parser_inv op s" and job: "jm_get (pv_jobs s) i = Some j" and k: "k \<le> 1"
  shows "parser_inv op (answered i status body k s)"
proof -
  let ?s = "answered i status body k s"
  note fields = answered_def end_job_def respond_def Let_def
  have len: "length (pv_jobs ?s) = length (pv_jobs s) - 1" "0 < length (pv_jobs s)"
    using inv job jobs_nonempty by (simp_all add: fields jm_length parser_inv_defs)
  have "jobs_ok op ?s" using inv len by (simp add: jobs_ok_def parser_inv_def) (auto simp: fields)
  moreover have "answers_ok ?s" using inv job by (auto simp: parser_inv_defs fields)
  moreover obtain n where "length (pv_jobs s) = Suc n" using len(2) by (cases "length (pv_jobs s)") simp_all
  then have "counts_ok ?s" using inv len(1) k by (simp add: parser_inv_def counts_ok_def) (simp add: fields)
  moreover have "dirs_ok ?s"
  proof -
    have "\<exists>i' j'. jm_get (jm_delete i (pv_jobs s)) i' = Some j' \<and> job_dir j' = Some d"
      if "d \<in> set (pv_dirs s)" "Some d \<noteq> job_dir j" for d
      using inv that job by (auto simp: parser_inv_def dirs_ok_def) (metis option.inject)
    then show ?thesis using job by (simp add: dirs_ok_def fields)
  qed
  ultimately show ?thesis by (simp add: parser_inv_def)
qed

lemma fail_job_answered:
  "\<exists>b. fail_job i c m s = answered i (case c of Some n \<Rightarrow> n | None \<Rightarrow> 422) (JsonBody b) 1 s"
  by (auto simp: fail_job_def answered_def Let_def)

lemma fail_job_inv: "parser_inv op s \<Longrightarrow> jm_get (pv_jobs s) i = Some j \<Longrightarrow> parser_inv op (fail_job i c m s)"
  using fail_job_answered [of i c m s] answered_inv by fastforce

lemma finish_job_answered:
  "\<exists>st b k. finish_job i v s = answered i st (JsonBody b) k s \<and> st \<in> {200, 415, 422} \<and> k \<le> 1"
proof (cases "jprop v (js ''ok'') = Some (JBool False)")
  case True
  then have "finish_job i v s = answered i (if jprop v (js ''code'') = Some (JStr (js ''UNSUPPORTED_FILE_TYPE''))
      then 415 else 422) (JsonBody v) 1 s"
    by (simp add: finish_job_def answered_def)
  moreover have "(if c then 415 else 422 :: nat) \<in> {200, 415, 422}" for c by simp
  ultimately show ?thesis by blast
next
  case no: False
  show ?thesis
  proof (cases "jprop v (js ''text'') \<in> {None, Some JNull}")
    case True
    then have "finish_job i v s = fail_job i None (js ''Cannot read properties of undefined (reading 'length')'') s"
      using no by (simp only: finish_job_def if_False if_True)
    then show ?thesis using fail_job_answered [of i None _ s] by fastforce
  next
    case False
    then have "finish_job i v s = answered i 200 (JsonBody v) 0 s"
      using no by (simp only: finish_job_def if_False answered_def) simp
    then show ?thesis by blast
  qed
qed

lemma finish_job_inv: "parser_inv op s \<Longrightarrow> jm_get (pv_jobs s) i = Some j \<Longrightarrow> parser_inv op (finish_job i v s)"
  using answered_inv [of op s i j 1] answered_inv [of op s i j 0] fail_job_inv
  by (simp add: finish_job_def answered_def)

lemma set_job_inv:
  assumes "parser_inv op s" "jm_get (pv_jobs s) i = Some j0" "job_ok op j"
    and "job_dir j0 \<in> {None, job_dir j}" "set ds \<subseteq> {d. job_dir j = Some d}"
  shows "parser_inv op (set_job i j (s\<lparr>pv_dirs := pv_dirs s @ ds\<rparr>))"
proof -
  let ?s = "set_job i j (s\<lparr>pv_dirs := pv_dirs s @ ds\<rparr>)"
  have "jobs_ok op ?s" "answers_ok ?s" "counts_ok ?s"
    using assms(1-3) by (auto simp: parser_inv_defs set_job_def jm_length)
  moreover have "dirs_ok ?s"
  proof -
    have "\<exists>i' j'. jm_get (jm_set i j (pv_jobs s)) i' = Some j' \<and> job_dir j' = Some d"
      if "d \<in> set (pv_dirs s) \<or> job_dir j = Some d" for d
      using assms(1,2,4) that by (auto simp: parser_inv_def dirs_ok_def) (metis option.inject option.distinct(1))+
    moreover have "d \<in> set (pv_dirs s) \<or> job_dir j = Some d" if "d \<in> set (pv_dirs ?s)" for d
      using that assms(5) by (auto simp: set_job_def)
    moreover have "pv_jobs ?s = jm_set i j (pv_jobs s)" by (simp add: set_job_def)
    ultimately show ?thesis unfolding dirs_ok_def by metis
  qed
  ultimately show ?thesis by (simp add: parser_inv_def)
qed

lemma kill_child_inv [simp]:
  "parser_inv op (kill_child i s) = parser_inv op s" "pv_jobs (kill_child i s) = pv_jobs s"
  by (simp_all add: parser_inv_defs kill_child_def)

lemma on_request_inv:
  assumes "parser_inv op s"
  shows "parser_inv op (on_request l op q s)"
proof -
  let ?i = "pv_next s"
  have new: "jm_get (pv_jobs s) ?i = None" using assms by (fastforce simp: parser_inv_defs)
  have "parser_inv op (respond ?i status body (s\<lparr>pv_next := Suc ?i\<rparr>))" for status body
    using assms new by (auto simp: parser_inv_defs respond_def less_Suc_eq)
  moreover have "parser_inv op (s\<lparr>pv_next := Suc ?i, pv_active := pv_active s + 1, pv_total := pv_total s + 1,
      pv_jobs := jm_set ?i (MakingDir q e) (pv_jobs s)\<rparr>)" if "pv_active s < capacity" for e
  proof -
    let ?s = "s\<lparr>pv_next := Suc ?i, pv_active := pv_active s + 1, pv_total := pv_total s + 1,
      pv_jobs := jm_set ?i (MakingDir q e) (pv_jobs s)\<rparr>"
    have "jobs_ok op ?s" using assms new that by (auto simp: parser_inv_defs jm_length job_ok_def less_Suc_eq)
    moreover have "answers_ok ?s" using assms new by (auto simp: parser_inv_defs less_Suc_eq)
    moreover have "counts_ok ?s" using assms new by (auto simp: parser_inv_defs jm_length)
    moreover have "dirs_ok ?s"
      using assms new by (simp add: parser_inv_def dirs_ok_def) (metis option.distinct(1))
    ultimately show ?thesis by (simp add: parser_inv_def)
  qed
  ultimately show ?thesis by (simp add: on_request_def Let_def)
qed

lemma set_job_same:
  assumes "parser_inv op s" "jm_get (pv_jobs s) i = Some j0" "job_ok op j" "job_dir j0 = job_dir j"
  shows "parser_inv op (set_job i j s)"
  using set_job_inv [of op s i j0 j "[]"] assms by simp

lemma job_bounds: "parser_inv op s \<Longrightarrow> jm_get (pv_jobs s) i = Some j \<Longrightarrow> job_ok op j"
  by (simp add: parser_inv_defs)

lemma parser_inv_step:
  assumes "parser_inv op s"
  shows "parser_inv op (parser_step l op i s)"
proof -
  note keep = assms fail_job_inv [OF assms] finish_job_inv [OF assms] set_job_same [OF assms] job_bounds [OF assms]
  show ?thesis
  proof (cases i)
    case (DirMade k r)
    have "parser_inv op (set_job k (Reading d p [] 0) (s\<lparr>pv_dirs := pv_dirs s @ [d]\<rparr>))"
      "jm_get (pv_jobs (set_job k (Reading d p [] 0) (s\<lparr>pv_dirs := pv_dirs s @ [d]\<rparr>))) k = Some (Reading d p [] 0)"
      if "jm_get (pv_jobs s) k = Some (MakingDir q e)" for q e d p
      using set_job_inv [OF assms that, of "Reading d p [] 0" "[d]"] by (simp_all add: job_ok_def job_dir_def set_job_def)
    then show ?thesis
      using keep(2) by (auto simp: DirMade dir_made_def Let_def assms fail_job_inv split: option.split job.split sum.split)
  next
    case (BodyChunk k b)
    have "parser_inv op (set_job k (Reading d p (cs @ [b]) (n + length b)) s)"
      if "jm_get (pv_jobs s) k = Some (Reading d p cs n)" "n + length b \<le> po_fileBytes op" for d p cs n
      using job_bounds [OF assms that(1)] that by (intro keep(4) [OF that(1)]) (simp_all add: job_ok_def job_dir_def)
    then show ?thesis by (auto simp: BodyChunk body_chunk_def intro!: keep(1,2) split: option.split job.split)
  next
    case (BodyEnd k)
    have "parser_inv op (set_job k (Writing d p (concat cs)) s)"
      if "jm_get (pv_jobs s) k = Some (Reading d p cs n)" "0 < n" for d p cs n
      using job_bounds [OF assms that(1)] that by (intro keep(4) [OF that(1)]) (auto simp: job_ok_def job_dir_def)
    then show ?thesis by (auto simp: BodyEnd body_end_def intro!: keep(1,2) split: option.split job.split)
  next
    case (FileWritten k e)
    then show ?thesis
      by (auto simp: file_written_def job_ok_def job_dir_def intro!: keep(1,2) keep(4) split: option.split job.split)
  next
    case (ChildOut k b)
    have "parser_inv op (set_job k (Parsing d (cs @ [b]) (n + length b) err) s)"
      if "jm_get (pv_jobs s) k = Some (Parsing d cs n err)" "n + length b \<le> po_outputBytes op" for d cs n err
      using job_bounds [OF assms that(1)] that by (intro keep(4) [OF that(1)]) (simp_all add: job_ok_def job_dir_def)
    then show ?thesis
      by (auto simp: ChildOut child_out_def assms intro!: fail_job_inv split: option.split job.split)
  next
    case (ChildErr k b)
    have "parser_inv op (set_job k (Parsing d cs n (err @ [b])) s)"
      if "jm_get (pv_jobs s) k = Some (Parsing d cs n err)" for d cs n err
      using job_bounds [OF assms that] that by (intro keep(4) [OF that]) (simp_all add: job_ok_def job_dir_def)
    then show ?thesis by (auto simp: ChildErr child_err_def assms split: option.split job.split)
  next
    case (ChildClosed k)
    then show ?thesis
      by (auto simp: child_closed_def Let_def intro!: keep(1,2,3) split: option.split job.split)
  qed (auto simp: on_request_inv assms body_error_def child_failed_def parse_timer_def intro!: fail_job_inv
      split: option.split job.split)
qed

interpretation parser_machine: machine "parser_step l op" "parser_inv op"
  by unfold_locales (rule parser_inv_step)

lemma parser_inv_start: "parser_inv op parser_start"
  by (simp add: parser_inv_defs parser_start_def)


definition sample_worker :: worker_lib where
  "sample_worker = \<lparr>wk_encode = map ucast, wk_decode = map ucast, wk_json = (\<lambda>_. None)\<rparr>"

definition sample_options :: parser_options where
  "sample_options = \<lparr>po_internalToken = None, po_maxFileBytes = NumNaN, po_maxExtractedChars = NumNaN, po_timeoutMs = NumNaN\<rparr>"

definition sample_request :: parse_request where
  "sample_request = \<lparr>pq_method = js ''POST'', pq_url = js ''/parse'', pq_authorization = None,
     pq_extension = Some (js ''txt''), pq_contentLength = NumNaN\<rparr>"

lemma sample_extension: "request_extension sample_request = js ''.txt''"
  by (simp add: request_extension_def sample_request_def js_lower_def js_lower_char_def js_starts_with_def js_def Let_def)

lemma sample_admitted:
  "pv_active s < 4 \<Longrightarrow> on_request sample_worker sample_options sample_request s =
     s\<lparr>pv_next := Suc (pv_next s), pv_active := pv_active s + 1, pv_total := pv_total s + 1,
       pv_jobs := jm_set (pv_next s) (MakingDir sample_request (js ''.txt'')) (pv_jobs s)\<rparr>"
  "\<not> pv_active s < 4 \<Longrightarrow> pv_responses (on_request sample_worker sample_options sample_request s) =
     pv_responses s @ [(pv_next s, 503, error_body ''PARSER_BUSY'' (js ''parser capacity exhausted''))]"
  by (simp_all add: on_request_def Let_def sample_extension ALLOWED_EXTENSIONS_def capacity_def tokenMatches_def
      sample_options_def respond_def) (simp_all add: sample_request_def)


section \<open>The end of a parse\<close>


definition sample_parse_run :: "parser_in list" where
  "sample_parse_run = [Request sample_request, DirMade 0 (Inr (js ''d'')), BodyChunk 0 [65], BodyEnd 0, FileWritten 0 None]"

lemma sample_limits: "\<not> declared_too_large sample_options sample_request" "po_fileBytes sample_options = 25 * 1024 * 1024"
  by (simp_all add: declared_too_large_def sample_request_def po_fileBytes_def sample_options_def positive_or_def)

lemma sample_parsing:
  "jm_get (pv_jobs (fold (parser_step sample_worker sample_options) sample_parse_run parser_start)) 0
     = Some (Parsing (js ''d'') [] 0 [])"
  "pv_responses (fold (parser_step sample_worker sample_options) sample_parse_run parser_start) = []"
  by (simp_all add: sample_parse_run_def sample_admitted parser_start_def dir_made_def sample_limits
      body_chunk_def body_end_def file_written_def set_job_def Let_def)


section \<open>The answer to a file that can be extracted\<close>

definition text_answer :: "jstr \<Rightarrow> json" where
  "text_answer t = JObj [(js ''ok'', JBool True), (js ''text'', JStr t)]"

text \<open>What JSON and UTF-8 are documented to do with the answer of the child: six bytes a unit at most.\<close>

definition answer_laws :: "worker_lib \<Rightarrow> file_lib \<Rightarrow> bool" where
  "answer_laws l fl \<longleftrightarrow>
     (\<forall>t. wk_json l (wk_decode l (wk_encode l (fl_stringify fl (text_answer t)))) = Some (text_answer t)
        \<and> length (wk_encode l (fl_stringify fl (text_answer t))) \<le> 6 * length t + 64)"

lemma fold_child_out:
  assumes "jm_get (pv_jobs s) i = Some (Parsing d cs n err)" "n + length (concat out) \<le> po_outputBytes op"
  shows "\<exists>s'. fold (parser_step l op) (map (ChildOut i) out) s = s' \<and> pv_responses s' = pv_responses s
    \<and> jm_get (pv_jobs s') i = Some (Parsing d (cs @ out) (n + length (concat out)) err)"
  using assms
proof (induction out arbitrary: s cs n)
  case (Cons b out)
  have step: "child_out op i b s = set_job i (Parsing d (cs @ [b]) (n + length b) err) s"
    using Cons.prems by (simp add: child_out_def)
  have "jm_get (pv_jobs (child_out op i b s)) i = Some (Parsing d (cs @ [b]) (n + length b) err)"
    "pv_responses (child_out op i b s) = pv_responses s"
    by (simp_all add: step set_job_def)
  from Cons.IH [OF this(1)] this(2) Cons.prems(2) show ?case by (simp add: add.assoc)
qed simp

text \<open>
  C34: a file from which text can be extracted is answered with status 200 and that text, whatever the
  pieces in which the child's output arrives: the limit of the output, which the server derives
  from the limit of the text, never cuts such an answer.
\<close>

theorem extracted_file_answered:
  assumes "jm_get (pv_jobs s) i = Some (Parsing d [] 0 [])" "parseFile fl p = Inr t" "p \<noteq> []"
    and "fl_env fl ''MAX_EXTRACTED_TEXT_CHARS'' = Some (js_of_nat (po_chars op))" "answer_laws l fl"
    and "concat out = wk_encode l (fl_stringify fl (fst (parse_child fl (Some p))))"
    and "s' = fold (parser_step l op) (map (ChildOut i) out @ [ChildClosed i]) s"
  shows "pv_responses s' = pv_responses s @ [(i, 200, JsonBody (text_answer t))] \<and> jm_get (pv_jobs s') i = None"
proof -
  have ans: "fst (parse_child fl (Some p)) = text_answer t"
    using assms(2,3) by (simp add: parse_child_def text_answer_def)
  have pos: "0 < po_chars op" "po_chars op \<le> 1000000" by (simp_all add: po_chars_def positive_or_pos)
  then have "max_extracted_chars (fl_env fl) = po_chars op"
    by (simp add: max_extracted_chars_def assms(4) js_number_js_of_nat positive_or_def max_safe_integer_def)
  then have "length t \<le> po_chars op" using parsed_clean [OF assms(2)] by (simp add: clean_text_def)
  then have "length (concat out) \<le> po_outputBytes op"
    using assms(5) by (auto simp: assms(6) ans answer_laws_def po_outputBytes_def dest: spec [of _ t])
  then obtain s1 where s1: "fold (parser_step l op) (map (ChildOut i) out) s = s1" "pv_responses s1 = pv_responses s"
    "jm_get (pv_jobs s1) i = Some (Parsing d out (length (concat out)) [])"
    using fold_child_out [OF assms(1), of out op l] by auto
  have "child_answer l out = Some (text_answer t)"
    using assms(5) by (simp add: child_answer_def assms(6) ans answer_laws_def) (simp add: text_answer_def)
  then have "s' = end_job i (respond i 200 (JsonBody (text_answer t)) s1)"
    by (simp add: assms(7) s1 child_closed_def finish_job_def) (simp add: text_answer_def)
  then show ?thesis by (simp add: end_job_def respond_def Let_def s1(2))
qed

fun pair_decode :: "bytes \<Rightarrow> jstr" where
  "pair_decode (a # b # r) = of_nat (unat a * 256 + unat b) # pair_decode r"
| "pair_decode _ = []"

definition pair_encode :: "jstr \<Rightarrow> bytes" where
  "pair_encode u = concat (map (\<lambda>c. [of_nat (unat c div 256), of_nat (unat c mod 256)]) u)"

lemma pair_decode_encode: "pair_decode (pair_encode u) = u"
proof (induction u)
  case (Cons c u)
  have "unat c < 65536" using unsigned_less [of c] by simp
  then have "unat (of_nat (unat c div 256) :: 8 word) = unat c div 256"
    "unat (of_nat (unat c mod 256) :: 8 word) = unat c mod 256"
    by (simp_all add: unat_of_nat)
  moreover have "unat c div 256 * 256 + unat c mod 256 = unat c" by simp
  ultimately have "(of_nat (unat (of_nat (unat c div 256) :: 8 word) * 256 + unat (of_nat (unat c mod 256) :: 8 word)) :: jchar) = c"
    by simp
  then show ?case using Cons by (simp add: pair_encode_def)
qed (simp add: pair_encode_def)

definition answer_worker :: worker_lib where
  "answer_worker = \<lparr>wk_encode = pair_encode, wk_decode = pair_decode, wk_json = (\<lambda>u. Some (text_answer u))\<rparr>"

definition answer_files :: file_lib where
  "answer_files = sample_files\<lparr>fl_env := (\<lambda>_. Some (js_of_nat 1000000)),
     fl_stringify := (\<lambda>v. case prop_str v (js ''text'') of Some u \<Rightarrow> u | None \<Rightarrow> [])\<rparr>"

lemma answer_laws_hold: "answer_laws answer_worker answer_files"
proof -
  have "length (pair_encode u) = 2 * length u" for u
    by (induction u) (simp_all add: pair_encode_def)
  then show ?thesis
    by (simp add: answer_laws_def answer_worker_def answer_files_def prop_str_def text_answer_def pair_decode_encode)
qed

theorem extracted_file_answered_witness:
  "\<exists>t out. parseFile answer_files (js ''a.txt'') = Inr t
     \<and> pv_responses (fold (parser_step answer_worker sample_options) (map (ChildOut 0) [out] @ [ChildClosed 0])
          (fold (parser_step sample_worker sample_options) sample_parse_run parser_start)) = [(0, 200, JsonBody (text_answer t))]"
proof -
  have "js_lower (js ''.txt'') = js ''.txt''" by (simp add: js_lower_def js_lower_char_def js_def)
  moreover have "max_extracted_chars (fl_env answer_files) = 1000000"
    by (simp add: answer_files_def max_extracted_chars_def js_number_js_of_nat positive_or_def max_safe_integer_def)
  then have "normalizeExtractedText (fl_env answer_files) [32, 65, 13, 10, 10, 13, 66, 0] = [65, 10, 10, 66]"
    by (simp add: normalizeExtractedText_def js_trim_def js_trim_start_def js_trim_end_def js_ws_def)
  ultimately obtain t where t: "parseFile answer_files (js ''a.txt'') = Inr t"
    by (simp add: parseFile_def resolveReadablePath_def answer_files_def sample_files_def read_error_def ensureParsedText_def)
  have env: "fl_env answer_files ''MAX_EXTRACTED_TEXT_CHARS'' = Some (js_of_nat (po_chars sample_options))"
    by (simp add: answer_files_def po_chars_def sample_options_def positive_or_def)
  show ?thesis
    using extracted_file_answered [OF sample_parsing(1) t _ env answer_laws_hold _ refl,
        of "[wk_encode answer_worker (fl_stringify answer_files (fst (parse_child answer_files (Some (js ''a.txt'')))))]"]
      t sample_parsing(2)
    by auto
qed

end
