(* ===== verification/ApiClient.thy ===== *)
theory ApiClient
  imports ApiCommon
begin

text \<open>
  The app's side of every API call: \<^verbatim>\<open>apps/mobile/src/services/api/client.ts\<close> with the session of
  \<^verbatim>\<open>store/authStore.ts\<close>. A call goes through the base URLs in turn; a 401 starts, or joins, the one
  refresh of the session; what the network answers is an input. Callers give a method and a body
  only, which do not matter here.
\<close>

section \<open>Base URLs\<close>

definition DEFAULT_API_BASE_URL :: jstr where
  "DEFAULT_API_BASE_URL = js ''http://127.0.0.1:3001''"

definition DEFAULT_API_PORT :: jstr where
  "DEFAULT_API_PORT = js ''3001''"

record expo_constants =
  ec_configHostUri :: "jstr option"
  ec_manifest2HostUri :: "jstr option"
  ec_debuggerHost :: "jstr option"
  ec_platformHostUri :: "jstr option"
  ec_experienceUrl :: "jstr option"
  ec_linkingUri :: "jstr option"

fun first_some :: "'a option list \<Rightarrow> 'a option" where
  "first_some [] = None"
| "first_some (x # xs) = (case x of Some v \<Rightarrow> Some v | None \<Rightarrow> first_some xs)"

definition resolveExpoHostLocator :: "expo_constants \<Rightarrow> jstr option" where
  "resolveExpoHostLocator c =
     first_some [ec_configHostUri c, ec_manifest2HostUri c, ec_platformHostUri c, ec_experienceUrl c,
       ec_linkingUri c, ec_debuggerHost c]"

definition api_url :: "jstr \<Rightarrow> jstr \<Rightarrow> jstr" where
  "api_url protocol hostname = protocol @ js ''//'' @ hostname @ js '':'' @ DEFAULT_API_PORT"

definition usable_host :: "url \<Rightarrow> bool" where
  "usable_host u \<longleftrightarrow> u_hostname u \<noteq> [] \<and> u_hostname u \<noteq> js ''localhost''"

definition deriveApiBaseUrlFromScriptUrl :: "url_api \<Rightarrow> jstr option \<Rightarrow> jstr option" where
  "deriveApiBaseUrlFromScriptUrl ua scriptUrl =
     (case scriptUrl of
        None \<Rightarrow> None
      | Some t \<Rightarrow>
          if t = [] then None
          else (case ua_parse ua t of
                  None \<Rightarrow> None
                | Some u \<Rightarrow>
                    if u_protocol u \<notin> {js ''http:'', js ''https:''} \<or> \<not> usable_host u then None
                    else Some (api_url (u_protocol u) (u_hostname u))))"

definition deriveApiBaseUrlFromLocator :: "url_api \<Rightarrow> jstr option \<Rightarrow> jstr option" where
  "deriveApiBaseUrlFromLocator ua locator =
     (case locator of
        None \<Rightarrow> None
      | Some t \<Rightarrow>
          if t = [] then None
          else (case ua_parse ua (if js_includes t (js ''://'') then t else js ''http://'' @ t) of
                  None \<Rightarrow> None
                | Some u \<Rightarrow>
                    if \<not> usable_host u then None
                    else Some (api_url (if u_protocol u \<in> {js ''https:'', js ''exps:''} then js ''https:'' else js ''http:'')
                           (u_hostname u))))"

definition resolveApiBaseUrl :: "url_api \<Rightarrow> jstr option \<Rightarrow> jstr option \<Rightarrow> jstr" where
  "resolveApiBaseUrl ua explicit scriptUrl =
     (case first_some [explicit, deriveApiBaseUrlFromScriptUrl ua scriptUrl] of
        Some v \<Rightarrow> v | None \<Rightarrow> DEFAULT_API_BASE_URL)"

text \<open>The texts that are not empty, each at its first place.\<close>

definition unique_texts :: "jstr option list \<Rightarrow> jstr list" where
  "unique_texts vs = rev (remdups (rev (concat (map (\<lambda>v. case v of Some t \<Rightarrow> if t = [] then [] else [t] | None \<Rightarrow> []) vs))))"

definition buildApiBaseUrlCandidates :: "url_api \<Rightarrow> jstr option \<Rightarrow> jstr option \<Rightarrow> jstr option \<Rightarrow> jstr list" where
  "buildApiBaseUrlCandidates ua explicit scriptUrl hostUri =
     unique_texts [explicit, deriveApiBaseUrlFromLocator ua hostUri, deriveApiBaseUrlFromScriptUrl ua scriptUrl,
       Some DEFAULT_API_BASE_URL]"

section \<open>The session of the app\<close>

record app_session =
  ap_accessToken :: "jstr option"
  ap_refreshToken :: "jstr option"
  ap_userId :: "jstr option"
  ap_email :: "jstr option"
  ap_nickname :: "jstr option"

record auth_state = app_session +
  ap_hydrated :: bool

datatype storage_op = SetItem app_session | DeleteItem

text \<open>The store, with what it has asked of the device's secure storage, if there is one.\<close>

record auth_store =
  ss_state :: auth_state
  ss_snapshot :: auth_state
  ss_listeners :: "nat list"
  ss_calls :: "(nat \<times> auth_state) list"
  ss_storage :: bool
  ss_ops :: "storage_op list"

definition no_session :: app_session where
  "no_session = \<lparr>ap_accessToken = None, ap_refreshToken = None, ap_userId = None, ap_email = None, ap_nickname = None\<rparr>"

definition with_session :: "app_session \<Rightarrow> bool \<Rightarrow> auth_state" where
  "with_session v h = app_session.extend v (auth_state.fields h)"

definition auth_store_new :: "bool \<Rightarrow> auth_store" where
  "auth_store_new storage =
     \<lparr>ss_state = with_session no_session False, ss_snapshot = with_session no_session False,
      ss_listeners = [], ss_calls = [], ss_storage = storage, ss_ops = []\<rparr>"

definition emit_auth :: "auth_store \<Rightarrow> auth_store" where
  "emit_auth s = s\<lparr>ss_snapshot := ss_state s, ss_calls := ss_calls s @ map (\<lambda>k. (k, ss_state s)) (ss_listeners s)\<rparr>"

definition storage_do :: "storage_op \<Rightarrow> auth_store \<Rightarrow> auth_store" where
  "storage_do op s = (if ss_storage s then s\<lparr>ss_ops := ss_ops s @ [op]\<rparr> else s)"

definition setSession :: "app_session \<Rightarrow> auth_store \<Rightarrow> auth_store" where
  "setSession v s = storage_do (SetItem v) (emit_auth (s\<lparr>ss_state := with_session v True\<rparr>))"

definition clear_session :: "auth_store \<Rightarrow> auth_store" where
  "clear_session s = storage_do DeleteItem (emit_auth (s\<lparr>ss_state := with_session no_session True\<rparr>))"

text \<open>\<open>hydrate\<close> once the storage has answered: a session it could read, or nothing.\<close>

definition hydrate_end :: "app_session option \<Rightarrow> auth_store \<Rightarrow> auth_store" where
  "hydrate_end stored s =
     emit_auth (s\<lparr>ss_state := (case stored of Some v \<Rightarrow> with_session v True | None \<Rightarrow> (ss_state s)\<lparr>ap_hydrated := True\<rparr>)\<rparr>)"

definition subscribe_auth :: "nat \<Rightarrow> auth_store \<Rightarrow> auth_store" where
  "subscribe_auth k s = s\<lparr>ss_listeners := (if k \<in> set (ss_listeners s) then ss_listeners s else ss_listeners s @ [k])\<rparr>"

definition unsubscribe_auth :: "nat \<Rightarrow> auth_store \<Rightarrow> auth_store" where
  "unsubscribe_auth k s = s\<lparr>ss_listeners := filter (\<lambda>j. j \<noteq> k) (ss_listeners s)\<rparr>"

section \<open>Calls\<close>

record api_response =
  ar_status :: nat
  ar_ok :: bool
  ar_json :: "jstr + json"

definition shouldRetryWithNextBaseUrl :: "jstr \<Rightarrow> bool" where
  "shouldRetryWithNextBaseUrl m \<longleftrightarrow>
     js_includes (js_lower m) (js ''network request failed'') \<or> js_includes (js_lower m) (js ''fetch failed'')"

definition error_text :: "json \<Rightarrow> jstr" where
  "error_text v =
     (case jprop v (js ''message'') of
        Some (JArr xs) \<Rightarrow> js_join (js ''; '') (map js_string xs)
      | Some (JStr t) \<Rightarrow> t
      | _ \<Rightarrow> [])"

definition parseError :: "api_response \<Rightarrow> jstr" where
  "parseError r =
     (let m = (case ar_json r of Inr v \<Rightarrow> error_text v | Inl _ \<Rightarrow> [])
      in if m = [] then js ''request failed: '' @ js_of_nat (ar_status r) else m)"

text \<open>
  A call waits for its response, with or without leave to refresh, or for the refresh, holding the
  response that asked for it.
\<close>

datatype call_phase = Fetching bool | AwaitingRefresh api_response

record api_call =
  cc_index :: nat
  cc_path :: jstr
  cc_phase :: call_phase

datatype sent = SentCall nat jstr "jstr option" | SentRefresh jstr jstr

record api_client =
  ct_store :: auth_store
  ct_refreshPromise :: "jstr option"
  ct_waiting :: "nat list"
  ct_hydrating :: nat
  ct_calls :: "(nat, api_call) jmap"
  ct_next :: nat
  ct_sent :: "sent list"
  ct_results :: "(nat \<times> (jstr + json option)) list"

definition client_new :: "bool \<Rightarrow> api_client" where
  "client_new storage =
     \<lparr>ct_store = auth_store_new storage, ct_refreshPromise = None, ct_waiting = [], ct_hydrating = 0, ct_calls = [], ct_next = 0, ct_sent = [], ct_results = []\<rparr>"

definition send :: "jstr list \<Rightarrow> nat \<Rightarrow> nat \<Rightarrow> jstr \<Rightarrow> bool \<Rightarrow> api_client \<Rightarrow> api_client" where
  "send bases i k path allowRefresh s =
     s\<lparr>ct_calls := jm_set i \<lparr>cc_index = k, cc_path = path, cc_phase = Fetching allowRefresh\<rparr> (ct_calls s),
       ct_sent := ct_sent s @ [SentCall i (bases ! k @ path)
         (case ap_accessToken (ss_state (ct_store s)) of
            Some t \<Rightarrow> if t = [] then None else Some t | None \<Rightarrow> None)]\<rparr>"

definition settle :: "nat \<Rightarrow> jstr + json option \<Rightarrow> api_client \<Rightarrow> api_client" where
  "settle i r s = s\<lparr>ct_calls := jm_delete i (ct_calls s), ct_results := ct_results s @ [(i, r)]\<rparr>"

definition network_failure :: "jstr list \<Rightarrow> jstr" where
  "network_failure bases = js ''Network request failed (tried: '' @ js_join (js '', '') bases @ js '')''"

text \<open>The \<^verbatim>\<open>catch\<close> of the loop over the base URLs.\<close>

definition call_error :: "jstr list \<Rightarrow> nat \<Rightarrow> api_call \<Rightarrow> jstr \<Rightarrow> api_client \<Rightarrow> api_client" where
  "call_error bases i c m s =
     (if shouldRetryWithNextBaseUrl m
      then if Suc (cc_index c) < length bases then send bases i (Suc (cc_index c)) (cc_path c) True s
           else settle i (Inl (network_failure bases)) s
      else settle i (Inl m) s)"

definition finish_response :: "jstr list \<Rightarrow> nat \<Rightarrow> api_call \<Rightarrow> api_response \<Rightarrow> api_client \<Rightarrow> api_client" where
  "finish_response bases i c r s =
     (if \<not> ar_ok r then call_error bases i c (parseError r) s
      else if ar_status r = 204 then settle i (Inr None) s
      else case ar_json r of Inl m \<Rightarrow> call_error bases i c m s | Inr v \<Rightarrow> settle i (Inr (Some v)) s)"

definition apiRequest :: "jstr list \<Rightarrow> jstr \<Rightarrow> api_client \<Rightarrow> api_client" where
  "apiRequest bases path s0 =
     (let i = ct_next s0; s = s0\<lparr>ct_next := Suc i\<rparr>
      in if bases = [] then settle i (Inl (js ''request failed'')) s else send bases i 0 path True s)"

section \<open>Refreshing the session\<close>

definition refresh_url :: "jstr \<Rightarrow> jstr" where
  "refresh_url base = base @ js ''/auth/refresh''"

text \<open>A 401: without a refresh token the refresh is false at once; else start it, or join it.\<close>

definition refreshSession :: "jstr list \<Rightarrow> nat \<Rightarrow> api_call \<Rightarrow> api_response \<Rightarrow> api_client \<Rightarrow> api_client" where
  "refreshSession bases i c r s =
     (case ap_refreshToken (ss_state (ct_store s)) of
        None \<Rightarrow> finish_response bases i c r s
      | Some t \<Rightarrow>
          if t = [] then finish_response bases i c r s
          else
            let w = s\<lparr>ct_calls := jm_set i (c\<lparr>cc_phase := AwaitingRefresh r\<rparr>) (ct_calls s),
                       ct_waiting := ct_waiting s @ [i]\<rparr>
            in if ct_refreshPromise s = None
               then w\<lparr>ct_refreshPromise := Some t,
                      ct_sent := ct_sent w @ [SentRefresh (refresh_url (bases ! cc_index c)) t]\<rparr>
               else w)"

definition on_reply :: "jstr list \<Rightarrow> nat \<Rightarrow> jstr + api_response \<Rightarrow> api_client \<Rightarrow> api_client" where
  "on_reply bases i reply s =
     (case jm_get (ct_calls s) i of
        None \<Rightarrow> s
      | Some c \<Rightarrow>
          (case cc_phase c of
             AwaitingRefresh _ \<Rightarrow> s
           | Fetching allowRefresh \<Rightarrow>
               (case reply of
                  Inl m \<Rightarrow> call_error bases i c m s
                | Inr r \<Rightarrow>
                    if ar_status r = 401 \<and> allowRefresh then refreshSession bases i c r s
                    else finish_response bases i c r s)))"

definition opt_str :: "json \<Rightarrow> string \<Rightarrow> jstr option" where
  "opt_str v k = prop_str v (js k)"

text \<open>The session in the answer; one without a user makes the code throw, which counts as a failure.\<close>

definition session_of :: "json \<Rightarrow> app_session option" where
  "session_of v =
     (case jprop v (js ''user'') of
        None \<Rightarrow> None
      | Some JNull \<Rightarrow> None
      | Some u \<Rightarrow>
          Some \<lparr>ap_accessToken = opt_str v ''accessToken'', ap_refreshToken = opt_str v ''refreshToken'',
                ap_userId = opt_str u ''id'', ap_email = opt_str u ''email'', ap_nickname = opt_str u ''nickname''\<rparr>)"

definition refresh_result :: "jstr + api_response \<Rightarrow> app_session option" where
  "refresh_result reply =
     (case reply of
        Inl _ \<Rightarrow> None
      | Inr r \<Rightarrow> if ar_ok r then (case ar_json r of Inl _ \<Rightarrow> None | Inr v \<Rightarrow> session_of v) else None)"

text \<open>The calls that wait, in the order they came, go on one after another.\<close>

definition resume_call :: "jstr list \<Rightarrow> bool \<Rightarrow> nat \<Rightarrow> api_client \<Rightarrow> api_client" where
  "resume_call bases refreshed i s =
     (case jm_get (ct_calls s) i of
        None \<Rightarrow> s
      | Some c \<Rightarrow>
          (case cc_phase c of
             Fetching _ \<Rightarrow> s
           | AwaitingRefresh r \<Rightarrow>
               if refreshed then send bases i (cc_index c) (cc_path c) False s
               else finish_response bases i c r (s\<lparr>ct_store := clear_session (ct_store s)\<rparr>)))"

definition refresh_end :: "jstr list \<Rightarrow> jstr + api_response \<Rightarrow> api_client \<Rightarrow> api_client" where
  "refresh_end bases reply s =
     (if ct_refreshPromise s = None then s
      else
        let session = refresh_result reply;
            s1 = s\<lparr>ct_refreshPromise := None, ct_waiting := [],
                   ct_store := (case session of Some v \<Rightarrow> setSession v (ct_store s) | None \<Rightarrow> ct_store s)\<rparr>
        in fold (resume_call bases (session \<noteq> None)) (ct_waiting s) s1)"

section \<open>The client as a machine\<close>

datatype client_in =
    Call jstr
  | Reply nat "jstr + api_response"
  | RefreshReply "jstr + api_response"
  | SignIn app_session
  | SignOut
  | Hydrate
  | Hydrated "app_session option"
  | SubscribeAuth nat
  | UnsubscribeAuth nat

fun client_step :: "jstr list \<Rightarrow> client_in \<Rightarrow> api_client \<Rightarrow> api_client" where
  "client_step bases (Call path) s = apiRequest bases path s"
| "client_step bases (Reply i r) s = on_reply bases i r s"
| "client_step bases (RefreshReply r) s = refresh_end bases r s"
| "client_step bases (SignIn v) s = s\<lparr>ct_store := setSession v (ct_store s)\<rparr>"
| "client_step bases SignOut s = s\<lparr>ct_store := clear_session (ct_store s)\<rparr>"
| "client_step bases Hydrate s =
     (if ap_hydrated (ss_state (ct_store s)) then s else s\<lparr>ct_hydrating := ct_hydrating s + 1\<rparr>)"
| "client_step bases (Hydrated v) s =
     (if ct_hydrating s = 0 then s
      else s\<lparr>ct_hydrating := ct_hydrating s - 1, ct_store := hydrate_end v (ct_store s)\<rparr>)"
| "client_step bases (SubscribeAuth k) s = s\<lparr>ct_store := subscribe_auth k (ct_store s)\<rparr>"
| "client_step bases (UnsubscribeAuth k) s = s\<lparr>ct_store := unsubscribe_auth k (ct_store s)\<rparr>"

end
