(* ===== verification/ApiClientRuns.thy ===== *)
theory ApiClientRuns
  imports ApiClient
begin

text \<open>
  The app's calls under any order of answers: how often a call is sent and how it ends, what refresh
  tokens are spent, and what becomes of a sign-out while the session is being refreshed.
\<close>

section \<open>Calls in progress\<close>

definition sent_count :: "api_client \<Rightarrow> nat \<Rightarrow> nat" where
  "sent_count s i = length (filter (\<lambda>x. case x of SentCall j _ _ \<Rightarrow> j = i | SentRefresh _ _ \<Rightarrow> False) (ct_sent s))"

fun phase_weight :: "call_phase \<Rightarrow> nat" where
  "phase_weight (Fetching True) = 1"
| "phase_weight (Fetching False) = 2"
| "phase_weight (AwaitingRefresh _) = 1"

fun awaiting :: "call_phase \<Rightarrow> bool" where
  "awaiting (Fetching _) = False"
| "awaiting (AwaitingRefresh _) = True"

definition call_ok :: "jstr list \<Rightarrow> api_client \<Rightarrow> nat \<Rightarrow> api_call \<Rightarrow> bool" where
  "call_ok bases s i c \<longleftrightarrow>
     i < ct_next s \<and> cc_index c < length bases \<and> sent_count s i \<le> 2 * cc_index c + phase_weight (cc_phase c)"

text \<open>\<open>W\<close> are the calls that wait for the refresh.\<close>

definition calls_ok :: "jstr list \<Rightarrow> nat list \<Rightarrow> api_client \<Rightarrow> bool" where
  "calls_ok bases W s \<longleftrightarrow>
     (\<forall>i c. jm_get (ct_calls s) i = Some c \<longrightarrow> call_ok bases s i c \<and> (awaiting (cc_phase c) \<longleftrightarrow> i \<in> set W))
     \<and> (\<forall>i \<in> set W. jm_get (ct_calls s) i \<noteq> None) \<and> distinct W
     \<and> distinct (map fst (ct_results s))
     \<and> (\<forall>i. i \<in> fst ` set (ct_results s) \<longleftrightarrow> i < ct_next s \<and> jm_get (ct_calls s) i = None)
     \<and> (\<forall>i. sent_count s i \<le> 2 * length bases) \<and> (\<forall>i \<ge> ct_next s. sent_count s i = 0)"

lemma client_calls_okI:
  assumes "\<And>i c. jm_get (ct_calls s) i = Some c \<Longrightarrow> call_ok bases s i c \<and> (awaiting (cc_phase c) \<longleftrightarrow> i \<in> set W)"
    and "\<And>i. i \<in> set W \<Longrightarrow> jm_get (ct_calls s) i \<noteq> None" "distinct W" "distinct (map fst (ct_results s))"
    and "\<And>i. i \<in> fst ` set (ct_results s) \<longleftrightarrow> i < ct_next s \<and> jm_get (ct_calls s) i = None"
    and "\<And>i. sent_count s i \<le> 2 * length bases" "\<And>i. ct_next s \<le> i \<Longrightarrow> sent_count s i = 0"
  shows "calls_ok bases W s"
  unfolding calls_ok_def
  using assms(3,4) by (intro conjI allI impI ballI assms(2,5,6,7) conjunct1 [OF assms(1)] conjunct2 [OF assms(1)]) auto

lemma client_calls_okD:
  assumes "calls_ok bases W s"
  shows "\<And>i c. jm_get (ct_calls s) i = Some c \<Longrightarrow> call_ok bases s i c \<and> (awaiting (cc_phase c) \<longleftrightarrow> i \<in> set W)"
    and "\<And>i. i \<in> set W \<Longrightarrow> jm_get (ct_calls s) i \<noteq> None" "distinct W" "distinct (map fst (ct_results s))"
    and "\<And>i. i \<in> fst ` set (ct_results s) \<longleftrightarrow> i < ct_next s \<and> jm_get (ct_calls s) i = None"
    and "\<And>i. sent_count s i \<le> 2 * length bases" "\<And>i. ct_next s \<le> i \<Longrightarrow> sent_count s i = 0"
  using assms unfolding calls_ok_def by simp_all

lemma weight_le: "phase_weight p \<le> 2"
  by (cases p rule: phase_weight.cases) simp_all

lemma sent_count_send [simp]:
  "sent_count (send bases i k path a s) j = (if j = i then Suc (sent_count s j) else sent_count s j)"
  "sent_count (settle i r s) j = sent_count s j"
  "sent_count (s\<lparr>ct_store := st\<rparr>) j = sent_count s j"
  by (simp_all add: sent_count_def send_def settle_def)

lemma call_fields [simp]:
  "ct_next (send bases i k path a s) = ct_next s" "ct_results (send bases i k path a s) = ct_results s"
  "ct_calls (send bases i k path a s) = jm_set i \<lparr>cc_index = k, cc_path = path, cc_phase = Fetching a\<rparr> (ct_calls s)"
  "ct_waiting (send bases i k path a s) = ct_waiting s" "ct_store (send bases i k path a s) = ct_store s"
  "ct_refreshPromise (send bases i k path a s) = ct_refreshPromise s"
  "ct_next (settle i r s) = ct_next s" "ct_results (settle i r s) = ct_results s @ [(i, r)]"
  "ct_calls (settle i r s) = jm_delete i (ct_calls s)" "ct_waiting (settle i r s) = ct_waiting s"
  "ct_store (settle i r s) = ct_store s" "ct_refreshPromise (settle i r s) = ct_refreshPromise s"
  by (simp_all add: send_def settle_def)

lemma send_ok:
  assumes "calls_ok bases W s" "jm_get (ct_calls s) i \<noteq> None"
    and "k < length bases" "Suc (sent_count s i) \<le> 2 * k + (if a then 1 else 2)"
  shows "calls_ok bases (filter (\<lambda>j. j \<noteq> i) W) (send bases i k path a s)"
proof -
  have "i < ct_next s" using assms(1,2) by (auto simp: calls_ok_def call_ok_def)
  then show ?thesis
    using assms unfolding calls_ok_def call_ok_def by (cases a) auto
qed

lemma settle_ok:
  assumes "calls_ok bases W s" "jm_get (ct_calls s) i \<noteq> None"
  shows "calls_ok bases (filter (\<lambda>j. j \<noteq> i) W) (settle i r s)"
proof -
  have "i < ct_next s" using assms by (auto simp: calls_ok_def call_ok_def)
  then show ?thesis using assms unfolding calls_ok_def call_ok_def by auto
qed

lemma call_error_ok:
  assumes "calls_ok bases W s" "jm_get (ct_calls s) i = Some c"
  shows "calls_ok bases (filter (\<lambda>j. j \<noteq> i) W) (call_error bases i c m s)"
proof -
  have "sent_count s i \<le> 2 * cc_index c + 2"
    using assms weight_le [of "cc_phase c"] by (fastforce simp: calls_ok_def call_ok_def)
  then show ?thesis
    using assms by (auto simp: call_error_def intro!: send_ok settle_ok)
qed

lemma finish_response_ok:
  assumes "calls_ok bases W s" "jm_get (ct_calls s) i = Some c"
  shows "calls_ok bases (filter (\<lambda>j. j \<noteq> i) W) (finish_response bases i c r s)"
  using assms by (auto simp: finish_response_def intro!: call_error_ok settle_ok split: sum.split)

lemma calls_ok_store: "calls_ok bases W (s\<lparr>ct_store := st\<rparr>) = calls_ok bases W s"
  by (simp add: calls_ok_def call_ok_def)

lemma resume_ok:
  assumes "calls_ok bases (i # W) s"
  shows "calls_ok bases W (resume_call bases b i s)"
proof -
  obtain c where c: "jm_get (ct_calls s) i = Some c" "awaiting (cc_phase c)" "i \<notin> set W"
    using assms by (fastforce simp: calls_ok_def)
  then obtain r where r: "cc_phase c = AwaitingRefresh r" by (cases "cc_phase c") simp_all
  have W: "filter (\<lambda>j. j \<noteq> i) (i # W) = W" using c(3) by (auto simp: filter_id_conv)
  have n: "cc_index c < length bases" "sent_count s i \<le> 2 * cc_index c + 1"
    using assms c(1) r by (fastforce simp: calls_ok_def call_ok_def)+
  show ?thesis
  proof (cases b)
    case True
    then show ?thesis
      using send_ok [OF assms, of i "cc_index c" False "cc_path c"] c(1) r n unfolding W by (simp add: resume_call_def)
  next
    case False
    then show ?thesis
      using finish_response_ok [of bases "i # W" "s\<lparr>ct_store := clear_session (ct_store s)\<rparr>" i c r] assms c(1) r
      unfolding W by (simp add: resume_call_def calls_ok_store)
  qed
qed

lemma resume_all_ok: "calls_ok bases W s \<Longrightarrow> calls_ok bases [] (fold (resume_call bases b) W s)"
  by (induction W arbitrary: s) (simp_all add: resume_ok)

lemma response_frame [simp]:
  "ct_refreshPromise (call_error bases i c m s) = ct_refreshPromise s"
  "ct_waiting (call_error bases i c m s) = ct_waiting s"
  "ct_store (call_error bases i c m s) = ct_store s"
  "ct_refreshPromise (finish_response bases i c r s) = ct_refreshPromise s"
  "ct_waiting (finish_response bases i c r s) = ct_waiting s"
  "ct_store (finish_response bases i c r s) = ct_store s"
  by (simp_all add: call_error_def finish_response_def split: sum.split)

lemma resume_frame:
  "ct_refreshPromise (fold (resume_call bases b) W s) = ct_refreshPromise s"
  "ct_waiting (fold (resume_call bases b) W s) = ct_waiting s"
proof -
  have "ct_refreshPromise (resume_call bases b i s) = ct_refreshPromise s \<and> ct_waiting (resume_call bases b i s) = ct_waiting s"
    for i s
    by (simp add: resume_call_def split: option.split call_phase.split)
  then have "ct_refreshPromise (fold (resume_call bases b) W s) = ct_refreshPromise s
      \<and> ct_waiting (fold (resume_call bases b) W s) = ct_waiting s"
    by (induction W arbitrary: s) simp_all
  then show "ct_refreshPromise (fold (resume_call bases b) W s) = ct_refreshPromise s"
    "ct_waiting (fold (resume_call bases b) W s) = ct_waiting s" by simp_all
qed

definition client_inv :: "jstr list \<Rightarrow> api_client \<Rightarrow> bool" where
  "client_inv bases s \<longleftrightarrow> calls_ok bases (ct_waiting s) s \<and> (ct_refreshPromise s = None \<longleftrightarrow> ct_waiting s = [])"

lemma apiRequest_inv:
  assumes "client_inv bases s"
  shows "client_inv bases (apiRequest bases path s)"
proof -
  let ?i = "ct_next s" and ?s = "s\<lparr>ct_next := Suc (ct_next s)\<rparr>"
  have count: "sent_count ?s j = sent_count s j" for j by (simp add: sent_count_def)
  have new: "jm_get (ct_calls s) ?i = None" "sent_count s ?i = 0" "?i \<notin> set (ct_waiting s)"
    "?i \<notin> fst ` set (ct_results s)"
  proof -
    have ok: "calls_ok bases (ct_waiting s) s" using assms by (simp add: client_inv_def)
    then have below: "jm_get (ct_calls s) j = Some c \<Longrightarrow> j < ct_next s" for j c
      by (simp add: calls_ok_def call_ok_def)
    then show none: "jm_get (ct_calls s) ?i = None" by fastforce
    show "sent_count s ?i = 0" using ok unfolding calls_ok_def by blast
    show "?i \<notin> set (ct_waiting s)" using ok none unfolding calls_ok_def by blast
    show "?i \<notin> fst ` set (ct_results s)" using ok unfolding calls_ok_def by blast
  qed
  have ok: "calls_ok bases (ct_waiting s) s" using assms by (simp add: client_inv_def)
  show ?thesis
  proof (cases "bases = []")
    case True
    have "calls_ok bases (ct_waiting s) (settle ?i r ?s)" for r
    proof (rule client_calls_okI)
      fix j c assume "jm_get (ct_calls (settle ?i r ?s)) j = Some c"
      then have "jm_get (ct_calls s) j = Some c" by (simp split: if_splits)
      then show "call_ok bases (settle ?i r ?s) j c \<and> (awaiting (cc_phase c) \<longleftrightarrow> j \<in> set (ct_waiting s))"
        using client_calls_okD(1) [OF ok] by (simp add: call_ok_def count less_Suc_eq)
    next
      fix j show "j \<in> fst ` set (ct_results (settle ?i r ?s))
          \<longleftrightarrow> j < ct_next (settle ?i r ?s) \<and> jm_get (ct_calls (settle ?i r ?s)) j = None"
        using client_calls_okD(5) [OF ok, of j] new by (cases "j = ?i") (simp_all add: less_Suc_eq)
    qed (use client_calls_okD(2,3,4,6,7) [OF ok] new in \<open>fastforce simp: count\<close>)+
    then show ?thesis using True assms by (simp add: apiRequest_def client_inv_def Let_def)
  next
    case False
    let ?t = "send bases ?i 0 path True ?s"
    have "calls_ok bases (ct_waiting s) ?t"
    proof (rule client_calls_okI)
      fix j c assume "jm_get (ct_calls ?t) j = Some c"
      then show "call_ok bases ?t j c \<and> (awaiting (cc_phase c) \<longleftrightarrow> j \<in> set (ct_waiting s))"
        using client_calls_okD(1) [OF ok, of j] new False by (cases "j = ?i") (auto simp: call_ok_def count less_Suc_eq)
    next
      fix j show "j \<in> fst ` set (ct_results ?t) \<longleftrightarrow> j < ct_next ?t \<and> jm_get (ct_calls ?t) j = None"
        using client_calls_okD(5) [OF ok, of j] new by (cases "j = ?i") (simp_all add: less_Suc_eq)
    next
      fix j show "sent_count ?t j \<le> 2 * length bases"
        using client_calls_okD(6) [OF ok, of j] new False by (cases bases) (simp_all add: count)
    qed (use client_calls_okD(2,3,4,7) [OF ok] new in \<open>fastforce simp: count\<close>)+
    then show ?thesis using False assms by (simp add: apiRequest_def client_inv_def Let_def)
  qed
qed

lemma refreshSession_inv:
  assumes "client_inv bases s" "jm_get (ct_calls s) i = Some c" "cc_phase c = Fetching True"
  shows "client_inv bases (refreshSession bases i c r s)"
proof -
  have free: "i \<notin> set (ct_waiting s)" using assms by (fastforce simp: client_inv_def calls_ok_def)
  then have "filter (\<lambda>j. j \<noteq> i) (ct_waiting s) = ct_waiting s" by (auto simp: filter_id_conv)
  then have done': "client_inv bases (finish_response bases i c r s)"
    using finish_response_ok [of bases "ct_waiting s" s i c r] assms by (simp add: client_inv_def)
  have wait: "calls_ok bases (ct_waiting s @ [i]) (s\<lparr>ct_calls := jm_set i (c\<lparr>cc_phase := AwaitingRefresh r\<rparr>) (ct_calls s),
      ct_waiting := ct_waiting s @ [i], ct_refreshPromise := p, ct_sent := ct_sent s @ xs\<rparr>)"
    if "\<forall>x \<in> set xs. \<exists>u t. x = SentRefresh u t" for p xs
  proof -
    have "filter (\<lambda>x. case x of SentCall j _ _ \<Rightarrow> j = k | SentRefresh _ _ \<Rightarrow> False) xs = []" for k
      using that by (auto simp: filter_empty_conv)
    then have count: "sent_count (s\<lparr>ct_calls := cs, ct_waiting := w, ct_refreshPromise := p, ct_sent := ct_sent s @ xs\<rparr>) j
        = sent_count s j" for cs w j
      by (simp add: sent_count_def)
    have "i < ct_next s" "sent_count s i \<le> 2 * cc_index c + 1"
      using assms by (fastforce simp: client_inv_def calls_ok_def call_ok_def)+
    then show ?thesis
      using assms free unfolding client_inv_def calls_ok_def call_ok_def count by auto
  qed
  show ?thesis
    using done' wait [of "[]" "ct_refreshPromise s"] wait [of "[SentRefresh _ _]" "Some _"] assms(1)
    by (auto simp: refreshSession_def Let_def client_inv_def split: option.split)
qed

lemma on_reply_inv:
  assumes "client_inv bases s"
  shows "client_inv bases (on_reply bases i reply s)"
proof (cases "jm_get (ct_calls s) i")
  case (Some c)
  show ?thesis
  proof (cases "cc_phase c")
    case (Fetching a)
    have "i \<notin> set (ct_waiting s)" using assms Some Fetching by (fastforce simp: client_inv_def calls_ok_def)
    then have "filter (\<lambda>j. j \<noteq> i) (ct_waiting s) = ct_waiting s" by (auto simp: filter_id_conv)
    then have "client_inv bases (call_error bases i c m s)" "client_inv bases (finish_response bases i c r s)" for m r
      using finish_response_ok [of bases "ct_waiting s" s i c r] call_error_ok [of bases "ct_waiting s" s i c m] assms Some
      by (simp_all add: client_inv_def)
    then show ?thesis
      using refreshSession_inv [OF assms Some] Some Fetching by (auto simp: on_reply_def split: sum.split)
  qed (simp add: on_reply_def Some assms)
qed (simp add: on_reply_def assms)

lemma refresh_end_inv:
  assumes "client_inv bases s"
  shows "client_inv bases (refresh_end bases reply s)"
proof -
  have "calls_ok bases (ct_waiting s) (s\<lparr>ct_refreshPromise := None, ct_waiting := [], ct_store := st\<rparr>)" for st
    using assms by (simp add: client_inv_def calls_ok_def call_ok_def sent_count_def)
  note resumed = resume_all_ok [OF this]
  show ?thesis
  proof (cases "ct_refreshPromise s")
    case None
    then show ?thesis using assms by (simp add: refresh_end_def)
  next
    case (Some t)
    then show ?thesis using resumed by (simp add: refresh_end_def Let_def client_inv_def resume_frame)
  qed
qed

lemma client_inv_frame [simp]:
  "client_inv bases (s\<lparr>ct_store := x\<rparr>) = client_inv bases s"
  "client_inv bases (s\<lparr>ct_hydrating := n\<rparr>) = client_inv bases s"
  "client_inv bases (s\<lparr>ct_hydrating := n, ct_store := x\<rparr>) = client_inv bases s"
  by (simp_all add: client_inv_def calls_ok_def call_ok_def sent_count_def)

lemma client_inv_step: "client_inv bases s \<Longrightarrow> client_inv bases (client_step bases i s)"
  by (cases i) (simp_all add: on_reply_inv apiRequest_inv refresh_end_inv)

interpretation client_machine: machine "client_step bases" "client_inv bases"
  by unfold_locales (rule client_inv_step)

lemma client_inv_new: "client_inv bases (client_new st)"
  by (simp add: client_inv_def calls_ok_def client_new_def sent_count_def)


definition base1 :: jstr where
  "base1 = js ''http://10.0.2.2:3001''"

definition resp :: "nat \<Rightarrow> jstr + json \<Rightarrow> api_response" where
  "resp n v = \<lparr>ar_status = n, ar_ok = (200 \<le> n \<and> n < 300), ar_json = v\<rparr>"

definition session_with :: "string \<Rightarrow> app_session" where
  "session_with t = \<lparr>ap_accessToken = Some (js t), ap_refreshToken = Some (js t), ap_userId = None, ap_email = None, ap_nickname = None\<rparr>"

text \<open>A signed-in app: one call answered 401, so the session is being refreshed.\<close>

definition refreshing_run :: "client_in list" where
  "refreshing_run = [SignIn (session_with ''a''), Call (js ''/tasks''), Reply 0 (Inr (resp 401 (Inl [])))]"


section \<open>Refresh tokens\<close>

fun given_session :: "client_in \<Rightarrow> app_session option" where
  "given_session (SignIn v) = Some v"
| "given_session (RefreshReply r) = refresh_result r"
| "given_session (Hydrated v) = v"
| "given_session _ = None"

text \<open>The refresh token an input hands to the app.\<close>

definition given_token :: "client_in \<Rightarrow> jstr list" where
  "given_token i = (case given_session i of
     Some v \<Rightarrow> (case ap_refreshToken v of Some t \<Rightarrow> [t] | None \<Rightarrow> []) | None \<Rightarrow> [])"

definition spent_tokens :: "api_client \<Rightarrow> jstr list" where
  "spent_tokens s = concat (map (\<lambda>x. case x of SentRefresh _ t \<Rightarrow> [t] | SentCall _ _ _ \<Rightarrow> []) (ct_sent s))"

definition held_token :: "api_client \<Rightarrow> jstr option" where
  "held_token s = ap_refreshToken (ss_state (ct_store s))"

definition tokens_ok :: "jstr set \<Rightarrow> api_client \<Rightarrow> bool" where
  "tokens_ok T s \<longleftrightarrow> distinct (spent_tokens s) \<and> set (spent_tokens s) \<subseteq> T
     \<and> (\<forall>t. held_token s = Some t \<longrightarrow> t \<in> T \<and> (t \<in> set (spent_tokens s) \<longrightarrow> ct_refreshPromise s = Some t))"

lemma store_tokens [simp]:
  "ap_refreshToken (ss_state (setSession v st)) = ap_refreshToken v"
  "ap_refreshToken (ss_state (clear_session st)) = None"
  "ap_refreshToken (ss_state (hydrate_end w st)) = (case w of Some v \<Rightarrow> ap_refreshToken v | None \<Rightarrow> ap_refreshToken (ss_state st))"
  "ss_state (subscribe_auth k st) = ss_state st" "ss_state (unsubscribe_auth k st) = ss_state st"
  by (simp_all add: setSession_def clear_session_def hydrate_end_def storage_do_def emit_auth_def with_session_def
      no_session_def subscribe_auth_def unsubscribe_auth_def app_session.defs auth_state.defs split: option.split)

lemma spent_send [simp]:
  "spent_tokens (send bases i k path a s) = spent_tokens s" "spent_tokens (settle i r s) = spent_tokens s"
  "spent_tokens (call_error bases i c m s) = spent_tokens s"
  "spent_tokens (finish_response bases i c rs s) = spent_tokens s"
  "spent_tokens (apiRequest bases path s) = spent_tokens s"
  by (simp_all add: spent_tokens_def send_def settle_def call_error_def finish_response_def apiRequest_def Let_def
      split: sum.split)

lemma held_send [simp]:
  "held_token (send bases i k path a s) = held_token s" "held_token (settle i r s) = held_token s"
  "held_token (call_error bases i c m s) = held_token s"
  "held_token (finish_response bases i c rs s) = held_token s"
  "held_token (apiRequest bases path s) = held_token s"
  "ct_refreshPromise (apiRequest bases path s) = ct_refreshPromise s"
  by (simp_all add: held_token_def apiRequest_def Let_def)

text \<open>Calls that go on after a refresh spend nothing; if it failed, the first of them signs the user out.\<close>

lemma resume_tokens:
  "spent_tokens (fold (resume_call bases b) W s) = spent_tokens s"
  "held_token (fold (resume_call bases b) W s) \<in> {held_token s, None}"
  "b \<Longrightarrow> ct_store (fold (resume_call bases b) W s) = ct_store s"
proof -
  have clear: "spent_tokens (s\<lparr>ct_store := st\<rparr>) = spent_tokens s" for s st by (simp add: spent_tokens_def)
  have "spent_tokens (resume_call bases b i s) = spent_tokens s
      \<and> held_token (resume_call bases b i s) \<in> {held_token s, None}
      \<and> (b \<longrightarrow> ct_store (resume_call bases b i s) = ct_store s)" for i s
    by (simp add: resume_call_def clear held_token_def split: option.split call_phase.split)
  then have "spent_tokens (fold (resume_call bases b) W s) = spent_tokens s
      \<and> held_token (fold (resume_call bases b) W s) \<in> {held_token s, None}
      \<and> (b \<longrightarrow> ct_store (fold (resume_call bases b) W s) = ct_store s)"
  proof (induction W arbitrary: s)
    case (Cons i W)
    from Cons.IH [OF Cons.prems, of "resume_call bases b i s"] Cons.prems [of i s] show ?case by auto
  qed simp
  then show "spent_tokens (fold (resume_call bases b) W s) = spent_tokens s"
    "held_token (fold (resume_call bases b) W s) \<in> {held_token s, None}"
    "b \<Longrightarrow> ct_store (fold (resume_call bases b) W s) = ct_store s" by simp_all
qed

lemma resume_signs_out:
  assumes "calls_ok bases W s" "W \<noteq> []"
  shows "held_token (fold (resume_call bases False) W s) = None"
proof -
  obtain i V where W: "W = i # V" using assms(2) by (cases W) simp_all
  have "i \<in> set W" by (simp add: W)
  then obtain c where c: "jm_get (ct_calls s) i = Some c" using client_calls_okD(2) [OF assms(1), of i] by auto
  then have "awaiting (cc_phase c)" using client_calls_okD(1) [OF assms(1) c] \<open>i \<in> set W\<close> by simp
  then obtain r where "cc_phase c = AwaitingRefresh r" by (cases "cc_phase c") simp_all
  then have "held_token (resume_call bases False i s) = None" using c by (simp add: resume_call_def held_token_def)
  then show ?thesis using resume_tokens(2) [of bases False V "resume_call bases False i s"] by (simp add: W)
qed

lemma tokens_kept:
  assumes "tokens_ok T s" "spent_tokens t = spent_tokens s" "held_token t = held_token s"
    "ct_refreshPromise t = ct_refreshPromise s"
  shows "tokens_ok T t"
  using assms by (simp add: tokens_ok_def)

text \<open>A token of its own comes with every session: none was spent before.\<close>

lemma tokens_new_session:
  assumes "tokens_ok T s" "spent_tokens t = spent_tokens s" "\<forall>x. held_token t = Some x \<longrightarrow> x \<in> A" "A \<inter> T = {}"
  shows "tokens_ok (T \<union> A) t"
  using assms by (auto simp: tokens_ok_def)

lemma tokens_mono: "tokens_ok T s \<Longrightarrow> T \<subseteq> U \<Longrightarrow> tokens_ok U s"
  by (auto simp: tokens_ok_def)

lemma refreshSession_tokens:
  assumes "tokens_ok T s"
  shows "tokens_ok T (refreshSession bases i c r s)"
proof (cases "held_token s")
  case None
  then show ?thesis
    using assms by (intro tokens_kept [OF assms]) (simp_all add: refreshSession_def held_token_def)
next
  case (Some t)
  show ?thesis
  proof (cases "t \<noteq> [] \<and> ct_refreshPromise s = None")
    case True
    then have "t \<notin> set (spent_tokens s)" "t \<in> T" using assms Some by (auto simp: tokens_ok_def)
    then show ?thesis
      using assms Some True
      by (simp add: tokens_ok_def refreshSession_def held_token_def spent_tokens_def Let_def)
  next
    case False
    then show ?thesis
      using Some by (intro tokens_kept [OF assms])
        (auto simp: refreshSession_def held_token_def Let_def spent_tokens_def [of "_\<lparr>ct_calls := _, ct_waiting := _\<rparr>"]
          simp flip: spent_tokens_def)
  qed
qed

lemma on_reply_tokens:
  assumes "tokens_ok T s"
  shows "tokens_ok T (on_reply bases i reply s)"
  using refreshSession_tokens [OF assms] tokens_kept [OF assms]
  by (simp add: on_reply_def assms split: option.split call_phase.split sum.split)

lemma refresh_end_tokens:
  assumes "tokens_ok T s" "client_inv bases s" "set (given_token (RefreshReply reply)) \<inter> T = {}"
  shows "tokens_ok (T \<union> set (given_token (RefreshReply reply))) (refresh_end bases reply s)"
proof (cases "ct_refreshPromise s = None")
  case True
  then show ?thesis using tokens_mono [OF assms(1)] by (simp add: refresh_end_def)
next
  case False
  then obtain u where u: "ct_refreshPromise s = Some u" by auto
  let ?st = "case refresh_result reply of Some v \<Rightarrow> setSession v (ct_store s) | None \<Rightarrow> ct_store s"
  let ?s = "s\<lparr>ct_refreshPromise := None, ct_waiting := [], ct_store := ?st\<rparr>"
  have ok: "calls_ok bases (ct_waiting s) ?s" "ct_waiting s \<noteq> []"
    using assms(2) False by (simp_all add: client_inv_def calls_ok_def call_ok_def sent_count_def)
  have spent: "spent_tokens ?s = spent_tokens s" by (simp add: spent_tokens_def)
  have "\<forall>x. held_token (refresh_end bases reply s) = Some x \<longrightarrow> x \<in> set (given_token (RefreshReply reply))"
  proof (cases "refresh_result reply")
    case None
    then show ?thesis using resume_signs_out [OF ok] u by (simp add: refresh_end_def Let_def)
  next
    case (Some v)
    then show ?thesis
      using resume_tokens(3) [of True bases "ct_waiting s" ?s] u
      by (simp add: refresh_end_def Let_def held_token_def given_token_def split: option.split)
  qed
  moreover have "spent_tokens (refresh_end bases reply s) = spent_tokens s"
    using u by (simp add: refresh_end_def Let_def resume_tokens(1) spent)
  ultimately show ?thesis using tokens_new_session [OF assms(1)] assms(3) by blast
qed

lemma tokens_step:
  assumes "tokens_ok T s" "client_inv bases s" "set (given_token i) \<inter> T = {}"
  shows "tokens_ok (T \<union> set (given_token i)) (client_step bases i s)"
proof -
  have spent: "spent_tokens (s\<lparr>ct_store := st\<rparr>) = spent_tokens s"
    "spent_tokens (s\<lparr>ct_hydrating := n\<rparr>) = spent_tokens s"
    "spent_tokens (s\<lparr>ct_hydrating := n, ct_store := st\<rparr>) = spent_tokens s" for n st
    by (simp_all add: spent_tokens_def)
  show ?thesis
  proof (cases i)
    case (Call path)
    then show ?thesis using tokens_kept [OF assms(1), of "apiRequest bases path s"] by (simp add: given_token_def)
  next
    case (Reply k r)
    then show ?thesis using on_reply_tokens [OF assms(1)] by (simp add: given_token_def)
  next
    case (RefreshReply r)
    then show ?thesis using refresh_end_tokens [OF assms(1,2)] assms(3) by simp
  next
    case (SignIn v)
    then show ?thesis
      by (intro tokens_new_session [OF assms(1) _ _ assms(3)])
        (auto simp: spent held_token_def given_token_def split: option.split)
  next
    case SignOut
    then show ?thesis
      by (intro tokens_new_session [OF assms(1) _ _ assms(3)]) (simp_all add: spent held_token_def)
  next
    case Hydrate
    then show ?thesis
      using tokens_kept [OF assms(1), of "client_step bases Hydrate s"] by (simp add: given_token_def spent held_token_def)
  next
    case (Hydrated v)
    show ?thesis
    proof (cases "ct_hydrating s = 0 \<or> v = None")
      case True
      then show ?thesis
        using tokens_kept [OF assms(1), of "client_step bases i s"]
        by (auto simp: Hydrated given_token_def spent held_token_def assms(1) intro!: tokens_mono [OF assms(1)])
    next
      case False
      then show ?thesis
        by (intro tokens_new_session [OF assms(1) _ _ assms(3)])
          (auto simp: Hydrated spent held_token_def given_token_def split: option.split)
    qed
  next
    case (SubscribeAuth k)
    then show ?thesis using tokens_kept [OF assms(1), of "client_step bases i s"] by (simp add: given_token_def spent held_token_def)
  next
    case (UnsubscribeAuth k)
    then show ?thesis using tokens_kept [OF assms(1), of "client_step bases i s"] by (simp add: given_token_def spent held_token_def)
  qed
qed

lemma tokens_run:
  assumes "tokens_ok T s" "client_inv bases s" "distinct (concat (map given_token is))"
    and "set (concat (map given_token is)) \<inter> T = {}"
  shows "distinct (spent_tokens (fold (client_step bases) is s))"
  using assms
proof (induction "is" arbitrary: T s)
  case Nil
  then show ?case by (simp add: tokens_ok_def)
next
  case (Cons i "is")
  have "tokens_ok (T \<union> set (given_token i)) (client_step bases i s)"
    using Cons.prems by (intro tokens_step) auto
  then show ?case
    using Cons.IH client_inv_step [OF Cons.prems(2)] Cons.prems(3,4) by fastforce
qed


definition two_refused :: "client_in list" where
  "two_refused = [SignIn (session_with ''a''), Call (js ''/tasks''), Call (js ''/files''),
     Reply 1 (Inr (resp 401 (Inl []))), Reply 0 (Inr (resp 401 (Inl [])))]"


section \<open>Signing out during a refresh\<close>

fun answers_refresh :: "client_in \<Rightarrow> bool" where
  "answers_refresh (RefreshReply _) = True"
| "answers_refresh _ = False"

lemma refresh_stays_open:
  assumes "ct_refreshPromise s \<noteq> None" "\<not> answers_refresh i"
  shows "ct_refreshPromise (client_step bases i s) \<noteq> None"
  using assms
  by (cases i) (auto simp: on_reply_def refreshSession_def Let_def split: option.split call_phase.split sum.split)

lemma refresh_stays_open_run:
  "ct_refreshPromise s \<noteq> None \<Longrightarrow> \<forall>i \<in> set is. \<not> answers_refresh i
    \<Longrightarrow> ct_refreshPromise (fold (client_step bases) is s) \<noteq> None"
proof (induction "is" arbitrary: s)
  case (Cons i "is")
  have "ct_refreshPromise (client_step bases i s) \<noteq> None" using Cons.prems by (intro refresh_stays_open) simp_all
  from Cons.IH [OF this] Cons.prems(2) show ?case by simp
qed simp

text \<open>
  a sign-out, or a sign-in with another account, while the session is being refreshed does not
  last: whatever happens in between, when the refresh is answered with a session, that session is the
  app's, and the one written to the device's storage.
\<close>

theorem refresh_overrides_sign_out:
  assumes "ct_refreshPromise s \<noteq> None" "\<forall>i \<in> set is. \<not> answers_refresh i" "refresh_result reply = Some v"
  shows "ss_state (ct_store (fold (client_step bases) (SignOut # is @ [RefreshReply reply]) s)) = with_session v True
    \<and> (ss_storage (ct_store (fold (client_step bases) (SignOut # is @ [RefreshReply reply]) s))
         \<longrightarrow> last (ss_ops (ct_store (fold (client_step bases) (SignOut # is @ [RefreshReply reply]) s))) = SetItem v)"
proof -
  let ?s = "fold (client_step bases) (SignOut # is) s"
  have "ct_refreshPromise ?s \<noteq> None"
    using assms(1,2) by (intro refresh_stays_open_run) simp_all
  then obtain t where "ct_refreshPromise ?s = Some t" by auto
  then have "ct_store (refresh_end bases reply ?s) = setSession v (ct_store ?s)"
    using assms(3) by (simp add: refresh_end_def Let_def resume_tokens(3))
  then show ?thesis
    by (simp add: setSession_def storage_do_def emit_auth_def)
qed

definition issued_reply :: "jstr + api_response" where
  "issued_reply = Inr (resp 200 (Inr (JObj [(js ''accessToken'', JStr (js ''b'')), (js ''refreshToken'', JStr (js ''b'')),
     (js ''user'', JObj [(js ''id'', JStr (js ''u''))])])))"

theorem refresh_overrides_sign_out_witness:
  "ap_refreshToken (ss_state (ct_store (fold (client_step [base1]) (SignOut # [] @ [RefreshReply issued_reply])
     (fold (client_step [base1]) refreshing_run (client_new True))))) = Some (js ''b'')"
proof -
  let ?s = "fold (client_step [base1]) refreshing_run (client_new True)"
  have "map_option ap_refreshToken (refresh_result issued_reply) = Some (Some (js ''b''))" by code_simp
  then obtain v where v: "refresh_result issued_reply = Some v" "ap_refreshToken v = Some (js ''b'')" by auto
  have "ct_refreshPromise ?s \<noteq> None" by code_simp
  then show ?thesis
    using refresh_overrides_sign_out [of ?s "[]" issued_reply v "[base1]"] v
    by (simp add: with_session_def app_session.defs auth_state.defs)
qed

end
