(* ===== verification/MobileStream.thy ===== *)
theory MobileStream
  imports Sse
begin

text \<open>
  \<^verbatim>\<open>apps/mobile/src/services/stream.ts\<close>: the app's subscription to the stream of a task.
  Requests are made one after the other; each has its own cursor and buffer, and asks for what
  follows the last id of the ones before it. What the requests, the timer and the app do is
  the input datatype \<open>ms_in\<close>; inputs of a request that is no longer the current one are
  ignored by the handlers, so they carry no number. \<open>jparse\<close> is \<^verbatim>\<open>JSON.parse\<close>. The
  app's \<^verbatim>\<open>onEvent\<close> is taken not to close the subscription itself.
\<close>

section \<open>State\<close>

record mobile_stream =
  ms_open :: bool
  ms_responseText :: jstr
  ms_cursor :: nat
  ms_buffer :: jstr
  ms_retryScheduled :: bool
  ms_timer :: "nat option"
  ms_closed :: bool
  ms_terminal :: bool
  ms_lastEventId :: jstr
  ms_retryCount :: nat
  ms_requests :: "jstr option list"
  ms_events :: "json list"
  ms_completed :: nat
  ms_errors :: "jstr list"
  ms_uncaught :: bool

text \<open>The three terminal types; reading the type of \<^verbatim>\<open>null\<close> throws (\<open>None\<close>).\<close>

definition ms_isTerminalEvent :: "json \<Rightarrow> bool option" where
  "ms_isTerminalEvent v =
     (if v = JNull then None
      else Some (case prop_str v (js ''type'') of
                   None \<Rightarrow> False
                 | Some t \<Rightarrow> t \<in> {js ''task.completed'', js ''task.failed'', js ''task.cancelled''}))"

section \<open>Reading\<close>

datatype frame_outcome = FrameNext | FrameStop

text \<open>One frame: the id is kept even if the data is missing or is not JSON.\<close>

definition ms_frame :: "(jstr \<Rightarrow> json option) \<Rightarrow> jstr \<Rightarrow> mobile_stream \<Rightarrow> mobile_stream \<times> frame_outcome" where
  "ms_frame jparse rawEvent s =
     (let s1 = (case find_line (js ''id: '') rawEvent of
                  None \<Rightarrow> s
                | Some i \<Rightarrow> if i = [] then s else s\<lparr>ms_lastEventId := i\<rparr>)
      in case find_line (js ''data: '') rawEvent of
           None \<Rightarrow> (s1, FrameNext)
         | Some t \<Rightarrow>
             (case jparse t of
                None \<Rightarrow> (s1\<lparr>ms_uncaught := True\<rparr>, FrameStop)
              | Some v \<Rightarrow>
                  (let s2 = s1\<lparr>ms_retryCount := 0, ms_events := ms_events s1 @ [v]\<rparr>
                   in case ms_isTerminalEvent v of
                        None \<Rightarrow> (s2\<lparr>ms_uncaught := True\<rparr>, FrameStop)
                      | Some True \<Rightarrow>
                          (s2\<lparr>ms_terminal := True, ms_completed := Suc (ms_completed s2), ms_open := False\<rparr>, FrameStop)
                      | Some False \<Rightarrow> (s2, FrameNext))))"

text \<open>The loop over the buffer.\<close>

function ms_drain :: "(jstr \<Rightarrow> json option) \<Rightarrow> jstr \<Rightarrow> mobile_stream \<Rightarrow> mobile_stream" where
  "ms_drain jparse buf s =
     (case js_index_of sse_sep buf of
        None \<Rightarrow> s\<lparr>ms_buffer := buf\<rparr>
      | Some i \<Rightarrow>
          (case ms_frame jparse (take i buf) s of
             (s', FrameNext) \<Rightarrow> ms_drain jparse (drop (i + 2) buf) s'
           | (s', FrameStop) \<Rightarrow> s'\<lparr>ms_buffer := drop (i + 2) buf\<rparr>))"
  by pat_completeness auto
termination
  by (relation "measure (\<lambda>(_, buf, _). length buf)") (auto dest: js_index_of_bound simp: sse_sep_def)

declare ms_drain.simps [simp del]

definition ms_flush :: "(jstr \<Rightarrow> json option) \<Rightarrow> mobile_stream \<Rightarrow> mobile_stream" where
  "ms_flush jparse s =
     (if ms_closed s then s
      else
        let nextChunk = drop (ms_cursor s) (ms_responseText s)
        in if nextChunk = [] then s
           else ms_drain jparse (ms_buffer s @ crlf_to_lf nextChunk)
                  (s\<lparr>ms_cursor := length (ms_responseText s)\<rparr>))"

section \<open>Requests and retries\<close>

definition ms_connect :: "mobile_stream \<Rightarrow> mobile_stream" where
  "ms_connect s =
     (if ms_closed s \<or> ms_terminal s then s
      else s\<lparr>ms_open := True, ms_responseText := [], ms_cursor := 0, ms_buffer := [], ms_retryScheduled := False,
             ms_requests := ms_requests s @ [if ms_lastEventId s = [] then None else Some (ms_lastEventId s)]\<rparr>)"

definition ms_delay :: "nat \<Rightarrow> nat" where
  "ms_delay n = min 4000 (400 * 2 ^ (n - 1))"

definition ms_retry :: "jstr \<Rightarrow> mobile_stream \<Rightarrow> mobile_stream" where
  "ms_retry error s =
     (if ms_closed s \<or> ms_terminal s \<or> ms_retryScheduled s then s
      else
        let s1 = s\<lparr>ms_retryScheduled := True\<rparr>
        in if ms_retryCount s1 \<ge> 5
           then s1\<lparr>ms_closed := True, ms_errors := ms_errors s1 @ [error]\<rparr>
           else s1\<lparr>ms_retryCount := Suc (ms_retryCount s1),
                   ms_timer := Some (ms_delay (Suc (ms_retryCount s1)))\<rparr>)"

text \<open>
  What happens: the current response grows (seen by \<^verbatim>\<open>onprogress\<close> or by a state change),
  it ends with a status, it fails, the retry timer fires, or the app closes the
  subscription. A frame that is not JSON throws out of the handler, so that a final state change
  that meets one schedules no retry.
\<close>

datatype ms_in = MsData jstr | MsDone jstr int | MsError | MsTimer | MsClose

definition ms_done :: "(jstr \<Rightarrow> json option) \<Rightarrow> int \<Rightarrow> mobile_stream \<Rightarrow> mobile_stream" where
  "ms_done jparse status s =
     (if ms_closed s \<or> ms_terminal s then s
      else
        let s1 = ms_flush jparse (s\<lparr>ms_uncaught := False\<rparr>)
        in if ms_uncaught s1 then s1
           else
             let s2 = s1\<lparr>ms_uncaught := ms_uncaught s\<rparr>
             in if ms_terminal s2 then s2
                else ms_retry (js ''stream closed: ''
                       @ (if status = 0 then js ''network'' else js_of_int status)) s2)"

fun ms_step :: "(jstr \<Rightarrow> json option) \<Rightarrow> ms_in \<Rightarrow> mobile_stream \<Rightarrow> mobile_stream" where
  "ms_step jparse (MsData chunk) s =
     (if ms_open s then ms_flush jparse (s\<lparr>ms_responseText := ms_responseText s @ chunk\<rparr>) else s)"
| "ms_step jparse (MsDone chunk status) s =
     (if ms_open s
      then ms_done jparse status (s\<lparr>ms_open := False, ms_responseText := ms_responseText s @ chunk\<rparr>)
      else s)"
| "ms_step jparse MsError s = ms_retry (js ''stream failed'') s"
| "ms_step jparse MsTimer s =
     (if ms_timer s \<noteq> None then ms_connect (s\<lparr>ms_timer := None\<rparr>) else s)"
| "ms_step jparse MsClose s =
     (if ms_closed s then s else s\<lparr>ms_closed := True, ms_timer := None, ms_open := False\<rparr>)"

definition ms_run :: "(jstr \<Rightarrow> json option) \<Rightarrow> ms_in list \<Rightarrow> mobile_stream \<Rightarrow> mobile_stream" where
  "ms_run jparse is s = fold (ms_step jparse) is s"

definition subscribeTaskStream :: mobile_stream where
  "subscribeTaskStream =
     ms_connect \<lparr>ms_open = False, ms_responseText = [], ms_cursor = 0, ms_buffer = [], ms_retryScheduled = False,
       ms_timer = None, ms_closed = False, ms_terminal = False, ms_lastEventId = [], ms_retryCount = 0,
       ms_requests = [], ms_events = [], ms_completed = 0, ms_errors = [], ms_uncaught = False\<rparr>"

end
