(* ===== verification/MobileApp.thy ===== *)
theory MobileApp
  imports TaskStore MobileStream
begin

text \<open>
  The app above its stores: the navigator (\<^verbatim>\<open>navigation/RootNavigator.tsx\<close>, \<^verbatim>\<open>routeStore.ts\<close>), the
  screens that act (\<^verbatim>\<open>HomeScreen.tsx\<close>, \<^verbatim>\<open>ConversationScreen.tsx\<close>, \<^verbatim>\<open>HistoryScreen.tsx\<close>) and
  \<^verbatim>\<open>streamStore.ts\<close>. What is drawn is left out; what is modelled is the state behind it. A render
  with the effects it triggers is an input of its own, \<open>Render\<close>, so that it can come at any time
  after a change; handlers see what was rendered last. API calls are numbered requests whose
  answers are inputs; an answer is a failure with its message or a value.
\<close>

section \<open>State\<close>

datatype app_route = HomeRoute | ConversationRoute | HistoryRoute | SettingsRoute

record stream_event =
  se_type :: jstr
  se_taskId :: jstr
  se_timestamp :: jstr
  se_delta :: "jstr option"

record picked =
  pk_uri :: jstr
  pk_filename :: jstr
  pk_mimeType :: jstr
  pk_sizeBytes :: nat

record history_item =
  hi_taskId :: jstr
  hi_sessionId :: jstr
  hi_title :: jstr
  hi_prompt :: jstr
  hi_status :: jstr
  hi_updatedAt :: jstr

datatype api_request =
    CreateTask jstr "jstr list"
  | FollowUpTask jstr jstr "jstr list"
  | RegenerateTask jstr
  | CancelTaskReq jstr
  | GetVersions jstr
  | UploadAttachment picked
  | DeleteUpload jstr
  | ListHistory "jstr option"
  | GetDetail jstr
  | DeleteHistory jstr
  | ListActive

text \<open>What waits for an answer; numbers name the screen or the sign-in it belongs to.\<close>

datatype pending =
    Executing
  | Cancelling nat
  | LoadingVersions
  | UploadingFile jstr "picked list"
  | Ignored
  | LoadingHistory nat
  | LoadingMore nat
  | OpeningHistory nat
  | DeletingHistory nat jstr
  | Recovering nat
  | RecoveringDetail nat
  | OpeningTask nat

datatype answer =
    Failed jstr
  | Execution jstr jstr jstr "jstr option"
  | Versions "result_version list"
  | Uploaded file_record
  | Detail task_detail
  | ActiveTasks "(jstr \<times> jstr \<times> jstr \<times> jstr) list"
  | HistoryPage "history_item list" "jstr option"
  | Fine

text \<open>The conversation screen: its draft, the task and status of the last effect, and the two refs.\<close>

record conversation_view =
  vw_id :: nat
  vw_draft :: jstr
  vw_deps :: "jstr option \<times> jstr option"
  vw_cleanup :: "(jstr \<times> nat) option"
  vw_activeTask :: "jstr option"
  vw_active :: "nat option"

record history_view =
  hv_id :: nat
  hv_loading :: bool
  hv_error :: "jstr option"
  hv_nextCursor :: "jstr option"
  hv_loadingMore :: bool

record app =
  aa_store :: task_store
  aa_streamEvents :: "stream_event list"
  aa_route :: app_route
  aa_token :: "jstr option"
  aa_hydrated :: bool
  aa_shown :: task_state
  aa_shownToken :: "jstr option option"
  aa_session :: "nat option"
  aa_view :: "conversation_view option"
  aa_history :: "history_view option"
  aa_subs :: "(nat, jstr \<times> mobile_stream) jmap"
  aa_calls :: "(nat, pending) jmap"
  aa_requests :: "(nat \<times> api_request) list"
  aa_next :: nat
  aa_clock :: nat

definition app_start :: app where
  "app_start =
     \<lparr>aa_store = store_new, aa_streamEvents = [], aa_route = HomeRoute, aa_token = None, aa_hydrated = False,
      aa_shown = initialState, aa_shownToken = None, aa_session = None, aa_view = None, aa_history = None,
      aa_subs = [], aa_calls = [], aa_requests = [], aa_next = 0, aa_clock = 0\<rparr>"

text \<open>The libraries: JSON, URLs, the clock's and random values for new ids, dates in the user's locale.\<close>

record app_lib =
  al_json :: "jstr \<Rightarrow> json option"
  al_vurl :: "jstr \<Rightarrow> bool"
  al_mint :: "nat \<Rightarrow> mint"
  al_locale :: "jstr \<Rightarrow> jstr"

section \<open>Steps shared by the screens\<close>

definition on_store :: "(task_store \<Rightarrow> task_store) \<Rightarrow> app \<Rightarrow> app" where
  "on_store f a = a\<lparr>aa_store := f (aa_store a)\<rparr>"

definition minting :: "app_lib \<Rightarrow> (mint \<Rightarrow> task_store \<Rightarrow> task_store) \<Rightarrow> app \<Rightarrow> app" where
  "minting l f a = a\<lparr>aa_store := f (al_mint l (aa_clock a)) (aa_store a), aa_clock := Suc (aa_clock a)\<rparr>"

definition request_api :: "api_request \<Rightarrow> pending \<Rightarrow> app \<Rightarrow> app" where
  "request_api q p a =
     a\<lparr>aa_calls := jm_set (aa_next a) p (aa_calls a), aa_requests := aa_requests a @ [(aa_next a, q)],
       aa_next := Suc (aa_next a)\<rparr>"

definition navigate :: "app_route \<Rightarrow> app \<Rightarrow> app" where
  "navigate r a = a\<lparr>aa_route := r\<rparr>"

definition upd_view :: "(conversation_view \<Rightarrow> conversation_view) \<Rightarrow> app \<Rightarrow> app" where
  "upd_view f a = a\<lparr>aa_view := map_option f (aa_view a)\<rparr>"

definition upd_history :: "nat \<Rightarrow> (history_view \<Rightarrow> history_view) \<Rightarrow> app \<Rightarrow> app" where
  "upd_history i f a =
     a\<lparr>aa_history := map_option (\<lambda>h. if hv_id h = i then f h else h) (aa_history a)\<rparr>"

definition close_sub :: "nat \<Rightarrow> app \<Rightarrow> app" where
  "close_sub k a =
     (case jm_get (aa_subs a) k of
        None \<Rightarrow> a
      | Some (t, s) \<Rightarrow> a\<lparr>aa_subs := jm_set k (t, ms_step (\<lambda>_. None) MsClose s) (aa_subs a)\<rparr>)"

definition truthy :: "jstr option \<Rightarrow> jstr option" where
  "truthy x = (case x of Some t \<Rightarrow> if t = [] then None else Some t | None \<Rightarrow> None)"

section \<open>Attachments\<close>

text \<open>The files picked are uploaded one after another.\<close>

definition attach_next :: "app_lib \<Rightarrow> picked list \<Rightarrow> app \<Rightarrow> app" where
  "attach_next l ps a =
     (case ps of
        [] \<Rightarrow> a
      | p # rest \<Rightarrow>
          let (st, clientId) = beginPendingAttachment (al_mint l (aa_clock a)) (pk_filename p) (pk_mimeType p)
                 (pk_sizeBytes p) (aa_store a)
          in request_api (UploadAttachment p) (UploadingFile clientId rest)
               (a\<lparr>aa_store := st, aa_clock := Suc (aa_clock a)\<rparr>))"

definition removeAttachment :: "jstr \<Rightarrow> jstr option \<Rightarrow> app \<Rightarrow> app" where
  "removeAttachment clientId fileId a =
     (let a1 = on_store (removePendingAttachment clientId) a
      in case truthy fileId of None \<Rightarrow> a1 | Some f \<Rightarrow> request_api (DeleteUpload f) Ignored a1)"

section \<open>The home screen\<close>

definition beginConversation :: "app_lib \<Rightarrow> jstr \<Rightarrow> app \<Rightarrow> app" where
  "beginConversation l prompt a =
     (let x = js_trim prompt
      in if x = [] then a
         else
           let fileIds = getUploadedPendingFileIds (aa_store a)
           in request_api (CreateTask x fileIds) Executing
                (navigate ConversationRoute (minting l (\<lambda>m. startConversation m x) a)))"

section \<open>The conversation screen\<close>

definition push_event :: "task_event \<Rightarrow> app \<Rightarrow> app" where
  "push_event e a =
     a\<lparr>aa_streamEvents := aa_streamEvents a @
        [\<lparr>se_type = event_type (ev_detail e), se_taskId = ev_taskId (ev_base e), se_timestamp = ev_timestamp (ev_base e),
          se_delta = (case ev_detail e of Delta d \<Rightarrow> Some d | _ \<Rightarrow> None)\<rparr>]\<rparr>"

text \<open>
  \<^verbatim>\<open>onEvent\<close>. The endpoint sends events of the shared schema only; for anything else the cast in the
  code says nothing, and it is passed over here.
\<close>

definition on_event :: "app_lib \<Rightarrow> jstr \<Rightarrow> json \<Rightarrow> app \<Rightarrow> app" where
  "on_event l taskId v a =
     (case parse_task_event (al_vurl l) v of
        None \<Rightarrow> a
      | Some e \<Rightarrow>
          let a1 = minting l (\<lambda>m. applyStreamEvent m e) (push_event e a)
          in if ev_detail e = CompletedEv then request_api (GetVersions taskId) LoadingVersions a1 else a1)"

definition on_complete :: "jstr \<Rightarrow> app \<Rightarrow> app" where
  "on_complete taskId a =
     upd_view (\<lambda>v. if vw_activeTask v = Some taskId then v\<lparr>vw_activeTask := None, vw_active := None\<rparr> else v) a"

definition stream_in :: "app_lib \<Rightarrow> nat \<Rightarrow> ms_in \<Rightarrow> app \<Rightarrow> app" where
  "stream_in l k i a =
     (case jm_get (aa_subs a) k of
        None \<Rightarrow> a
      | Some (taskId, s) \<Rightarrow>
          if i = MsClose then a
          else
            let s' = ms_step (al_json l) i s;
                a1 = fold (on_event l taskId) (drop (length (ms_events s)) (ms_events s'))
                       (a\<lparr>aa_subs := jm_set k (taskId, s') (aa_subs a)\<rparr>);
                a2 = (if ms_completed s < ms_completed s' then on_complete taskId a1 else a1)
            in fold (\<lambda>e. on_store (setTaskError e)) (drop (length (ms_errors s)) (ms_errors s')) a2)"

text \<open>The effect's cleanup, and the effect.\<close>

definition view_cleanup :: "app \<Rightarrow> app" where
  "view_cleanup a =
     (case Option.bind (aa_view a) vw_cleanup of
        None \<Rightarrow> a
      | Some (taskId, k) \<Rightarrow>
          close_sub k
            (upd_view (\<lambda>v. v\<lparr>vw_activeTask := (if vw_activeTask v = Some taskId then None else vw_activeTask v),
               vw_active := (if vw_active v = Some k then None else vw_active v), vw_cleanup := None\<rparr>) a))"

definition in_flight :: "jstr option \<Rightarrow> bool" where
  "in_flight st \<longleftrightarrow> st = Some (js ''queued'') \<or> st = Some (js ''running'')"

definition view_effect :: "app \<Rightarrow> app" where
  "view_effect a =
     (case aa_view a of
        None \<Rightarrow> a
      | Some v \<Rightarrow>
          let taskId = ts_currentTaskId (aa_shown a); status = ts_currentStatus (aa_shown a);
              a0 = a\<lparr>aa_view := Some (v\<lparr>vw_deps := (taskId, status)\<rparr>)\<rparr>
          in case truthy taskId of
               None \<Rightarrow> a0
             | Some t \<Rightarrow>
                 if \<not> in_flight status \<or> vw_activeTask v = Some t then a0
                 else
                   let a1 = (case vw_active v of None \<Rightarrow> a0 | Some j \<Rightarrow> close_sub j a0); k = aa_next a1
                   in a1\<lparr>aa_subs := jm_set k (t, subscribeTaskStream) (aa_subs a1), aa_next := Suc k,
                         aa_view := Some (v\<lparr>vw_deps := (taskId, status), vw_activeTask := Some t,
                           vw_active := Some k, vw_cleanup := Some (t, k)\<rparr>)\<rparr>)"

definition sendMessage :: "app_lib \<Rightarrow> app \<Rightarrow> app" where
  "sendMessage l a =
     (case aa_view a of
        None \<Rightarrow> a
      | Some v \<Rightarrow>
          let x = js_trim (vw_draft v)
          in if x = [] then a
             else
               let fileIds = getUploadedPendingFileIds (aa_store a);
                   a1 = upd_view (\<lambda>v. v\<lparr>vw_draft := []\<rparr>) (minting l (\<lambda>m. appendFollowUp m x) a)
               in request_api (case truthy (ts_currentTaskId (aa_shown a)) of
                      Some t \<Rightarrow> FollowUpTask t x fileIds | None \<Rightarrow> CreateTask x fileIds) Executing a1)"

definition retryTask :: "app \<Rightarrow> app" where
  "retryTask a =
     (case truthy (ts_currentTaskId (aa_shown a)) of
        None \<Rightarrow> a
      | Some t \<Rightarrow> request_api (RegenerateTask t) Executing (on_store beginRetry a))"

definition cancelCurrentTask :: "app \<Rightarrow> app" where
  "cancelCurrentTask a =
     (case (aa_view a, truthy (ts_currentTaskId (aa_shown a))) of
        (Some v, Some t) \<Rightarrow> request_api (CancelTaskReq t) (Cancelling (vw_id v)) a
      | _ \<Rightarrow> a)"

text \<open>The cancellation was accepted: the refs are those of the screen that asked for it.\<close>

definition task_cancelled :: "nat \<Rightarrow> app \<Rightarrow> app" where
  "task_cancelled i a =
     on_store markCancelled
       (case aa_view a of
          Some v \<Rightarrow>
            if vw_id v = i
            then upd_view (\<lambda>v. v\<lparr>vw_active := None, vw_activeTask := None\<rparr>)
                   (case vw_active v of None \<Rightarrow> a | Some k \<Rightarrow> close_sub k a)
            else a
        | None \<Rightarrow> a)"

section \<open>The history screen\<close>

definition history_status :: "jstr \<Rightarrow> jstr" where
  "history_status s =
     (if s = js ''completed'' then finished
      else if s = js ''failed'' then failed_label
      else if s = js ''cancelled'' then cancelled_label else in_progress)"

definition history_recent :: "app_lib \<Rightarrow> history_item \<Rightarrow> recent_conversation" where
  "history_recent l i =
     \<lparr>rc_id = hi_taskId i, rc_sessionId = Some (hi_sessionId i), rc_title = hi_title i,
      rc_subtitle = al_locale l (hi_updatedAt i), rc_status = history_status (hi_status i), rc_prompt = hi_prompt i\<rparr>"

definition clear_history_error :: "app \<Rightarrow> app" where
  "clear_history_error a = a\<lparr>aa_history := map_option (\<lambda>h. h\<lparr>hv_error := None\<rparr>) (aa_history a)\<rparr>"

definition openConversation :: "jstr \<Rightarrow> app \<Rightarrow> app" where
  "openConversation taskId a =
     (case aa_history a of
        None \<Rightarrow> a
      | Some h \<Rightarrow> request_api (GetDetail taskId) (OpeningHistory (hv_id h)) (clear_history_error a))"

definition loadMore :: "app \<Rightarrow> app" where
  "loadMore a =
     (case aa_history a of
        None \<Rightarrow> a
      | Some h \<Rightarrow>
          (case truthy (hv_nextCursor h) of
             None \<Rightarrow> a
           | Some c \<Rightarrow>
               if hv_loadingMore h then a
               else request_api (ListHistory (Some c)) (LoadingMore (hv_id h))
                      (a\<lparr>aa_history := Some (h\<lparr>hv_loadingMore := True, hv_error := None\<rparr>)\<rparr>)))"

definition removeConversation :: "jstr \<Rightarrow> app \<Rightarrow> app" where
  "removeConversation taskId a =
     (case aa_history a of
        None \<Rightarrow> a
      | Some h \<Rightarrow> request_api (DeleteHistory taskId) (DeletingHistory (hv_id h) taskId) (clear_history_error a))"

section \<open>Rendering\<close>

datatype screen = Spinner | LoginScreen | Screen app_route

definition signed_in :: "jstr option \<Rightarrow> bool" where
  "signed_in token \<longleftrightarrow> truthy token \<noteq> None"

definition current_screen :: "app \<Rightarrow> screen" where
  "current_screen a =
     (if \<not> aa_hydrated a then Spinner
      else if \<not> signed_in (aa_token a) then LoginScreen else Screen (aa_route a))"

text \<open>Screens that are left run their cleanups and go.\<close>

definition leave_screens :: "screen \<Rightarrow> app \<Rightarrow> app" where
  "leave_screens sc a =
     (let a1 = (if sc \<noteq> Screen ConversationRoute then (view_cleanup a)\<lparr>aa_view := None\<rparr> else a)
      in if sc \<noteq> Screen HistoryRoute then a1\<lparr>aa_history := None\<rparr> else a1)"

definition view_deps_changed :: "app \<Rightarrow> conversation_view \<Rightarrow> bool" where
  "view_deps_changed a v \<longleftrightarrow> vw_deps v \<noteq> (ts_currentTaskId (aa_shown a), ts_currentStatus (aa_shown a))"

definition new_view :: "nat \<Rightarrow> conversation_view" where
  "new_view i = \<lparr>vw_id = i, vw_draft = [], vw_deps = (None, None), vw_cleanup = None, vw_activeTask = None, vw_active = None\<rparr>"

text \<open>The conversation screen: mounted, its effect run; or its effect run again if what it depends on changed.\<close>

definition render_conversation :: "app \<Rightarrow> app" where
  "render_conversation a =
     (case aa_view a of
        None \<Rightarrow> view_effect (a\<lparr>aa_view := Some (new_view (aa_next a)), aa_next := Suc (aa_next a)\<rparr>)
      | Some v \<Rightarrow> if view_deps_changed a v then view_effect (view_cleanup a) else a)"

definition render_history :: "app \<Rightarrow> app" where
  "render_history a =
     (case aa_history a of
        Some h \<Rightarrow> a
      | None \<Rightarrow>
          request_api (ListHistory None) (LoadingHistory (aa_next a))
            (a\<lparr>aa_history := Some \<lparr>hv_id = aa_next a, hv_loading = True, hv_error = None, hv_nextCursor = None,
                 hv_loadingMore = False\<rparr>\<rparr>))"

text \<open>The effects of the navigator, when the access token is not the one of the last render.\<close>

definition token_effects :: "app \<Rightarrow> app" where
  "token_effects a =
     (if aa_shownToken a = Some (aa_token a) then a
      else
        let a1 = a\<lparr>aa_shownToken := Some (aa_token a), aa_session := None\<rparr>
        in if signed_in (aa_token a)
           then let i = aa_next a1 in request_api ListActive (Recovering i) (a1\<lparr>aa_session := Some i\<rparr>)
           else navigate HomeRoute (on_store reset_store a1))"

definition render :: "app \<Rightarrow> app" where
  "render a =
     (let sc = current_screen a;
          a1 = leave_screens sc (a\<lparr>aa_shown := st_snapshot (aa_store a)\<rparr>);
          a2 = (if sc = Screen ConversationRoute then render_conversation a1
                else if sc = Screen HistoryRoute then render_history a1 else a1)
      in token_effects a2)"

section \<open>Recovery and answers\<close>

definition recover :: "app \<Rightarrow> app" where
  "recover a =
     (case aa_session a of None \<Rightarrow> a | Some i \<Rightarrow> request_api ListActive (Recovering i) a)"

definition open_task :: "jstr \<Rightarrow> app \<Rightarrow> app" where
  "open_task taskId a =
     (case aa_session a of None \<Rightarrow> a | Some i \<Rightarrow> request_api (GetDetail taskId) (OpeningTask i) a)"

definition show_detail :: "task_detail \<Rightarrow> app \<Rightarrow> app" where
  "show_detail d a = navigate ConversationRoute (on_store (hydrateServerConversation d) a)"

definition recovered :: "(jstr \<times> jstr \<times> jstr \<times> jstr) list \<Rightarrow> nat \<Rightarrow> app \<Rightarrow> app" where
  "recovered tasks i a =
     (case tasks of
        (taskId, sessionId, inputText, status) # _ \<Rightarrow>
          navigate ConversationRoute (on_store (recoverActiveTask taskId sessionId inputText status) a)
      | [] \<Rightarrow>
          (case truthy (ts_currentTaskId (st_snapshot (aa_store a))) of
             None \<Rightarrow> a
           | Some t \<Rightarrow> request_api (GetDetail t) (RecoveringDetail i) a))"

definition on_answer :: "app_lib \<Rightarrow> pending \<Rightarrow> answer \<Rightarrow> app \<Rightarrow> app" where
  "on_answer l p r a =
     (case p of
        Executing \<Rightarrow>
          (case r of
             Execution t sid st e \<Rightarrow> on_store (setExecutionMeta t sid st e) a
           | Failed m \<Rightarrow> on_store (setTaskError m) a
           | _ \<Rightarrow> a)
      | Cancelling i \<Rightarrow>
          (case r of
             Fine \<Rightarrow> task_cancelled i a
           | Failed m \<Rightarrow> on_store (setTaskError m) a
           | _ \<Rightarrow> a)
      | LoadingVersions \<Rightarrow>
          (case r of
             Versions vs \<Rightarrow> on_store (setResultVersions vs) a
           | _ \<Rightarrow> a)
      | UploadingFile c rest \<Rightarrow>
          (case r of
             Uploaded f \<Rightarrow> attach_next l rest (on_store (completePendingAttachment c f) a)
           | Failed m \<Rightarrow> attach_next l rest (on_store (failPendingAttachment c m) a)
           | _ \<Rightarrow> a)
      | LoadingHistory i \<Rightarrow>
          (case r of
             HistoryPage items c \<Rightarrow>
               (if map_option hv_id (aa_history a) = Some i
                then upd_history i (\<lambda>h. h\<lparr>hv_nextCursor := c, hv_loading := False\<rparr>)
                       (on_store (hydrateRecentConversations (map (history_recent l) items)) a)
                else a)
           | Failed m \<Rightarrow> upd_history i (\<lambda>h. h\<lparr>hv_error := Some m, hv_loading := False\<rparr>) a
           | _ \<Rightarrow> a)
      | LoadingMore i \<Rightarrow>
          (case r of
             HistoryPage items c \<Rightarrow>
               upd_history i (\<lambda>h. h\<lparr>hv_nextCursor := c, hv_loadingMore := False\<rparr>)
                 (on_store (appendRecentConversations (map (history_recent l) items)) a)
           | Failed m \<Rightarrow> upd_history i (\<lambda>h. h\<lparr>hv_error := Some m, hv_loadingMore := False\<rparr>) a
           | _ \<Rightarrow> a)
      | OpeningHistory i \<Rightarrow>
          (case r of
             Detail d \<Rightarrow> show_detail d a
           | Failed m \<Rightarrow> upd_history i (\<lambda>h. h\<lparr>hv_error := Some m\<rparr>) a
           | _ \<Rightarrow> a)
      | DeletingHistory i t \<Rightarrow>
          (case r of
             Fine \<Rightarrow> on_store (removeRecentConversation t) a
           | Failed m \<Rightarrow> upd_history i (\<lambda>h. h\<lparr>hv_error := Some m\<rparr>) a
           | _ \<Rightarrow> a)
      | Recovering i \<Rightarrow>
          (case r of
             ActiveTasks ts \<Rightarrow> (if aa_session a = Some i then recovered ts i a else a)
           | _ \<Rightarrow> a)
      | RecoveringDetail i \<Rightarrow>
          (case r of
             Detail d \<Rightarrow> (if aa_session a = Some i then show_detail d a else a)
           | _ \<Rightarrow> a)
      | OpeningTask i \<Rightarrow>
          (case r of
             Detail d \<Rightarrow> (if aa_session a = Some i then show_detail d a else a)
           | _ \<Rightarrow> a)
      | Ignored \<Rightarrow> a)"

section \<open>The app as a machine\<close>

datatype app_in =
    Render
  | TokenChanged "jstr option"
  | Navigate app_route
  | SetViewDraft jstr
  | PickAttachments "picked list"
  | RemovePending jstr "jstr option"
  | BeginConversation jstr
  | SendMessage
  | RetryTask
  | CancelTaskTap
  | SelectVersionTap nat
  | StreamIn nat ms_in
  | OpenConversation jstr
  | LoadMore
  | RemoveConversation jstr
  | Foreground
  | NotificationTap jstr
  | Answer nat answer

fun app_step :: "app_lib \<Rightarrow> app_in \<Rightarrow> app \<Rightarrow> app" where
  "app_step l Render a = render a"
| "app_step l (TokenChanged token) a = a\<lparr>aa_token := token, aa_hydrated := True\<rparr>"
| "app_step l (Navigate r) a = navigate r a"
| "app_step l (SetViewDraft x) a = upd_view (\<lambda>v. v\<lparr>vw_draft := x\<rparr>) a"
| "app_step l (PickAttachments ps) a = attach_next l ps a"
| "app_step l (RemovePending c f) a = removeAttachment c f a"
| "app_step l (BeginConversation x) a = beginConversation l x a"
| "app_step l SendMessage a = sendMessage l a"
| "app_step l RetryTask a = retryTask a"
| "app_step l CancelTaskTap a = cancelCurrentTask a"
| "app_step l (SelectVersionTap n) a = on_store (selectResultVersion n) a"
| "app_step l (StreamIn k i) a = stream_in l k i a"
| "app_step l (OpenConversation t) a = openConversation t a"
| "app_step l LoadMore a = loadMore a"
| "app_step l (RemoveConversation t) a = removeConversation t a"
| "app_step l Foreground a = recover a"
| "app_step l (NotificationTap t) a = open_task t a"
| "app_step l (Answer i r) a =
     (case jm_get (aa_calls a) i of
        None \<Rightarrow> a
      | Some p \<Rightarrow> on_answer l p r (a\<lparr>aa_calls := jm_delete i (aa_calls a)\<rparr>))"

end
