(* ===== verification/TaskStream.thy ===== *)
theory TaskStream
  imports TaskLog
begin

text \<open>
  The live stream of a task: \<^verbatim>\<open>apps/mobile-api/src/stream/task-event-hub.ts\<close>, which hands every
  persisted event to the listeners of its task (and, through Redis, to the other API
  processes), and \<^verbatim>\<open>task-stream.controller.ts\<close>, which merges the stored events after the
  client's last id with those that arrive while they are being read. The machine \<open>live_step\<close>
  interleaves persisted events, messages of other processes, and the steps of every open stream.
\<close>

section \<open>State\<close>

type_synonym persisted_event = "nat \<times> task_event"

text \<open>
  One request to the stream endpoint: its local variables, what became of its query, and
  what its response has received. \<open>su_queue\<close> is \<^verbatim>\<open>liveQueue\<close>; \<open>su_sent\<close> are the frames of \<^verbatim>\<open>next\<close>.
\<close>

datatype stream_query = Pending | Answered "exn + persisted_event list" | Merged

record stream_sub =
  su_userId :: jstr
  su_taskId :: jstr
  su_afterId :: nat
  su_closed :: bool
  su_replaying :: bool
  su_lastSentId :: nat
  su_queue :: "persisted_event list"
  su_query :: stream_query
  su_sent :: "persisted_event list"
  su_complete :: bool
  su_error :: "exn option"

text \<open>A message on the Redis channel: its origin, its task and the event.\<close>

type_synonym hub_message = "jstr \<times> jstr \<times> persisted_event"

record hub_config =
  hc_origin :: jstr
  hc_enabled :: bool

record live =
  lv_api :: api
  lv_listeners :: "(jstr, nat list) jmap"
  lv_subs :: "(nat, stream_sub) jmap"
  lv_outbox :: "hub_message list"

text \<open>\<^verbatim>\<open>process.env.REDIS_EVENTS_ENABLED?.toLowerCase() !== "false"\<close>.\<close>

definition events_enabled :: "jstr option \<Rightarrow> bool" where
  "events_enabled v = (case v of None \<Rightarrow> True | Some t \<Rightarrow> js_lower t \<noteq> js ''false'')"

section \<open>Listeners\<close>

text \<open>The listeners of a task are a \<^verbatim>\<open>Set\<close>, iterated in the order in which they were added.\<close>

definition hub_subscribe :: "jstr \<Rightarrow> nat \<Rightarrow> (jstr, nat list) jmap \<Rightarrow> (jstr, nat list) jmap" where
  "hub_subscribe t k m =
     (let ks = (case jm_get m t of None \<Rightarrow> [] | Some ks \<Rightarrow> ks)
      in jm_set t (if k \<in> set ks then ks else ks @ [k]) m)"

definition hub_unsubscribe :: "jstr \<Rightarrow> nat \<Rightarrow> (jstr, nat list) jmap \<Rightarrow> (jstr, nat list) jmap" where
  "hub_unsubscribe t k m =
     (case jm_get m t of
        None \<Rightarrow> m
      | Some ks \<Rightarrow>
          (let ks' = filter (\<lambda>j. j \<noteq> k) ks
           in if ks' = [] then jm_delete t m else jm_set t ks' m))"

definition upd_sub :: "nat \<Rightarrow> (stream_sub \<Rightarrow> stream_sub) \<Rightarrow> live \<Rightarrow> live" where
  "upd_sub k f s =
     (case jm_get (lv_subs s) k of
        None \<Rightarrow> s
      | Some u \<Rightarrow> s\<lparr>lv_subs := jm_set k (f u) (lv_subs s)\<rparr>)"

text \<open>The teardown of the observable, run when it completes, fails, or its client leaves.\<close>

definition su_teardown :: "nat \<Rightarrow> live \<Rightarrow> live" where
  "su_teardown k s =
     (case jm_get (lv_subs s) k of
        None \<Rightarrow> s
      | Some u \<Rightarrow> (upd_sub k (\<lambda>u. u\<lparr>su_closed := True\<rparr>) s)
                    \<lparr>lv_listeners := hub_unsubscribe (su_taskId u) k (lv_listeners s)\<rparr>)"

definition isTerminal :: "persisted_event \<Rightarrow> bool" where
  "isTerminal p = terminal_detail (ev_detail (snd p))"

definition su_emit :: "nat \<Rightarrow> persisted_event \<Rightarrow> live \<Rightarrow> live" where
  "su_emit k p s =
     (case jm_get (lv_subs s) k of
        None \<Rightarrow> s
      | Some u \<Rightarrow>
          if su_closed u \<or> fst p \<le> su_lastSentId u then s
          else
            let s1 = upd_sub k (\<lambda>u. u\<lparr>su_lastSentId := fst p, su_sent := su_sent u @ [p]\<rparr>) s
            in if isTerminal p
               then su_teardown k (upd_sub k (\<lambda>u. u\<lparr>su_closed := True, su_complete := True\<rparr>) s1)
               else s1)"

text \<open>The listener that a stream registers.\<close>

definition su_listener :: "persisted_event \<Rightarrow> nat \<Rightarrow> live \<Rightarrow> live" where
  "su_listener p k s =
     (case jm_get (lv_subs s) k of
        None \<Rightarrow> s
      | Some u \<Rightarrow>
          if su_replaying u then upd_sub k (\<lambda>u. u\<lparr>su_queue := su_queue u @ [p]\<rparr>) s
          else su_emit k p s)"

section \<open>The hub\<close>

fun drops_listeners :: "event_detail \<Rightarrow> bool" where
  "drops_listeners CompletedEv = True"
| "drops_listeners (FailedEv _ _) = True"
| "drops_listeners _ = False"

definition hub_deliver :: "jstr \<Rightarrow> persisted_event \<Rightarrow> live \<Rightarrow> live" where
  "hub_deliver t p s =
     (case jm_get (lv_listeners s) t of
        None \<Rightarrow> s
      | Some ks \<Rightarrow>
          let s1 = fold (su_listener p) ks s
          in if drops_listeners (ev_detail (snd p))
             then s1\<lparr>lv_listeners := jm_delete t (lv_listeners s1)\<rparr>
             else s1)"

definition hub_publish :: "hub_config \<Rightarrow> jstr \<Rightarrow> persisted_event \<Rightarrow> live \<Rightarrow> live" where
  "hub_publish c t p s =
     (let s1 = hub_deliver t p s
      in if hc_enabled c then s1\<lparr>lv_outbox := lv_outbox s1 @ [(hc_origin c, t, p)]\<rparr> else s1)"

text \<open>A message from the channel; one that does not parse is \<open>None\<close>.\<close>

definition hub_message :: "hub_config \<Rightarrow> hub_message option \<Rightarrow> live \<Rightarrow> live" where
  "hub_message c m s =
     (case m of
        None \<Rightarrow> s
      | Some (origin, t, p) \<Rightarrow>
          if hc_enabled c \<and> origin \<noteq> hc_origin c then hub_deliver t p s else s)"

text \<open>At shutdown the hub forgets its listeners; it is no step of the machine, which ends there.\<close>

definition hub_onModuleDestroy :: "live \<Rightarrow> live" where
  "hub_onModuleDestroy s = s\<lparr>lv_listeners := []\<rparr>"

section \<open>The stream endpoint\<close>

definition parseLastEventId :: "jstr option \<Rightarrow> nat" where
  "parseLastEventId h = positive_or 0 (opt_number h)"

definition stream_open :: "nat \<Rightarrow> jstr \<Rightarrow> jstr \<Rightarrow> jstr option \<Rightarrow> live \<Rightarrow> live" where
  "stream_open k uid t h s =
     (let afterId = parseLastEventId h
      in s\<lparr>lv_subs := jm_set k \<lparr>su_userId = uid, su_taskId = t, su_afterId = afterId, su_closed = False,
              su_replaying = True, su_lastSentId = afterId, su_queue = [], su_query = Pending, su_sent = [],
              su_complete = False, su_error = None\<rparr> (lv_subs s),
           lv_listeners := hub_subscribe t k (lv_listeners s)\<rparr>)"

text \<open>The query reads the database at one moment; its answer is handled later.\<close>

definition stream_read :: "ext \<Rightarrow> nat \<Rightarrow> live \<Rightarrow> live" where
  "stream_read x k s =
     upd_sub k (\<lambda>u. if su_query u = Pending
                    then u\<lparr>su_query := Answered (listTaskEvents x (ap_db (lv_api s)) (su_userId u)
                                                  (su_taskId u) (su_afterId u))\<rparr>
                    else u) s"

fun emit_all :: "nat \<Rightarrow> persisted_event list \<Rightarrow> live \<Rightarrow> live" where
  "emit_all k [] s = s"
| "emit_all k (p # ps) s =
     (let s1 = su_emit k p s
      in case jm_get (lv_subs s1) k of
           None \<Rightarrow> s1
         | Some u \<Rightarrow> if su_closed u then s1 else emit_all k ps s1)"

text \<open>The handlers of the answer, \<^verbatim>\<open>then\<close> and \<^verbatim>\<open>catch\<close>.\<close>

definition stream_merge :: "nat \<Rightarrow> stream_sub \<Rightarrow> persisted_event list \<Rightarrow> live \<Rightarrow> live" where
  "stream_merge k u replay s =
     (let ordered = sort_key fst (replay @ su_queue u);
          s1 = upd_sub k (\<lambda>u. u\<lparr>su_replaying := False, su_query := Merged\<rparr>) (emit_all k ordered s)
      in case jm_get (lv_subs s1) k of
           None \<Rightarrow> s1
         | Some u' \<Rightarrow>
             if su_closed u'
             then s1\<lparr>lv_listeners := hub_unsubscribe (su_taskId u) k (lv_listeners s1)\<rparr>
             else s1)"

definition stream_failed :: "nat \<Rightarrow> stream_sub \<Rightarrow> exn \<Rightarrow> live \<Rightarrow> live" where
  "stream_failed k u e s =
     (let s1 = upd_sub k (\<lambda>u. u\<lparr>su_query := Merged\<rparr>)
                 (if su_closed u then s
                  else su_teardown k (upd_sub k (\<lambda>u. u\<lparr>su_closed := True, su_error := Some e\<rparr>) s))
      in s1\<lparr>lv_listeners := hub_unsubscribe (su_taskId u) k (lv_listeners s1)\<rparr>)"

definition stream_answer :: "nat \<Rightarrow> live \<Rightarrow> live" where
  "stream_answer k s =
     (case jm_get (lv_subs s) k of
        None \<Rightarrow> s
      | Some u \<Rightarrow>
          (case su_query u of
             Answered (Inr replay) \<Rightarrow> stream_merge k u replay s
           | Answered (Inl e) \<Rightarrow> stream_failed k u e s
           | _ \<Rightarrow> s))"

section \<open>The machine\<close>

datatype live_in =
    LivePersist ext task_event "jstr option"
  | LiveMessage "hub_message option"
  | LiveOpen nat jstr jstr "jstr option"
  | LiveRead ext nat
  | LiveAnswer nat
  | LiveLeave nat

text \<open>\<^verbatim>\<open>persistTaskEvent\<close> with the hub: what it publishes reaches the listeners at once.\<close>

definition live_persist :: "hub_config \<Rightarrow> (jstr \<Rightarrow> bool) \<Rightarrow> ext \<times> task_event \<times> jstr option \<Rightarrow> live \<Rightarrow> live" where
  "live_persist c vurl i s =
     (let w = persist_step vurl i (lv_api s)
      in fold (\<lambda>(t, p). hub_publish c t p) (drop (length (ap_published (lv_api s))) (ap_published w))
           (s\<lparr>lv_api := w\<rparr>))"

fun live_step :: "hub_config \<Rightarrow> (jstr \<Rightarrow> bool) \<Rightarrow> live_in \<Rightarrow> live \<Rightarrow> live" where
  "live_step c vurl (LivePersist x e src) s = live_persist c vurl (x, e, src) s"
| "live_step c vurl (LiveMessage m) s = hub_message c m s"
| "live_step c vurl (LiveOpen k uid t h) s =
     (if jm_get (lv_subs s) k = None then stream_open k uid t h s else s)"
| "live_step c vurl (LiveRead x k) s = stream_read (x\<lparr>x_vurl := vurl\<rparr>) k s"
| "live_step c vurl (LiveAnswer k) s = stream_answer k s"
| "live_step c vurl (LiveLeave k) s = su_teardown k s"

definition live_run :: "hub_config \<Rightarrow> (jstr \<Rightarrow> bool) \<Rightarrow> live_in list \<Rightarrow> live \<Rightarrow> live" where
  "live_run c vurl is s = fold (live_step c vurl) is s"

definition live_new :: "api \<Rightarrow> live" where
  "live_new w = \<lparr>lv_api = w, lv_listeners = [], lv_subs = [], lv_outbox = []\<rparr>"

end
