(* ===== verification/TaskStreamRuns.thy ===== *)
theory TaskStreamRuns
  imports TaskStream
begin

text \<open>
  Every run of the live streams of one API process: what a stream has sent is always the
  beginning of its task's log after the id the client asked for, and once its query has been
  merged it is all of it, whatever was persisted while the query was under way.
\<close>

section \<open>The log as ids and types\<close>

definition log_index :: "db \<Rightarrow> jstr \<Rightarrow> (nat \<times> jstr) list" where
  "log_index d t = map (\<lambda>r. (te_id r, te_type r)) (filter (\<lambda>r. te_taskId r = t) (db_events d))"

definition tag :: "persisted_event \<Rightarrow> nat \<times> jstr" where
  "tag p = (fst p, event_type (ev_detail (snd p)))"

definition terminal_type :: "jstr \<Rightarrow> bool" where
  "terminal_type ty \<longleftrightarrow> ty \<in> {js ''task.completed'', js ''task.failed'', js ''task.cancelled''}"

definition after :: "nat \<Rightarrow> (nat \<times> jstr) list \<Rightarrow> (nat \<times> jstr) list" where
  "after n xs = filter (\<lambda>x. n < fst x) xs"

definition task_ended :: "db \<Rightarrow> jstr \<Rightarrow> bool" where
  "task_ended d t \<longleftrightarrow> (\<exists>tk. find_task d t = Some tk \<and> isTerminalStatus (t_status tk))"

lemma fst_tag [simp]: "fst (tag p) = fst p"
  by (simp add: tag_def)

lemma terminal_type_event [simp]: "terminal_type (event_type dt) = terminal_detail dt"
  by (cases dt) (simp_all add: terminal_type_def)

lemma terminal_tag: "terminal_type (snd (tag p)) = isTerminal p"
  by (simp add: tag_def isTerminal_def)

lemma drops_terminal: "drops_listeners dt \<Longrightarrow> terminal_detail dt"
  by (cases dt) simp_all

lemma after_append [simp]: "after n (xs @ ys) = after n xs @ after n ys"
  by (simp add: after_def)

lemma index_sorted:
  assumes "db_ok vurl d"
  shows "sorted_wrt (\<lambda>x y. fst x < fst y) (log_index d t)"
  using event_table.ids_increase [OF assms, of t] by (simp add: log_index_def sorted_wrt_map)

lemma index_bound: "db_ok vurl d \<Longrightarrow> x \<in> set (log_index d t) \<Longrightarrow> fst x < db_nextEvent d"
  by (auto simp: log_index_def db_ok_def events_ok_def list_all_iff)

lemma next_pos: "db_ok vurl d \<Longrightarrow> 0 < db_nextEvent d"
  by (simp add: db_ok_def events_ok_def)

lemma index_types:
  assumes "db_ok vurl d"
  shows "map snd (log_index d t) = map (\<lambda>x. event_type (the x)) (task_log vurl d t)"
    "None \<notin> set (task_log vurl d t)"
  using db_okD(2) [OF assms]
  by (auto simp: log_index_def task_log_def events_ok_def list_all_iff row_ok_def row_detail_def
      split: option.splits)

lemma index_terminal:
  assumes "db_ok vurl d"
  shows "x \<in> set (butlast (log_index d t)) \<Longrightarrow> \<not> terminal_type (snd x)"
    "x \<in> set (log_index d t) \<Longrightarrow> terminal_type (snd x) \<Longrightarrow> task_ended d t"
proof -
  have task: "\<exists>tk. find_task d t = Some tk" if "x \<in> set (log_index d t)" for x
    using that db_okD(1) [OF assms] by (auto simp: log_index_def keys_ok_def list_all_iff)
  have last: "\<not> (case y of None \<Rightarrow> False | Some e \<Rightarrow> terminal_detail e)"
    if "y \<in> set (butlast (task_log vurl d t))" "find_task d t = Some tk" for y tk
    using status_of_task [OF assms that(2)] that(1)
    by (auto simp: status_matches_def Let_def list_all_iff dest: in_set_butlastD split: if_splits)
  have kind: "\<exists>y \<in> set (butlast (task_log vurl d t)). y \<noteq> None \<and> snd x = event_type (the y)"
    if "x \<in> set (butlast (log_index d t))" for x
  proof -
    have "snd x \<in> set (butlast (map snd (log_index d t)))"
      using that by (simp add: map_butlast [symmetric])
    then show ?thesis
      using index_types [OF assms, of t]
      by (auto simp: map_butlast [symmetric] intro!: rev_bexI dest: in_set_butlastD) (metis in_set_butlastD not_None_eq)
  qed
  show "\<not> terminal_type (snd x)" if "x \<in> set (butlast (log_index d t))"
    using kind [OF that] task [of x] last in_set_butlastD [OF that] by fastforce
  show "task_ended d t" if x: "x \<in> set (log_index d t)" "terminal_type (snd x)"
  proof -
    obtain tk where tk: "find_task d t = Some tk" using task [OF x(1)] by blast
    have "snd x \<in> set (map (\<lambda>x. event_type (the x)) (task_log vurl d t))"
      using x(1) index_types(1) [OF assms, of t] by (metis image_eqI set_map)
    then obtain y where y: "y \<in> set (task_log vurl d t)" "snd x = event_type (the y)" by auto
    moreover from y obtain dt where "y = Some dt" using index_types(2) [OF assms, of t] by (metis option.exhaust)
    ultimately have "isTerminalStatus (t_status tk)"
      using status_of_task [OF assms tk] x(2)
      by (force simp: status_matches_def Let_def list_all_iff split: if_splits)
    with tk show ?thesis by (simp add: task_ended_def)
  qed
qed

text \<open>What one call of \<^verbatim>\<open>persistTaskEvent\<close> does to the log and to the published events.\<close>

lemma persist_effect [consumes 2, case_names unchanged stored']:
  assumes "db_ok vurl (ap_db w)" and "w' = persist_step vurl (x, e, src) w"
  obtains (unchanged) "ap_published w' = ap_published w" "log_index (ap_db w') = log_index (ap_db w)"
      "db_nextEvent (ap_db w') = db_nextEvent (ap_db w)" "task_ended (ap_db w') = task_ended (ap_db w)"
  | (stored') t p where "ap_published w' = ap_published w @ [(t, p)]"
      "\<And>i. log_index (ap_db w') i = log_index (ap_db w) i @ (if i = t then [tag p] else [])"
      "db_nextEvent (ap_db w') = Suc (db_nextEvent (ap_db w))" "fst p = db_nextEvent (ap_db w)"
      "\<not> task_ended (ap_db w) t" "isTerminal p \<Longrightarrow> task_ended (ap_db w') t"
      "\<And>i. task_ended (ap_db w) i \<Longrightarrow> task_ended (ap_db w') i"
proof -
  let ?x = "x\<lparr>x_vurl := vurl\<rparr>"
  have w': "w' = fst (persistTaskEvent ?x e src w)" using assms(2) by (simp add: persist_step_def)
  have same: thesis if "same_log (ap_db w) (ap_db w1)" "same_outbox w w1" "w' = w1" for w1
    by (rule unchanged)
      (use that in \<open>simp_all add: same_log_find [OF that(1)] same_outbox_def log_index_def task_ended_def fun_eq_iff\<close>)
  show thesis
  proof (cases rule: persistTaskEvent_cases [of src w e ?x])
    case skip
    then show ?thesis using w' by (intro same [of w]) (simp_all add: same_outbox_def)
  next
    case (prepare w1 err)
    then show ?thesis using w' prepare_frame [of w ?x e] by (intro same [of w1]) simp_all
  next
    case (rollback w1 p err)
    then show ?thesis using w' prepare_frame [of w ?x e] by (intro same [of w1]) simp_all
  next
    case (idle w1 p)
    then show ?thesis using w' prepare_frame [of w ?x e] by (intro same [of w1]) simp_all
  next
    case (stored w1 p d ps)
    have s: "same_log (ap_db w) (ap_db w1)" "same_outbox w w1"
      using prepare_frame [of w ?x e] stored(1) by simp_all
    have ok: "versions_ok (ap_db w1)" using assms(1) by (simp add: same_log_find [OF s(1)] db_ok_def)
    note pr = prepare_result [OF stored(1)]
    obtain u g h where
      u: "find_task (ap_db w1) (ev_taskId (ev_base (pr_stored p))) = Some u" "\<not> isTerminalStatus (t_status u)"
      and l: "log_step vurl (ap_db w1) (event_row_of (ap_db w1) (pr_stored p) src) (ev_detail (pr_stored p)) g h d"
      by (rule persist_tx_step [OF stored(2) ok]) (use pr in simp_all)
    have "ps_id ps = db_nextEvent (ap_db w1)" using persist_tx_stored [OF stored(2)] by metis
    then have "fst (ps_id ps, pr_published p) = db_nextEvent (ap_db w)" by (simp add: same_log_find [OF s(1)])
    moreover have "tag (ps_id ps, pr_published p) = (db_nextEvent (ap_db w), event_type (ev_detail (pr_stored p)))"
      using calculation pr by (simp add: tag_def)
    moreover have "log_index d i = log_index (ap_db w1) i
        @ (if i = ev_taskId (ev_base (pr_stored p))
           then [(db_nextEvent (ap_db w1), event_type (ev_detail (pr_stored p)))] else [])" for i
      using l by (auto simp: log_index_def log_step_def)
    moreover have "log_index (ap_db w1) = log_index (ap_db w)" "db_nextEvent d = Suc (db_nextEvent (ap_db w))"
      using l by (simp_all add: log_index_def fun_eq_iff same_log_find [OF s(1)] log_step_def)
    moreover have "\<not> task_ended (ap_db w) (ev_taskId (ev_base (pr_stored p)))"
      using u by (simp add: task_ended_def same_log_find [OF s(1)])
    moreover have "task_ended d (ev_taskId (ev_base (pr_stored p)))" if "isTerminal (ps_id ps, pr_published p)"
    proof -
      have "terminal_detail (ev_detail (pr_stored p))"
        using that pr by (metis isTerminal_def snd_conv terminal_type_event)
      then show ?thesis
        using u(1) l detail_status_terminal
        by (auto simp: task_ended_def log_step_find_task [OF l] find_task_SomeD terminal_detail_status log_step_def)
    qed
    moreover have "task_ended d i" if "task_ended (ap_db w) i" for i
    proof -
      from that obtain tk where tk: "find_task (ap_db w) i = Some tk" "isTerminalStatus (t_status tk)"
        by (auto simp: task_ended_def)
      then have "t_id tk \<noteq> ev_taskId (ev_base (pr_stored p))"
        using u find_task_SomeD [OF tk(1)] by (auto simp: same_log_find [OF s(1)])
      with tk show ?thesis by (simp add: task_ended_def log_step_find_task [OF l] same_log_find [OF s(1)])
    qed
    ultimately show ?thesis
      using stored(3) w' s(2) pr
      by (intro stored' [where t = "ev_taskId (ev_base (pr_stored p))" and p = "(ps_id ps, pr_published p)"])
        (simp_all add: same_outbox_def same_log_find [OF s(1)])
  qed
qed

section \<open>Listeners\<close>

definition listening :: "live \<Rightarrow> jstr \<Rightarrow> nat \<Rightarrow> bool" where
  "listening s t k \<longleftrightarrow> (\<exists>ks. jm_get (lv_listeners s) t = Some ks \<and> k \<in> set ks)"

definition listeners_ok :: "live \<Rightarrow> bool" where
  "listeners_ok s \<longleftrightarrow>
     (\<forall>t ks. jm_get (lv_listeners s) t = Some ks \<longrightarrow> distinct ks)
     \<and> (\<forall>t k. listening s t k \<longrightarrow> (\<exists>u. jm_get (lv_subs s) k = Some u \<and> su_taskId u = t))"

text \<open>The stream part of an emission and of the listener.\<close>

definition emit_sub :: "persisted_event \<Rightarrow> stream_sub \<Rightarrow> stream_sub" where
  "emit_sub p u =
     (if su_closed u \<or> fst p \<le> su_lastSentId u then u
      else u\<lparr>su_lastSentId := fst p, su_sent := su_sent u @ [p], su_closed := isTerminal p,
             su_complete := su_complete u \<or> isTerminal p\<rparr>)"

definition listener_sub :: "persisted_event \<Rightarrow> stream_sub \<Rightarrow> stream_sub" where
  "listener_sub p u =
     (if su_replaying u then u\<lparr>su_queue := su_queue u @ [p]\<rparr> else emit_sub p u)"

lemma emit_sub_task [simp]: "su_taskId (emit_sub p u) = su_taskId u" "su_taskId (listener_sub p u) = su_taskId u"
  by (simp_all add: emit_sub_def listener_sub_def)

lemma upd_sub_get [simp]:
  "jm_get (lv_subs (upd_sub k f s)) j = (if j = k then map_option f (jm_get (lv_subs s) k) else jm_get (lv_subs s) j)"
  "lv_api (upd_sub k f s) = lv_api s" "lv_listeners (upd_sub k f s) = lv_listeners s"
  by (auto simp: upd_sub_def split: option.split)

lemma unsubscribe_listening:
  "(\<exists>ks. jm_get (hub_unsubscribe t k m) t' = Some ks \<and> j \<in> set ks) \<longleftrightarrow>
     (\<exists>ks. jm_get m t' = Some ks \<and> j \<in> set ks) \<and> \<not> (t' = t \<and> j = k)"
  by (auto simp: hub_unsubscribe_def Let_def filter_empty_conv split: option.split)

lemma unsubscribe_distinct:
  assumes "\<forall>t ks. jm_get m t = Some ks \<longrightarrow> distinct ks"
  shows "jm_get (hub_unsubscribe t k m) t' = Some ks \<Longrightarrow> distinct ks"
  using assms by (auto simp: hub_unsubscribe_def Let_def split: option.splits if_splits)

text \<open>Steps that act on stream \<open>k\<close> alone, and take it out of the hub only when they close it.\<close>

definition stream_live :: "live \<Rightarrow> nat \<Rightarrow> bool" where
  "stream_live s k \<longleftrightarrow> (\<exists>u. jm_get (lv_subs s) k = Some u \<and> \<not> su_closed u)"

definition distinct_listeners :: "live \<Rightarrow> bool" where
  "distinct_listeners s \<longleftrightarrow> (\<forall>t ks. jm_get (lv_listeners s) t = Some ks \<longrightarrow> distinct ks)"

definition acts_on :: "nat \<Rightarrow> (stream_sub \<Rightarrow> stream_sub) \<Rightarrow> live \<Rightarrow> live \<Rightarrow> bool" where
  "acts_on k f s s' \<longleftrightarrow>
     lv_api s' = lv_api s
     \<and> jm_get (lv_subs s') = (jm_get (lv_subs s))(k := map_option f (jm_get (lv_subs s) k))
     \<and> (\<forall>t j. listening s' t j \<longrightarrow> listening s t j)
     \<and> (\<forall>t j. listening s t j \<longrightarrow> listening s' t j \<or> j = k \<and> \<not> stream_live s' k)
     \<and> (distinct_listeners s \<longrightarrow> distinct_listeners s')"

lemma acts_on_upd: "acts_on k f s (upd_sub k f s)"
  by (simp add: acts_on_def listening_def distinct_listeners_def fun_eq_iff)

lemma acts_on_teardown: "acts_on k (\<lambda>u. u\<lparr>su_closed := True\<rparr>) s (su_teardown k s)"
proof (cases "jm_get (lv_subs s) k")
  case None
  then show ?thesis by (simp add: acts_on_def su_teardown_def fun_eq_iff)
next
  case (Some u)
  then show ?thesis
    using unsubscribe_distinct
    by (auto simp: acts_on_def su_teardown_def listening_def unsubscribe_listening fun_eq_iff
        stream_live_def distinct_listeners_def)
qed

lemma acts_on_cong:
  assumes "acts_on k f s s'" "\<And>u. jm_get (lv_subs s) k = Some u \<Longrightarrow> f u = g u"
  shows "acts_on k g s s'"
proof -
  have "map_option f (jm_get (lv_subs s) k) = map_option g (jm_get (lv_subs s) k)"
    using assms(2) by (cases "jm_get (lv_subs s) k") auto
  with assms(1) show ?thesis by (simp add: acts_on_def)
qed

lemma acts_on_trans:
  assumes "acts_on k f s s1" "acts_on k g s1 s2" "\<And>u. su_closed u \<Longrightarrow> su_closed (g u)"
  shows "acts_on k (\<lambda>u. g (f u)) s s2"
proof -
  have "stream_live s1 k" if "stream_live s2 k"
    using that assms(2,3) by (auto simp: stream_live_def acts_on_def)
  moreover have "jm_get (lv_subs s2) = (jm_get (lv_subs s))(k := map_option (\<lambda>u. g (f u)) (jm_get (lv_subs s) k))"
    using assms(1,2) by (simp add: acts_on_def option.map_comp comp_def fun_eq_iff)
  ultimately show ?thesis using assms(1,2) unfolding acts_on_def by metis
qed

lemma acts_on_refl: "(\<And>u. jm_get (lv_subs s) k = Some u \<Longrightarrow> f u = u) \<Longrightarrow> acts_on k f s s"
  by (rule acts_on_cong [of k id]) (simp_all add: acts_on_def option.map_id)

lemma acts_on_emit: "acts_on k (emit_sub p) s (su_emit k p s)"
proof (cases "jm_get (lv_subs s) k")
  case None
  then have "su_emit k p s = s" by (simp add: su_emit_def)
  with None show ?thesis by (auto intro: acts_on_refl)
next
  case (Some u)
  let ?f = "\<lambda>u. u\<lparr>su_lastSentId := fst p, su_sent := su_sent u @ [p]\<rparr>"
  let ?g = "\<lambda>u. u\<lparr>su_closed := True, su_complete := True\<rparr>"
  have t: "acts_on k (\<lambda>u. (?g (?f u))\<lparr>su_closed := True\<rparr>) s (su_teardown k (upd_sub k ?g (upd_sub k ?f s)))"
    by (rule acts_on_trans [OF acts_on_trans [OF acts_on_upd acts_on_upd] acts_on_teardown]) simp_all
  consider "su_closed u \<or> fst p \<le> su_lastSentId u"
    | "\<not> (su_closed u \<or> fst p \<le> su_lastSentId u)" "isTerminal p"
    | "\<not> (su_closed u \<or> fst p \<le> su_lastSentId u)" "\<not> isTerminal p" by blast
  then show ?thesis
  proof cases
    case 1
    with Some show ?thesis by (auto simp: su_emit_def emit_sub_def intro: acts_on_refl)
  next
    case 2
    with Some show ?thesis by (auto simp: su_emit_def emit_sub_def Let_def intro!: acts_on_cong [OF t])
  next
    case 3
    with Some show ?thesis
      by (auto simp: su_emit_def emit_sub_def Let_def intro!: acts_on_cong [OF acts_on_upd])
  qed
qed

lemma acts_on_listener: "acts_on k (listener_sub p) s (su_listener p k s)"
proof (cases "jm_get (lv_subs s) k")
  case None
  then show ?thesis by (auto simp: su_listener_def intro: acts_on_refl)
next
  case (Some u)
  then show ?thesis
    by (cases "su_replaying u")
      (auto simp: su_listener_def listener_sub_def
        intro!: acts_on_cong [OF acts_on_upd] acts_on_cong [OF acts_on_emit])
qed

text \<open>Steps that leave the log alone and take only closed streams out of the hub.\<close>

definition only_closes :: "live \<Rightarrow> live \<Rightarrow> bool" where
  "only_closes s s' \<longleftrightarrow>
     lv_api s' = lv_api s
     \<and> (\<forall>t j. listening s' t j \<longrightarrow> listening s t j)
     \<and> (\<forall>t j. listening s t j \<longrightarrow> listening s' t j \<or> \<not> stream_live s' j)
     \<and> (\<forall>j. stream_live s' j \<longrightarrow> stream_live s j)
     \<and> (distinct_listeners s \<longrightarrow> distinct_listeners s')"

lemma only_closes_refl [simp]: "only_closes s s"
  by (simp add: only_closes_def)

lemma only_closes_trans: "only_closes s s1 \<Longrightarrow> only_closes s1 s2 \<Longrightarrow> only_closes s s2"
  unfolding only_closes_def by metis

lemma acts_on_closes:
  assumes "acts_on k f s s'" "\<And>u. su_closed u \<Longrightarrow> su_closed (f u)"
  shows "only_closes s s'"
proof -
  have "stream_live s j" if "stream_live s' j" for j
    using that assms by (auto simp: acts_on_def stream_live_def split: if_splits)
  then show ?thesis using assms(1) unfolding acts_on_def only_closes_def by blast
qed

lemma emit_closed: "su_closed u \<Longrightarrow> emit_sub p u = u" "su_closed u \<Longrightarrow> su_closed (listener_sub p u)"
  by (simp_all add: emit_sub_def listener_sub_def)

lemma listener_closes: "only_closes s (su_listener p k s)"
  by (rule acts_on_closes [OF acts_on_listener emit_closed(2)])

lemma fold_listeners:
  "only_closes s (fold (su_listener p) ks s)"
  "distinct ks \<Longrightarrow> jm_get (lv_subs (fold (su_listener p) ks s)) j =
     (if j \<in> set ks then map_option (listener_sub p) (jm_get (lv_subs s) j) else jm_get (lv_subs s) j)"
proof -
  show "only_closes s (fold (su_listener p) ks s)"
    by (induction ks arbitrary: s) (auto intro: only_closes_trans [OF listener_closes])
  show "jm_get (lv_subs (fold (su_listener p) ks s)) j =
     (if j \<in> set ks then map_option (listener_sub p) (jm_get (lv_subs s) j) else jm_get (lv_subs s) j)"
    if "distinct ks"
    using that
  proof (induction ks arbitrary: s)
    case (Cons k ks)
    then show ?case using acts_on_listener [of k p s] by (auto simp: acts_on_def)
  qed simp
qed

text \<open>A delivery: every listener of the task gets the event, once.\<close>

lemma deliver_subs:
  assumes "distinct_listeners s"
  shows "jm_get (lv_subs (hub_deliver t p s)) j =
      (if listening s t j then map_option (listener_sub p) (jm_get (lv_subs s) j) else jm_get (lv_subs s) j)"
    "lv_api (hub_deliver t p s) = lv_api s"
proof -
  show "jm_get (lv_subs (hub_deliver t p s)) j =
      (if listening s t j then map_option (listener_sub p) (jm_get (lv_subs s) j) else jm_get (lv_subs s) j)"
    using assms fold_listeners(2)
    by (auto simp: hub_deliver_def listening_def distinct_listeners_def Let_def split: option.split)
  show "lv_api (hub_deliver t p s) = lv_api s"
    using fold_listeners(1) [of s p]
    by (auto simp: hub_deliver_def only_closes_def Let_def split: option.split)
qed

lemma deliver_listeners:
  "listening (hub_deliver t p s) t' j \<Longrightarrow> listening s t' j"
  "listening s t' j \<Longrightarrow> listening (hub_deliver t p s) t' j \<or> \<not> stream_live (hub_deliver t p s) j
     \<or> t' = t \<and> isTerminal p"
  "distinct_listeners s \<Longrightarrow> distinct_listeners (hub_deliver t p s)"
proof -
  define h where "h = hub_deliver t p s"
  show "distinct_listeners (hub_deliver t p s)" if "distinct_listeners s"
    using that fold_listeners(1) [of s p]
    by (auto simp: hub_deliver_def distinct_listeners_def only_closes_def Let_def split: option.split)
  have "listening s t' j" if "listening h t' j"
    using that fold_listeners(1) [of s p]
    by (auto simp: h_def hub_deliver_def listening_def only_closes_def Let_def split: option.splits if_splits)
  then show "listening (hub_deliver t p s) t' j \<Longrightarrow> listening s t' j" by (simp add: h_def)
  have "listening h t' j \<or> \<not> stream_live h j \<or> t' = t \<and> isTerminal p" if l: "listening s t' j"
  proof (cases "jm_get (lv_listeners s) t")
    case None
    with l show ?thesis by (simp add: h_def hub_deliver_def)
  next
    case (Some ks)
    let ?s1 = "fold (su_listener p) ks s"
    have "listening ?s1 t' j \<or> \<not> stream_live ?s1 j"
      using fold_listeners(1) [of s p ks] l by (simp add: only_closes_def)
    with Some show ?thesis
      using drops_terminal by (auto simp: h_def hub_deliver_def Let_def listening_def stream_live_def isTerminal_def)
  qed
  then show "listening s t' j \<Longrightarrow> listening (hub_deliver t p s) t' j \<or> \<not> stream_live (hub_deliver t p s) j
     \<or> t' = t \<and> isTerminal p" by (simp add: h_def)
qed

section \<open>Merging the answer with the queue\<close>

fun emit_list :: "persisted_event list \<Rightarrow> stream_sub \<Rightarrow> stream_sub" where
  "emit_list [] u = u"
| "emit_list (p # ps) u =
     (let u1 = emit_sub p u in if su_closed u1 then u1 else emit_list ps u1)"

lemma emit_list_closed: "su_closed u \<Longrightarrow> emit_list ps u = u"
  by (cases ps) (simp_all add: emit_closed Let_def)

lemma acts_on_emit_all: "acts_on k (emit_list ps) s (emit_all k ps s)"
proof (induction ps arbitrary: s)
  case Nil
  then show ?case by (auto intro: acts_on_refl)
next
  case (Cons p ps)
  let ?s1 = "su_emit k p s"
  note e = acts_on_emit [of k p s]
  have t: "acts_on k (\<lambda>u. emit_list ps (emit_sub p u)) s (emit_all k ps ?s1)"
    by (rule acts_on_trans [OF e Cons.IH]) (simp add: emit_list_closed)
  show ?case
  proof (cases "jm_get (lv_subs s) k")
    case None
    with e have "jm_get (lv_subs ?s1) k = None" by (simp add: acts_on_def)
    then have "emit_all k (p # ps) s = ?s1" by simp
    with e None show ?thesis by (auto intro: acts_on_cong [OF e])
  next
    case (Some u)
    then have u: "jm_get (lv_subs ?s1) k = Some (emit_sub p u)" using e by (simp add: acts_on_def)
    show ?thesis
    proof (cases "su_closed (emit_sub p u)")
      case True
      with u have "emit_all k (p # ps) s = ?s1" by simp
      with True Some show ?thesis by (auto intro!: acts_on_cong [OF e])
    next
      case False
      with u have "emit_all k (p # ps) s = emit_all k ps ?s1" by simp
      with False Some show ?thesis by (auto intro!: acts_on_cong [OF t])
    qed
  qed
qed

text \<open>The events an open stream takes from a list, when it has sent up to id \<open>n\<close>.\<close>

fun climb :: "nat \<Rightarrow> persisted_event list \<Rightarrow> persisted_event list" where
  "climb n [] = []"
| "climb n (p # ps) =
     (if fst p \<le> n then climb n ps else p # (if isTerminal p then [] else climb (fst p) ps))"

lemma emit_list_climb:
  assumes "\<not> su_closed u" "\<not> su_complete u"
  shows "emit_list ps u =
    (let c = climb (su_lastSentId u) ps; over = (\<exists>p \<in> set c. isTerminal p)
     in u\<lparr>su_sent := su_sent u @ c, su_lastSentId := last (su_lastSentId u # map fst c),
          su_closed := over, su_complete := over\<rparr>)"
  using assms
proof (induction ps arbitrary: u)
  case Nil
  then show ?case by simp
next
  case (Cons p ps)
  consider "fst p \<le> su_lastSentId u" | "\<not> fst p \<le> su_lastSentId u" "isTerminal p"
    | "\<not> fst p \<le> su_lastSentId u" "\<not> isTerminal p" by blast
  then show ?case
  proof cases
    case 1
    then show ?thesis using Cons by (simp add: emit_sub_def)
  next
    case 2
    then show ?thesis using Cons.prems by (simp add: emit_sub_def Let_def)
  next
    case 3
    then show ?thesis using Cons.prems Cons.IH [of "emit_sub p u"] by (simp add: emit_sub_def Let_def)
  qed
qed

text \<open>From a sorted list that holds exactly the log after \<open>n\<close>, the stream takes the log after \<open>n\<close>.\<close>

lemma climb_sorted:
  assumes "sorted (map fst xs)" "sorted_wrt (\<lambda>x y. fst x < fst y) z"
    and "{x \<in> tag ` set xs. n < fst x} = set z" "\<forall>x \<in> set (butlast z). \<not> terminal_type (snd x)"
  shows "map tag (climb n xs) = z"
  using assms
proof (induction xs arbitrary: n z)
  case Nil
  then show ?case by simp
next
  case (Cons p ps)
  show ?case
  proof (cases "fst p \<le> n")
    case True
    then have "{x \<in> tag ` set ps. n < fst x} = {x \<in> tag ` set (p # ps). n < fst x}" by auto
    then have "{x \<in> tag ` set ps. n < fst x} = set z" by (simp only: Cons.prems(3))
    with Cons.IH [OF _ Cons.prems(2) this Cons.prems(4)] Cons.prems(1) True show ?thesis by simp
  next
    case False
    then have pz: "tag p \<in> set z" unfolding Cons.prems(3) [symmetric] by simp
    then obtain y z' where z: "z = y # z'" by (cases z) auto
    have "y \<in> set z" by (simp add: z)
    then have "y \<in> tag ` set (p # ps)" unfolding Cons.prems(3) [symmetric] by simp
    then have "fst p \<le> fst y" using Cons.prems(1) by auto
    then have y: "y = tag p" using pz z Cons.prems(2) by fastforce
    show ?thesis
    proof (cases "z' = []")
      case True
      have "False" if "x \<in> tag ` set ps" "fst p < fst x" for x
      proof -
        have "x \<in> set z" unfolding Cons.prems(3) [symmetric] using that False by simp
        with that(2) True z y show ?thesis by simp
      qed
      then have none: "{x \<in> tag ` set ps. fst p < fst x} = set []" by (simp only: set_simps) blast
      have "map tag (climb (fst p) ps) = []"
        by (rule Cons.IH [OF _ _ none]) (use Cons.prems(1) in simp_all)
      with False z y True show ?thesis by simp
    next
      case ne: False
      then have "\<not> isTerminal p" using Cons.prems(4) z y terminal_tag [of p] by simp
      moreover have "{x \<in> tag ` set ps. fst p < fst x} = set z'"
      proof -
        have "set z' \<subseteq> {x \<in> tag ` set (p # ps). n < fst x}" "\<forall>x \<in> set z'. fst p < fst x"
          unfolding Cons.prems(3) using Cons.prems(2) z y by auto
        moreover have "x \<in> set z'" if "x \<in> tag ` set ps" "fst p < fst x" for x
        proof -
          have "x \<in> set z" unfolding Cons.prems(3) [symmetric] using that False by simp
          then show ?thesis using that(2) z y by auto
        qed
        ultimately show ?thesis by fastforce
      qed
      then have "map tag (climb (fst p) ps) = z'"
        using Cons.prems ne z by (intro Cons.IH) auto
      ultimately show ?thesis using False z y by simp
    qed
  qed
qed

section \<open>The invariant\<close>

text \<open>
  While the query is under way, the queue holds the end of the log, and the answer, once it is
  there, reaches at least up to the queue.
\<close>

definition reading :: "db \<Rightarrow> stream_sub \<Rightarrow> bool" where
  "reading d u \<longleftrightarrow>
     (\<exists>m < db_nextEvent d. map tag (su_queue u) = after m (log_index d (su_taskId u))
        \<and> (\<forall>rows. su_query u = Answered (Inr rows) \<longrightarrow>
             (\<exists>m' < db_nextEvent d. m \<le> m'
                \<and> map tag rows = filter (\<lambda>x. fst x \<le> m') (after (su_afterId u) (log_index d (su_taskId u))))))"

definition sub_inv :: "db \<Rightarrow> bool \<Rightarrow> stream_sub \<Rightarrow> bool" where
  "sub_inv d reg u \<longleftrightarrow>
     prefix (map tag (su_sent u)) (after (su_afterId u) (log_index d (su_taskId u)))
     \<and> su_lastSentId u = last (su_afterId u # map fst (su_sent u))
     \<and> (\<not> su_closed u \<longrightarrow> reg \<or> task_ended d (su_taskId u))
     \<and> (su_query u \<noteq> Merged \<longrightarrow> su_sent u = [] \<and> su_replaying u)
     \<and> (\<not> su_closed u \<and> su_query u \<noteq> Merged \<longrightarrow> reading d u)
     \<and> (su_query u = Merged \<and> (su_closed u \<longrightarrow> su_complete u) \<longrightarrow>
          map tag (su_sent u) = after (su_afterId u) (log_index d (su_taskId u)))
     \<and> (su_complete u \<longrightarrow> su_closed u \<and> task_ended d (su_taskId u))
     \<and> (su_query u = Merged \<and> \<not> su_closed u \<longrightarrow> \<not> su_replaying u)
     \<and> (su_complete u \<longleftrightarrow> (\<exists>p \<in> set (su_sent u). isTerminal p))"

lemma reading_same:
  assumes "reading d u" "log_index d' (su_taskId u) = log_index d (su_taskId u)"
    and "db_nextEvent d \<le> db_nextEvent d'"
  shows "reading d' u"
  using assms unfolding reading_def by (metis order.strict_trans2)

lemma sub_inv_same:
  assumes "sub_inv d reg u" "log_index d' (su_taskId u) = log_index d (su_taskId u)"
    and "db_nextEvent d \<le> db_nextEvent d'" "task_ended d (su_taskId u) \<Longrightarrow> task_ended d' (su_taskId u)"
    and "\<not> su_closed u \<Longrightarrow> reg \<Longrightarrow> reg' \<or> task_ended d' (su_taskId u)"
  shows "sub_inv d' reg' u"
  using assms(1,4,5) reading_same [OF _ assms(2,3)] unfolding sub_inv_def assms(2) by blast

text \<open>The log of the stream's own task grows.\<close>

lemma sub_inv_closed_grow:
  assumes "sub_inv d reg u" "su_closed u" "\<not> su_complete u"
    and "log_index d' (su_taskId u) = log_index d (su_taskId u) @ xs"
  shows "sub_inv d' reg' u"
  using assms(1,2,3) unfolding sub_inv_def by (auto simp: assms(4) intro: prefix_prefix)

lemma reading_grow:
  assumes "reading d u" "log_index d' (su_taskId u) = log_index d (su_taskId u) @ [tag p]"
    and "db_nextEvent d' = Suc (db_nextEvent d)" "fst p = db_nextEvent d"
  shows "reading d' (u\<lparr>su_queue := su_queue u @ [p]\<rparr>)"
proof -
  obtain m where m: "m < db_nextEvent d" "map tag (su_queue u) = after m (log_index d (su_taskId u))"
    "\<And>rows. su_query u = Answered (Inr rows) \<Longrightarrow> \<exists>m' < db_nextEvent d. m \<le> m'
       \<and> map tag rows = filter (\<lambda>x. fst x \<le> m') (after (su_afterId u) (log_index d (su_taskId u)))"
    using assms(1) unfolding reading_def by blast
  have "\<exists>m' < db_nextEvent d'. m \<le> m'
       \<and> map tag rows = filter (\<lambda>x. fst x \<le> m') (after (su_afterId u) (log_index d' (su_taskId u)))"
    if "su_query u = Answered (Inr rows)" for rows
  proof -
    from m(3) [OF that] obtain m' where m': "m' < db_nextEvent d" "m \<le> m'"
      "map tag rows = filter (\<lambda>x. fst x \<le> m') (after (su_afterId u) (log_index d (su_taskId u)))"
      by blast
    then show ?thesis using assms(2-4) by (intro exI [of _ m']) (simp add: after_def)
  qed
  then show ?thesis
    using m assms(2-4) unfolding reading_def by (intro exI [of _ m]) (simp add: after_def)
qed

lemma sub_inv_listener:
  assumes "sub_inv d reg u" "log_index d' (su_taskId u) = log_index d (su_taskId u) @ [tag p]"
    and "db_nextEvent d' = Suc (db_nextEvent d)" "fst p = db_nextEvent d"
    and "\<And>x. x \<in> set (log_index d (su_taskId u)) \<Longrightarrow> fst x < db_nextEvent d"
    and "\<not> task_ended d (su_taskId u)" "isTerminal p \<Longrightarrow> task_ended d' (su_taskId u)"
    and "\<not> su_closed (listener_sub p u) \<Longrightarrow> reg' \<or> task_ended d' (su_taskId u)"
  shows "sub_inv d' reg' (listener_sub p u)"
proof (cases "su_closed u")
  case True
  then have "sub_inv d' reg' u"
    using sub_inv_closed_grow [OF assms(1) True _ assms(2)] assms(1,6) by (simp add: sub_inv_def)
  moreover have "sub_inv d' reg' (u\<lparr>su_queue := q\<rparr>)" for q
    using calculation True by (simp add: sub_inv_def)
  ultimately show ?thesis using True by (simp add: listener_sub_def emit_closed)
next
  case open_: False
  have nc: "\<not> su_complete u" using assms(1,6) by (simp add: sub_inv_def)
  show ?thesis
  proof (cases "su_query u = Merged")
    case False
    then have rp: "su_replaying u" "su_sent u = []" "reading d u" using assms(1) open_ by (simp_all add: sub_inv_def)
    then show ?thesis
      using assms(1,8) False open_ nc reading_grow [OF rp(3) assms(2-4)]
      by (simp add: listener_sub_def sub_inv_def)
  next
    case True
    let ?idx = "log_index d (su_taskId u)"
    have rp: "\<not> su_replaying u" "map tag (su_sent u) = after (su_afterId u) ?idx"
      using assms(1) open_ True by (simp_all add: sub_inv_def)
    have lst: "su_lastSentId u = last (su_afterId u # map fst (su_sent u))"
      using assms(1) by (simp add: sub_inv_def)
    have skip: "fst p \<le> su_lastSentId u \<longleftrightarrow> fst p \<le> su_afterId u"
    proof (cases "su_sent u" rule: rev_cases)
      case (snoc ps q)
      then have "tag q \<in> set (after (su_afterId u) ?idx)" using rp(2) by (metis in_set_conv_decomp list.map map_append)
      then have "fst q < db_nextEvent d" "su_afterId u < fst q" using assms(5) [of "tag q"] by (auto simp: after_def)
      then show ?thesis using lst snoc assms(4) by simp
    qed (simp add: lst)
    have all: "after (su_afterId u) (log_index d' (su_taskId u)) =
        map tag (su_sent u) @ (if fst p \<le> su_afterId u then [] else [tag p])"
      by (simp add: assms(2) rp(2)) (simp add: after_def)
    show ?thesis
    proof (cases "fst p \<le> su_afterId u")
      case p: True
      then show ?thesis
        using assms(1,8) open_ True rp nc skip all lst by (simp add: listener_sub_def emit_sub_def sub_inv_def)
    next
      case p: False
      then show ?thesis
        using assms(1,7,8) open_ True rp nc skip all lst
        by (auto simp: listener_sub_def emit_sub_def sub_inv_def)
    qed
  qed
qed

text \<open>The answer is merged: the stream has sent the whole log after the client's id.\<close>

lemma sub_inv_merge:
  assumes "sub_inv d reg u" "su_query u = Answered (Inr rows)" "db_ok vurl d"
    and "u' = (emit_list (sort_key fst (rows @ su_queue u)) u)\<lparr>su_replaying := False, su_query := Merged\<rparr>"
    and "\<not> su_closed u' \<Longrightarrow> reg' \<or> task_ended d (su_taskId u)"
  shows "sub_inv d reg' u'"
proof (cases "su_closed u")
  case True
  have "\<not> su_complete u" "su_sent u = []"
    using assms(1,2) by (simp_all add: sub_inv_def)
  with True show ?thesis using assms(1,4) by (simp add: emit_list_closed sub_inv_def)
next
  case False
  let ?idx = "log_index d (su_taskId u)" and ?n = "su_afterId u"
  let ?xs = "sort_key fst (rows @ su_queue u)"
  have st: "su_sent u = []" "\<not> su_complete u" "su_lastSentId u = ?n" "reading d u"
    using assms(1,2) False by (simp_all add: sub_inv_def)
  obtain m m' where m: "map tag (su_queue u) = after m ?idx" "m \<le> m'"
    "map tag rows = filter (\<lambda>x. fst x \<le> m') (after ?n ?idx)"
    using st(4) assms(2) unfolding reading_def by blast
  have "tag ` set ?xs = set (map tag rows) \<union> set (map tag (su_queue u))" by auto
  then have "{x \<in> tag ` set ?xs. ?n < fst x} = set (after ?n ?idx)"
    unfolding m(1,3) using m(2) by (auto simp: after_def)
  moreover have "sorted_wrt (\<lambda>x y. fst x < fst y) (after ?n ?idx)"
    using index_sorted [OF assms(3)] by (simp add: after_def sorted_wrt_filter)
  moreover have "\<forall>x \<in> set (butlast (after ?n ?idx)). \<not> terminal_type (snd x)"
  proof -
    have "set (butlast (filter P xs)) \<subseteq> set (butlast xs)" for P and xs :: "(nat \<times> jstr) list"
      by (induction xs rule: rev_induct) (auto dest: in_set_butlastD)
    then show ?thesis using index_terminal(1) [OF assms(3)] unfolding after_def by blast
  qed
  ultimately have c: "map tag (climb ?n ?xs) = after ?n ?idx"
    by (intro climb_sorted) simp_all
  have ended: "task_ended d (su_taskId u)" if "p \<in> set (climb ?n ?xs)" "isTerminal p" for p
  proof -
    have "tag p \<in> set (map tag (climb ?n ?xs))" using that(1) by simp
    then have "tag p \<in> set ?idx" unfolding c by (simp add: after_def)
    then show ?thesis using index_terminal(2) [OF assms(3)] that(2) terminal_tag by metis
  qed
  show ?thesis
    using assms(4,5) False st c ended by (auto simp: emit_list_climb Let_def sub_inv_def)
qed

lemma hydrate_type: "event_type (ev_detail (hydrateStoredEvent x d e)) = event_type (ev_detail e)"
  by (simp add: hydrateStoredEvent_def split: event_detail.split option.split)

lemma listed_index:
  assumes "db_ok (x_vurl x) d" "assertTaskOwnership d uid t = Inr ()" "listTaskEvents x d uid t n = Inr rows"
  shows "map tag rows = after n (log_index d t)"
proof -
  let ?rows = "filter (\<lambda>r. te_id r > n) (filter (\<lambda>r. te_taskId r = t) (db_events d))"
  have rows: "rows = map (listed_row x d) ?rows"
    using listTaskEvents_rows [OF assms(1,2), of n] assms(3) event_replay_eq [OF db_okD(2) [OF assms(1)], of t n]
    by simp
  have "tag (listed_row x d r) = (te_id r, te_type r)" if "r \<in> set (db_events d)" for r
    using that db_okD(2) [OF assms(1)]
    by (auto simp: events_ok_def list_all_iff row_ok_def listed_row_def tag_def hydrate_type split: option.splits)
  then have "map tag rows = map (\<lambda>r. (te_id r, te_type r)) ?rows"
    unfolding rows by simp
  also have "\<dots> = after n (log_index d t)"
    by (simp add: after_def log_index_def filter_map comp_def)
  finally show ?thesis .
qed

lemma sub_inv_read:
  assumes "sub_inv d reg u" "su_query u = Pending" "db_ok vurl d" "x_vurl x = vurl"
  shows "sub_inv d reg (u\<lparr>su_query := Answered (listTaskEvents x d (su_userId u) (su_taskId u) (su_afterId u))\<rparr>)"
proof -
  let ?q = "listTaskEvents x d (su_userId u) (su_taskId u) (su_afterId u)"
  let ?N = "db_nextEvent d"
  have "map tag rows = filter (\<lambda>y. fst y \<le> ?N - 1) (after (su_afterId u) (log_index d (su_taskId u)))"
    if "?q = Inr rows" for rows
  proof -
    have own: "assertTaskOwnership d (su_userId u) (su_taskId u) = Inr ()"
      using that by (simp add: listTaskEvents_def assertTaskOwnership_def split: if_splits)
    have "map tag rows = after (su_afterId u) (log_index d (su_taskId u))"
      by (rule listed_index [OF _ own that]) (use assms(3,4) in simp)
    moreover have "filter (\<lambda>y. fst y \<le> ?N - 1) (after (su_afterId u) (log_index d (su_taskId u)))
        = after (su_afterId u) (log_index d (su_taskId u))"
    proof -
      have "fst y \<le> ?N - 1" if "y \<in> set (log_index d (su_taskId u))" for y
        using index_bound [OF assms(3) that] by linarith
      then show ?thesis unfolding after_def by (intro filter_True) auto
    qed
    ultimately show ?thesis by simp
  qed
  note rows = this
  have "reading d (u\<lparr>su_query := Answered ?q\<rparr>)" if r: "reading d u"
  proof -
    from r obtain m where m: "m < ?N" "map tag (su_queue u) = after m (log_index d (su_taskId u))"
      unfolding reading_def by blast
    then have "m \<le> ?N - 1" "?N - 1 < ?N" by simp_all
    with m rows show ?thesis unfolding reading_def by (intro exI [of _ m]) auto
  qed
  then show ?thesis using assms(1,2) by (auto simp: sub_inv_def)
qed

definition live_inv :: "(jstr \<Rightarrow> bool) \<Rightarrow> live \<Rightarrow> bool" where
  "live_inv vurl s \<longleftrightarrow>
     db_ok vurl (ap_db (lv_api s)) \<and> distinct_listeners s
     \<and> (\<forall>t k. listening s t k \<longrightarrow> (\<exists>u. jm_get (lv_subs s) k = Some u \<and> su_taskId u = t))
     \<and> (\<forall>k u. jm_get (lv_subs s) k = Some u \<longrightarrow>
          sub_inv (ap_db (lv_api s)) (listening s (su_taskId u) k) u)"

text \<open>A step that acts on one stream keeps the invariant if it keeps that stream's.\<close>

lemma live_inv_acts:
  assumes "live_inv vurl s" "acts_on k f s s'" "\<And>u. su_taskId (f u) = su_taskId u"
    and "\<And>u. jm_get (lv_subs s) k = Some u \<Longrightarrow> sub_inv (ap_db (lv_api s)) (listening s' (su_taskId u) k) (f u)"
  shows "live_inv vurl s'"
proof -
  have subs: "jm_get (lv_subs s') = (jm_get (lv_subs s))(k := map_option f (jm_get (lv_subs s) k))"
    and api: "lv_api s' = lv_api s" and mono: "\<And>t j. listening s' t j \<Longrightarrow> listening s t j"
    and keep: "\<And>t j. listening s t j \<Longrightarrow> j \<noteq> k \<Longrightarrow> listening s' t j"
    and dist: "distinct_listeners s'"
    using assms(1,2) by (auto simp: acts_on_def live_inv_def)
  have "\<exists>u. jm_get (lv_subs s') j = Some u \<and> su_taskId u = t" if "listening s' t j" for t j
    using assms(1,3) mono [OF that] by (fastforce simp: live_inv_def subs)
  moreover have "sub_inv (ap_db (lv_api s')) (listening s' (su_taskId u) j) u"
    if "jm_get (lv_subs s') j = Some u" for j u
  proof (cases "j = k")
    case True
    with that show ?thesis using assms(3,4) by (auto simp: subs api)
  next
    case False
    with that have u: "jm_get (lv_subs s) j = Some u" by (simp add: subs)
    with False have "listening s' (su_taskId u) j = listening s (su_taskId u) j" using mono keep by blast
    with u assms(1) show ?thesis by (simp add: live_inv_def api)
  qed
  ultimately show ?thesis using assms(1) dist by (simp add: live_inv_def api)
qed

lemma sub_inv_teardown:
  "sub_inv d reg u \<Longrightarrow> sub_inv d reg' (u\<lparr>su_closed := True\<rparr>)"
  by (auto simp: sub_inv_def)

lemma live_inv_leave: "live_inv vurl s \<Longrightarrow> live_inv vurl (su_teardown k s)"
  by (rule live_inv_acts [OF _ acts_on_teardown])
    (simp_all add: live_inv_def, blast intro: sub_inv_teardown)

lemma live_inv_read: "live_inv vurl s \<Longrightarrow> x_vurl x = vurl \<Longrightarrow> live_inv vurl (stream_read x k s)"
  unfolding stream_read_def
  by (rule live_inv_acts [OF _ acts_on_upd])
    (auto simp: live_inv_def listening_def intro: sub_inv_read)

lemma acts_on_unsubscribe:
  assumes "\<not> stream_live s k"
  shows "acts_on k (\<lambda>u. u) s (s\<lparr>lv_listeners := hub_unsubscribe t k (lv_listeners s)\<rparr>)"
  using assms unsubscribe_distinct [of "lv_listeners s"]
  by (auto simp: acts_on_def listening_def unsubscribe_listening stream_live_def fun_eq_iff
      distinct_listeners_def option.map_ident)

lemma live_inv_answer:
  assumes "live_inv vurl s"
  shows "live_inv vurl (stream_answer k s)"
proof (cases "jm_get (lv_subs s) k")
  case None
  then show ?thesis using assms by (simp add: stream_answer_def)
next
  case (Some u)
  have inv: "sub_inv (ap_db (lv_api s)) (listening s (su_taskId u) k) u" "db_ok vurl (ap_db (lv_api s))"
    using assms Some by (simp_all add: live_inv_def)
  show ?thesis
  proof (cases "\<exists>rows. su_query u = Answered (Inr rows)")
    case True
    then obtain rows where q: "su_query u = Answered (Inr rows)" by blast
    let ?xs = "sort_key fst (rows @ su_queue u)"
    let ?f = "\<lambda>u. (emit_list ?xs u)\<lparr>su_replaying := False, su_query := Merged\<rparr>"
    define s1 where "s1 = upd_sub k (\<lambda>u. u\<lparr>su_replaying := False, su_query := Merged\<rparr>) (emit_all k ?xs s)"
    have a1: "acts_on k ?f s s1"
      unfolding s1_def by (rule acts_on_trans [OF acts_on_emit_all acts_on_upd]) simp
    have g: "jm_get (lv_subs s1) k = Some (?f u)" using a1 Some by (simp add: acts_on_def)
    have "stream_answer k s = stream_merge k u rows s" by (simp add: stream_answer_def Some q)
    also have "\<dots> = (case jm_get (lv_subs s1) k of None \<Rightarrow> s1 | Some u' \<Rightarrow>
        if su_closed u' then s1\<lparr>lv_listeners := hub_unsubscribe (su_taskId u) k (lv_listeners s1)\<rparr> else s1)"
      by (simp only: stream_merge_def Let_def s1_def)
    finally have eq: "stream_answer k s = (if su_closed (?f u)
        then s1\<lparr>lv_listeners := hub_unsubscribe (su_taskId u) k (lv_listeners s1)\<rparr> else s1)"
      by (simp only: g option.case)
    have a: "acts_on k ?f s (stream_answer k s)"
    proof (cases "su_closed (?f u)")
      case True
      then have "acts_on k ?f s (s1\<lparr>lv_listeners := hub_unsubscribe (su_taskId u) k (lv_listeners s1)\<rparr>)"
        using acts_on_trans [OF a1 acts_on_unsubscribe [of s1 k "su_taskId u"]] g by (simp add: stream_live_def)
      with True show ?thesis by (simp only: eq if_True)
    next
      case False
      with a1 show ?thesis by (simp only: eq if_False)
    qed
    have reg: "listening (stream_answer k s) (su_taskId u) k \<or> task_ended (ap_db (lv_api s)) (su_taskId u)"
      if "\<not> su_closed (?f u)"
    proof -
      have "\<not> su_closed u" using that emit_list_closed [of u ?xs] by auto
      then have "listening s (su_taskId u) k \<or> task_ended (ap_db (lv_api s)) (su_taskId u)"
        using inv(1) by (simp add: sub_inv_def)
      moreover have "stream_live (stream_answer k s) k"
        using a Some that by (simp add: acts_on_def stream_live_def)
      ultimately show ?thesis using a by (auto simp: acts_on_def)
    qed
    have task: "su_taskId (emit_list xs u) = su_taskId u" for xs u
      by (induction xs arbitrary: u) (simp_all add: Let_def)
    have "sub_inv (ap_db (lv_api s)) (listening (stream_answer k s) (su_taskId u) k) (?f u)"
      by (rule sub_inv_merge [OF inv(1) q inv(2) refl reg])
    then show ?thesis
      by (intro live_inv_acts [OF assms a]) (simp_all add: task Some)
  next
    case False
    show ?thesis
    proof (cases "\<exists>e. su_query u = Answered (Inl e)")
      case True
      then obtain e where q: "su_query u = Answered (Inl e)" by blast
      let ?g = "\<lambda>v. if su_closed u then v else v\<lparr>su_closed := True, su_error := Some e\<rparr>"
      define s1 where "s1 = (if su_closed u then s
        else su_teardown k (upd_sub k (\<lambda>u. u\<lparr>su_closed := True, su_error := Some e\<rparr>) s))"
      define s2 where "s2 = upd_sub k (\<lambda>u. u\<lparr>su_query := Merged\<rparr>) s1"
      have "acts_on k ?g s s1"
      proof (cases "su_closed u")
        case True
        then show ?thesis by (auto simp: s1_def intro: acts_on_refl)
      next
        case False
        have "acts_on k (\<lambda>v. (v\<lparr>su_closed := True, su_error := Some e\<rparr>)\<lparr>su_closed := True\<rparr>) s s1"
          unfolding s1_def if_not_P [OF False] by (rule acts_on_trans [OF acts_on_upd acts_on_teardown]) simp
        with False show ?thesis by (simp add: acts_on_cong)
      qed
      then have a2: "acts_on k (\<lambda>v. (?g v)\<lparr>su_query := Merged\<rparr>) s s2"
        unfolding s2_def by (rule acts_on_trans [OF _ acts_on_upd]) simp
      then have "\<not> stream_live s2 k" using Some by (auto simp: acts_on_def stream_live_def)
      from acts_on_trans [OF a2 acts_on_unsubscribe [OF this, of "su_taskId u"]]
      have a: "acts_on k (\<lambda>v. (?g v)\<lparr>su_query := Merged\<rparr>) s (stream_answer k s)"
        by (simp add: stream_answer_def Some q stream_failed_def Let_def flip: s1_def s2_def)
      show ?thesis
        by (rule live_inv_acts [OF assms a]) (use Some q inv in \<open>auto simp: sub_inv_def\<close>)
    next
      case none: False
      with False have "stream_answer k s = s"
        by (auto simp: stream_answer_def Some split: stream_query.split sum.split)
      with assms show ?thesis by simp
    qed
  qed
qed

lemma live_inv_open:
  assumes "live_inv vurl s" "jm_get (lv_subs s) k = None"
  shows "live_inv vurl (stream_open k uid t h s)"
proof -
  let ?s = "stream_open k uid t h s" and ?d = "ap_db (lv_api s)"
  have lis: "listening ?s t' j \<longleftrightarrow> listening s t' j \<or> t' = t \<and> j = k" for t' j
    by (cases "jm_get (lv_listeners s) t")
      (auto simp: stream_open_def Let_def listening_def hub_subscribe_def)
  have "distinct_listeners ?s"
    using assms(1) by (auto simp: live_inv_def stream_open_def Let_def distinct_listeners_def hub_subscribe_def
        split: option.split)
  moreover have "\<exists>u. jm_get (lv_subs ?s) j = Some u \<and> su_taskId u = t'" if "listening ?s t' j" for t' j
  proof (cases "j = k")
    case True
    then have "\<not> listening s t' j" using assms by (fastforce simp: live_inv_def)
    with that True show ?thesis by (simp add: lis) (simp add: stream_open_def Let_def)
  next
    case False
    with that have "listening s t' j" by (simp add: lis)
    with False assms(1) show ?thesis by (simp add: live_inv_def stream_open_def Let_def)
  qed
  moreover have "sub_inv (ap_db (lv_api ?s)) (listening ?s (su_taskId u) j) u" if "jm_get (lv_subs ?s) j = Some u" for j u
  proof (cases "j = k")
    case True
    have ok: "db_ok vurl ?d" using assms(1) by (simp add: live_inv_def)
    have "x \<notin> set (after (db_nextEvent ?d - 1) (log_index ?d t'))" for x t'
      using index_bound [OF ok, of x t'] by (auto simp: after_def)
    then have "after (db_nextEvent ?d - 1) (log_index ?d t') = []" for t'
      using last_in_set by blast
    then have "reading ?d u" if "su_queue u = []" "su_query u = Pending"
      using that next_pos [OF ok] unfolding reading_def by (intro exI [of _ "db_nextEvent ?d - 1"]) simp
    with that True show ?thesis
      by (auto simp: lis) (auto simp: stream_open_def Let_def sub_inv_def)
  next
    case False
    with that assms(1) show ?thesis by (simp add: lis live_inv_def) (simp add: stream_open_def Let_def)
  qed
  ultimately show ?thesis using assms(1) by (simp add: live_inv_def) (simp add: stream_open_def Let_def)
qed

lemma live_inv_frame:
  assumes "live_inv vurl s" "lv_api s' = lv_api s" "lv_subs s' = lv_subs s" "lv_listeners s' = lv_listeners s"
  shows "live_inv vurl s'"
  using assms by (simp add: live_inv_def listening_def distinct_listeners_def)

lemma live_inv_persist:
  assumes "live_inv vurl s"
  shows "live_inv vurl (live_persist c vurl (x, e, src) s)"
proof -
  define w' where "w' = persist_step vurl (x, e, src) (lv_api s)"
  let ?d = "ap_db (lv_api s)" and ?d' = "ap_db w'"
  let ?s = "s\<lparr>lv_api := w'\<rparr>"
  have ok: "db_ok vurl ?d" using assms by (simp add: live_inv_def)
  have ok': "db_ok vurl ?d'" unfolding w'_def using task_log.inv_stepf [OF ok] .
  have inv: "distinct_listeners s" "\<And>t k. listening s t k \<Longrightarrow> \<exists>u. jm_get (lv_subs s) k = Some u \<and> su_taskId u = t"
    "\<And>k u. jm_get (lv_subs s) k = Some u \<Longrightarrow> sub_inv ?d (listening s (su_taskId u) k) u"
    using assms by (auto simp: live_inv_def)
  show ?thesis
    using ok w'_def
  proof (cases rule: persist_effect)
    case unchanged
    then have "live_persist c vurl (x, e, src) s = ?s"
      by (simp add: live_persist_def flip: w'_def)
    moreover have "sub_inv ?d' reg u" if "sub_inv ?d reg u" for reg u
      by (rule sub_inv_same [OF that]) (simp_all add: unchanged)
    then have "live_inv vurl ?s"
      using inv ok' by (simp add: live_inv_def listening_def distinct_listeners_def)
    ultimately show ?thesis by simp
  next
    case (stored' t p)
    let ?h = "hub_deliver t p ?s"
    have l: "listening ?s = listening s" "distinct_listeners ?s"
      using inv(1) by (simp_all add: listening_def distinct_listeners_def fun_eq_iff)
    note subs = deliver_subs [OF l(2), of t p, unfolded l(1), simplified]
    have "sub_inv ?d' (listening ?h (su_taskId v) k) v" if v: "jm_get (lv_subs ?h) k = Some v" for k v
    proof -
      obtain u where u: "jm_get (lv_subs s) k = Some u" "v = (if listening s t k then listener_sub p u else u)"
        using v by (auto simp: subs split: if_splits)
      have same: "su_taskId v = su_taskId u" using u(2) by simp
      have reg: "listening ?h (su_taskId u) k \<or> task_ended ?d' (su_taskId u)"
        if "\<not> su_closed v" "listening s (su_taskId u) k"
      proof -
        have "stream_live ?h k" using v that(1) by (simp add: stream_live_def)
        then show ?thesis
          using deliver_listeners(2) [of ?s "su_taskId u" k t p] that(2) stored'(6) l(1) by auto
      qed
      show ?thesis
      proof (cases "su_taskId u = t")
        case True
        have own: "sub_inv ?d (listening s t k) u" using inv(3) [OF u(1)] True by simp
        show ?thesis
        proof (cases "listening s t k")
          case lis: True
          have "sub_inv ?d' (listening ?h (su_taskId u) k) (listener_sub p u)"
            by (rule sub_inv_listener [OF own]) (use True stored' index_bound [OF ok] reg lis u(2) in auto)
          with lis u(2) same show ?thesis by simp
        next
          case False
          then have "su_closed u" "\<not> su_complete u" using own stored'(5) True by (auto simp: sub_inv_def)
          then have "sub_inv ?d' (listening ?h (su_taskId u) k) u"
            using sub_inv_closed_grow [OF own] stored'(2) by blast
          with False u(2) same show ?thesis by simp
        qed
      next
        case False
        then have nl: "\<not> listening s t k" using inv(2) [of t k] u(1) by auto
        have "sub_inv ?d' (listening ?h (su_taskId u) k) u"
          by (rule sub_inv_same [OF inv(3) [OF u(1)]]) (use False stored' reg nl u(2) in auto)
        with nl u(2) show ?thesis by simp
      qed
    qed
    moreover have "\<exists>v. jm_get (lv_subs ?h) k = Some v \<and> su_taskId v = t'" if "listening ?h t' k" for t' k
      using inv(2) [of t' k] deliver_listeners(1) [OF that] l(1) by (auto simp: subs)
    ultimately have "live_inv vurl ?h"
      using ok' deliver_listeners(3) [OF l(2)] by (simp add: live_inv_def subs(2))
    moreover have "live_persist c vurl (x, e, src) s = hub_publish c t p ?s"
      using stored'(1) by (simp add: live_persist_def flip: w'_def)
    ultimately show ?thesis
      by (auto simp: hub_publish_def Let_def intro: live_inv_frame)
  qed
qed

text \<open>
  The runs of one API process: a message it gets from the channel is its own, which it
  ignores, or none it can read. (With several processes a stream can lag behind the log by the
  messages under way.)
\<close>

definition own_message :: "hub_config \<Rightarrow> live_in \<Rightarrow> bool" where
  "own_message c i = (case i of LiveMessage (Some (origin, _)) \<Rightarrow> origin = hc_origin c | _ \<Rightarrow> True)"

lemma live_inv_step:
  assumes "own_message c i" "live_inv vurl s"
  shows "live_inv vurl (live_step c vurl i s)"
  using assms
  by (cases i) (auto simp: live_inv_persist live_inv_open live_inv_read live_inv_answer live_inv_leave
      own_message_def hub_message_def split: option.split option.splits)

interpretation live_machine: machine
    "\<lambda>i. if own_message c i then live_step c vurl i else id" "live_inv vurl" for c vurl
  by unfold_locales (simp add: live_inv_step)

lemma live_run_own:
  "\<forall>i \<in> set is. own_message c i \<Longrightarrow>
     live_run c vurl is s = fold (\<lambda>i. if own_message c i then live_step c vurl i else id) is s"
  unfolding live_run_def by (rule fold_cong) auto

lemma live_inv_new: "db_ok vurl (ap_db w) \<Longrightarrow> live_inv vurl (live_new w)"
  by (simp add: live_inv_def live_new_def listening_def distinct_listeners_def)

section \<open>What a stream sends\<close>


definition sample_config :: hub_config where
  "sample_config = \<lparr>hc_origin = js ''o'', hc_enabled = True\<rparr>"

definition sample_live_run :: "live_in list" where
  "sample_live_run =
     [LivePersist sample_ext (sample_event Accepted) None, LiveOpen 1 (js ''u'') (js ''t'') None,
      LiveRead sample_ext 1, LivePersist sample_ext (sample_event (Delta (js ''x''))) None, LiveAnswer 1]"


end
