(* ===== verification/MobileStreamRuns.thy ===== *)
theory MobileStreamRuns
  imports MobileStream TaskStreamRuns
begin

text \<open>
  Runs of the app's subscription: its reconnections are bounded, it ends once, and, connected
  to the stream endpoint of the API, it hands each event of the log to the app exactly once and in
  order, wherever connections break.
\<close>

section \<open>Retries\<close>

definition ms_inv :: "mobile_stream \<Rightarrow> bool" where
  "ms_inv s \<longleftrightarrow>
     ms_retryCount s \<le> 5
     \<and> length (ms_requests s) + (if ms_timer s = None then 0 else 1) \<le> 1 + 5 * length (ms_events s) + ms_retryCount s
     \<and> (\<forall>d. ms_timer s = Some d \<longrightarrow> 400 \<le> d \<and> d \<le> 4000 \<and> ms_retryScheduled s)
     \<and> (ms_terminal s \<longrightarrow> \<not> ms_open s)
     \<and> (ms_closed s \<longrightarrow> ms_timer s = None)
     \<and> (ms_errors s \<noteq> [] \<longrightarrow> ms_closed s)
     \<and> length (ms_errors s) + ms_completed s \<le> 1
     \<and> (ms_terminal s \<longleftrightarrow> ms_completed s = 1)"

lemma ms_delay_bounds: "400 \<le> ms_delay n" "ms_delay n \<le> 4000"
proof -
  have "(1::nat) \<le> 2 ^ (n - 1)" by simp
  then show "400 \<le> ms_delay n" "ms_delay n \<le> 4000" by (simp_all add: ms_delay_def)
qed

text \<open>Reading keeps what the retries rest on.\<close>

definition reads :: "mobile_stream \<Rightarrow> mobile_stream \<Rightarrow> bool" where
  "reads s s' \<longleftrightarrow>
     ms_requests s' = ms_requests s \<and> ms_timer s' = ms_timer s \<and> ms_retryScheduled s' = ms_retryScheduled s
     \<and> ms_closed s' = ms_closed s \<and> ms_errors s' = ms_errors s
     \<and> ms_responseText s' = ms_responseText s
     \<and> (ms_retryCount s' = ms_retryCount s \<and> length (ms_events s') = length (ms_events s)
        \<or> ms_retryCount s' = 0 \<and> length (ms_events s) < length (ms_events s'))
     \<and> (ms_terminal s' \<and> \<not> ms_open s' \<and> ms_completed s' = Suc (ms_completed s)
        \<or> ms_terminal s' = ms_terminal s \<and> ms_open s' = ms_open s \<and> ms_completed s' = ms_completed s)"

lemma reads_frame: "reads s (fst (ms_frame jparse raw s))"
  by (auto simp: ms_frame_def Let_def reads_def split: option.split bool.split)

lemma frame_next_terminal: "ms_frame jparse raw s = (s', FrameNext) \<Longrightarrow> ms_terminal s' = ms_terminal s
    \<and> ms_open s' = ms_open s \<and> ms_completed s' = ms_completed s"
  by (auto simp: ms_frame_def Let_def split: option.splits bool.splits if_splits)

lemma reads_drain: "reads s (ms_drain jparse buf s)"
proof (induction jparse buf s rule: ms_drain.induct)
  case (1 jparse buf s)
  show ?case
  proof (cases "js_index_of sse_sep buf")
    case None
    then show ?thesis by (simp add: ms_drain.simps [of jparse buf] reads_def)
  next
    case (Some i)
    obtain s1 out where f: "ms_frame jparse (take i buf) s = (s1, out)" by fastforce
    have r: "reads s s1" using reads_frame [of s jparse "take i buf"] f by simp
    show ?thesis
    proof (cases out)
      case FrameNext
      with "1.IH" [OF Some f [symmetric]] r frame_next_terminal [of jparse "take i buf" s s1] f Some show ?thesis
        by (simp add: ms_drain.simps [of jparse buf]) (auto simp: reads_def)
    next
      case FrameStop
      with r f Some show ?thesis by (simp add: ms_drain.simps [of jparse buf]) (simp add: reads_def)
    qed
  qed
qed

lemma reads_flush: "reads s (ms_flush jparse s)"
  using reads_drain [of "s\<lparr>ms_cursor := length (ms_responseText s)\<rparr>" jparse]
  by (auto simp: ms_flush_def Let_def) (auto simp: reads_def)

lemma ms_inv_reads:
  assumes "ms_inv s" "\<not> ms_terminal s" "\<not> ms_closed s" "reads s s'"
  shows "ms_inv s'"
  using assms unfolding ms_inv_def reads_def by (elim conjE disjE) simp_all

lemma ms_inv_retry: "ms_inv s \<Longrightarrow> ms_inv (ms_retry e s)"
  using ms_delay_bounds [of "Suc (ms_retryCount s)"]
  by (auto simp: ms_retry_def Let_def ms_inv_def)

lemma ms_inv_connect: "ms_inv s \<Longrightarrow> ms_timer s \<noteq> None \<Longrightarrow> ms_inv (ms_connect (s\<lparr>ms_timer := None\<rparr>))"
  by (auto simp: ms_connect_def ms_inv_def)

lemma ms_inv_frame:
  "ms_inv s \<Longrightarrow> ms_inv (s\<lparr>ms_responseText := t\<rparr>)" "ms_inv s \<Longrightarrow> ms_inv (s\<lparr>ms_uncaught := b\<rparr>)"
  "ms_inv s \<Longrightarrow> ms_inv (s\<lparr>ms_open := False\<rparr>)"
  by (simp_all add: ms_inv_def)

lemma ms_inv_step:
  assumes "ms_inv s"
  shows "ms_inv (ms_step jparse i s)"
proof -
  have flush: "ms_inv (ms_flush jparse s')" if "ms_inv s'" "\<not> ms_terminal s'" for s'
    using that ms_inv_reads [OF that _ reads_flush [of s' jparse]] by (cases "ms_closed s'") (simp_all add: ms_flush_def)
  have fin: "ms_inv (ms_done jparse st s')" if s': "ms_inv s'" for st s'
    using flush [of "s'\<lparr>ms_uncaught := False\<rparr>"] s'
    by (auto simp: ms_done_def Let_def ms_inv_frame intro: ms_inv_retry)
  show ?thesis
  proof (cases i)
    case (MsData chunk)
    then show ?thesis using assms flush [of "s\<lparr>ms_responseText := ms_responseText s @ chunk\<rparr>"]
      by (auto simp: ms_inv_frame) (simp add: ms_inv_def)
  next
    case (MsDone chunk st)
    have "ms_inv (s\<lparr>ms_open := False, ms_responseText := ms_responseText s @ chunk\<rparr>)"
      using assms by (simp add: ms_inv_def)
    with MsDone assms fin show ?thesis by simp
  next
    case MsTimer
    then show ?thesis using assms ms_inv_connect by simp
  next
    case MsClose
    then show ?thesis using assms by (auto simp: ms_inv_def)
  qed (simp add: assms ms_inv_retry)
qed

interpretation ms_machine: machine "ms_step jparse" ms_inv for jparse
  by unfold_locales (rule ms_inv_step)

lemma ms_inv_start: "ms_inv subscribeTaskStream"
  by (simp add: subscribeTaskStream_def ms_connect_def ms_inv_def)

text \<open>A connection that brings nothing, and the wait before the next.\<close>

definition failing_round :: "ms_in list" where
  "failing_round = [MsDone [] 0, MsTimer]"

lemma failing_rounds:
  assumes "ms_open s" "\<not> ms_closed s" "\<not> ms_terminal s" "\<not> ms_retryScheduled s" "ms_timer s = None"
    and "ms_cursor s = length (ms_responseText s)" "ms_retryCount s + n = 5"
  shows "ms_closed (ms_run jparse (concat (replicate n failing_round) @ [MsDone [] 0]) s)
    \<and> ms_errors (ms_run jparse (concat (replicate n failing_round) @ [MsDone [] 0]) s)
        = ms_errors s @ [js ''stream closed: network'']
    \<and> length (ms_requests (ms_run jparse (concat (replicate n failing_round) @ [MsDone [] 0]) s))
        = length (ms_requests s) + n"
  using assms
proof (induction n arbitrary: s)
  case 0
  then show ?case
    by (simp add: ms_run_def ms_done_def ms_flush_def ms_retry_def Let_def js_append [symmetric])
next
  case (Suc n)
  let ?s = "ms_run jparse failing_round s"
  have s: "ms_open ?s" "\<not> ms_closed ?s" "\<not> ms_terminal ?s" "\<not> ms_retryScheduled ?s" "ms_timer ?s = None"
    "ms_cursor ?s = length (ms_responseText ?s)" "ms_retryCount ?s + n = 5" "ms_errors ?s = ms_errors s"
    "length (ms_requests ?s) = Suc (length (ms_requests s))"
    using Suc.prems by (simp_all add: ms_run_def failing_round_def ms_done_def ms_flush_def ms_retry_def
        ms_connect_def Let_def)
  have "ms_run jparse (concat (replicate (Suc n) failing_round) @ [MsDone [] 0]) s =
      ms_run jparse (concat (replicate n failing_round) @ [MsDone [] 0]) ?s"
    by (simp add: ms_run_def)
  with Suc.IH [OF s(1-7)] s(8,9) show ?case by simp
qed

text \<open>
  C27: whatever the network does, the app makes at most six requests before the first event and
  five more after each, waits between 0.4 and 4 seconds before each of them, and reports the end
  at most once, as completion or as an error; and a connection that keeps failing from the start is
  given up, with one error, at its sixth request.
\<close>

theorem mobile_retries_bounded:
  "length (ms_requests (ms_run jparse is subscribeTaskStream))
      \<le> 6 + 5 * length (ms_events (ms_run jparse is subscribeTaskStream))
   \<and> (\<forall>d. ms_timer (ms_run jparse is subscribeTaskStream) = Some d \<longrightarrow> 400 \<le> d \<and> d \<le> 4000)
   \<and> length (ms_errors (ms_run jparse is subscribeTaskStream))
       + ms_completed (ms_run jparse is subscribeTaskStream) \<le> 1
   \<and> (let s = ms_run jparse (concat (replicate 5 failing_round) @ [MsDone [] 0]) subscribeTaskStream
      in ms_closed s \<and> length (ms_requests s) = 6 \<and> ms_errors s = [js ''stream closed: network''])"
proof -
  have "ms_inv (ms_run jparse is subscribeTaskStream)"
    unfolding ms_run_def by (rule ms_machine.inv_run [OF ms_inv_start])
  moreover have "let s = ms_run jparse (concat (replicate 5 failing_round) @ [MsDone [] 0]) subscribeTaskStream
      in ms_closed s \<and> length (ms_requests s) = 6 \<and> ms_errors s = [js ''stream closed: network'']"
    using failing_rounds [of subscribeTaskStream 5 jparse]
    by (simp add: subscribeTaskStream_def ms_connect_def Let_def)
  ultimately show ?thesis by (auto simp: ms_inv_def split: if_splits)
qed

theorem mobile_retries_bounded_witness:
  "length (ms_errors (ms_run (\<lambda>_. None) [MsDone [] 0, MsTimer, MsError] subscribeTaskStream)) \<le> 1"
  using mobile_retries_bounded [of "\<lambda>_. None" "[MsDone [] 0, MsTimer, MsError]"] by linarith

section \<open>Reading what the endpoint serves\<close>

text \<open>
  What the endpoint must write: the text of a response that carries the events \<open>ps\<close> is cut at
  blank lines into one frame per event, with its id and its JSON, and has no carriage return.
\<close>

definition carries :: "(jstr \<Rightarrow> json option) \<Rightarrow> persisted_event \<Rightarrow> jstr \<Rightarrow> bool" where
  "carries jparse p raw \<longleftrightarrow>
     find_line (js ''id: '') raw = Some (js_of_nat (fst p))
     \<and> (case find_line (js ''data: '') raw of
          None \<Rightarrow> False | Some t \<Rightarrow> jparse t = Some (event_json (snd p)))"

definition writes_events :: "(jstr \<Rightarrow> json option) \<Rightarrow> (persisted_event list \<Rightarrow> jstr) \<Rightarrow> persisted_event list \<Rightarrow> bool" where
  "writes_events jparse body ps \<longleftrightarrow>
     13 \<notin> set (body ps) \<and> list_all2 (carries jparse) ps (fst (sse_drain (body ps)))"

text \<open>What the app keeps of events it has read.\<close>

definition take_event :: "persisted_event \<Rightarrow> mobile_stream \<Rightarrow> mobile_stream" where
  "take_event p s =
     (let s1 = s\<lparr>ms_lastEventId := js_of_nat (fst p), ms_retryCount := 0,
                 ms_events := ms_events s @ [event_json (snd p)]\<rparr>
      in if isTerminal p
         then s1\<lparr>ms_terminal := True, ms_completed := Suc (ms_completed s), ms_open := False\<rparr>
         else s1)"

lemma event_json_terminal: "ms_isTerminalEvent (event_json e) = Some (terminal_detail (ev_detail e))"
  by (cases "ev_detail e") (simp_all add: ms_isTerminalEvent_def event_json_def prop_str_def)

lemma frame_carries:
  "carries jparse p raw \<Longrightarrow>
     ms_frame jparse raw s = (take_event p s, if isTerminal p then FrameStop else FrameNext)"
  by (auto simp: carries_def ms_frame_def take_event_def isTerminal_def event_json_terminal Let_def
      split: option.splits)

lemma sse_drain_none: "sse_drain b = ([], r) \<Longrightarrow> r = b"
  by (subst (asm) sse_drain.simps) (auto simp: Let_def split: option.splits prod.splits)

lemma drain_carries:
  assumes "sse_drain buf = (raws, r)" "list_all2 (carries jparse) ps raws"
    and "\<forall>p \<in> set (butlast ps). \<not> isTerminal p"
  shows "ms_drain jparse buf s = (fold take_event ps s)\<lparr>ms_buffer := r\<rparr>"
  using assms
proof (induction buf arbitrary: raws ps s rule: sse_drain.induct)
  case (1 buf)
  show ?case
  proof (cases "js_index_of sse_sep buf")
    case None
    with "1.prems" show ?thesis by (auto simp: ms_drain.simps [of jparse r] sse_drain.simps [of buf])
  next
    case (Some i)
    obtain raws' where rs: "sse_drain (drop (i + 2) buf) = (raws', r)" "raws = take i buf # raws'"
      using "1.prems"(1) Some by (auto simp: sse_drain.simps [of buf] Let_def split: prod.splits)
    then obtain p ps' where ps: "ps = p # ps'" "carries jparse p (take i buf)" "list_all2 (carries jparse) ps' raws'"
      using "1.prems"(2) by (auto simp: list_all2_Cons2)
    note f = frame_carries [OF ps(2), of s]
    show ?thesis
    proof (cases "isTerminal p")
      case True
      then have "ps' = []" using "1.prems"(3) ps(1) by (cases ps') auto
      with ps(3) have "raws' = []" by simp
      with rs(1) have "r = drop (i + 2) buf" by (intro sse_drain_none) simp
      with f True Some ps(1) \<open>ps' = []\<close> show ?thesis by (simp add: ms_drain.simps [of jparse buf])
    next
      case False
      have "\<forall>p \<in> set (butlast ps'). \<not> isTerminal p" using "1.prems"(3) ps(1) by (cases ps') auto
      from "1.IH" [OF Some rs(1) ps(3) this, of "take_event p s"] f False Some ps(1)
      show ?thesis by (simp add: ms_drain.simps [of jparse buf])
    qed
  qed
qed

lemma take_events_fields:
  "ms_requests (fold take_event ps s) = ms_requests s" "ms_responseText (fold take_event ps s) = ms_responseText s"
  "ms_cursor (fold take_event ps s) = ms_cursor s" "ms_closed (fold take_event ps s) = ms_closed s"
  "ms_uncaught (fold take_event ps s) = ms_uncaught s"
  "ms_events (fold take_event ps s) = ms_events s @ map (event_json \<circ> snd) ps"
  "ms_terminal (fold take_event ps s) \<longleftrightarrow> ms_terminal s \<or> (\<exists>p \<in> set ps. isTerminal p)"
  "ms_lastEventId (fold take_event ps s) = (if ps = [] then ms_lastEventId s else js_of_nat (fst (last ps)))"
  by (induction ps arbitrary: s) (auto simp: take_event_def Let_def)

section \<open>The client and the endpoint together\<close>

text \<open>The events the current request asks for, read as the endpoint reads the header.\<close>

definition requested :: "persisted_event list \<Rightarrow> mobile_stream \<Rightarrow> persisted_event list" where
  "requested all s = filter (\<lambda>p. parseLastEventId (last (ms_requests s)) < fst p) all"

text \<open>
  The states of the subscription when its requests are served from the log \<open>all\<close>: a response
  grows, in pieces of any size, towards the text of the requested events, and may break off anywhere.
\<close>

inductive served :: "(jstr \<Rightarrow> json option) \<Rightarrow> (persisted_event list \<Rightarrow> jstr) \<Rightarrow> persisted_event list \<Rightarrow>
    mobile_stream \<Rightarrow> bool"
  for jparse body all where
  served_start: "served jparse body all subscribeTaskStream"
| served_data: "served jparse body all s \<Longrightarrow>
    prefix (ms_responseText s @ chunk) (body (requested all s)) \<Longrightarrow>
    served jparse body all (ms_step jparse (MsData chunk) s)"
| served_done: "served jparse body all s \<Longrightarrow>
    prefix (ms_responseText s @ chunk) (body (requested all s)) \<Longrightarrow>
    served jparse body all (ms_step jparse (MsDone chunk status) s)"
| served_other: "served jparse body all s \<Longrightarrow> i \<in> {MsError, MsTimer, MsClose} \<Longrightarrow>
    served jparse body all (ms_step jparse i s)"

definition id_after :: "persisted_event list \<Rightarrow> nat \<Rightarrow> jstr" where
  "id_after all n = (if n = 0 then [] else js_of_nat (fst (all ! (n - 1))))"

text \<open>
  After \<open>n\<close> events, \<open>m\<close> of them before the current request: the request asks for the log from
  position \<open>m\<close> on, and what its response has brought so far is cut into the events from
  \<open>m\<close> to \<open>n\<close> and the rest in the buffer.
\<close>

definition served_inv :: "(jstr \<Rightarrow> json option) \<Rightarrow> (persisted_event list \<Rightarrow> jstr) \<Rightarrow> persisted_event list \<Rightarrow>
    mobile_stream \<Rightarrow> nat \<Rightarrow> nat \<Rightarrow> bool" where
  "served_inv jparse body all s m n \<longleftrightarrow>
     m \<le> n \<and> n \<le> length all
     \<and> ms_events s = map (event_json \<circ> snd) (take n all)
     \<and> ms_lastEventId s = id_after all n
     \<and> \<not> ms_uncaught s
     \<and> (ms_terminal s \<longleftrightarrow> (\<exists>p \<in> set (take n all). isTerminal p))
     \<and> ms_requests s \<noteq> []
     \<and> last (ms_requests s) = (if m = 0 then None else Some (id_after all m))
     \<and> (\<not> ms_closed s \<and> \<not> ms_terminal s \<longrightarrow>
          ms_cursor s = length (ms_responseText s)
          \<and> prefix (ms_responseText s) (body (drop m all))
          \<and> (\<exists>raws. sse_drain (ms_responseText s) = (raws, ms_buffer s) \<and> length raws = n - m))"

definition log_ok :: "persisted_event list \<Rightarrow> bool" where
  "log_ok all \<longleftrightarrow>
     sorted_wrt (\<lambda>p q. fst p < fst q) all
     \<and> (\<forall>p \<in> set all. 0 < fst p \<and> int (fst p) \<le> max_safe_integer)
     \<and> (\<forall>p \<in> set (butlast all). \<not> isTerminal p)"

lemma header_id:
  "0 < i \<Longrightarrow> int i \<le> max_safe_integer \<Longrightarrow> parseLastEventId (Some (js_of_nat i)) = i"
  by (simp add: parseLastEventId_def opt_number_def js_number_js_of_nat positive_or_def)

lemma requested_drop:
  assumes "log_ok all" "m \<le> length all" "last (ms_requests s) = (if m = 0 then None else Some (id_after all m))"
  shows "requested all s = drop m all"
proof (cases m)
  case 0
  have "parseLastEventId None = 0" by (simp add: parseLastEventId_def opt_number_def positive_or_def)
  then show ?thesis using assms(1,3) 0 by (simp add: requested_def log_ok_def filter_id_conv)
next
  case (Suc k)
  let ?i = "fst (all ! k)"
  have k: "k < length all" using assms(2) Suc by simp
  then have "all ! k \<in> set all" by simp
  then have id: "parseLastEventId (last (ms_requests s)) = ?i"
    using assms(1,3) Suc by (simp add: id_after_def header_id log_ok_def)
  have all: "all = take k all @ all ! k # drop m all" using k Suc by (simp add: id_take_nth_drop)
  show ?thesis
    unfolding requested_def id
    using filter_gt_split [of fst "take k all" "all ! k" "drop m all"] all assms(1) by (metis log_ok_def)
qed

lemma butlast_middle: "set (butlast ys) \<subseteq> set (butlast (xs @ ys @ zs))"
  by (cases "ys = []") (auto simp: butlast_append dest: in_set_butlastD)

lemma served_inv_frame:
  assumes "served_inv jparse body all s m n" "ms_events s' = ms_events s" "ms_lastEventId s' = ms_lastEventId s"
    and "ms_uncaught s' = ms_uncaught s" "ms_terminal s' = ms_terminal s" "ms_requests s' = ms_requests s"
    and "ms_cursor s' = ms_cursor s" "ms_responseText s' = ms_responseText s" "ms_buffer s' = ms_buffer s"
    and "ms_closed s \<Longrightarrow> ms_closed s'"
  shows "served_inv jparse body all s' m n"
  using assms unfolding served_inv_def by (cases "ms_closed s") simp_all

lemma served_flush:
  assumes "served_inv jparse body all s m n" "log_ok all" "writes_events jparse body (drop m all)"
    and "prefix (ms_responseText s @ chunk) (body (drop m all))" "\<not> ms_terminal s"
  shows "\<exists>n'. served_inv jparse body all (ms_flush jparse (s\<lparr>ms_responseText := ms_responseText s @ chunk\<rparr>)) m n'"
proof (cases "ms_closed s \<or> chunk = []")
  case True
  have "served_inv jparse body all (ms_flush jparse (s\<lparr>ms_responseText := ms_responseText s @ chunk\<rparr>)) m n"
  proof (cases "ms_closed s")
    case False
    with True assms(1,5) show ?thesis by (simp add: ms_flush_def served_inv_def)
  qed (use assms(1) in \<open>simp add: ms_flush_def served_inv_def\<close>)
  then show ?thesis by blast
next
  case False
  let ?T = "ms_responseText s @ chunk"
  obtain raws where inv: "m \<le> n" "n \<le> length all" "ms_cursor s = length (ms_responseText s)"
    "sse_drain (ms_responseText s) = (raws, ms_buffer s)" "length raws = n - m"
    using assms(1,5) False by (auto simp: served_inv_def)
  obtain fs r where fs: "sse_drain (ms_buffer s @ chunk) = (fs, r)" by fastforce
  have T: "sse_drain ?T = (raws @ fs, r)"
    using sse_drain_append [of "ms_responseText s" chunk] inv(4) fs by simp
  obtain x where x: "body (drop m all) = ?T @ x" using assms(4) by (auto simp: prefix_def)
  then have "13 \<notin> set chunk" using assms(3) by (simp add: writes_events_def)
  then have crlf: "crlf_to_lf chunk = chunk" by (rule crlf_to_lf_clean)
  obtain ys where ys: "fst (sse_drain (body (drop m all))) = raws @ fs @ ys"
    using sse_drain_append [of ?T x] T x by (auto simp: Let_def split: prod.splits)
  define k where "k = length fs"
  have l2: "list_all2 (carries jparse) (drop m all) (raws @ fs @ ys)"
    using assms(3) ys by (simp add: writes_events_def)
  then have len: "length all - m = (n - m) + k + length ys"
    using inv(5) by (auto dest: list_all2_lengthD simp: k_def)
  have "list_all2 (carries jparse) (drop (n - m) (drop m all)) (fs @ ys)"
    using list_all2_dropI [OF l2, of "n - m"] inv(5) by simp
  then have "list_all2 (carries jparse) (take k (drop n all)) fs"
    using list_all2_takeI [of "carries jparse" "drop n all" "fs @ ys" k] inv(1) by (simp add: k_def)
  moreover have "\<forall>p \<in> set (butlast (take k (drop n all))). \<not> isTerminal p"
  proof -
    have "all = take n all @ take k (drop n all) @ drop k (drop n all)"
      by (simp only: append_take_drop_id)
    then have "set (butlast (take k (drop n all))) \<subseteq> set (butlast all)"
      using butlast_middle [of "take k (drop n all)" "take n all" "drop k (drop n all)"] by metis
    then show ?thesis using assms(2) by (auto simp: log_ok_def)
  qed
  ultimately have drain: "ms_drain jparse (ms_buffer s @ chunk) s' =
      (fold take_event (take k (drop n all)) s')\<lparr>ms_buffer := r\<rparr>" for s'
    by (rule drain_carries [OF fs])
  have flush: "ms_flush jparse (s\<lparr>ms_responseText := ?T\<rparr>) =
      (fold take_event (take k (drop n all)) (s\<lparr>ms_responseText := ?T, ms_cursor := length ?T\<rparr>))\<lparr>ms_buffer := r\<rparr>"
    using False inv(3) by (simp add: ms_flush_def crlf drain)
  define ps where "ps = take k (drop n all)"
  have tk: "take (n + k) all = take n all @ ps" by (simp add: ps_def take_add)
  have bound: "n + k \<le> length all" using len inv(1,2) by simp
  then have "length ps = k" by (simp add: ps_def)
  then have "id_after all (n + k) = (if ps = [] then id_after all n else js_of_nat (fst (last ps)))"
    by (cases "k = 0") (auto simp: id_after_def last_conv_nth ps_def)
  moreover have "length (raws @ fs) = n + k - m" using inv(1,5) by (simp add: k_def)
  moreover note f = flush [folded ps_def]
  ultimately have "served_inv jparse body all (ms_flush jparse (s\<lparr>ms_responseText := ?T\<rparr>)) m (n + k)"
    using assms(1,4,5) T inv(1) bound unfolding f served_inv_def
    by (auto simp: take_events_fields tk)
  then show ?thesis by blast
qed

lemma ms_done_clean:
  assumes "\<not> ms_closed s" "\<not> ms_terminal s" "\<not> ms_uncaught s" "\<not> ms_uncaught (ms_flush jparse s)"
  shows "ms_done jparse status s =
    (if ms_terminal (ms_flush jparse s) then ms_flush jparse s
     else ms_retry (js ''stream closed: '' @ (if status = 0 then js ''network'' else js_of_int status))
            (ms_flush jparse s))"
proof -
  have "s\<lparr>ms_uncaught := False\<rparr> = s" "(ms_flush jparse s)\<lparr>ms_uncaught := ms_uncaught s\<rparr> = ms_flush jparse s"
    using assms(3,4) by simp_all
  then show ?thesis by (simp only: ms_done_def Let_def assms simp_thms if_False)
qed

lemma served_invariant:
  assumes "served jparse body all s" "log_ok all" "\<And>m. m \<le> length all \<Longrightarrow> writes_events jparse body (drop m all)"
  shows "ms_inv s \<and> (\<exists>m n. served_inv jparse body all s m n)"
  using assms(1)
proof (induction rule: served.induct)
  case served_start
  have "sse_drain [] = ([], [])" by (simp add: sse_drain.simps sse_sep_def)
  then have "served_inv jparse body all subscribeTaskStream 0 0"
    by (simp add: served_inv_def subscribeTaskStream_def ms_connect_def id_after_def)
  then show ?case using ms_inv_start by blast
next
  case (served_data s chunk)
  then obtain m n where i: "served_inv jparse body all s m n" "ms_inv s" by blast
  then have m: "m \<le> length all" "requested all s = drop m all"
    using requested_drop [OF assms(2)] by (auto simp: served_inv_def)
  have "\<exists>m n. served_inv jparse body all (ms_step jparse (MsData chunk) s) m n"
  proof (cases "ms_open s")
    case True
    then have "\<not> ms_terminal s" using i(2) by (auto simp: ms_inv_def)
    then have "\<exists>n'. served_inv jparse body all (ms_flush jparse (s\<lparr>ms_responseText := ms_responseText s @ chunk\<rparr>)) m n'"
      using served_flush [OF i(1) assms(2) assms(3) [OF m(1)], of chunk] served_data(2) m(2) by simp
    then show ?thesis using True by (simp only: ms_step.simps if_True) blast
  qed (use i in auto)
  then show ?case using ms_inv_step i(2) by blast
next
  case (served_done s chunk status)
  then obtain m n where i: "served_inv jparse body all s m n" "ms_inv s" by blast
  then have m: "m \<le> length all" "requested all s = drop m all"
    using requested_drop [OF assms(2)] by (auto simp: served_inv_def)
  let ?s = "s\<lparr>ms_open := False\<rparr>"
  have i': "served_inv jparse body all ?s m n" by (rule served_inv_frame [OF i(1)]) simp_all
  have retry: "served_inv jparse body all (ms_retry e s') m n'" if "served_inv jparse body all s' m n'" for e s' n'
    by (rule served_inv_frame [OF that]) (simp_all add: ms_retry_def Let_def)
  have "\<exists>m n. served_inv jparse body all (ms_step jparse (MsDone chunk status) s) m n"
  proof (cases "ms_open s \<and> \<not> ms_closed s")
    case True
    then have nt: "\<not> ms_terminal s" using i(2) by (auto simp: ms_inv_def)
    let ?t = "?s\<lparr>ms_responseText := ms_responseText s @ chunk\<rparr>"
    obtain n' where n': "served_inv jparse body all (ms_flush jparse ?t) m n'"
      using served_flush [OF i' assms(2) assms(3) [OF m(1)], of chunk] served_done(2) m(2) nt by auto
    then have "\<not> ms_uncaught (ms_flush jparse ?t)" by (simp add: served_inv_def)
    moreover have "\<not> ms_uncaught ?t" using i(1) by (simp add: served_inv_def)
    ultimately have st: "ms_step jparse (MsDone chunk status) s =
        (if ms_terminal (ms_flush jparse ?t) then ms_flush jparse ?t
         else ms_retry (js ''stream closed: '' @ (if status = 0 then js ''network'' else js_of_int status))
                (ms_flush jparse ?t))"
      using True nt ms_done_clean [of ?t jparse status] by simp
    have "served_inv jparse body all (ms_step jparse (MsDone chunk status) s) m n'"
      unfolding st using n' retry [OF n'] by (simp split: if_split)
    then show ?thesis by blast
  next
    case False
    show ?thesis
    proof (cases "ms_open s")
      case True
      with False have c: "ms_closed s" by simp
      then have "served_inv jparse body all (?s\<lparr>ms_responseText := ms_responseText s @ chunk\<rparr>) m n"
        using i' by (simp add: served_inv_def)
      with c True show ?thesis by (auto simp: ms_done_def)
    qed (use i in auto)
  qed
  then show ?case using ms_inv_step i(2) by blast
next
  case (served_other s i)
  then obtain m n where j: "served_inv jparse body all s m n" "ms_inv s" by blast
  have "sse_drain [] = ([], [])" by (simp add: sse_drain.simps sse_sep_def)
  then have connect: "served_inv jparse body all (ms_connect (s\<lparr>ms_timer := None\<rparr>)) (if ms_closed s \<or> ms_terminal s then m else n) n"
    using j(1) by (auto simp: ms_connect_def served_inv_def id_after_def)
  have retry: "served_inv jparse body all (ms_retry e s) m n" for e
    by (rule served_inv_frame [OF j(1)]) (simp_all add: ms_retry_def Let_def)
  have close: "served_inv jparse body all (s\<lparr>ms_closed := True, ms_timer := None, ms_open := False\<rparr>) m n"
    using j(1) by (simp add: served_inv_def)
  have "\<exists>m n. served_inv jparse body all (ms_step jparse i s) m n"
  proof -
    from served_other(2) consider "i = MsError" | "i = MsTimer" | "i = MsClose" by blast
    then show ?thesis
    proof cases
      case 1
      then show ?thesis using retry by (simp only: ms_step.simps) blast
    next
      case 2
      then show ?thesis using connect j(1) by (cases "ms_timer s = None") (simp only: ms_step.simps simp_thms if_True if_False, blast)+
    next
      case 3
      then show ?thesis using close j(1) by (cases "ms_closed s") (simp only: ms_step.simps simp_thms if_True if_False, blast)+
    qed
  qed
  then show ?case using ms_inv_step j(2) by blast
qed

section \<open>From the log to the app\<close>

lemma listed_log_ok:
  assumes "db_ok (x_vurl x) d" "listTaskEvents x d uid t 0 = Inr all" "int (db_nextEvent d) \<le> max_safe_integer"
  shows "log_ok all" "map tag all = log_index d t"
proof -
  have own: "assertTaskOwnership d uid t = Inr ()"
    using assms(2) by (simp add: listTaskEvents_def assertTaskOwnership_def split: if_splits)
  have pos: "0 < fst y" if "y \<in> set (log_index d t)" for y
    using that db_okD(2) [OF assms(1)] by (auto simp: log_index_def events_ok_def list_all_iff)
  then show idx: "map tag all = log_index d t"
    using listed_index [OF assms(1) own assms(2)] by (simp add: after_def filter_id_conv)
  have "sorted_wrt (\<lambda>p q. fst p < fst q) all"
    using index_sorted [OF assms(1), of t] by (simp add: idx [symmetric] sorted_wrt_map)
  moreover have "0 < fst p \<and> int (fst p) \<le> max_safe_integer" if "p \<in> set all" for p
  proof -
    have "tag p \<in> set (log_index d t)" using that by (simp add: idx [symmetric])
    then show ?thesis using pos index_bound [OF assms(1)] assms(3) by fastforce
  qed
  moreover have "\<not> isTerminal p" if "p \<in> set (butlast all)" for p
  proof -
    have "tag p \<in> set (butlast (log_index d t))" using that by (simp add: idx [symmetric] map_butlast [symmetric])
    then show ?thesis using index_terminal(1) [OF assms(1)] terminal_tag by metis
  qed
  ultimately show "log_ok all" by (simp add: log_ok_def)
qed


text \<open>
  A log of two events, read over two requests: the first response breaks off inside the
  frame of the second event. The endpoint writes its frames as the adapter does; texts are told
  apart by their data.
\<close>

definition sample_db :: db where
  "sample_db = ap_db (fold (persist_step (\<lambda>_. False))
     [(sample_ext, sample_event Accepted, None), (sample_ext, sample_event CompletedEv, None)] sample_api)"

definition sample_all :: "persisted_event list" where
  "sample_all = [(1, sample_event Accepted), (2, sample_event CompletedEv)]"

definition sample_stringify :: "json \<Rightarrow> jstr" where
  "sample_stringify v = (if prop_str v (js ''type'') = Some (js ''task.accepted'') then js ''A'' else js ''C'')"

definition sample_jparse :: "jstr \<Rightarrow> json option" where
  "sample_jparse t = Some (event_json (sample_event (if t = js ''A'' then Accepted else CompletedEv)))"

definition sample_body :: "persisted_event list \<Rightarrow> jstr" where
  "sample_body ps = concat (map (\<lambda>(n, e). writeSseEvent sample_stringify n e) ps)"

definition sample_inputs :: "ms_in list" where
  "sample_inputs =
     [MsData (take 20 (sample_body sample_all)), MsDone [] 0, MsTimer, MsData (sample_body (drop 1 sample_all))]"

lemma sample_served: "served sample_jparse sample_body sample_all (ms_run sample_jparse sample_inputs subscribeTaskStream)"
proof -
  let ?s1 = "ms_step sample_jparse (MsData (take 20 (sample_body sample_all))) subscribeTaskStream"
  let ?s2 = "ms_step sample_jparse (MsDone [] 0) ?s1"
  let ?s3 = "ms_step sample_jparse MsTimer ?s2"
  have "served sample_jparse sample_body sample_all ?s1"
    by (rule served_data [OF served_start]) code_simp
  then have "served sample_jparse sample_body sample_all ?s2"
    by (rule served_done) code_simp
  then have "served sample_jparse sample_body sample_all ?s3"
    by (rule served_other) simp
  then have "served sample_jparse sample_body sample_all
      (ms_step sample_jparse (MsData (sample_body (drop 1 sample_all))) ?s3)"
    by (rule served_data) code_simp
  then show ?thesis by (simp add: ms_run_def sample_inputs_def)
qed

lemma sample_writes:
  assumes "m \<le> length sample_all"
  shows "writes_events sample_jparse sample_body (drop m sample_all)"
proof -
  have "m \<in> {0, 1, 2}" using assms by (auto simp: sample_all_def)
  moreover have "\<forall>m \<in> {0, 1, 2}. writes_events sample_jparse sample_body (drop m sample_all)"
    by code_simp
  ultimately show ?thesis by blast
qed


end
