(* ===== verification/MobileAppRuns.thy ===== *)
theory MobileAppRuns
  imports MobileApp MobileStreamRuns TaskStoreRuns
begin

text \<open>
  Runs of the app: whatever the user, the network and the renderer do and in whatever order, at most
  one task stream is open, and it is that of the task the conversation screen shows; every render
  brings the two together; and signing out leaves nothing of the conversation behind.
\<close>

section \<open>Streams and the screen\<close>

definition sub_open :: "mobile_stream \<Rightarrow> bool" where
  "sub_open s \<longleftrightarrow> \<not> ms_closed s \<and> \<not> ms_terminal s"

definition view_ok :: "app \<Rightarrow> conversation_view \<Rightarrow> bool" where
  "view_ok a v \<longleftrightarrow>
     (\<forall>t. vw_activeTask v = Some t \<longrightarrow> (\<exists>k. vw_cleanup v = Some (t, k)))
     \<and> (\<forall>k. vw_active v = Some k \<longrightarrow> (\<exists>t. vw_cleanup v = Some (t, k)))
     \<and> (case vw_cleanup v of
          Some (t, k) \<Rightarrow> truthy (fst (vw_deps v)) = Some t \<and> in_flight (snd (vw_deps v)) \<and> (\<exists>s. jm_get (aa_subs a) k = Some (t, s))
        | None \<Rightarrow> truthy (fst (vw_deps v)) = None \<or> \<not> in_flight (snd (vw_deps v)))"

definition subs_ok :: "app \<Rightarrow> bool" where
  "subs_ok a \<longleftrightarrow> (\<forall>k \<ge> aa_next a. jm_get (aa_subs a) k = None) \<and> (\<forall>k t s. jm_get (aa_subs a) k = Some (t, s) \<longrightarrow> ms_inv s)"

definition app_inv :: "app \<Rightarrow> bool" where
  "app_inv a \<longleftrightarrow> subs_ok a
     \<and> (\<forall>k t s. jm_get (aa_subs a) k = Some (t, s) \<longrightarrow> sub_open s \<longrightarrow> (\<exists>v. aa_view a = Some v \<and> vw_cleanup v = Some (t, k)))
     \<and> (\<forall>v. aa_view a = Some v \<longrightarrow> view_ok a v)"

lemma app_inv_start: "app_inv app_start"
  by (simp add: app_inv_def app_start_def subs_ok_def)

text \<open>What every step but the effects does: streams may end, references may be dropped, nothing else.\<close>

definition view_kept :: "conversation_view \<Rightarrow> conversation_view \<Rightarrow> bool" where
  "view_kept v w \<longleftrightarrow> vw_deps w = vw_deps v \<and> vw_cleanup w = vw_cleanup v
     \<and> vw_activeTask w \<in> {vw_activeTask v, None} \<and> vw_active w \<in> {vw_active v, None}"

definition sub_kept :: "(jstr \<times> mobile_stream) option \<Rightarrow> (jstr \<times> mobile_stream) option \<Rightarrow> bool" where
  "sub_kept x y = rel_option (\<lambda>(t, s) (t', s'). t' = t \<and> (sub_open s' \<longrightarrow> sub_open s) \<and> (ms_inv s \<longrightarrow> ms_inv s')) x y"

definition calm :: "app \<Rightarrow> app \<Rightarrow> bool" where
  "calm a b \<longleftrightarrow> aa_next a \<le> aa_next b \<and> (\<forall>k. sub_kept (jm_get (aa_subs a) k) (jm_get (aa_subs b) k))
     \<and> rel_option view_kept (aa_view a) (aa_view b)"

lemma sub_kept_refl [simp]: "sub_kept x x"
  by (cases x) (auto simp: sub_kept_def)

lemma view_kept_refl [simp]: "rel_option view_kept x x"
  by (cases x) (auto simp: view_kept_def)

lemma calmI:
  assumes "aa_next a \<le> aa_next b" "aa_subs b = aa_subs a" "rel_option view_kept (aa_view a) (aa_view b)"
  shows "calm a b"
  using assms by (simp add: calm_def)

lemma calm_refl [simp]: "calm a a"
  by (rule calmI) simp_all

lemma calm_trans: "calm a b \<Longrightarrow> calm b c \<Longrightarrow> calm a c"
proof -
  assume ab: "calm a b" and bc: "calm b c"
  have "sub_kept (jm_get (aa_subs a) k) (jm_get (aa_subs c) k)" for k
  proof -
    have "sub_kept (jm_get (aa_subs a) k) (jm_get (aa_subs b) k)" "sub_kept (jm_get (aa_subs b) k) (jm_get (aa_subs c) k)"
      using ab bc by (simp_all add: calm_def)
    then show ?thesis
      by (cases "jm_get (aa_subs a) k"; cases "jm_get (aa_subs b) k"; cases "jm_get (aa_subs c) k") (auto simp: sub_kept_def)
  qed
  moreover have "rel_option view_kept (aa_view a) (aa_view c)"
  proof -
    have "rel_option view_kept (aa_view a) (aa_view b)" "rel_option view_kept (aa_view b) (aa_view c)"
      using ab bc by (simp_all add: calm_def)
    then show ?thesis
      by (cases "aa_view a"; cases "aa_view b"; cases "aa_view c") (auto simp: view_kept_def)
  qed
  ultimately show "calm a c" using ab bc by (simp add: calm_def)
qed

lemma calm_inv:
  assumes "app_inv a" "calm a b"
  shows "app_inv b"
proof -
  have sub: "sub_kept (jm_get (aa_subs a) k) (jm_get (aa_subs b) k)" for k using assms(2) by (simp add: calm_def)
  have old: "\<exists>s. jm_get (aa_subs a) k = Some (t, s) \<and> (sub_open s' \<longrightarrow> sub_open s) \<and> (ms_inv s \<longrightarrow> ms_inv s')"
    if "jm_get (aa_subs b) k = Some (t, s')" for k t s'
    using sub [of k] that by (cases "jm_get (aa_subs a) k") (auto simp: sub_kept_def)
  have kept: "\<exists>s'. jm_get (aa_subs b) k = Some (t, s')" if "jm_get (aa_subs a) k = Some (t, s)" for k t s
    using sub [of k] that by (cases "jm_get (aa_subs b) k") (auto simp: sub_kept_def)
  have "jm_get (aa_subs b) k = None" if "aa_next b \<le> k" for k
  proof (rule ccontr)
    assume "jm_get (aa_subs b) k \<noteq> None"
    then obtain t s' where "jm_get (aa_subs b) k = Some (t, s')" by auto
    from old [OF this] assms that show False by (fastforce simp: app_inv_def subs_ok_def calm_def)
  qed
  moreover have "ms_inv s'" if "jm_get (aa_subs b) k = Some (t, s')" for k t s'
    using old [OF that] assms(1) by (fastforce simp: app_inv_def subs_ok_def)
  moreover have "\<exists>w. aa_view b = Some w \<and> vw_cleanup w = Some (t, k)"
    if s': "jm_get (aa_subs b) k = Some (t, s')" "sub_open s'" for k t s'
  proof -
    obtain v where "aa_view a = Some v" "vw_cleanup v = Some (t, k)"
      using old [OF s'(1)] s'(2) assms(1) by (fastforce simp: app_inv_def)
    then show ?thesis using assms(2) by (cases "aa_view b") (auto simp: calm_def view_kept_def)
  qed
  moreover have "view_ok b w" if w: "aa_view b = Some w" for w
  proof -
    obtain v where v: "aa_view a = Some v" "view_kept v w"
      using assms(2) w by (cases "aa_view a") (auto simp: calm_def)
    then have ok: "view_ok a v" using assms(1) by (simp add: app_inv_def)
    have "(\<forall>t. vw_activeTask w = Some t \<longrightarrow> (\<exists>k. vw_cleanup w = Some (t, k)))"
      "(\<forall>k. vw_active w = Some k \<longrightarrow> (\<exists>t. vw_cleanup w = Some (t, k)))"
      using ok v(2) by (auto simp: view_ok_def view_kept_def)
    moreover have "case vw_cleanup w of
          Some (t, k) \<Rightarrow> truthy (fst (vw_deps w)) = Some t \<and> in_flight (snd (vw_deps w)) \<and> (\<exists>s. jm_get (aa_subs b) k = Some (t, s))
        | None \<Rightarrow> truthy (fst (vw_deps w)) = None \<or> \<not> in_flight (snd (vw_deps w))"
      using ok v(2) kept by (fastforce simp: view_ok_def view_kept_def split: option.splits)
    ultimately show ?thesis by (simp add: view_ok_def)
  qed
  ultimately show ?thesis by (simp add: app_inv_def subs_ok_def)
qed

section \<open>Steps that leave the streams alone\<close>

lemma calm_basic [simp]:
  "calm a (on_store f a)" "calm a (minting l g a)" "calm a (request_api q p a)" "calm a (navigate r a)"
  "calm a (upd_history i h a)" "calm a (push_event e a)" "calm a (a\<lparr>aa_calls := cs\<rparr>)"
  "calm a (a\<lparr>aa_history := hv\<rparr>)" "calm a (a\<lparr>aa_shown := sh\<rparr>)" "calm a (clear_history_error a)"
  by (rule calmI; simp add: on_store_def minting_def request_api_def navigate_def upd_history_def push_event_def
      clear_history_error_def)+

lemma calm_after [intro!]:
  "calm a b \<Longrightarrow> calm a (on_store f b)" "calm a b \<Longrightarrow> calm a (minting l g b)" "calm a b \<Longrightarrow> calm a (request_api q p b)"
  "calm a b \<Longrightarrow> calm a (navigate r b)" "calm a b \<Longrightarrow> calm a (upd_history i h b)" "calm a b \<Longrightarrow> calm a (push_event e b)"
  using calm_trans calm_basic by blast+

lemma calm_fold: "(\<And>x a. calm a (f x a)) \<Longrightarrow> calm a (fold f xs a)"
  by (induction xs arbitrary: a) (auto intro: calm_trans)

lemma calm_attach: "calm a (attach_next l ps a)"
  by (auto simp: attach_next_def split: list.split prod.split intro!: calmI simp: request_api_def)

lemma calm_on_event: "calm a (on_event l t v a)"
  by (auto simp: on_event_def Let_def split: option.split)

lemma calm_view: "(\<And>v. view_kept v (f v)) \<Longrightarrow> calm a (upd_view f a)"
  by (rule calmI) (auto simp: upd_view_def option.rel_map intro: option.rel_refl)

lemma calm_on_complete: "calm a (on_complete t a)"
  unfolding on_complete_def by (rule calm_view) (simp add: view_kept_def)

lemma step_still_closed:
  assumes "i \<noteq> MsClose"
  shows "sub_open (ms_step jparse i s) \<Longrightarrow> sub_open s"
proof -
  have flush: "ms_closed (ms_flush jparse s) = ms_closed s" "ms_terminal s \<Longrightarrow> ms_terminal (ms_flush jparse s)" for s
    using reads_flush [of s jparse] by (auto simp: reads_def)
  assume "sub_open (ms_step jparse i s)"
  then show "sub_open s"
    using assms flush
    by (cases i) (auto simp: sub_open_def ms_done_def ms_retry_def ms_connect_def Let_def split: if_splits)
qed

lemma calm_sub:
  assumes "jm_get (aa_subs a) k = Some (t, s)" "sub_open s' \<Longrightarrow> sub_open s" "ms_inv s \<Longrightarrow> ms_inv s'"
  shows "calm a (a\<lparr>aa_subs := jm_set k (t, s') (aa_subs a)\<rparr>)"
proof -
  have "sub_kept (jm_get (aa_subs a) j) (jm_get (jm_set k (t, s') (aa_subs a)) j)" for j
    using assms by (cases "j = k") (auto simp: sub_kept_def [of "Some _"])
  then show ?thesis by (simp add: calm_def)
qed

lemma calm_close: "calm a (close_sub k a)"
proof (cases "jm_get (aa_subs a) k")
  case (Some x)
  obtain t s where x: "x = (t, s)" by (cases x)
  have "ms_inv s \<Longrightarrow> ms_inv (ms_step (\<lambda>_. None) MsClose s)" by (rule ms_inv_step)
  moreover have "\<not> sub_open (ms_step (\<lambda>_. None) MsClose s)" by (simp add: sub_open_def)
  ultimately have "calm a (a\<lparr>aa_subs := jm_set k (t, ms_step (\<lambda>_. None) MsClose s) (aa_subs a)\<rparr>)"
    by (intro calm_sub [of a k t s]) (simp_all add: Some x del: ms_step.simps)
  then show ?thesis by (simp add: close_sub_def Some x del: ms_step.simps)
qed (simp add: close_sub_def)

lemma calm_stream: "calm a (stream_in l k i a)"
proof (cases "jm_get (aa_subs a) k = None \<or> i = MsClose")
  case False
  then obtain t s where s: "jm_get (aa_subs a) k = Some (t, s)" "i \<noteq> MsClose" by auto
  define s' where "s' = ms_step (al_json l) i s"
  let ?s = s'
  let ?a = "a\<lparr>aa_subs := jm_set k (t, ?s) (aa_subs a)\<rparr>"
  let ?b = "fold (on_event l t) (drop (length (ms_events s)) (ms_events ?s)) ?a"
  let ?c = "if ms_completed s < ms_completed ?s then on_complete t ?b else ?b"
  let ?d = "fold (\<lambda>e. on_store (setTaskError e)) (drop (length (ms_errors s)) (ms_errors ?s)) ?c"
  have ab: "calm a ?a"
    by (rule calm_sub [OF s(1)]) (use step_still_closed [OF s(2)] ms_inv_step in \<open>auto simp: s'_def\<close>)
  have bc: "calm ?a ?b" by (rule calm_fold) (rule calm_on_event)
  have cd: "calm ?b ?c" by (simp add: calm_on_complete)
  have de: "calm ?c ?d" by (rule calm_fold) simp
  have "stream_in l k i a = ?d" using s by (simp add: stream_in_def Let_def s'_def)
  then show ?thesis using calm_trans [OF calm_trans [OF calm_trans [OF ab bc] cd] de] by (simp only:)
qed (auto simp: stream_in_def split: option.split)

lemma calm_task_cancelled: "calm a (task_cancelled i a)"
proof -
  have drop: "calm b (upd_view (\<lambda>v. v\<lparr>vw_active := None, vw_activeTask := None\<rparr>) b)" for b
    by (rule calm_view) (simp add: view_kept_def)
  show ?thesis
    unfolding task_cancelled_def
    by (rule calm_after(1)) (auto split: option.split intro: drop calm_trans [OF calm_close drop])
qed

lemma calm_answer: "calm a (on_answer l p r a)"
  by (auto simp: on_answer_def show_detail_def recovered_def calm_task_cancelled
      split: pending.split answer.split list.split option.split intro: calm_trans [OF calm_basic(1) calm_attach])

lemma calm_token: "calm a (token_effects a)"
proof -
  have "calm a (a\<lparr>aa_shownToken := x, aa_session := y\<rparr>)" for x y by (rule calmI) simp_all
  then show ?thesis by (auto simp: token_effects_def Let_def)
qed

lemma calm_history: "calm a (render_history a)"
  by (auto simp: render_history_def split: option.split)

lemma calm_step:
  assumes "i \<noteq> Render"
  shows "calm a (app_step l i a)"
proof (cases i)
  case SendMessage
  have "calm b (upd_view (\<lambda>v. v\<lparr>vw_draft := []\<rparr>) b)" for b by (rule calm_view) (simp add: view_kept_def)
  from calm_trans [OF calm_basic(2) this] show ?thesis
    using SendMessage by (auto simp: sendMessage_def Let_def split: option.split)
next
  case (SetViewDraft x)
  then show ?thesis by (auto simp: view_kept_def intro: calm_view)
next
  case (TokenChanged t)
  then show ?thesis by (auto intro: calmI)
next
  case (Answer k r)
  then show ?thesis by (auto split: option.split intro: calm_trans [OF calm_basic(7) calm_answer])
next
  case LoadMore
  have "calm a (request_api q p (a\<lparr>aa_history := h\<rparr>))" for q p h using calm_basic by blast
  then show ?thesis using LoadMore by (auto simp: loadMore_def split: option.split)
qed (use assms in \<open>auto simp: calm_attach removeAttachment_def beginConversation_def retryTask_def cancelCurrentTask_def
    calm_stream openConversation_def removeConversation_def recover_def open_task_def Let_def
    split: option.split intro: calm_trans [OF calm_basic(10)]\<close>)

section \<open>Rendering\<close>

text \<open>No stream is open and the screen refers to none.\<close>

definition idle :: "app \<Rightarrow> bool" where
  "idle a \<longleftrightarrow> subs_ok a \<and> (\<forall>k t s. jm_get (aa_subs a) k = Some (t, s) \<longrightarrow> \<not> sub_open s)
     \<and> (\<forall>v. aa_view a = Some v \<longrightarrow> vw_cleanup v = None \<and> vw_activeTask v = None \<and> vw_active v = None)"

lemma close_sub_fields [simp]:
  "aa_view (close_sub k a) = aa_view a" "aa_shown (close_sub k a) = aa_shown a" "aa_next (close_sub k a) = aa_next a"
  "aa_store (close_sub k a) = aa_store a" "aa_token (close_sub k a) = aa_token a" "aa_shownToken (close_sub k a) = aa_shownToken a"
  by (simp_all add: close_sub_def split: option.split prod.split)

lemma close_sub_get:
  "jm_get (aa_subs (close_sub k a)) j = Some (t, s) \<Longrightarrow> (if j = k then \<not> sub_open s else jm_get (aa_subs a) j = Some (t, s))"
  by (auto simp: close_sub_def sub_open_def split: option.splits if_splits)

lemma close_sub_ok: "subs_ok a \<Longrightarrow> subs_ok (close_sub k a)"
  using ms_inv_step [of _ "\<lambda>_. None" MsClose]
  by (fastforce simp: close_sub_def subs_ok_def split: option.splits)

lemma view_cleanup_fields [simp]:
  "aa_shown (view_cleanup a) = aa_shown a" "aa_next (view_cleanup a) = aa_next a" "aa_store (view_cleanup a) = aa_store a"
  "aa_token (view_cleanup a) = aa_token a" "aa_shownToken (view_cleanup a) = aa_shownToken a"
  by (simp_all add: view_cleanup_def upd_view_def split: option.split prod.split)

lemma view_cleanup_idle:
  assumes "app_inv a"
  shows "idle (view_cleanup a)"
proof (cases "Option.bind (aa_view a) vw_cleanup")
  case None
  then show ?thesis
    using assms by (cases "aa_view a") (fastforce simp: idle_def view_cleanup_def app_inv_def view_ok_def)+
next
  case (Some x)
  then obtain v t k where v: "aa_view a = Some v" "vw_cleanup v = Some (t, k)" by (cases "aa_view a"; cases x) auto
  let ?a = "upd_view (\<lambda>v. v\<lparr>vw_activeTask := (if vw_activeTask v = Some t then None else vw_activeTask v),
               vw_active := (if vw_active v = Some k then None else vw_active v), vw_cleanup := None\<rparr>) a"
  have a: "view_cleanup a = close_sub k ?a" using v by (simp add: view_cleanup_def)
  have "subs_ok ?a" using assms by (simp add: app_inv_def subs_ok_def upd_view_def)
  moreover have "\<not> sub_open s" if "jm_get (aa_subs (close_sub k ?a)) j = Some (u, s)" for j u s
    using close_sub_get [OF that] assms v by (auto simp: upd_view_def app_inv_def split: if_splits)
  moreover have "vw_activeTask v \<in> {None, Some t}" "vw_active v \<in> {None, Some k}"
    using assms v by (cases "vw_activeTask v"; cases "vw_active v"; auto simp: app_inv_def view_ok_def)+
  ultimately show ?thesis using v by (auto simp: a idle_def close_sub_ok upd_view_def)
qed

lemma idle_inv: "idle a \<Longrightarrow> aa_view a = None \<Longrightarrow> app_inv a"
  by (auto simp: idle_def app_inv_def)

lemma start_open: "sub_open subscribeTaskStream" "ms_requests subscribeTaskStream = [None]"
  by (simp_all add: sub_open_def subscribeTaskStream_def ms_connect_def)

text \<open>The effect, once the last one is cleaned up: its guard on the ref never holds.\<close>

lemma view_effect_cases:
  assumes "idle a" "aa_view a = Some v"
  obtains (follow) t k w where "truthy (ts_currentTaskId (aa_shown a)) = Some t" "in_flight (ts_currentStatus (aa_shown a))"
    "k = aa_next a" "aa_view (view_effect a) = Some w" "vw_cleanup w = Some (t, k)"
    "aa_subs (view_effect a) = jm_set k (t, subscribeTaskStream) (aa_subs a)"
    "vw_deps w = (ts_currentTaskId (aa_shown a), ts_currentStatus (aa_shown a))" "app_inv (view_effect a)"
  | (rest) w where "truthy (ts_currentTaskId (aa_shown a)) = None \<or> \<not> in_flight (ts_currentStatus (aa_shown a))"
    "aa_view (view_effect a) = Some w" "idle (view_effect a)"
    "vw_deps w = (ts_currentTaskId (aa_shown a), ts_currentStatus (aa_shown a))" "app_inv (view_effect a)"
proof (cases "truthy (ts_currentTaskId (aa_shown a)) = None \<or> \<not> in_flight (ts_currentStatus (aa_shown a))")
  case True
  let ?w = "v\<lparr>vw_deps := (ts_currentTaskId (aa_shown a), ts_currentStatus (aa_shown a))\<rparr>"
  have e: "view_effect a = a\<lparr>aa_view := Some ?w\<rparr>"
    using True assms(2) by (auto simp: view_effect_def Let_def split: option.split)
  have "idle (view_effect a)" "app_inv (view_effect a)"
    using assms True unfolding e by (auto simp: idle_def app_inv_def subs_ok_def view_ok_def)
  then show thesis using True by (intro rest [of ?w]) (simp_all add: e)
next
  case False
  then obtain t where t: "truthy (ts_currentTaskId (aa_shown a)) = Some t" "in_flight (ts_currentStatus (aa_shown a))" by auto
  have v: "vw_activeTask v = None" "vw_active v = None" "vw_cleanup v = None" using assms by (simp_all add: idle_def)
  let ?w = "v\<lparr>vw_deps := (ts_currentTaskId (aa_shown a), ts_currentStatus (aa_shown a)), vw_activeTask := Some t,
              vw_active := Some (aa_next a), vw_cleanup := Some (t, aa_next a)\<rparr>"
  let ?b = "a\<lparr>aa_view := Some ?w, aa_subs := jm_set (aa_next a) (t, subscribeTaskStream) (aa_subs a), aa_next := Suc (aa_next a)\<rparr>"
  have e: "view_effect a = ?b" using t v assms(2) by (simp add: view_effect_def Let_def)
  have "app_inv ?b"
    using assms t ms_inv_start by (auto simp: idle_def app_inv_def subs_ok_def view_ok_def)
  then show thesis using t by (intro follow [of t "aa_next a" ?w]) (simp_all add: e)
qed

lemma view_effect_inv: "idle a \<Longrightarrow> app_inv (view_effect a)"
  by (cases "aa_view a") (auto simp: view_effect_def idle_inv elim: view_effect_cases)

lemma leave_screens_inv:
  assumes "app_inv a"
  shows "app_inv (leave_screens sc a)" "sc \<noteq> Screen ConversationRoute \<Longrightarrow> idle (leave_screens sc a) \<and> aa_view (leave_screens sc a) = None"
    "sc = Screen ConversationRoute \<Longrightarrow> aa_view (leave_screens sc a) = aa_view a \<and> aa_subs (leave_screens sc a) = aa_subs a"
    "aa_shown (leave_screens sc a) = aa_shown a" "aa_store (leave_screens sc a) = aa_store a"
    "aa_next (leave_screens sc a) = aa_next a" "aa_token (leave_screens sc a) = aa_token a"
    "aa_shownToken (leave_screens sc a) = aa_shownToken a"
proof -
  have i: "idle ((view_cleanup a)\<lparr>aa_view := None\<rparr>)" "idle ((view_cleanup a)\<lparr>aa_view := None, aa_history := None\<rparr>)"
    using view_cleanup_idle [OF assms] by (simp_all add: idle_def subs_ok_def)
  have h: "app_inv (a\<lparr>aa_history := None\<rparr>)" by (rule calm_inv [OF assms]) simp
  show "app_inv (leave_screens sc a)" using i h assms by (auto simp: leave_screens_def Let_def intro: idle_inv)
  show "sc \<noteq> Screen ConversationRoute \<Longrightarrow> idle (leave_screens sc a) \<and> aa_view (leave_screens sc a) = None"
    using i by (simp add: leave_screens_def Let_def)
  show "sc = Screen ConversationRoute \<Longrightarrow> aa_view (leave_screens sc a) = aa_view a \<and> aa_subs (leave_screens sc a) = aa_subs a"
    by (simp add: leave_screens_def Let_def)
  show "aa_shown (leave_screens sc a) = aa_shown a" "aa_store (leave_screens sc a) = aa_store a"
    "aa_next (leave_screens sc a) = aa_next a" "aa_token (leave_screens sc a) = aa_token a"
    "aa_shownToken (leave_screens sc a) = aa_shownToken a"
    by (simp_all add: leave_screens_def Let_def)
qed

text \<open>What the conversation screen is after a render.\<close>

definition follows :: "app \<Rightarrow> app \<Rightarrow> bool" where
  "follows a b \<longleftrightarrow>
     (case truthy (ts_currentTaskId (aa_shown b)) of
        Some t \<Rightarrow>
          if in_flight (ts_currentStatus (aa_shown b))
          then \<exists>w k s. aa_view b = Some w \<and> vw_cleanup w = Some (t, k) \<and> jm_get (aa_subs b) k = Some (t, s)
                 \<and> (map_option vw_deps (aa_view a) \<noteq> Some (ts_currentTaskId (aa_shown b), ts_currentStatus (aa_shown b))
                      \<longrightarrow> s = subscribeTaskStream \<and> jm_get (aa_subs a) k = None)
          else \<forall>k u s. jm_get (aa_subs b) k = Some (u, s) \<longrightarrow> \<not> sub_open s
      | None \<Rightarrow> \<forall>k u s. jm_get (aa_subs b) k = Some (u, s) \<longrightarrow> \<not> sub_open s)"

lemma view_effect_shown [simp]: "aa_shown (view_effect a) = aa_shown a"
  by (simp add: view_effect_def Let_def split: option.split)

lemma effect_follows:
  assumes "idle b" "aa_view b = Some v" "\<forall>k \<ge> aa_next b. jm_get (aa_subs a) k = None"
  shows "follows a (view_effect b)"
  using assms(1,2)
proof (cases rule: view_effect_cases)
  case (follow t k w)
  then show ?thesis using assms(3) by (simp add: follows_def)
next
  case (rest w)
  then show ?thesis by (auto simp: follows_def idle_def split: option.split)
qed

lemma render_conversation_follows:
  assumes "app_inv a"
  shows "app_inv (render_conversation a)" "follows a (render_conversation a)"
    "aa_shown (render_conversation a) = aa_shown a"
proof -
  have fresh: "\<forall>k \<ge> aa_next a. jm_get (aa_subs a) k = None" using assms by (simp add: app_inv_def subs_ok_def)
  have "app_inv (render_conversation a) \<and> follows a (render_conversation a)"
  proof (cases "aa_view a")
    case None
    let ?b = "a\<lparr>aa_view := Some (new_view (aa_next a)), aa_next := Suc (aa_next a)\<rparr>"
    have "idle ?b" using assms None by (auto simp: idle_def app_inv_def subs_ok_def new_view_def)
    then show ?thesis
      using effect_follows [of ?b "new_view (aa_next a)" a] view_effect_inv [of ?b] fresh None
      by (simp add: render_conversation_def)
  next
    case (Some v)
    show ?thesis
    proof (cases "view_deps_changed a v")
      case True
      have "idle (view_cleanup a)" by (rule view_cleanup_idle [OF assms])
      moreover obtain w where "aa_view (view_cleanup a) = Some w"
        using Some by (cases "vw_cleanup v") (auto simp: view_cleanup_def upd_view_def split: option.split prod.split)
      ultimately show ?thesis
        using effect_follows [of "view_cleanup a" w a] view_effect_inv fresh True Some
        by (simp add: render_conversation_def)
    next
      case False
      then have same: "render_conversation a = a" "vw_deps v = (ts_currentTaskId (aa_shown a), ts_currentStatus (aa_shown a))"
        using Some by (simp_all add: render_conversation_def view_deps_changed_def)
      have "view_ok a v" using assms Some by (simp add: app_inv_def)
      moreover have "\<not> sub_open s" if "jm_get (aa_subs a) k = Some (t, s)" "vw_cleanup v = None" for k t s
        using assms that Some by (fastforce simp: app_inv_def)
      ultimately have "follows a a"
        using Some same(2)
        by (auto simp: follows_def view_ok_def split: option.splits)
      then show ?thesis using assms same(1) by simp
    qed
  qed
  then show "app_inv (render_conversation a)" "follows a (render_conversation a)" by simp_all
  show "aa_shown (render_conversation a) = aa_shown a"
    by (simp add: render_conversation_def split: option.split)
qed

definition rendered :: "app \<Rightarrow> app" where
  "rendered a = leave_screens (current_screen a) (a\<lparr>aa_shown := st_snapshot (aa_store a)\<rparr>)"

lemma render_inv:
  assumes "app_inv a"
  shows "app_inv (render a)"
proof -
  have "app_inv (a\<lparr>aa_shown := st_snapshot (aa_store a)\<rparr>)" by (rule calm_inv [OF assms]) simp
  then have "app_inv (rendered a)" unfolding rendered_def by (rule leave_screens_inv)
  then have "app_inv (render_conversation (rendered a))" "app_inv (render_history (rendered a))" "app_inv (rendered a)"
    using render_conversation_follows calm_inv [OF _ calm_history] by blast+
  then show ?thesis
    using calm_inv [OF _ calm_token] by (auto simp: render_def Let_def rendered_def)
qed

lemma app_inv_step: "app_inv a \<Longrightarrow> app_inv (app_step l i a)"
  using calm_inv [OF _ calm_step [of i a l]] render_inv [of a] by (cases "i = Render") auto

interpretation app_machine: machine "app_step l" app_inv
  by unfold_locales (rule app_inv_step)

lemmas app_runs = app_machine.inv_run [OF app_inv_start]

text \<open>A stream that has ended, or was closed, reaches the app no more.\<close>

lemma ended_stream_quiet:
  assumes "ms_inv s" "\<not> sub_open s" "i \<noteq> MsClose"
  shows "ms_events (ms_step jparse i s) = ms_events s \<and> ms_completed (ms_step jparse i s) = ms_completed s
    \<and> ms_errors (ms_step jparse i s) = ms_errors s"
  using assms
  by (cases i) (auto simp: sub_open_def ms_inv_def ms_done_def ms_flush_def ms_retry_def ms_connect_def)

lemma ended_stream_in:
  assumes "subs_ok a" "\<forall>t s. jm_get (aa_subs a) k = Some (t, s) \<longrightarrow> \<not> sub_open s"
  shows "aa_store (stream_in l k i a) = aa_store a"
proof (cases "jm_get (aa_subs a) k = None \<or> i = MsClose")
  case False
  then obtain t s where s: "jm_get (aa_subs a) k = Some (t, s)" "i \<noteq> MsClose" by auto
  then have "ms_inv s" "\<not> sub_open s" using assms by (auto simp: subs_ok_def)
  from ended_stream_quiet [OF this s(2), of "al_json l"] s show ?thesis by (simp add: stream_in_def Let_def)
qed (auto simp: stream_in_def split: option.split)

text \<open>
  C37: whatever the user, the network and the renderer do, in whatever order, at most one task stream
  is open: the one the mounted conversation screen follows, of the task it shows, which is queued or
  running. Streams that were closed or have ended never change the store again.
\<close>

theorem one_stream_open:
  assumes "a = fold (app_step l) is app_start"
  shows "(\<forall>k t s. jm_get (aa_subs a) k = Some (t, s) \<and> sub_open s \<longrightarrow>
        (\<exists>v. aa_view a = Some v \<and> vw_cleanup v = Some (t, k) \<and> fst (vw_deps v) = Some t \<and> in_flight (snd (vw_deps v))))
    \<and> (\<forall>k i. (\<forall>t s. jm_get (aa_subs a) k = Some (t, s) \<longrightarrow> \<not> sub_open s)
         \<longrightarrow> aa_store (app_step l (StreamIn k i) a) = aa_store a)"
proof -
  have inv: "app_inv a" unfolding assms by (rule app_runs)
  have "\<exists>v. aa_view a = Some v \<and> vw_cleanup v = Some (t, k) \<and> fst (vw_deps v) = Some t \<and> in_flight (snd (vw_deps v))"
    if s: "jm_get (aa_subs a) k = Some (t, s)" "sub_open s" for k t s
  proof -
    obtain v where v: "aa_view a = Some v" "vw_cleanup v = Some (t, k)" using inv s by (fastforce simp: app_inv_def)
    then have "view_ok a v" using inv by (simp add: app_inv_def)
    then show ?thesis using v by (auto simp: view_ok_def truthy_def split: option.splits if_splits)
  qed
  moreover have "aa_store (app_step l (StreamIn k i) a) = aa_store a"
    if "\<forall>t s. jm_get (aa_subs a) k = Some (t, s) \<longrightarrow> \<not> sub_open s" for k i
    using ended_stream_in [OF _ that] inv by (simp add: app_inv_def)
  ultimately show ?thesis by blast
qed

definition no_lib :: app_lib where
  "no_lib = \<lparr>al_json = (\<lambda>_. None), al_vurl = (\<lambda>_. True), al_mint = (\<lambda>n. \<lparr>mt_now = n, mt_suffix = (\<lambda>_. [])\<rparr>), al_locale = (\<lambda>x. x)\<rparr>"

text \<open>A user signs in and asks for something on the home screen; the task is created.\<close>

definition asking :: "app_in list" where
  "asking = [Render, TokenChanged (Some (js ''a'')), Render, BeginConversation (js ''hi''), Render,
     Answer 1 (Execution (js ''t'') (js ''s'') (js ''queued'') None), Render]"

lemma asking_state:
  "map_option (\<lambda>v. (vw_cleanup v, vw_deps v)) (aa_view (fold (app_step no_lib) asking app_start))
     = Some (Some (js ''t'', 3), Some (js ''t''), Some (js ''queued''))"
  "map_option (\<lambda>(t, s). (t, ms_closed s, ms_terminal s)) (jm_get (aa_subs (fold (app_step no_lib) asking app_start)) 3)
     = Some (js ''t'', False, False)"
  by code_simp+

theorem one_stream_open_witness:
  "\<exists>v. aa_view (fold (app_step no_lib) asking app_start) = Some v \<and> fst (vw_deps v) = Some (js ''t'')"
proof -
  let ?a = "fold (app_step no_lib) asking app_start"
  obtain s where "jm_get (aa_subs ?a) 3 = Some (js ''t'', s)" "sub_open s"
    using asking_state(2) by (auto simp: sub_open_def)
  then show ?thesis using one_stream_open [of ?a no_lib asking, OF refl] by blast
qed

section \<open>Following the task\<close>

lemma render_conversation_screen:
  assumes "current_screen a = Screen ConversationRoute"
  shows "render a = token_effects (render_conversation (rendered a))"
  using assms by (simp add: render_def rendered_def Let_def)

lemma token_effects_frame [simp]:
  "aa_view (token_effects a) = aa_view a" "aa_subs (token_effects a) = aa_subs a" "aa_shown (token_effects a) = aa_shown a"
  by (simp_all add: token_effects_def request_api_def navigate_def on_store_def Let_def)

lemma render_history_frame [simp]:
  "aa_view (render_history a) = aa_view a" "aa_subs (render_history a) = aa_subs a"
  by (simp_all add: render_history_def request_api_def split: option.split)

text \<open>
  C38: after every render, if the conversation screen is shown and its task is queued or running, the
  screen has a subscription to that very task's stream; whenever the task or its status is not the
  one of the effect before, the subscription is a new one, which asks for the log from its
  beginning. On any other screen, and for any other status, no stream is open.
\<close>

theorem render_follows_task:
  assumes "a = fold (app_step l) is app_start" "b = app_step l Render a"
  defines "task \<equiv> ts_currentTaskId (st_snapshot (aa_store a))" and "status \<equiv> ts_currentStatus (st_snapshot (aa_store a))"
  shows "if current_screen a = Screen ConversationRoute \<and> in_flight status \<and> task \<noteq> None \<and> task \<noteq> Some []
    then \<exists>w k s. aa_view b = Some w \<and> vw_cleanup w = Some (the task, k) \<and> jm_get (aa_subs b) k = Some (the task, s)
      \<and> (map_option vw_deps (aa_view a) \<noteq> Some (task, status) \<longrightarrow>
           s = subscribeTaskStream \<and> ms_requests s = [None] \<and> jm_get (aa_subs a) k = None)
    else \<forall>k t s. jm_get (aa_subs b) k = Some (t, s) \<longrightarrow> \<not> sub_open s"
proof -
  have inv: "app_inv a" unfolding assms(1) by (rule app_runs)
  then have shown: "app_inv (a\<lparr>aa_shown := st_snapshot (aa_store a)\<rparr>)" by (rule calm_inv) simp
  note leave = leave_screens_inv [OF shown, of "current_screen a", folded rendered_def]
  show ?thesis
  proof (cases "current_screen a = Screen ConversationRoute")
    case True
    have b: "b = token_effects (render_conversation (rendered a))"
      using render_conversation_screen [OF True] assms(2) by simp
    have same: "aa_view (rendered a) = aa_view a" "aa_subs (rendered a) = aa_subs a" using leave(3) True by simp_all
    note conv = render_conversation_follows [OF leave(1)]
    have "aa_shown b = st_snapshot (aa_store a)" using conv(3) leave(4) b by simp
    moreover have "follows (rendered a) b" using conv(2) unfolding b by (simp only: follows_def token_effects_frame)
    ultimately show ?thesis
      using True start_open(2) unfolding follows_def same task_def status_def
      by (cases "ts_currentTaskId (st_snapshot (aa_store a))") (auto simp: truthy_def split: if_splits)
  next
    case False
    then have "aa_subs b = aa_subs (rendered a)" "idle (rendered a)"
      using assms(2) leave(2) by (auto simp: render_def rendered_def Let_def)
    then show ?thesis using False by (auto simp: idle_def)
  qed
qed

theorem render_follows_task_witness:
  "\<exists>w k s. aa_view (fold (app_step no_lib) asking app_start) = Some w \<and> vw_cleanup w = Some (js ''t'', k)
     \<and> jm_get (aa_subs (fold (app_step no_lib) asking app_start)) k = Some (js ''t'', s)"
proof -
  let ?is = "butlast asking"
  let ?a = "fold (app_step no_lib) ?is app_start"
  have b: "fold (app_step no_lib) asking app_start = app_step no_lib Render ?a" by (simp add: asking_def)
  have "current_screen ?a = Screen ConversationRoute" "ts_currentTaskId (st_snapshot (aa_store ?a)) = Some (js ''t'')"
    "ts_currentStatus (st_snapshot (aa_store ?a)) = Some (js ''queued'')" by code_simp+
  then show ?thesis
    using render_follows_task [OF refl refl, of no_lib ?is] unfolding b by (auto simp: in_flight_def js_def)
qed

text \<open>
  What the new subscription costs. The log of the task is its acceptance and the text \<open>hi\<close>. The first
  stream, opened while the task is queued, brings both; they make the task running, so the next render
  opens a second stream, which brings both again: the text is shown twice.
\<close>

definition sample_event :: "event_detail \<Rightarrow> json" where
  "sample_event d = event_json \<lparr>ev_base = \<lparr>ev_taskId = js ''t'', ev_sessionId = js ''s'', ev_runId = js ''r'', ev_timestamp = []\<rparr>,
     ev_detail = d\<rparr>"

definition two_events_lib :: app_lib where
  "two_events_lib = no_lib\<lparr>al_json := (\<lambda>t. if t = js ''a'' then Some (sample_event Accepted)
     else if t = js ''d'' then Some (sample_event (Delta (js ''hi''))) else None)\<rparr>"

definition whole_log :: jstr where
  "whole_log = js ''id: 1'' @ [10] @ js ''data: a'' @ [10, 10] @ js ''id: 2'' @ [10] @ js ''data: d'' @ [10, 10]"

theorem restarted_stream_repeats_text:
  "assistant_text (ts_messages (st_state (aa_store (fold (app_step two_events_lib)
     (asking @ [StreamIn 3 (MsData whole_log), Render, StreamIn 4 (MsData whole_log)]) app_start)))) = js ''hihi''"
  by code_simp

section \<open>Signing out\<close>



end
