(* ===== verification/MobileFiles.thy ===== *)
theory MobileFiles
  imports MobileApp ApiCommon
begin

text \<open>
  \<^verbatim>\<open>apps/mobile/src/services/files.ts\<close>: the files a user picks and their upload. The picker's assets,
  the answers of the two API calls and of the binary upload are arguments; \<open>up_lib\<close> is the URL
  implementation, with what it does when a host and a protocol are set.
\<close>

section \<open>Types\<close>

definition SUPPORTED_ATTACHMENT_TYPES :: "jstr list" where
  "SUPPORTED_ATTACHMENT_TYPES =
     [js ''image/jpeg'', js ''image/png'', js ''image/webp'', js ''application/pdf'', js ''application/msword'',
      js ''application/vnd.openxmlformats-officedocument.wordprocessingml.document'', js ''application/vnd.ms-excel'',
      js ''application/vnd.openxmlformats-officedocument.spreadsheetml.sheet'', js ''text/markdown'', js ''text/plain'',
      js ''text/csv'']"

definition inferMimeType :: "jstr \<Rightarrow> jstr" where
  "inferMimeType filename =
     (let lower = js_lower filename
      in if js_ends_with lower (js ''.md'') then js ''text/markdown''
         else if js_ends_with lower (js ''.csv'') then js ''text/csv''
         else if js_ends_with lower (js ''.txt'') then js ''text/plain''
         else if js_ends_with lower (js ''.doc'') then js ''application/msword''
         else if js_ends_with lower (js ''.docx'') then js ''application/vnd.openxmlformats-officedocument.wordprocessingml.document''
         else if js_ends_with lower (js ''.xls'') then js ''application/vnd.ms-excel''
         else if js_ends_with lower (js ''.xlsx'') then js ''application/vnd.openxmlformats-officedocument.spreadsheetml.sheet''
         else if js_ends_with lower (js ''.pdf'') then js ''application/pdf''
         else if js_ends_with lower (js ''.png'') then js ''image/png''
         else if js_ends_with lower (js ''.webp'') then js ''image/webp''
         else js ''image/jpeg'')"

record picker_asset =
  as_uri :: jstr
  as_name :: jstr
  as_mimeType :: "jstr option"
  as_size :: "nat option"

definition normalizePickedAttachment :: "picker_asset \<Rightarrow> picked" where
  "normalizePickedAttachment a =
     \<lparr>pk_uri = as_uri a, pk_filename = as_name a,
      pk_mimeType = (case truthy (as_mimeType a) of Some m \<Rightarrow> m | None \<Rightarrow> inferMimeType (as_name a)),
      pk_sizeBytes = (case as_size a of Some n \<Rightarrow> n | None \<Rightarrow> 0)\<rparr>"

definition pickAttachments :: "picker_asset list option \<Rightarrow> picked list" where
  "pickAttachments result = (case result of None \<Rightarrow> [] | Some assets \<Rightarrow> map normalizePickedAttachment assets)"

section \<open>Where an upload goes\<close>

record up_lib =
  ul_url :: url_api
  ul_set_host :: "jstr \<Rightarrow> url \<Rightarrow> url"
  ul_text :: "url \<Rightarrow> jstr"

definition loopback_hosts :: "jstr list" where
  "loopback_hosts = [js ''localhost'', js ''127.0.0.1'', js ''0.0.0.0'']"

text \<open>\<open>None\<close> where \<^verbatim>\<open>new URL\<close> throws.\<close>

definition rewriteLoopbackUploadUrl :: "up_lib \<Rightarrow> jstr \<Rightarrow> jstr \<Rightarrow> jstr option" where
  "rewriteLoopbackUploadUrl l base rawUrl =
     (if js_starts_with rawUrl (js ''/'') then Some (base @ rawUrl)
      else case ua_parse (ul_url l) rawUrl of
             None \<Rightarrow> None
           | Some u \<Rightarrow>
               if u_hostname u \<notin> set loopback_hosts then Some rawUrl
               else case ua_parse (ul_url l) base of
                      None \<Rightarrow> None
                    | Some b \<Rightarrow>
                        Some (ul_text l (ua_set_protocol (ul_url l) (u_protocol b) (ul_set_host l (u_hostname b) u))))"

text \<open>The request that carries the file: its URL, its type, and the token only for the API itself.\<close>

record upload_request =
  ur_url :: jstr
  ur_contentType :: jstr
  ur_authorization :: "jstr option"

definition uploadBinary :: "up_lib \<Rightarrow> jstr \<Rightarrow> jstr option \<Rightarrow> picked \<Rightarrow> jstr \<Rightarrow> upload_request option" where
  "uploadBinary l base token f uploadUrl =
     (case rewriteLoopbackUploadUrl l base uploadUrl of
        None \<Rightarrow> None
      | Some t \<Rightarrow>
          (case (ua_parse (ul_url l) t, ua_parse (ul_url l) base) of
             (Some u, Some b) \<Rightarrow>
               Some \<lparr>ur_url = t, ur_contentType = pk_mimeType f,
                     ur_authorization = (if u_origin u = u_origin b then map_option ((@) (js ''Bearer '')) (truthy token) else None)\<rparr>
           | _ \<Rightarrow> None))"

record upload_grant =
  ug_fileId :: jstr
  ug_uploadUrl :: jstr
  ug_storageKey :: jstr

text \<open>
  \<^verbatim>\<open>uploadAttachment\<close>: the grant, the upload with the status of its answer (or the failure to read or
  send the file), the completion; the result with the completion it asked for.
\<close>

definition uploadAttachment ::
  "up_lib \<Rightarrow> jstr \<Rightarrow> jstr option \<Rightarrow> picked \<Rightarrow> jstr + upload_grant \<Rightarrow> (upload_request \<Rightarrow> jstr + nat)
     \<Rightarrow> (upload_grant \<Rightarrow> jstr + file_record) \<Rightarrow> jstr + file_record" where
  "uploadAttachment l base token f grant put finish =
     (case grant of
        Inl e \<Rightarrow> Inl e
      | Inr g \<Rightarrow>
          (case uploadBinary l base token f (ug_uploadUrl g) of
             None \<Rightarrow> Inl (js ''Invalid URL'')
           | Some q \<Rightarrow>
               (case put q of
                  Inl e \<Rightarrow> Inl e
                | Inr status \<Rightarrow>
                    if 200 \<le> status \<and> status < 300 then finish g
                    else Inl (js ''upload failed: '' @ js_of_nat status))))"

section \<open>Facts\<close>

lemma inferred_type_supported: "inferMimeType filename \<in> set SUPPORTED_ATTACHMENT_TYPES"
  by (simp add: inferMimeType_def SUPPORTED_ATTACHMENT_TYPES_def Let_def)

text \<open>
  The session's token leaves with an upload only to the origin of the API, and an address of the
  phone itself is never used unless it is the API's.
\<close>

theorem upload_goes_home:
  assumes "uploadBinary l base token f uploadUrl = Some q"
    and "\<And>t u h p. ua_parse (ul_url l) t = Some u \<Longrightarrow>
      \<exists>v. ua_parse (ul_url l) (ul_text l (ua_set_protocol (ul_url l) p (ul_set_host l h u))) = Some v \<and> u_hostname v = h"
  shows "(ur_authorization q \<noteq> None \<longrightarrow>
      map_option u_origin (ua_parse (ul_url l) (ur_url q)) = map_option u_origin (ua_parse (ul_url l) base))
    \<and> (js_starts_with uploadUrl (js ''/'') \<or>
       (\<exists>u. ua_parse (ul_url l) (ur_url q) = Some u
          \<and> (u_hostname u \<in> set loopback_hosts \<longrightarrow> Some (u_hostname u) = map_option u_hostname (ua_parse (ul_url l) base))))"
proof -
  obtain t u b where q: "rewriteLoopbackUploadUrl l base uploadUrl = Some t" "ua_parse (ul_url l) t = Some u"
    "ua_parse (ul_url l) base = Some b" "ur_url q = t"
    "ur_authorization q = (if u_origin u = u_origin b then map_option ((@) (js ''Bearer '')) (truthy token) else None)"
    using assms(1) by (auto simp: uploadBinary_def split: option.splits)
  have "u_hostname u \<in> set loopback_hosts \<longrightarrow> u_hostname u = u_hostname b" if away: "\<not> js_starts_with uploadUrl (js ''/'')"
  proof -
    obtain w where w: "ua_parse (ul_url l) uploadUrl = Some w"
      using q(1) away by (auto simp: rewriteLoopbackUploadUrl_def split: option.splits)
    show ?thesis
    proof (cases "u_hostname w \<in> set loopback_hosts")
      case True
      then have "t = ul_text l (ua_set_protocol (ul_url l) (u_protocol b) (ul_set_host l (u_hostname b) w))"
        using q(1,3) w away by (simp add: rewriteLoopbackUploadUrl_def)
      then show ?thesis using assms(2) [OF w, of "u_protocol b" "u_hostname b"] q(2) by auto
    next
      case False
      then have "t = uploadUrl" using q(1) w away by (simp add: rewriteLoopbackUploadUrl_def)
      then show ?thesis using False w q(2) by simp
    qed
  qed
  then show ?thesis using q by (auto split: if_splits)
qed

end
