(* ===== verification/PushTokens.thy ===== *)
theory PushTokens
  imports ApiCommon
begin

text \<open>
  \<^verbatim>\<open>apps/mobile-api/src/push/push.service.ts\<close>: the devices an account is notified on, as rows of the
  table \<^verbatim>\<open>PushToken\<close>. Each call is taken as one step; ids and times are arguments, and so is the
  answer of the push service.
\<close>

section \<open>The table and its operations\<close>

record push_row =
  pw_id :: jstr
  pw_userId :: jstr
  pw_token :: jstr
  pw_platform :: jstr
  pw_enabled :: bool
  pw_lastSeenAt :: nat

definition upsert_token :: "jstr \<Rightarrow> nat \<Rightarrow> jstr \<Rightarrow> jstr \<Rightarrow> jstr \<Rightarrow> push_row list \<Rightarrow> push_row list" where
  "upsert_token fresh now userId token platform rows =
     (if token \<in> pw_token ` set rows
      then map (\<lambda>r. if pw_token r = token
                    then r\<lparr>pw_userId := userId, pw_platform := platform, pw_enabled := True, pw_lastSeenAt := now\<rparr> else r) rows
      else rows @ [\<lparr>pw_id = fresh, pw_userId = userId, pw_token = token, pw_platform = platform, pw_enabled = True,
                    pw_lastSeenAt = now\<rparr>])"

definition kept_devices :: nat where
  "kept_devices = 10"

text \<open>The ids beyond the ten seen last.\<close>

definition stale_ids :: "jstr \<Rightarrow> push_row list \<Rightarrow> jstr list" where
  "stale_ids userId rows =
     map pw_id (drop kept_devices (rev (sort_key pw_lastSeenAt (filter (\<lambda>r. pw_userId r = userId) rows))))"

definition register_token :: "jstr \<Rightarrow> nat \<Rightarrow> jstr \<Rightarrow> jstr \<Rightarrow> jstr \<Rightarrow> push_row list \<Rightarrow> push_row list" where
  "register_token fresh now userId token platform rows =
     (let rows1 = upsert_token fresh now userId token platform rows; stale = stale_ids userId rows1
      in filter (\<lambda>r. pw_id r \<notin> set stale) rows1)"

definition disable_tokens :: "(push_row \<Rightarrow> bool) \<Rightarrow> push_row list \<Rightarrow> push_row list" where
  "disable_tokens P rows = map (\<lambda>r. if P r then r\<lparr>pw_enabled := False\<rparr> else r) rows"

definition remove_token :: "jstr \<Rightarrow> jstr \<Rightarrow> push_row list \<Rightarrow> push_row list" where
  "remove_token userId token = disable_tokens (\<lambda>r. pw_userId r = userId \<and> pw_token r = token)"

section \<open>Notifying\<close>

definition push_enabled :: "env \<Rightarrow> bool" where
  "push_enabled env \<longleftrightarrow> map_option js_lower (env ''EXPO_PUSH_ENABLED'') = Some (js ''true'')"

definition notify_tokens :: "env \<Rightarrow> jstr \<Rightarrow> push_row list \<Rightarrow> jstr list" where
  "notify_tokens env userId rows =
     (if push_enabled env
      then map pw_token (take 100 (filter (\<lambda>r. pw_userId r = userId \<and> pw_enabled r) rows)) else [])"

text \<open>The error of a ticket, if there is one.\<close>

definition ticket_error :: "json \<Rightarrow> nat \<Rightarrow> jstr option" where
  "ticket_error payload i =
     (case jprop payload (js ''data'') of
        Some (JArr ts) \<Rightarrow>
          if i < length ts then Option.bind (jprop (ts ! i) (js ''details'')) (\<lambda>d. prop_str d (js ''error'')) else None
      | _ \<Rightarrow> None)"

definition invalid_tokens :: "json \<Rightarrow> jstr list \<Rightarrow> jstr list" where
  "invalid_tokens payload tokens =
     map snd (filter (\<lambda>(i, t). ticket_error payload i = Some (js ''DeviceNotRegistered'')) (enumerate 0 tokens))"

text \<open>\<^verbatim>\<open>notifyTaskTerminal\<close> on an answer: a failure with its status, or the payload.\<close>

definition notifyTaskTerminal :: "env \<Rightarrow> jstr \<Rightarrow> nat + json \<Rightarrow> push_row list \<Rightarrow> (jstr + unit) \<times> push_row list" where
  "notifyTaskTerminal env userId response rows =
     (let tokens = notify_tokens env userId rows
      in if tokens = [] then (Inr (), rows)
         else case response of
                Inl status \<Rightarrow> (Inl (js ''Expo push request failed ('' @ js_of_nat status @ js '')''), rows)
              | Inr payload \<Rightarrow> (Inr (), disable_tokens (\<lambda>r. pw_token r \<in> set (invalid_tokens payload tokens)) rows))"

datatype push_in =
    Register jstr nat jstr jstr jstr
  | Remove jstr jstr
  | Notify jstr "nat + json"

fun push_step :: "env \<Rightarrow> push_in \<Rightarrow> push_row list \<Rightarrow> push_row list" where
  "push_step env (Register fresh now u t p) rows = register_token fresh now u t p rows"
| "push_step env (Remove u t) rows = remove_token u t rows"
| "push_step env (Notify u r) rows = snd (notifyTaskTerminal env u r rows)"

section \<open>Whose device it is\<close>

text \<open>What the calls so far say of a token: whose it is, after the last registration, unless given up since.\<close>

fun token_owner :: "push_in list \<Rightarrow> jstr \<Rightarrow> jstr option" where
  "token_owner [] t = None"
| "token_owner (Register _ _ u t' _ # is) t = (if t' = t then Some u else token_owner is t)"
| "token_owner (Remove u t' # is) t = (if t' = t \<and> token_owner is t = Some u then None else token_owner is t)"
| "token_owner (Notify _ _ # is) t = token_owner is t"

definition devices_of :: "jstr \<Rightarrow> push_row list \<Rightarrow> push_row list" where
  "devices_of u rows = filter (\<lambda>r. pw_userId r = u) rows"

definition fresh_ids :: "push_in list \<Rightarrow> jstr list" where
  "fresh_ids is = concat (map (\<lambda>i. case i of Register f _ _ _ _ \<Rightarrow> [f] | _ \<Rightarrow> []) is)"

definition push_inv :: "push_in list \<Rightarrow> push_row list \<Rightarrow> bool" where
  "push_inv past rows \<longleftrightarrow> distinct (map pw_token rows) \<and> distinct (map pw_id rows)
     \<and> pw_id ` set rows \<subseteq> set (fresh_ids past)
     \<and> (\<forall>u. length (devices_of u rows) \<le> kept_devices)
     \<and> (\<forall>r \<in> set rows. pw_enabled r \<longrightarrow> token_owner past (pw_token r) = Some (pw_userId r))"

lemma push_inv_disable:
  assumes "push_inv past rows" "fresh_ids past' = fresh_ids past"
    and "\<And>r. r \<in> set rows \<Longrightarrow> pw_enabled r \<Longrightarrow> \<not> P r \<Longrightarrow> token_owner past' (pw_token r) = token_owner past (pw_token r)"
  shows "push_inv past' (disable_tokens P rows)"
proof -
  have same: "map pw_token (disable_tokens P rows) = map pw_token rows" "map pw_id (disable_tokens P rows) = map pw_id rows"
    by (simp_all add: disable_tokens_def)
  have "length (devices_of u (disable_tokens P rows)) = length (devices_of u rows)" for u
    unfolding devices_of_def disable_tokens_def by (induction rows) simp_all
  moreover have "token_owner past' (pw_token r) = Some (pw_userId r)"
    if "r \<in> set (disable_tokens P rows)" "pw_enabled r" for r
    using that assms(1,3) by (auto simp: disable_tokens_def push_inv_def split: if_splits)
  moreover have "pw_id ` set (disable_tokens P rows) = pw_id ` set rows"
    using same(2) by (metis set_map)
  ultimately show ?thesis using assms(1,2) same by (simp add: push_inv_def)
qed

lemma upsert_spec:
  fixes now u t p
  assumes "push_inv past rows" "fresh \<notin> set (fresh_ids past)"
  defines "rows1 \<equiv> upsert_token fresh now u t p rows"
  shows "distinct (map pw_token rows1)" "distinct (map pw_id rows1)" "pw_id ` set rows1 \<subseteq> insert fresh (set (fresh_ids past))"
    "v \<noteq> u \<Longrightarrow> length (devices_of v rows1) \<le> kept_devices"
    "r \<in> set rows1 \<Longrightarrow> pw_enabled r \<Longrightarrow> token_owner (Register fresh now u t p # past) (pw_token r) = Some (pw_userId r)"
proof -
  let ?f = "\<lambda>r. if pw_token r = t then r\<lparr>pw_userId := u, pw_platform := p, pw_enabled := True, pw_lastSeenAt := now\<rparr> else r"
  have same: "map pw_token (map ?f rows) = map pw_token rows" "map pw_id (map ?f rows) = map pw_id rows" by simp_all
  have less: "length (devices_of v (map ?f rows)) \<le> length (devices_of v rows)" if "v \<noteq> u" for v
    unfolding devices_of_def using that by (induction rows) auto
  show "distinct (map pw_token rows1)"
    using assms(1) same(1) by (auto simp: rows1_def upsert_token_def push_inv_def simp del: map_map)
  show "distinct (map pw_id rows1)"
    using assms(1,2) same(2) by (auto simp: rows1_def upsert_token_def push_inv_def simp del: map_map)
  show "pw_id ` set rows1 \<subseteq> insert fresh (set (fresh_ids past))"
    using assms(1) by (auto simp: rows1_def upsert_token_def push_inv_def)
  show "length (devices_of v rows1) \<le> kept_devices" if "v \<noteq> u"
  proof -
    have "length (devices_of v rows) \<le> kept_devices" using assms(1) by (simp add: push_inv_def)
    moreover have "devices_of v (rows @ [x]) = devices_of v rows" if "pw_userId x = u" for x
      using \<open>v \<noteq> u\<close> that by (simp add: devices_of_def)
    ultimately show ?thesis using less [OF that] by (simp add: rows1_def upsert_token_def)
  qed
  show "token_owner (Register fresh now u t p # past) (pw_token r) = Some (pw_userId r)"
    if r: "r \<in> set rows1" "pw_enabled r"
  proof (cases "pw_token r = t")
    case True
    have "pw_userId r = u"
    proof (cases "t \<in> pw_token ` set rows")
      case old: True
      then obtain q where q: "q \<in> set rows" "r = ?f q" using r(1) by (auto simp: rows1_def upsert_token_def)
      then show ?thesis using True by (cases "pw_token q = t") simp_all
    next
      case False
      then have "r \<notin> set rows" using True by blast
      then show ?thesis using r(1) False by (simp add: rows1_def upsert_token_def)
    qed
    then show ?thesis using True by simp
  next
    case False
    then have "r \<in> set rows" using r(1) by (auto simp: rows1_def upsert_token_def split: if_splits)
    then show ?thesis using assms(1) r(2) False by (simp add: push_inv_def)
  qed
qed

lemma devices_pruned:
  assumes "distinct (map pw_id rows)"
  shows "length (devices_of u (filter (\<lambda>r. pw_id r \<notin> set (stale_ids u rows)) rows)) \<le> kept_devices"
proof -
  let ?own = "filter (\<lambda>r. pw_userId r = u) rows"
  let ?sorted = "rev (sort_key pw_lastSeenAt ?own)"
  let ?left = "filter (\<lambda>r. pw_id r \<notin> set (stale_ids u rows)) ?own"
  have d: "distinct ?own" using assms by (simp add: distinct_map distinct_filter)
  have "set ?left \<subseteq> set (take kept_devices ?sorted)"
  proof
    fix r assume r: "r \<in> set ?left"
    then have "r \<in> set ?sorted" by simp
    then have "r \<in> set (take kept_devices ?sorted) \<or> r \<in> set (drop kept_devices ?sorted)"
      by (metis Un_iff append_take_drop_id set_append)
    then show "r \<in> set (take kept_devices ?sorted)" using r by (auto simp: stale_ids_def)
  qed
  then have "card (set ?left) \<le> card (set (take kept_devices ?sorted))" by (intro card_mono) simp_all
  also have "\<dots> \<le> length (take kept_devices ?sorted)" by (rule card_length)
  also have "\<dots> \<le> kept_devices" by simp
  finally have "length ?left \<le> kept_devices" using distinct_card [OF distinct_filter [OF d]] by simp
  then show ?thesis by (simp add: devices_of_def conj_commute)
qed

lemma push_inv_register:
  assumes "push_inv past rows" "fresh \<notin> set (fresh_ids past)"
  shows "push_inv (Register fresh now u t p # past) (register_token fresh now u t p rows)"
proof -
  let ?rows = "upsert_token fresh now u t p rows"
  let ?P = "\<lambda>r. pw_id r \<notin> set (stale_ids u ?rows)"
  note up = upsert_spec [OF assms, where now = now and u = u and t = t and p = p]
  have reg: "register_token fresh now u t p rows = filter ?P ?rows" by (simp add: register_token_def Let_def)
  have "length (devices_of v (filter ?P ?rows)) \<le> kept_devices" for v
  proof (cases "v = u")
    case True
    then show ?thesis using devices_pruned [OF up(2)] by simp
  next
    case False
    have "length (filter (\<lambda>r. pw_userId r = v) (filter P rs)) \<le> length (filter (\<lambda>r. pw_userId r = v) rs)" for P rs
      by (induction rs) auto
    then have "length (devices_of v (filter ?P ?rows)) \<le> length (devices_of v ?rows)"
      unfolding devices_of_def by blast
    then show ?thesis using up(4) [OF False] by simp
  qed
  moreover have "distinct (map pw_token (filter ?P ?rows))" "distinct (map pw_id (filter ?P ?rows))"
    using up(1,2) by (simp_all add: distinct_map_filter)
  moreover have "pw_id ` set (filter ?P ?rows) \<subseteq> set (fresh_ids (Register fresh now u t p # past))"
    using up(3) by (auto simp: fresh_ids_def)
  moreover have "\<forall>r \<in> set (filter ?P ?rows). pw_enabled r
      \<longrightarrow> token_owner (Register fresh now u t p # past) (pw_token r) = Some (pw_userId r)"
    using up(5) by (simp del: token_owner.simps)
  ultimately show ?thesis unfolding reg push_inv_def by blast
qed

lemma push_inv_step:
  assumes "push_inv past rows" "set (fresh_ids [i]) \<inter> set (fresh_ids past) = {}"
  shows "push_inv (i # past) (push_step env i rows)"
proof (cases i)
  case (Register f n u t p)
  then show ?thesis using push_inv_register [OF assms(1), of f n u t p] assms(2) by (simp add: fresh_ids_def)
next
  case (Remove u t)
  have "push_inv (Remove u t # past) (remove_token u t rows)"
    unfolding remove_token_def using assms(1)
    by (intro push_inv_disable [OF assms(1)]) (auto simp: fresh_ids_def push_inv_def)
  then show ?thesis using Remove by simp
next
  case (Notify u r)
  have "push_inv (Notify u r # past) (disable_tokens P rows)" for P r
    by (rule push_inv_disable [OF assms(1)]) (simp_all add: fresh_ids_def)
  moreover have "push_inv (Notify u r # past) rows" for r using assms(1) by (simp add: push_inv_def fresh_ids_def)
  ultimately show ?thesis using Notify by (simp add: notifyTaskTerminal_def Let_def split: sum.split)
qed

lemma push_inv_run:
  "distinct (fresh_ids is) \<Longrightarrow> push_inv (rev is) (fold (push_step env) is [])"
proof (induction "is" rule: rev_induct)
  case Nil
  then show ?case by (simp add: push_inv_def devices_of_def)
next
  case (snoc i "is")
  have ids: "set (fresh_ids (rev is)) = set (fresh_ids is)" by (simp add: fresh_ids_def)
  have "fresh_ids (is @ [i]) = fresh_ids is @ fresh_ids [i]" by (simp add: fresh_ids_def)
  then show ?case using snoc push_inv_step [of "rev is" "fold (push_step env) is []" i env] ids by auto
qed

text \<open>
  C40: a notification for a user goes only to devices that user registered last and has not given
  up since, so never to one that another account has taken over; and no account keeps more than ten
  devices.
\<close>

theorem notified_devices_are_own:
  assumes "distinct (fresh_ids is)" "rows = fold (push_step env) is []"
  shows "(\<forall>t \<in> set (notify_tokens env' u rows). token_owner (rev is) t = Some u)
    \<and> length (devices_of u rows) \<le> 10 \<and> length (notify_tokens env' u rows) \<le> 10"
proof -
  have inv: "push_inv (rev is) rows" unfolding assms(2) by (rule push_inv_run [OF assms(1)])
  have "token_owner (rev is) t = Some u" if "t \<in> set (notify_tokens env' u rows)" for t
    using inv that by (auto simp: notify_tokens_def push_inv_def dest!: in_set_takeD split: if_splits)
  moreover have few: "length (devices_of u rows) \<le> 10" using inv by (simp add: push_inv_def kept_devices_def)
  moreover have "length (notify_tokens env' u rows) \<le> length (devices_of u rows)"
  proof -
    have "length (filter (\<lambda>r. pw_userId r = u \<and> pw_enabled r) rows) \<le> length (devices_of u rows)"
      unfolding devices_of_def by (induction rows) auto
    then show ?thesis by (auto simp: notify_tokens_def min_def)
  qed
  ultimately show ?thesis by auto
qed

definition shared_device :: "push_in list" where
  "shared_device = [Register (js ''1'') 1 (js ''u'') (js ''d'') (js ''ios''), Register (js ''2'') 2 (js ''v'') (js ''d'') (js ''ios'')]"

theorem notified_devices_are_own_witness:
  "notify_tokens (\<lambda>_. Some (js ''true'')) (js ''v'') (fold (push_step (\<lambda>_. None)) shared_device []) = [js ''d'']
   \<and> token_owner (rev shared_device) (js ''d'') = Some (js ''v'')"
proof
  show tokens: "notify_tokens (\<lambda>_. Some (js ''true'')) (js ''v'') (fold (push_step (\<lambda>_. None)) shared_device []) = [js ''d'']"
    by code_simp
  have "distinct (fresh_ids shared_device)" by code_simp
  from notified_devices_are_own [OF this refl, of "\<lambda>_. Some (js ''true'')" "js ''v''" "\<lambda>_. None"] tokens
  show "token_owner (rev shared_device) (js ''d'') = Some (js ''v'')" by simp
qed

end
