(* ===== verification/Spec2Isabelle.thy ===== *)
theory Spec2Isabelle
  imports ApiMachine AdapterRuns MobileView AuthRuns ParserRuns ApiClientRuns MobileAppRuns MobileFiles PushTokens
begin

text \<open>
  ClawWork: a mobile app sends tasks to an API; the API queues them and hands each to an adapter;
  the adapter speaks the WebSocket protocol of an OpenClaw gateway and streams the task's
  events back; the API stores them as the task's log, archives result files, and serves the
  log to the app. This development models the services that keep state, the app's state and
  the code they share. All paths below are under \<^verbatim>\<open>src/\<close>.

  \<^bold>\<open>Foundations.\<close> \<open>Prelude\<close> holds the generic facts (lists in order of an id, prefixes,
  insertion-ordered maps) and the collections the component proofs use. \<open>JsRuntime\<close> is the part
  of JavaScript the code depends on: strings as lists of 16-bit code units (\<open>jstr\<close>), numbers
  read from text (\<^verbatim>\<open>Number(...)\<close>, with the safe-integer bound), JSON values, \<^verbatim>\<open>Map\<close> as \<open>jmap\<close>,
  exceptions (\<open>exn\<close>) as the left summand of every fallible operation. \<open>SharedTypes\<close> holds the zod
  schemas of \<^verbatim>\<open>packages/shared-types\<close> as datatypes, with the parser of each schema and the JSON
  of each value (\<open>parse_task_event_json\<close>: what is written is read back).

  \<^bold>\<open>The API\<close> (\<^verbatim>\<open>apps/mobile-api/src/tasks/tasks.service.ts\<close> and what it calls).
  \<open>ApiCommon\<close>: the helpers and the limits read from the environment. \<open>TaskDb\<close>: the tables of
  \<^verbatim>\<open>packages/database/prisma/schema.prisma\<close> as records in one database record; a transaction is one
  function on it. \<open>TaskEvents\<close>: \<^verbatim>\<open>persistTaskEvent\<close> with its transaction, result versions,
  \<^verbatim>\<open>archiveResultArtifact\<close>, \<^verbatim>\<open>failTask\<close>, \<^verbatim>\<open>listTaskEvents\<close>; \<open>TaskLog\<close> proves the log's laws: the
  statuses agree with the terminal events, an ended task is final, redelivery is harmless,
  completion numbers versions without gaps, archived bytes are those downloaded. \<open>Sse\<close>: the frames
  written by the adapter and the reading loop of the relay. \<open>Quotas\<close>: rate limit, daily
  quota and queue. \<open>TaskRouter\<close>: \<^verbatim>\<open>apps/task-router/src/rules.ts\<close>. \<open>TaskLifecycle\<close>: creation, queue
  worker, dispatch, relay, cancellation, start-up and shutdown. \<open>FileService\<close> and
  \<open>HistoryService\<close>: the file and history operations with their clean-ups, cursors and cascades.
  \<open>ApiMachine\<close>: every operation above as one step of a machine, and the invariant of all its runs.

  \<^bold>\<open>The adapter\<close> (\<^verbatim>\<open>apps/openclaw-adapter/src\<close>). \<open>EventBroker\<close>: \<^verbatim>\<open>event-broker.ts\<close>, the history kept
  for each task, its readers and timers. \<open>GatewayInput\<close>: \<^verbatim>\<open>gateway-input.ts\<close>, files as
  attachments and text blocks. \<open>GatewayProtocol\<close>: \<^verbatim>\<open>packages/openclaw-protocol\<close>, \<^verbatim>\<open>error-map.ts\<close> and
  the requests and pure functions of both clients. \<open>GatewayClient\<close>: \<^verbatim>\<open>executeGatewayTask\<close> as
  a machine over what can happen to it (frames, errors, close, the timer, cancellation, the
  answer of the HTTP fallback); \<open>GatewayRuns\<close> proves its runs sound. \<open>PersistentClient\<close>:
  \<^verbatim>\<open>persistent-gateway-client.ts\<close>, one shared connection for all executions, with the fallback's own
  machine inside; \<open>PersistentRuns\<close> has its invariant, \<open>PersistentFaults\<close> which executions a step
  can reach. \<open>AdapterServer\<close>: \<^verbatim>\<open>server.ts\<close>, the routes composed with the broker and the client;
  \<open>AdapterRuns\<close> proves what a stream shows and what is executed.

  \<^bold>\<open>Accounts, live streams, notifications\<close> (\<^verbatim>\<open>apps/mobile-api/src\<close>, \<^verbatim>\<open>packages/auth\<close>). \<open>Auth\<close>: \<^verbatim>\<open>auth.service.ts\<close>,
  the guard, passwords and tokens; a call is cut at its awaits, so calls interleave. \<open>AuthRuns\<close>: a
  refresh token is exchanged once, wrong passwords are bounded. \<open>TaskStream\<close>: the hub and the
  stream controller, stored and live events merged; \<open>TaskStreamRuns\<close>: what a stream has sent
  is always a beginning of the log. \<open>PushTokens\<close>: \<^verbatim>\<open>push.service.ts\<close> and whose devices are notified.

  \<^bold>\<open>The file parser\<close> (\<^verbatim>\<open>apps/file-parser-worker/src\<close>). \<open>ParserText\<close>: \<^verbatim>\<open>parse-file.ts\<close>, \<^verbatim>\<open>parse-child.ts\<close>,
  over the readers of PDF, DOCX and XLSX as parameters. \<open>ParserServer\<close>: \<^verbatim>\<open>server.ts\<close> and \<^verbatim>\<open>main.ts\<close>;
  \<open>ParserRuns\<close>: at most four parses, each answered once.

  \<^bold>\<open>The app\<close> (\<^verbatim>\<open>apps/mobile/src\<close>). \<open>MobileStream\<close>: \<^verbatim>\<open>services/stream.ts\<close>; \<open>MobileStreamRuns\<close>: bounded
  reconnections, and, connected to the endpoint above, each event exactly once. \<open>TaskStore\<close>:
  \<^verbatim>\<open>store/taskStore.ts\<close>; \<open>TaskStoreRuns\<close>: what its readers see. \<open>MobileView\<close>: following a task and
  opening it again show the same. \<open>ApiClient\<close>: \<^verbatim>\<open>services/api/client.ts\<close> and \<^verbatim>\<open>store/authStore.ts\<close>, a machine
  over the answers of the network; \<open>ApiClientRuns\<close>: how often a call is sent, refresh tokens spent once.
  \<open>MobileApp\<close>: the navigator and the home, conversation and history screens above the store and the
  streams, with a render as an input; \<open>MobileAppRuns\<close>: one open stream, that of the task shown. \<open>MobileFiles\<close>: \<^verbatim>\<open>services/files.ts\<close>.

  \<^bold>\<open>How the code is modelled.\<close> Operations of the API are functions
  \<open>api \<Rightarrow> api \<times> (exn + 'a)\<close>, with every early return and throw a branch. Asynchronous objects of
  the adapter are step functions over an input datatype whose constructors are the external
  happenings; a promise is settled in the step that triggers it, and the order of happenings is the
  list of inputs, so a statement about all lists covers every interleaving of handlers. Objects
  that the code shares (the active tasks of the client) are numbered entries of a store. What
  is not under \<^verbatim>\<open>src/\<close> is an argument: the clock, fresh ids, \<^verbatim>\<open>fetch\<close>, the object store, the queue
  library, the URL parser, sockets and the file parser service are fields of \<open>ext\<close>, \<open>calls\<close>,
  \<open>file_calls\<close>, \<open>input_calls\<close>, \<open>adapter_lib\<close>, \<open>auth_lib\<close>, \<open>file_lib\<close>, \<open>worker_lib\<close> and \<open>app_lib\<close>; a theorem that relies on one of them says so by a hypothesis,
  and its witness instantiates it.

  \<^bold>\<open>Interfaces.\<close> The locales state what one component promises to another: the machines
  (of the API, the adapter, the parser, the store, the API client and the app) are interpretations of the locale of
  invariants kept by every step; the broker, the log and the counters are interpreted on the
  model's own operations in the theory of the component that provides them.

  \<^bold>\<open>Bounds.\<close> No definition uses fuel: every recursion is structural or has a termination proof, and
  the loops that read streams recurse over the chunks that arrive. Numbers keep the
  limits of the code: 1000 retained events for 5 minutes, 1 MiB bodies, 6000 and 16000 characters of documents,
  the safe-integer bound of limits read from text.

  \<^bold>\<open>Not modelled.\<close> What the app draws: components, styles, the login and settings forms, and the
  document picker and the notification modules of the device, whose results are inputs. NestJS controllers, decorators and modules, which only hand validated payloads to the
  services; settings, one row read and written; health, metrics and logging; the S3 client
  and the Redis connection, which only call their libraries; the zod schema of the environment, whose
  values are modelled where they are read; process entry points; the mock gateway, scripts,
  migrations, seeds and tests. Within the modelled parts: log lines, and the listening sockets
  themselves. In \<open>PushTokens\<close> a call is one step, so overlapping registrations are not covered.
\<close>

end
